(* ===== verification/Newt_Prelude.thy ===== *)
theory Newt_Prelude
  imports Main "HOL-Library.AList" "HOL-Library.Word"
begin

text \<open>
  Shared vocabulary of the development.

  \<^item> Go maps are association lists (\<open>gomap\<close>) read with \<open>map_of\<close>, written with
    \<open>AList.update\<close> and erased with \<open>AList.delete\<close>.  The order of the list stands for
    the order in which a \<open>range\<close> loop visits the map: Go leaves it unspecified, and the
    theorems of the development quantify over every list.
  \<^item> \<open>go_result\<close> separates a normal return from a run-time panic.
  \<^item> The locale \<open>keyed_store\<close> is the contract of every registry keyed by an identifier, the locale
    \<open>guarded_system\<close> is the contract of a component driven by a sequence of calls.
\<close>

section \<open>Collections of facts\<close>

named_theorems gomap_simps "reading a Go map after a write or an erase"
named_theorems inv_intros "operations that keep a component invariant"

section \<open>Go values\<close>

type_synonym ('k, 'v) gomap = "('k \<times> 'v) list"

type_synonym byte = "8 word"

text \<open>Instants and durations, in nanoseconds.\<close>

type_synonym instant = int

abbreviation second :: int where
  "second \<equiv> 1000000000"

abbreviation millisecond :: int where
  "millisecond \<equiv> 1000000"

text \<open>\<open>time.Duration(n) * time.Second\<close>, a product of 64-bit integers.\<close>

definition seconds :: "int \<Rightarrow> int" where
  "seconds n = sint (word_of_int (n * second) :: 64 word)"

text \<open>Arithmetic on 64-bit signed integers wraps around.\<close>

definition wrap64 :: "int \<Rightarrow> int" where
  "wrap64 i = sint (word_of_int i :: 64 word)"

lemma wrap64_id: "- (2 ^ 63) \<le> i \<Longrightarrow> i < 2 ^ 63 \<Longrightarrow> wrap64 i = i"
  unfolding wrap64_def by (simp add: signed_of_int signed_take_bit_int_eq_self)

datatype 'a go_result = Ret 'a | Panic

primrec go_bind :: "'a go_result \<Rightarrow> ('a \<Rightarrow> 'b go_result) \<Rightarrow> 'b go_result" where
  "go_bind (Ret x) f = f x"
| "go_bind Panic f = Panic"

lemma go_bind_eq_Ret:
  "go_bind m f = Ret y \<longleftrightarrow> (\<exists>x. m = Ret x \<and> f x = Ret y)"
  by (cases m) simp_all

text \<open>What holds of the result of a computation, if it returns.\<close>

definition ret_all :: "('a \<Rightarrow> bool) \<Rightarrow> 'a go_result \<Rightarrow> bool" where
  "ret_all P m \<longleftrightarrow> (\<forall>x. m = Ret x \<longrightarrow> P x)"

lemma ret_all_simps [simp]: "ret_all P (Ret x) = P x" "ret_all P Panic"
  by (simp_all add: ret_all_def)

lemma ret_all_bind: "ret_all Q m \<Longrightarrow> (\<And>x. Q x \<Longrightarrow> ret_all P (f x)) \<Longrightarrow> ret_all P (go_bind m f)"
  by (auto simp: ret_all_def go_bind_eq_Ret)

lemma ret_allD: "ret_all P m \<Longrightarrow> m = Ret x \<Longrightarrow> P x"
  by (simp add: ret_all_def)

section \<open>Go maps\<close>

abbreviation mkeys :: "('k, 'v) gomap \<Rightarrow> 'k list" where
  "mkeys m \<equiv> map fst m"

abbreviation mhas :: "('k, 'v) gomap \<Rightarrow> 'k \<Rightarrow> bool" where
  "mhas m k \<equiv> map_of m k \<noteq> None"

abbreviation mput :: "'k \<Rightarrow> 'v \<Rightarrow> ('k, 'v) gomap \<Rightarrow> ('k, 'v) gomap" where
  "mput \<equiv> AList.update"

abbreviation mdel :: "'k \<Rightarrow> ('k, 'v) gomap \<Rightarrow> ('k, 'v) gomap" where
  "mdel \<equiv> AList.delete"

lemma map_of_mput [simp, gomap_simps]:
  "map_of (mput k v m) x = (if x = k then Some v else map_of m x)"
  by (simp add: update_conv)

lemma map_of_mdel [simp, gomap_simps]:
  "map_of (mdel k m) x = (if x = k then None else map_of m x)"
  by (simp add: delete_conv)

lemma distinct_mput [simp, inv_intros]:
  "distinct (mkeys m) \<Longrightarrow> distinct (mkeys (mput k v m))"
  by (rule distinct_update)

lemma distinct_mdel [simp, inv_intros]:
  "distinct (mkeys m) \<Longrightarrow> distinct (mkeys (mdel k m))"
  by (rule distinct_delete)

lemma mput_fresh:
  "map_of m k = None \<Longrightarrow> mput k v m = m @ [(k, v)]"
  by (induction m) (auto split: if_splits)

lemma mdel_filter: "mdel k m = filter (\<lambda>(k', _). k' \<noteq> k) m"
  by (induction m) auto

lemma map_of_filter_key:
  "map_of (filter (\<lambda>(k, v). P k) m) x = (if P x then map_of m x else None)"
  by (induction m) auto

lemma set_mput_sub: "set (mput k v m) \<subseteq> insert (k, v) (set m)"
  by (induction m) auto

lemma fst_set_mput: "fst ` set (mput k v m) = insert k (fst ` set m)"
  by (induction m) auto

lemma set_mdel_sub: "set (mdel k m) \<subseteq> set m"
  by (auto simp: mdel_filter)

lemma length_mput: "length (mput k v m) = (if mhas m k then length m else Suc (length m))"
  by (induction m) (auto split: if_splits)

section \<open>The contract of a keyed registry\<close>

text \<open>
  The registries of the program (health-check targets, browser-gateway targets, TLS
  certificates, cached endpoints) all promise the same: a lookup sees the last write of its key and nothing else.
  What a loop of adds or removes leaves behind follows from that promise alone.
\<close>

locale keyed_store =
  fixes find :: "'m \<Rightarrow> 'k \<Rightarrow> 'v option"
    and put :: "'k \<Rightarrow> 'v \<Rightarrow> 'm \<Rightarrow> 'm"
    and drop :: "'k \<Rightarrow> 'm \<Rightarrow> 'm"
  assumes find_put: "find (put k v m) x = (if x = k then Some v else find m x)"
    and find_drop: "find (drop k m) x = (if x = k then None else find m x)"
begin

lemma find_put_loop:
  "find (foldl (\<lambda>m v. put (key v) v m) m vs) x
     = (case filter (\<lambda>v. key v = x) vs of [] \<Rightarrow> find m x | ws \<Rightarrow> Some (last ws))"
  by (induction vs arbitrary: m) (auto simp: find_put split: list.split)

lemma find_drop_loop:
  "find (foldl (\<lambda>m k. drop k m) m ks) x = (if x \<in> set ks then None else find m x)"
  by (induction ks arbitrary: m) (auto simp: find_drop)

lemma put_then_drop: "find (drop k (put k v m)) x = (if x = k then None else find m x)"
  by (simp add: find_drop find_put)

end

interpretation gomap: keyed_store map_of mput mdel
  by unfold_locales simp_all

section \<open>The contract of a component driven by calls\<close>

text \<open>
  A component is a step function on its state.  A call is allowed when the code can be entered with it; every
  allowed call keeps the invariant, hence so does every sequence of calls.
\<close>

primrec run_ok :: "('s \<Rightarrow> 'e \<Rightarrow> 's) \<Rightarrow> ('s \<Rightarrow> 'e \<Rightarrow> bool) \<Rightarrow> 's \<Rightarrow> 'e list \<Rightarrow> bool" where
  "run_ok step allowed s [] = True"
| "run_ok step allowed s (e # es) = (allowed s e \<and> run_ok step allowed (step s e) es)"

locale guarded_system =
  fixes step :: "'s \<Rightarrow> 'e \<Rightarrow> 's"
    and allowed :: "'s \<Rightarrow> 'e \<Rightarrow> bool"
    and inv :: "'s \<Rightarrow> bool"
  assumes step_inv: "inv s \<Longrightarrow> allowed s e \<Longrightarrow> inv (step s e)"
begin

lemma run_inv: "inv s \<Longrightarrow> run_ok step allowed s es \<Longrightarrow> inv (foldl step s es)"
  by (induction es arbitrary: s) (auto intro: step_inv)

lemma run_inv_free: "inv s \<Longrightarrow> (\<And>s e. allowed s e) \<Longrightarrow> inv (foldl step s es)"
  by (induction es arbitrary: s) (auto intro: step_inv)

end

section \<open>Lists\<close>

lemma foldl_inv:
  "P s \<Longrightarrow> (\<And>s x. x \<in> set xs \<Longrightarrow> P s \<Longrightarrow> P (f s x)) \<Longrightarrow> P (foldl f s xs)"
  by (induction xs arbitrary: s) auto

lemma filter_eq_last:
  "filter P xs \<noteq> [] \<Longrightarrow> P (last (filter P xs)) \<and> last (filter P xs) \<in> set xs"
  using last_in_set [of "filter P xs"] by simp

text \<open>A loop that returns at the first element giving a value.\<close>

primrec first_some :: "('a \<Rightarrow> 'b option) \<Rightarrow> 'a list \<Rightarrow> 'b option" where
  "first_some f [] = None"
| "first_some f (x # xs) = (case f x of None \<Rightarrow> first_some f xs | Some y \<Rightarrow> Some y)"

lemma first_some_append:
  "first_some f (xs @ ys) = (case first_some f xs of None \<Rightarrow> first_some f ys | Some y \<Rightarrow> Some y)"
  by (induction xs) (auto split: option.split)

lemma first_some_concat: "first_some f (concat xss) = first_some (first_some f) xss"
  by (induction xss) (auto simp: first_some_append split: option.split)

lemma first_some_map: "first_some f (map g xs) = first_some (f \<circ> g) xs"
  by (induction xs) (auto split: option.split)

lemma first_some_None: "first_some f xs = None \<longleftrightarrow> (\<forall>x\<in>set xs. f x = None)"
  by (induction xs) (auto split: option.split)

text \<open>On a list ordered by a strict order the loop returns the least element giving a value.\<close>

lemma first_some_least:
  assumes "sorted_wrt R xs" and "\<And>x y. R x y \<Longrightarrow> \<not> R y x"
  shows "first_some f xs = Some y \<longleftrightarrow>
    (\<exists>x\<in>set xs. f x = Some y \<and> (\<forall>z\<in>set xs. f z \<noteq> None \<and> z \<noteq> x \<longrightarrow> R x z))"
  using assms by (induction xs) (force split: option.split)+

lemma sorted_wrt_concat:
  assumes "\<And>xs. xs \<in> set xss \<Longrightarrow> sorted_wrt R xs"
    and "sorted_wrt (\<lambda>xs ys. \<forall>x\<in>set xs. \<forall>y\<in>set ys. R x y) xss"
  shows "sorted_wrt R (concat xss)"
  using assms by (induction xss) (auto simp: sorted_wrt_append)

lemma sum_list_concat_map:
  "sum_list (map f (concat xss)) = (\<Sum>xs\<leftarrow>xss. sum_list (map f xs))"
  by (induction xss) simp_all

lemma sum_list_const:
  "(\<And>x. x \<in> set xs \<Longrightarrow> f x = (1::int)) \<Longrightarrow> sum_list (map f xs) = int (length xs)"
  by (induction xs) simp_all

lemma find_append:
  "List.find P (xs @ ys) = (case List.find P xs of None \<Rightarrow> List.find P ys | Some x \<Rightarrow> Some x)"
  by (induction xs) auto

end
