(* ===== verification/Net_Ip.thy ===== *)
theory Net_Ip
  imports Go_Strings
begin

unbundle bit_operations_syntax

text \<open>
  The part of Go's \<open>net/netip\<close> that the program uses: addresses, their text, prefixes,
  masking, and the containment order on prefixes.  An address is the zero value, a 32-bit IPv4 value, or a
  128-bit IPv6 value with a zone.
\<close>

section \<open>Addresses\<close>

datatype addr = NoAddr | IP4 "32 word" | IP6 "128 word" string

definition bit_len :: "addr \<Rightarrow> nat" where
  "bit_len a = (case a of NoAddr \<Rightarrow> 0 | IP4 _ \<Rightarrow> 32 | IP6 _ _ \<Rightarrow> 128)"

definition is4in6 :: "128 word \<Rightarrow> bool" where
  "is4in6 w \<longleftrightarrow> drop_bit 32 w = 0xffff"

definition unmap :: "addr \<Rightarrow> addr" where
  "unmap a = (case a of IP6 w z \<Rightarrow> if is4in6 w then IP4 (ucast w) else a | _ \<Rightarrow> a)"

text \<open>\<open>netip.Addr.IsLoopback\<close>: an IPv4-mapped address is judged by its IPv4 part.\<close>

definition is_loopback :: "addr \<Rightarrow> bool" where
  "is_loopback a = (case unmap a of
      NoAddr \<Rightarrow> False | IP4 w \<Rightarrow> drop_bit 24 w = 127 | IP6 w _ \<Rightarrow> w = 1)"

text \<open>\<open>netip.Addr.As4\<close> panics on the zero address and on an IPv6 address that is not IPv4-mapped.\<close>

definition as4 :: "addr \<Rightarrow> 32 word go_result" where
  "as4 a = (case unmap a of IP4 w \<Rightarrow> Ret w | _ \<Rightarrow> Panic)"

text \<open>Transport protocol numbers.\<close>

type_synonym proto = "32 word"

abbreviation TCPProtocolNumber :: proto where "TCPProtocolNumber \<equiv> 6"
abbreviation UDPProtocolNumber :: proto where "UDPProtocolNumber \<equiv> 17"
abbreviation ICMPv4ProtocolNumber :: proto where "ICMPv4ProtocolNumber \<equiv> 1"
abbreviation ICMPv6ProtocolNumber :: proto where "ICMPv6ProtocolNumber \<equiv> 58"

section \<open>Text of an address\<close>

definition octet :: "nat \<Rightarrow> 32 word \<Rightarrow> nat" where
  "octet i w = unat (drop_bit (8 * i) w) mod 256"

definition ip4_string :: "32 word \<Rightarrow> string" where
  "ip4_string w = join_with CHR ''.'' (map (\<lambda>i. itoa (octet i w)) [3, 2, 1, 0])"

definition hex_digit :: "nat \<Rightarrow> char" where
  "hex_digit d = (if d < 10 then char_of (48 + d) else char_of (87 + d))"

fun hex_string :: "nat \<Rightarrow> string" where
  "hex_string n = (if n < 16 then [hex_digit n] else hex_string (n div 16) @ [hex_digit (n mod 16)])"

declare hex_string.simps [simp del]

definition groups6 :: "128 word \<Rightarrow> nat list" where
  "groups6 w = map (\<lambda>i. unat (drop_bit (16 * i) w) mod 65536) [7, 6, 5, 4, 3, 2, 1, 0]"

definition zero_run :: "nat list \<Rightarrow> nat \<Rightarrow> nat" where
  "zero_run gs i = length (takeWhile (\<lambda>g. g = 0) (drop i gs))"

text \<open>The first longest run of at least two zero groups: start and length.\<close>

definition best_run :: "nat list \<Rightarrow> nat \<times> nat" where
  "best_run gs = foldl (\<lambda>(s, l) i. let r = zero_run gs i in
                    if 2 \<le> r \<and> l < r then (i, r) else (s, l)) (0, 0) [0..<8]"

definition ip6_string :: "128 word \<Rightarrow> string" where
  "ip6_string w =
     (if is4in6 w then ''::ffff:'' @ ip4_string (ucast w)
      else (let gs = groups6 w; (s, l) = best_run gs; hx = map hex_string gs in
        if l = 0 then join_with CHR '':'' hx
        else join_with CHR '':'' (take s hx) @ ''::'' @ join_with CHR '':'' (drop (s + l) hx)))"

definition addr_string :: "addr \<Rightarrow> string" where
  "addr_string a = (case a of
      NoAddr \<Rightarrow> ''invalid IP''
    | IP4 w \<Rightarrow> ip4_string w
    | IP6 w z \<Rightarrow> ip6_string w @ (if z = [] then [] else CHR ''%'' # z))"

section \<open>Parsing\<close>

definition parse_octet :: "string \<Rightarrow> nat option" where
  "parse_octet s =
     (if s = [] \<or> \<not> list_all is_digit s then None
      else if 1 < length s \<and> hd s = CHR ''0'' then None
      else if 255 < digits_val s then None
      else Some (digits_val s))"

definition parse_ip4_fields :: "string \<Rightarrow> (nat \<times> nat \<times> nat \<times> nat) option" where
  "parse_ip4_fields s =
     (case map parse_octet (split_on CHR ''.'' s) of
        [Some a, Some b, Some c, Some d] \<Rightarrow> Some (a, b, c, d)
      | _ \<Rightarrow> None)"

definition is_hex :: "char \<Rightarrow> bool" where
  "is_hex c = (is_digit c \<or> (97 \<le> (of_char c :: nat) \<and> (of_char c :: nat) \<le> 102)
     \<or> (65 \<le> (of_char c :: nat) \<and> (of_char c :: nat) \<le> 70))"

definition hex_val :: "char \<Rightarrow> nat" where
  "hex_val c = (if is_digit c then of_char c - 48
     else if 97 \<le> (of_char c :: nat) then of_char c - 87 else of_char c - 55)"

definition hexs_val :: "string \<Rightarrow> nat" where
  "hexs_val s = foldl (\<lambda>a c. a * 16 + hex_val c) 0 s"

text \<open>
  The loop of \<open>netip.parseIPv6\<close>: the first argument counts the 16-bit groups that may still be
  read, \<open>gs\<close> are those read so far and \<open>e\<close> is the position of the ellipsis.
\<close>

fun parse_ip6_loop ::
  "nat \<Rightarrow> nat list \<Rightarrow> nat option \<Rightarrow> string \<Rightarrow> (nat list \<times> nat option \<times> string) option" where
  "parse_ip6_loop 0 gs e s = Some (gs, e, s)"
| "parse_ip6_loop (Suc n) gs e s =
     (let ds = takeWhile is_hex s; rest = drop (length ds) s; gs' = gs @ [hexs_val ds] in
      if ds = [] \<or> 4 < length ds then None
      else case rest of
        [] \<Rightarrow> Some (gs', e, [])
      | c # s' \<Rightarrow>
          if c = CHR ''.'' then
            (if e = None \<and> length gs \<noteq> 6 then None
             else if 8 < length gs + 2 then None
             else case parse_ip4_fields s of
                 None \<Rightarrow> None
               | Some (w, x, y, z) \<Rightarrow> Some (gs @ [w * 256 + x, y * 256 + z], e, []))
          else if c \<noteq> CHR '':'' then None
          else (case s' of
              [] \<Rightarrow> None
            | c' # s'' \<Rightarrow>
                if c' = CHR '':'' then
                  (if e \<noteq> None then None
                   else if s'' = [] then Some (gs', Some (length gs'), [])
                   else parse_ip6_loop n gs' (Some (length gs')) s'')
                else parse_ip6_loop n gs' e s'))"

lemma parse_ip6_loop_step:
  "0 < n \<Longrightarrow> parse_ip6_loop n gs e s =
     (let ds = takeWhile is_hex s; rest = drop (length ds) s; gs' = gs @ [hexs_val ds] in
      if ds = [] \<or> 4 < length ds then None
      else case rest of
        [] \<Rightarrow> Some (gs', e, [])
      | c # s' \<Rightarrow>
          if c = CHR ''.'' then
            (if e = None \<and> length gs \<noteq> 6 then None
             else if 8 < length gs + 2 then None
             else case parse_ip4_fields s of
                 None \<Rightarrow> None
               | Some (w, x, y, z) \<Rightarrow> Some (gs @ [w * 256 + x, y * 256 + z], e, []))
          else if c \<noteq> CHR '':'' then None
          else (case s' of
              [] \<Rightarrow> None
            | c' # s'' \<Rightarrow>
                if c' = CHR '':'' then
                  (if e \<noteq> None then None
                   else if s'' = [] then Some (gs', Some (length gs'), [])
                   else parse_ip6_loop (n - 1) gs' (Some (length gs')) s'')
                else parse_ip6_loop (n - 1) gs' e s'))"
  by (cases n) (simp, simp only: parse_ip6_loop.simps diff_Suc_1)

definition word_of_groups :: "nat list \<Rightarrow> 128 word" where
  "word_of_groups gs = foldl (\<lambda>w g. push_bit 16 w OR of_nat g) 0 gs"

definition parse_ip6 :: "string \<Rightarrow> addr option" where
  "parse_ip6 inp =
     (let body = takeWhile (\<lambda>c. c \<noteq> CHR ''%'') inp;
          zoned = CHR ''%'' \<in> set inp;
          zone = drop (length body + 1) inp;
          lead = has_prefix body ''::'';
          s = (if lead then drop 2 body else body)
      in if zoned \<and> zone = [] then None
         else if lead \<and> s = [] then Some (IP6 0 zone)
         else case parse_ip6_loop 8 [] (if lead then Some 0 else None) s of
             None \<Rightarrow> None
           | Some (gs, e, r) \<Rightarrow>
               if r \<noteq> [] then None
               else if length gs < 8 then
                 (case e of None \<Rightarrow> None
                  | Some k \<Rightarrow> Some (IP6 (word_of_groups
                      (take k gs @ replicate (8 - length gs) 0 @ drop k gs)) zone))
               else if e \<noteq> None then None
               else Some (IP6 (word_of_groups gs) zone))"

definition ip4_of_octets :: "nat \<times> nat \<times> nat \<times> nat \<Rightarrow> 32 word" where
  "ip4_of_octets = (\<lambda>(a, b, c, d). of_nat (((a * 256 + b) * 256 + c) * 256 + d))"

text \<open>\<open>netip.ParseAddr\<close>: the first dot, colon or percent sign decides the family.\<close>

definition parse_addr :: "string \<Rightarrow> addr option" where
  "parse_addr s =
     (case List.find (\<lambda>c. c = CHR ''.'' \<or> c = CHR '':'' \<or> c = CHR ''%'') s of
        None \<Rightarrow> None
      | Some c \<Rightarrow>
          if c = CHR ''.'' then map_option (IP4 \<circ> ip4_of_octets) (parse_ip4_fields s)
          else if c = CHR '':'' then parse_ip6 s
          else None)"

section \<open>Prefixes\<close>

datatype prefix = Prefix (pfx_addr: addr) (pfx_bits: nat)

abbreviation ZeroPrefix :: prefix where
  "ZeroPrefix \<equiv> Prefix NoAddr 0"

definition valid_prefix :: "prefix \<Rightarrow> bool" where
  "valid_prefix p = (case pfx_addr p of
      NoAddr \<Rightarrow> False | IP4 _ \<Rightarrow> pfx_bits p \<le> 32 | IP6 _ z \<Rightarrow> pfx_bits p \<le> 128 \<and> z = [])"

definition prefix_from :: "addr \<Rightarrow> nat \<Rightarrow> prefix" where
  "prefix_from a n = (case a of IP6 w _ \<Rightarrow> Prefix (IP6 w []) n | _ \<Rightarrow> Prefix a n)"

definition clear_low :: "nat \<Rightarrow> 'a::len word \<Rightarrow> 'a word" where
  "clear_low k w = push_bit k (drop_bit k w)"

definition masked :: "prefix \<Rightarrow> prefix" where
  "masked p =
     (if \<not> valid_prefix p then ZeroPrefix
      else case pfx_addr p of
          NoAddr \<Rightarrow> ZeroPrefix
        | IP4 w \<Rightarrow> Prefix (IP4 (clear_low (32 - pfx_bits p) w)) (pfx_bits p)
        | IP6 w _ \<Rightarrow> Prefix (IP6 (clear_low (128 - pfx_bits p) w) []) (pfx_bits p))"

text \<open>\<open>covers q p\<close>: the prefix \<open>q\<close> contains every address of \<open>p\<close>.\<close>

definition covers :: "prefix \<Rightarrow> prefix \<Rightarrow> bool" where
  "covers q p \<longleftrightarrow> valid_prefix q \<and> valid_prefix p \<and> pfx_bits q \<le> pfx_bits p \<and>
     (case (pfx_addr q, pfx_addr p) of
        (IP4 v, IP4 w) \<Rightarrow> drop_bit (32 - pfx_bits q) v = drop_bit (32 - pfx_bits q) w
      | (IP6 v _, IP6 w _) \<Rightarrow> drop_bit (128 - pfx_bits q) v = drop_bit (128 - pfx_bits q) w
      | _ \<Rightarrow> False)"

text \<open>\<open>netip.ParsePrefix\<close>.\<close>

definition parse_prefix :: "string \<Rightarrow> prefix option" where
  "parse_prefix s =
     (case cut_last CHR ''/'' s of
        None \<Rightarrow> None
      | Some (as, bs) \<Rightarrow>
          (case parse_addr as of
             None \<Rightarrow> None
           | Some a \<Rightarrow>
               if (case a of IP6 _ z \<Rightarrow> z \<noteq> [] | _ \<Rightarrow> False) then None
               else if 1 < length bs \<and> (\<not> is_digit (hd bs) \<or> hd bs = CHR ''0'') then None
               else (case atoi bs of
                   None \<Rightarrow> None
                 | Some n \<Rightarrow> if n < 0 \<or> int (bit_len a) < n then None
                            else Some (prefix_from a (nat n)))))"

section \<open>Laws of masking and containment\<close>

lemma drop_bit_clear_low [simp]:
  "drop_bit k (clear_low k w) = drop_bit k (w :: 'a::len word)"
  by (rule bit_word_eqI)
    (auto simp: clear_low_def bit_drop_bit_eq bit_push_bit_iff ac_simps dest: bit_imp_le_length)

lemma clear_low_idem [simp]: "clear_low k (clear_low k w) = clear_low k w"
  by (simp add: clear_low_def [of k "clear_low k w"]) (simp add: clear_low_def)

lemma clear_low_eqI: "drop_bit k v = drop_bit k w \<Longrightarrow> clear_low k v = clear_low k w"
  by (simp add: clear_low_def)

lemma clear_low_0 [simp]: "clear_low 0 w = w"
  by (simp add: clear_low_def)

lemma valid_masked [simp]: "valid_prefix p \<Longrightarrow> valid_prefix (masked p)"
  by (auto simp: valid_prefix_def masked_def split: addr.splits)

lemma masked_bits [simp]: "valid_prefix p \<Longrightarrow> pfx_bits (masked p) = pfx_bits p"
  by (auto simp: valid_prefix_def masked_def split: addr.splits)

lemma masked_idem [simp]: "masked (masked p) = masked p"
  by (cases "pfx_addr p") (auto simp: masked_def valid_prefix_def)

lemma covers_masked [simp]: "valid_prefix q \<Longrightarrow> covers (masked q) p = covers q p"
  by (cases "pfx_addr q") (auto simp: covers_def masked_def valid_prefix_def split: addr.splits)

lemma covers_refl: "valid_prefix p \<Longrightarrow> covers p p"
  by (auto simp: covers_def valid_prefix_def split: addr.splits)

lemma covers_valid: "covers q p \<Longrightarrow> valid_prefix q" "covers q p \<Longrightarrow> valid_prefix p"
  by (simp_all add: covers_def)

text \<open>Two canonical prefixes of the same length that contain a common prefix are the same.\<close>

lemma covers_unique:
  assumes "covers q p" "covers r p" "pfx_bits q = pfx_bits r"
  shows "masked q = masked r"
  using assms
  by (cases "pfx_addr p"; cases "pfx_addr q"; cases "pfx_addr r")
    (auto simp: covers_def masked_def intro: clear_low_eqI)

section \<open>IPv4 text is injective\<close>

lemma octet_lt [simp]: "octet i w < 256"
  by (simp add: octet_def)

lemma octet_div: "octet i w = unat w div 2 ^ (8 * i) mod 256"
  unfolding octet_def unat_drop_bit_eq by (simp add: drop_bit_eq_div)

lemma nat_octets:
  assumes "n < 2 ^ 32"
  shows "((n div 2 ^ 24 mod 256 * 256 + n div 2 ^ 16 mod 256) * 256 + n div 2 ^ 8 mod 256) * 256
           + n mod 256 = (n :: nat)"
proof -
  have "n div 2 ^ 24 mod 256 = n div 2 ^ 24"
    using assms by (simp add: less_mult_imp_div_less)
  moreover have "n div 2 ^ 24 = n div 2 ^ 16 div 256" "n div 2 ^ 16 = n div 2 ^ 8 div 256"
      "n div 2 ^ 8 = n div 256"
    by (simp_all add: div_mult2_eq [symmetric])
  ultimately show ?thesis by (metis div_mult_mod_eq)
qed

lemma ip4_octets:
  "w = ip4_of_octets (octet 3 w, octet 2 w, octet 1 w, octet 0 w)"
proof -
  have "unat w < 2 ^ 32" using unsigned_less [of w] by simp
  then have "unat w = ((octet 3 w * 256 + octet 2 w) * 256 + octet 1 w) * 256 + octet 0 w"
    using nat_octets [of "unat w"] by (simp add: octet_div)
  then have "of_nat (unat w) = (ip4_of_octets (octet 3 w, octet 2 w, octet 1 w, octet 0 w) :: 32 word)"
    by (simp only: ip4_of_octets_def prod.case)
  then show ?thesis by simp
qed

lemma ip4_string_parts:
  "split_on CHR ''.'' (ip4_string w) = map (\<lambda>i. itoa (octet i w)) [3, 2, 1, 0]"
  unfolding ip4_string_def
  by (rule split_join) (auto dest: not_digit_notin_itoa [OF sign_not_digit(4), THEN notE])

lemma ip4_string_inject [simp]: "ip4_string v = ip4_string w \<longleftrightarrow> v = w"
proof
  assume "ip4_string v = ip4_string w"
  then have "map (\<lambda>i. itoa (octet i v)) [3, 2, 1, 0] = map (\<lambda>i. itoa (octet i w)) [3, 2, 1, 0]"
    by (metis ip4_string_parts)
  then show "v = w" by (subst ip4_octets [of v], subst ip4_octets [of w]) simp
qed simp

lemma parse_octet_itoa: "n < 256 \<Longrightarrow> parse_octet (itoa n) = Some n"
proof -
  assume n: "n < 256"
  have "length (itoa n) \<le> 1 \<or> hd (itoa n) \<noteq> CHR ''0''"
  proof (cases "n < 10")
    case True
    then show ?thesis by (simp add: itoa.simps)
  next
    case False
    then have "hd (itoa n) = hd (itoa (n div 10))" by (subst itoa.simps) simp
    moreover have "hd (itoa (n div 10)) = digit (if n < 100 then n div 10 else n div 100)"
      using n by (auto simp: itoa.simps [of "n div 10"] itoa.simps [of "n div 100"] div_mult2_eq [symmetric])
    moreover have "digit d \<noteq> CHR ''0''" if "0 < d" "d < 10" for d
      using that of_char_digit [of d] by auto
    ultimately show ?thesis using False n by auto
  qed
  then show ?thesis using n by (auto simp: parse_octet_def itoa_digits)
qed

lemma parse_addr_ip4_string: "parse_addr (ip4_string w) = Some (IP4 w)"
proof -
  have f: "parse_ip4_fields (ip4_string w) = Some (octet 3 w, octet 2 w, octet 1 w, octet 0 w)"
    by (simp add: parse_ip4_fields_def ip4_string_parts parse_octet_itoa)
  have "List.find (\<lambda>c. c = CHR ''.'' \<or> c = CHR '':'' \<or> c = CHR ''%'') (s @ CHR ''.'' # t) = Some CHR ''.''"
    if "list_all is_digit s" for s t
    using that sign_not_digit by (induction s) (auto simp: is_digit_def)
  then have "List.find (\<lambda>c. c = CHR ''.'' \<or> c = CHR '':'' \<or> c = CHR ''%'') (ip4_string w) = Some CHR ''.''"
    by (simp add: ip4_string_def itoa_digits)
  then show ?thesis using ip4_octets [of w] by (simp add: parse_addr_def f)
qed

end
