(* ===== verification/Subnet_Lookup.thy ===== *)
theory Subnet_Lookup
  imports Net_Ip
begin

text \<open>
  The rule table of the promiscuous-mode proxy (\<open>netstack2/subnet_lookup.go\<close> and the rule types of
  \<open>netstack2/proxy.go\<close>).

  The table is two levels of \<open>bart.Table\<close>: source prefix to destination trie, destination prefix
  to rules.  The BART library is not part of the repository: the operations below take its tables as a record
  of operations (\<open>bart\<close>), once for the source level and once for the destination level, and the
  locale \<open>prefix_table\<close> states the documented behaviour the code relies on.  A destination trie is
  reached by pointer in the code; no two source entries share one, so updating it in place is
  writing the changed value back under its source prefix.
\<close>

section \<open>The prefix table of the BART library\<close>

record ('v, 't) bart =
  bt_empty :: 't
  bt_get :: "'t \<Rightarrow> prefix \<Rightarrow> 'v option"
  bt_insert :: "prefix \<Rightarrow> 'v \<Rightarrow> 't \<Rightarrow> 't"
  bt_delete :: "prefix \<Rightarrow> 't \<Rightarrow> 't"
  bt_supernets :: "'t \<Rightarrow> prefix \<Rightarrow> (prefix \<times> 'v) list"
  bt_all :: "'t \<Rightarrow> (prefix \<times> 'v) list"
  bt_size :: "'t \<Rightarrow> nat"

abbreviation canonical :: "prefix \<Rightarrow> bool" where
  "canonical p \<equiv> valid_prefix p \<and> masked p = p"

text \<open>
  Prefixes are masked inside the table; \<open>Supernets\<close> visits the covering prefixes from the longest to the shortest.
\<close>

locale prefix_table =
  fixes B :: "('v, 't) bart"
  assumes get_empty: "bt_get B (bt_empty B) p = None"
    and get_insert: "canonical p \<Longrightarrow> canonical q \<Longrightarrow>
      bt_get B (bt_insert B p v t) q = (if q = p then Some v else bt_get B t q)"
    and get_delete: "canonical p \<Longrightarrow> canonical q \<Longrightarrow>
      bt_get B (bt_delete B p t) q = (if q = p then None else bt_get B t q)"
    and supernets_set: "canonical p \<Longrightarrow>
      set (bt_supernets B t p) = {(q, v). canonical q \<and> covers q p \<and> bt_get B t q = Some v}"
    and supernets_order: "canonical p \<Longrightarrow>
      sorted_wrt (\<lambda>a b. pfx_bits (fst b) < pfx_bits (fst a)) (bt_supernets B t p)"
    and all_set: "set (bt_all B t) = {(q, v). canonical q \<and> bt_get B t q = Some v}"
    and size_all: "bt_size B t = length (bt_all B t)"
begin

lemma size_0: "bt_size B t = 0 \<longleftrightarrow> (\<forall>q. canonical q \<longrightarrow> bt_get B t q = None)"
proof -
  have "bt_size B t = 0 \<longleftrightarrow> set (bt_all B t) = {}" by (simp add: size_all)
  also have "\<dots> \<longleftrightarrow> (\<forall>q. canonical q \<longrightarrow> bt_get B t q = None)"
    unfolding all_set by auto
  finally show ?thesis .
qed

end

section \<open>Rules\<close>

record port_range =
  pr_Min :: "16 word"
  pr_Max :: "16 word"
  pr_Protocol :: string

record http_target =
  ht_DestAddr :: string
  ht_DestPort :: "16 word"
  ht_Scheme :: string

record subnet_rule =
  sr_SourcePrefix :: prefix
  sr_DestPrefix :: prefix
  sr_DisableIcmp :: bool
  sr_RewriteTo :: string
  sr_PortRanges :: "port_range list"
  sr_ResourceId :: int
  sr_Protocol :: string
  sr_HTTPTargets :: "http_target list"
  sr_TLSCert :: string
  sr_TLSKey :: string

section \<open>The table and its operations\<close>

record 'dt destTrie =
  dt_trie :: 'dt
  dt_rules :: "subnet_rule list"

record 'st subnetLookup =
  sl_sourceTrie :: 'st

type_synonym ('dt, 'st) src_bart = "('dt destTrie, 'st) bart"
type_synonym 'dt dst_bart = "(subnet_rule list, 'dt) bart"

definition NewSubnetLookup :: "('dt, 'st) src_bart \<Rightarrow> 'st subnetLookup" where
  "NewSubnetLookup S = \<lparr>sl_sourceTrie = bt_empty S\<rparr>"

definition prefixEqual :: "prefix \<Rightarrow> prefix \<Rightarrow> bool" where
  "prefixEqual a b \<longleftrightarrow> masked a = masked b"

definition addSubnetLocked ::
  "('dt, 'st) src_bart \<Rightarrow> 'dt dst_bart \<Rightarrow> subnet_rule \<Rightarrow> 'st subnetLookup \<Rightarrow> 'st subnetLookup" where
  "addSubnetLocked S D rule sl =
     (let canonicalSourcePrefix = masked (sr_SourcePrefix rule);
          destTriePtr = (case bt_get S (sl_sourceTrie sl) canonicalSourcePrefix of
              Some dt \<Rightarrow> dt
            | None \<Rightarrow> \<lparr>dt_trie = bt_empty D, dt_rules = []\<rparr>);
          canonicalDestPrefix = masked (sr_DestPrefix rule);
          newRules = filter (\<lambda>r. \<not> prefixEqual (sr_DestPrefix r) canonicalDestPrefix \<or>
              \<not> prefixEqual (sr_SourcePrefix r) canonicalSourcePrefix) (dt_rules destTriePtr) @ [rule]
      in sl\<lparr>sl_sourceTrie := bt_insert S canonicalSourcePrefix
            \<lparr>dt_trie = bt_insert D canonicalDestPrefix [rule] (dt_trie destTriePtr),
             dt_rules = newRules\<rparr> (sl_sourceTrie sl)\<rparr>)"

definition AddSubnet ::
  "('dt, 'st) src_bart \<Rightarrow> 'dt dst_bart \<Rightarrow> subnet_rule \<Rightarrow> 'st subnetLookup \<Rightarrow> 'st subnetLookup" where
  "AddSubnet S D rule sl = addSubnetLocked S D rule sl"

definition ReplaceAll ::
  "('dt, 'st) src_bart \<Rightarrow> 'dt dst_bart \<Rightarrow> subnet_rule list \<Rightarrow> 'st subnetLookup \<Rightarrow> 'st subnetLookup" where
  "ReplaceAll S D rules sl =
     foldl (\<lambda>sl rule. addSubnetLocked S D rule sl) (sl\<lparr>sl_sourceTrie := bt_empty S\<rparr>) rules"

definition RemoveSubnet ::
  "('dt, 'st) src_bart \<Rightarrow> 'dt dst_bart \<Rightarrow> prefix \<Rightarrow> prefix \<Rightarrow> 'st subnetLookup \<Rightarrow> 'st subnetLookup" where
  "RemoveSubnet S D sourcePrefix destPrefix sl =
     (let canonicalSourcePrefix = masked sourcePrefix;
          canonicalDestPrefix = masked destPrefix
      in case bt_get S (sl_sourceTrie sl) canonicalSourcePrefix of
           None \<Rightarrow> sl
         | Some dt \<Rightarrow>
             (let trie' = bt_delete D canonicalDestPrefix (dt_trie dt);
                  newDestRules = filter (\<lambda>r. \<not> prefixEqual (sr_DestPrefix r) canonicalDestPrefix \<or>
                      \<not> prefixEqual (sr_SourcePrefix r) canonicalSourcePrefix) (dt_rules dt);
                  src' = bt_insert S canonicalSourcePrefix
                           \<lparr>dt_trie = trie', dt_rules = newDestRules\<rparr> (sl_sourceTrie sl)
              in if bt_size D trie' = 0
                 then sl\<lparr>sl_sourceTrie := bt_delete S canonicalSourcePrefix src'\<rparr>
                 else sl\<lparr>sl_sourceTrie := src'\<rparr>))"

definition GetAllRules :: "('dt, 'st) src_bart \<Rightarrow> 'st subnetLookup \<Rightarrow> subnet_rule list" where
  "GetAllRules S sl = concat (map (\<lambda>(_, dt). dt_rules dt) (bt_all S (sl_sourceTrie sl)))"

text \<open>
  The body of the innermost loop of \<open>Match\<close>: \<open>None\<close> continues with the next rule,
  \<open>Some v\<close> returns \<open>v\<close> (\<open>Some None\<close> is the \<open>return nil\<close> of a rule that disables ICMP).
\<close>

definition rangeAllows :: "16 word \<Rightarrow> proto \<Rightarrow> port_range \<Rightarrow> bool" where
  "rangeAllows port prot pr \<longleftrightarrow>
     port \<ge> pr_Min pr \<and> port \<le> pr_Max pr \<and>
     (pr_Protocol pr = [] \<or>
      (pr_Protocol pr = ''tcp'' \<and> prot = TCPProtocolNumber) \<or>
      (pr_Protocol pr = ''udp'' \<and> prot = UDPProtocolNumber))"

definition checkRule :: "16 word \<Rightarrow> proto \<Rightarrow> subnet_rule \<Rightarrow> subnet_rule option option" where
  "checkRule port prot rule =
     (if prot = ICMPv4ProtocolNumber \<or> prot = ICMPv6ProtocolNumber then
        (if sr_DisableIcmp rule then Some None else Some (Some rule))
      else if sr_PortRanges rule = [] then Some (Some rule)
      else if list_ex (rangeAllows port prot) (sr_PortRanges rule) then Some (Some rule)
      else None)"

definition Match ::
  "('dt, 'st) src_bart \<Rightarrow> 'dt dst_bart \<Rightarrow> 'st subnetLookup \<Rightarrow>
     addr \<Rightarrow> addr \<Rightarrow> 16 word \<Rightarrow> proto \<Rightarrow> subnet_rule option" where
  "Match S D sl srcIP dstIP port prot =
     (let srcPrefix = prefix_from srcIP (bit_len srcIP);
          dstPrefix = prefix_from dstIP (bit_len dstIP)
      in case first_some (\<lambda>(_, dt).
                first_some (\<lambda>(_, rules). first_some (checkRule port prot) rules)
                  (bt_supernets D (dt_trie dt) dstPrefix))
              (bt_supernets S (sl_sourceTrie sl) srcPrefix)
         of None \<Rightarrow> None | Some res \<Rightarrow> res)"

section \<open>A reference prefix table\<close>

text \<open>
  An executable prefix table: an association list keyed by canonical prefixes.  It satisfies the laws
  for every value of its type, and the concrete evaluations of this development run on it.
\<close>

definition rt_get :: "(prefix \<times> 'v) list \<Rightarrow> prefix \<Rightarrow> 'v option" where
  "rt_get t p = (if valid_prefix p then map_of t (masked p) else None)"

definition rt_insert :: "prefix \<Rightarrow> 'v \<Rightarrow> (prefix \<times> 'v) list \<Rightarrow> (prefix \<times> 'v) list" where
  "rt_insert p v t = (if valid_prefix p then mput (masked p) v t else t)"

definition rt_delete :: "prefix \<Rightarrow> (prefix \<times> 'v) list \<Rightarrow> (prefix \<times> 'v) list" where
  "rt_delete p t = (if valid_prefix p then mdel (masked p) t else t)"

definition shorten :: "prefix \<Rightarrow> nat \<Rightarrow> prefix" where
  "shorten p n = masked (Prefix (pfx_addr p) n)"

definition rt_supernets :: "(prefix \<times> 'v) list \<Rightarrow> prefix \<Rightarrow> (prefix \<times> 'v) list" where
  "rt_supernets t p =
     (if valid_prefix p
      then map (\<lambda>n. (shorten p n, the (rt_get t (shorten p n))))
             (filter (\<lambda>n. rt_get t (shorten p n) \<noteq> None) (rev [0..<Suc (pfx_bits p)]))
      else [])"

definition rt_all :: "(prefix \<times> 'v) list \<Rightarrow> (prefix \<times> 'v) list" where
  "rt_all t = map (\<lambda>q. (q, the (map_of t q))) (remdups (filter (\<lambda>q. canonical q) (map fst t)))"

definition ref_bart :: "('v, (prefix \<times> 'v) list) bart" where
  "ref_bart = \<lparr>bt_empty = [], bt_get = rt_get, bt_insert = rt_insert, bt_delete = rt_delete,
     bt_supernets = rt_supernets, bt_all = rt_all, bt_size = length \<circ> rt_all\<rparr>"

lemma valid_shorten: "valid_prefix p \<Longrightarrow> n \<le> pfx_bits p \<Longrightarrow> canonical (shorten p n) \<and> pfx_bits (shorten p n) = n"
  by (cases p; cases "pfx_addr p")
    (auto simp: shorten_def valid_prefix_def masked_def)

lemma covers_shorten: "valid_prefix p \<Longrightarrow> n \<le> pfx_bits p \<Longrightarrow> covers (shorten p n) p"
  by (cases p; cases "pfx_addr p")
    (auto simp: shorten_def valid_prefix_def masked_def covers_def)

lemma canonical_cover_shorten:
  assumes "canonical q" "covers q p"
  shows "q = shorten p (pfx_bits q)"
proof -
  have le: "pfx_bits q \<le> pfx_bits p" and v: "valid_prefix p"
    using assms(2) by (simp_all add: covers_def)
  then have "masked q = masked (shorten p (pfx_bits q))"
    using covers_unique [OF assms(2) covers_shorten [OF v le]] valid_shorten [OF v le] by simp
  then show ?thesis using assms(1) by (metis masked_idem shorten_def)
qed

lemma rt_supernets_set:
  assumes "canonical p"
  shows "set (rt_supernets t p) = {(q, v). canonical q \<and> covers q p \<and> rt_get t q = Some v}"
    (is "?L = ?R")
proof (intro equalityI subsetI)
  fix x assume "x \<in> ?L"
  then obtain n where n: "n \<le> pfx_bits p" "x = (shorten p n, the (rt_get t (shorten p n)))"
      "rt_get t (shorten p n) \<noteq> None"
    using assms by (auto simp: rt_supernets_def less_Suc_eq_le simp del: upt_Suc)
  then show "x \<in> ?R"
    using assms valid_shorten [of p n] covers_shorten [of p n] by simp
next
  fix x assume x: "x \<in> ?R"
  then obtain q v where q: "x = (q, v)" "canonical q" "covers q p" "rt_get t q = Some v" by auto
  then have "q = shorten p (pfx_bits q)" "pfx_bits q \<le> pfx_bits p"
    using canonical_cover_shorten by (blast, simp add: covers_def)
  then have "x = (shorten p (pfx_bits q), the (rt_get t (shorten p (pfx_bits q))))"
      "rt_get t (shorten p (pfx_bits q)) \<noteq> None" "pfx_bits q < Suc (pfx_bits p)"
    using q by simp_all
  then show "x \<in> ?L" using assms
    by (simp add: rt_supernets_def del: upt_Suc)
qed

lemma rt_supernets_order:
  assumes "canonical p"
  shows "sorted_wrt (\<lambda>a b. pfx_bits (fst b) < pfx_bits (fst a)) (rt_supernets t p)"
proof -
  let ?ns = "filter (\<lambda>n. rt_get t (shorten p n) \<noteq> None) (rev [0..<Suc (pfx_bits p)])"
  have "sorted_wrt (\<lambda>m n. n < m) ?ns"
    by (intro sorted_wrt_filter) (simp only: sorted_wrt_rev sorted_wrt_upt)
  then have "sorted_wrt (\<lambda>m n. pfx_bits (shorten p n) < pfx_bits (shorten p m)) ?ns"
    by (rule sorted_wrt_mono_rel [rotated])
      (use assms in \<open>simp add: valid_shorten less_Suc_eq_le del: upt_Suc\<close>)
  then show ?thesis
    using assms by (simp add: rt_supernets_def sorted_wrt_map del: upt_Suc)
qed

lemma rt_all_set: "set (rt_all t) = {(q, v). canonical q \<and> rt_get t q = Some v}"
proof (intro equalityI subsetI)
  fix x assume "x \<in> set (rt_all t)"
  then obtain q where q: "x = (q, the (map_of t q))" "canonical q" "q \<in> fst ` set t"
    by (auto simp: rt_all_def)
  then have "map_of t q \<noteq> None" by (simp add: map_of_eq_None_iff)
  then show "x \<in> {(q, v). canonical q \<and> rt_get t q = Some v}"
    using q by (simp add: rt_get_def)
next
  fix x assume "x \<in> {(q, v). canonical q \<and> rt_get t q = Some v}"
  then obtain q v where q: "x = (q, v)" "canonical q" "map_of t q = Some v"
    by (auto simp: rt_get_def)
  then have "q \<in> fst ` set t" by (metis map_of_eq_None_iff option.distinct(1))
  then show "x \<in> set (rt_all t)" using q by (auto simp: rt_all_def intro!: image_eqI [where x = q])
qed

interpretation ref: prefix_table ref_bart
proof unfold_locales
  fix p q :: prefix and v :: 'a and t :: "(prefix \<times> 'a) list"
  show "bt_get ref_bart (bt_empty ref_bart) p = (None :: 'a option)"
    by (simp add: ref_bart_def rt_get_def)
  show "canonical p \<Longrightarrow> canonical q \<Longrightarrow>
      bt_get ref_bart (bt_insert ref_bart p v t) q = (if q = p then Some v else bt_get ref_bart t q)"
    by (simp add: ref_bart_def rt_get_def rt_insert_def)
  show "canonical p \<Longrightarrow> canonical q \<Longrightarrow>
      bt_get ref_bart (bt_delete ref_bart p t) q = (if q = p then None else bt_get ref_bart t q)"
    by (simp add: ref_bart_def rt_get_def rt_delete_def)
  show "canonical p \<Longrightarrow>
      set (bt_supernets ref_bart t p) = {(q, v). canonical q \<and> covers q p \<and> bt_get ref_bart t q = Some v}"
    by (simp add: ref_bart_def rt_supernets_set)
  show "canonical p \<Longrightarrow>
      sorted_wrt (\<lambda>a b. pfx_bits (fst b) < pfx_bits (fst a)) (bt_supernets ref_bart t p)"
    by (simp add: ref_bart_def rt_supernets_order)
  show "set (bt_all ref_bart t) = {(q, v). canonical q \<and> bt_get ref_bart t q = Some v}"
    by (simp add: ref_bart_def rt_all_set)
  show "bt_size ref_bart t = length (bt_all ref_bart t)"
    by (simp add: ref_bart_def)
qed


section \<open>The abstract rule map\<close>

text \<open>
  What the table promises: a map from pairs of canonical prefixes to rules, changed by the calls below.
\<close>

type_synonym rule_map = "prefix \<times> prefix \<Rightarrow> subnet_rule option"

datatype table_call =
    AddCall subnet_rule
  | RemoveCall prefix prefix
  | ReplaceCall "subnet_rule list"

definition rule_key :: "subnet_rule \<Rightarrow> prefix \<times> prefix" where
  "rule_key r = (masked (sr_SourcePrefix r), masked (sr_DestPrefix r))"

definition rule_valid :: "subnet_rule \<Rightarrow> bool" where
  "rule_valid r \<longleftrightarrow> valid_prefix (sr_SourcePrefix r) \<and> valid_prefix (sr_DestPrefix r)"

primrec call_valid :: "table_call \<Rightarrow> bool" where
  "call_valid (AddCall r) = rule_valid r"
| "call_valid (RemoveCall s d) = (valid_prefix s \<and> valid_prefix d)"
| "call_valid (ReplaceCall rs) = list_all rule_valid rs"

primrec map_step :: "rule_map \<Rightarrow> table_call \<Rightarrow> rule_map" where
  "map_step m (AddCall r) = m(rule_key r \<mapsto> r)"
| "map_step m (RemoveCall s d) = m((masked s, masked d) := None)"
| "map_step m (ReplaceCall rs) = foldl (\<lambda>m r. m(rule_key r \<mapsto> r)) Map.empty rs"

primrec table_step ::
  "('dt, 'st) src_bart \<Rightarrow> 'dt dst_bart \<Rightarrow> 'st subnetLookup \<Rightarrow> table_call \<Rightarrow> 'st subnetLookup" where
  "table_step S D sl (AddCall r) = AddSubnet S D r sl"
| "table_step S D sl (RemoveCall s d) = RemoveSubnet S D s d sl"
| "table_step S D sl (ReplaceCall rs) = ReplaceAll S D rs sl"

definition table_abs :: "('dt, 'st) src_bart \<Rightarrow> 'dt dst_bart \<Rightarrow> 'st subnetLookup \<Rightarrow> rule_map" where
  "table_abs S D sl = (\<lambda>(s, d).
     if canonical s \<and> canonical d
     then (case bt_get S (sl_sourceTrie sl) s of
             None \<Rightarrow> None
           | Some dt \<Rightarrow> (case bt_get D (dt_trie dt) d of Some [r] \<Rightarrow> Some r | _ \<Rightarrow> None))
     else None)"

text \<open>
  The invariant: a destination trie holds exactly the rules of its bookkeeping list, each alone under
  its own canonical prefix, and no destination trie is empty.
\<close>

definition dest_ok :: "'dt dst_bart \<Rightarrow> prefix \<Rightarrow> 'dt destTrie \<Rightarrow> bool" where
  "dest_ok D s dt \<longleftrightarrow>
     (\<forall>d rs. canonical d \<and> bt_get D (dt_trie dt) d = Some rs \<longrightarrow>
        (\<exists>r. rs = [r] \<and> r \<in> set (dt_rules dt) \<and> masked (sr_DestPrefix r) = d)) \<and>
     (\<forall>r\<in>set (dt_rules dt). rule_valid r \<and> masked (sr_SourcePrefix r) = s \<and>
        bt_get D (dt_trie dt) (masked (sr_DestPrefix r)) = Some [r]) \<and>
     distinct (dt_rules dt)"

definition table_inv :: "('dt, 'st) src_bart \<Rightarrow> 'dt dst_bart \<Rightarrow> 'st subnetLookup \<Rightarrow> bool" where
  "table_inv S D sl \<longleftrightarrow>
     (\<forall>s dt. canonical s \<and> bt_get S (sl_sourceTrie sl) s = Some dt \<longrightarrow>
        dest_ok D s dt \<and> dt_rules dt \<noteq> [])"

text \<open>One rule is tried before another: longer source prefix first, then longer destination prefix.\<close>

definition more_specific :: "subnet_rule \<Rightarrow> subnet_rule \<Rightarrow> bool" where
  "more_specific r r' \<longleftrightarrow>
     pfx_bits (sr_SourcePrefix r') < pfx_bits (sr_SourcePrefix r) \<or>
     (pfx_bits (sr_SourcePrefix r') = pfx_bits (sr_SourcePrefix r) \<and>
      pfx_bits (sr_DestPrefix r') < pfx_bits (sr_DestPrefix r))"

definition rule_applies :: "subnet_rule \<Rightarrow> addr \<Rightarrow> addr \<Rightarrow> bool" where
  "rule_applies r srcIP dstIP \<longleftrightarrow>
     covers (sr_SourcePrefix r) (prefix_from srcIP (bit_len srcIP)) \<and>
     covers (sr_DestPrefix r) (prefix_from dstIP (bit_len dstIP))"

lemma canonical_host: "a \<noteq> NoAddr \<Longrightarrow> canonical (prefix_from a (bit_len a))"
  by (cases a) (simp_all add: prefix_from_def bit_len_def valid_prefix_def masked_def)

lemma more_specific_asym: "more_specific r r' \<Longrightarrow> \<not> more_specific r' r"
  by (auto simp: more_specific_def)

lemma checkRule_self: "checkRule port prot r = Some (Some r') \<Longrightarrow> r' = r"
  by (auto simp: checkRule_def split: if_splits)

definition candidates ::
  "('dt, 'st) src_bart \<Rightarrow> 'dt dst_bart \<Rightarrow> 'st subnetLookup \<Rightarrow> addr \<Rightarrow> addr \<Rightarrow> subnet_rule list" where
  "candidates S D sl srcIP dstIP =
     concat (map (\<lambda>(_, dt). concat (map snd (bt_supernets D (dt_trie dt)
               (prefix_from dstIP (bit_len dstIP)))))
       (bt_supernets S (sl_sourceTrie sl) (prefix_from srcIP (bit_len srcIP))))"

lemma Match_candidates:
  "Match S D sl srcIP dstIP port prot =
     (case first_some (checkRule port prot) (candidates S D sl srcIP dstIP) of None \<Rightarrow> None | Some res \<Rightarrow> res)"
  by (simp add: Match_def candidates_def Let_def first_some_concat first_some_map comp_def case_prod_unfold)

section \<open>Correctness of the table over any prefix-table library\<close>

locale two_level_table = src: prefix_table S + dst: prefix_table D
  for S :: "('dt, 'st) src_bart" and D :: "'dt dst_bart"
begin

lemma abs_add:
  assumes "rule_valid r"
  shows "table_abs S D (addSubnetLocked S D r sl) = (table_abs S D sl)(rule_key r \<mapsto> r)"
  using assms
  by (auto simp: fun_eq_iff table_abs_def addSubnetLocked_def Let_def rule_key_def rule_valid_def
      src.get_insert dst.get_insert dst.get_empty split: option.splits)

lemma abs_empty: "table_abs S D (sl\<lparr>sl_sourceTrie := bt_empty S\<rparr>) = Map.empty"
  by (auto simp: fun_eq_iff table_abs_def src.get_empty)

lemma abs_new: "table_abs S D (NewSubnetLookup S) = Map.empty"
  by (auto simp: fun_eq_iff table_abs_def src.get_empty NewSubnetLookup_def)

lemma abs_add_loop:
  "list_all rule_valid rs \<Longrightarrow>
   table_abs S D (foldl (\<lambda>sl r. addSubnetLocked S D r sl) sl rs)
     = foldl (\<lambda>m r. m(rule_key r \<mapsto> r)) (table_abs S D sl) rs"
  by (induction rs arbitrary: sl) (simp_all add: abs_add)

lemma abs_remove:
  assumes "valid_prefix s" "valid_prefix d"
  shows "table_abs S D (RemoveSubnet S D s d sl) = (table_abs S D sl)((masked s, masked d) := None)"
proof (cases "bt_get S (sl_sourceTrie sl) (masked s)")
  case None
  then show ?thesis by (auto simp: RemoveSubnet_def Let_def table_abs_def fun_eq_iff)
next
  case (Some dt)
  let ?t = "bt_delete D (masked d) (dt_trie dt)"
  show ?thesis
  proof (cases "bt_size D ?t = 0")
    case True
    then have "bt_get D (dt_trie dt) q = None" if "canonical q" "q \<noteq> masked d" for q
      using that assms dst.get_delete [of "masked d" q "dt_trie dt"] by (simp add: dst.size_0)
    then show ?thesis using True Some assms
      by (auto simp: RemoveSubnet_def Let_def table_abs_def fun_eq_iff src.get_insert src.get_delete)
  next
    case False
    then show ?thesis using Some assms
      by (auto simp: RemoveSubnet_def Let_def table_abs_def fun_eq_iff src.get_insert dst.get_delete
          split: option.splits)
  qed
qed

lemma abs_step:
  "call_valid c \<Longrightarrow> table_abs S D (table_step S D sl c) = map_step (table_abs S D sl) c"
  by (cases c) (simp_all add: AddSubnet_def ReplaceAll_def abs_add abs_remove abs_add_loop abs_empty)

lemma abs_run:
  "list_all call_valid cs \<Longrightarrow>
   table_abs S D (foldl (table_step S D) sl cs) = foldl map_step (table_abs S D sl) cs"
  by (induction cs arbitrary: sl) (simp_all add: abs_step)

end


context two_level_table
begin

lemma dest_ok_new: "dest_ok D s \<lparr>dt_trie = bt_empty D, dt_rules = []\<rparr>"
  by (simp add: dest_ok_def dst.get_empty)

lemma dest_ok_kept:
  assumes "dest_ok D s dt" "masked s = s"
  shows "filter (\<lambda>r. prefixEqual (sr_DestPrefix r) (masked d) \<longrightarrow> \<not> prefixEqual (sr_SourcePrefix r) s) (dt_rules dt)
       = filter (\<lambda>r. masked (sr_DestPrefix r) \<noteq> masked d) (dt_rules dt)"
  using assms by (intro filter_cong) (auto simp: dest_ok_def prefixEqual_def)

lemma dest_ok_add:
  assumes dt: "dest_ok D (masked (sr_SourcePrefix r)) dt" and r: "rule_valid r"
  shows "dest_ok D (masked (sr_SourcePrefix r))
     \<lparr>dt_trie = bt_insert D (masked (sr_DestPrefix r)) [r] (dt_trie dt),
      dt_rules = filter (\<lambda>r'. masked (sr_DestPrefix r') \<noteq> masked (sr_DestPrefix r)) (dt_rules dt) @ [r]\<rparr>"
  using assms unfolding dest_ok_def
  by (auto simp: dst.get_insert rule_valid_def split: if_splits) blast

lemma dest_ok_nonempty:
  assumes "dest_ok D s dt" "bt_size D (dt_trie dt) \<noteq> 0"
  shows "dt_rules dt \<noteq> []"
proof -
  obtain q rs where "canonical q" "bt_get D (dt_trie dt) q = Some rs"
    using assms(2) by (auto simp: dst.size_0)
  then show ?thesis using assms(1) unfolding dest_ok_def by (metis empty_iff empty_set)
qed

lemma dest_ok_remove:
  assumes "dest_ok D s dt" "valid_prefix d"
  shows "dest_ok D s \<lparr>dt_trie = bt_delete D (masked d) (dt_trie dt),
     dt_rules = filter (\<lambda>r. masked (sr_DestPrefix r) \<noteq> masked d) (dt_rules dt)\<rparr>"
  using assms unfolding dest_ok_def
  by (auto simp: dst.get_delete rule_valid_def split: if_splits) blast

lemma inv_put:
  assumes "table_inv S D sl" "canonical s" "dest_ok D s dt" "dt_rules dt \<noteq> []"
  shows "table_inv S D (sl\<lparr>sl_sourceTrie := bt_insert S s dt (sl_sourceTrie sl)\<rparr>)"
  using assms by (auto simp: table_inv_def src.get_insert split: if_splits)

lemma inv_drop:
  assumes "table_inv S D sl" "canonical s"
  shows "table_inv S D (sl\<lparr>sl_sourceTrie := bt_delete S s (bt_insert S s dt (sl_sourceTrie sl))\<rparr>)"
  using assms by (auto simp: table_inv_def src.get_insert src.get_delete split: if_splits)

lemma inv_add:
  assumes inv: "table_inv S D sl" and r: "rule_valid r"
  shows "table_inv S D (addSubnetLocked S D r sl)"
proof -
  let ?s = "masked (sr_SourcePrefix r)"
  let ?dt = "case bt_get S (sl_sourceTrie sl) ?s of Some dt \<Rightarrow> dt | None \<Rightarrow> \<lparr>dt_trie = bt_empty D, dt_rules = []\<rparr>"
  have s: "canonical ?s" using r by (simp add: rule_valid_def)
  then have "dest_ok D ?s ?dt"
    using inv dest_ok_new by (auto simp: table_inv_def split: option.split)
  note ok = this dest_ok_add [OF this r]
  have "addSubnetLocked S D r sl = sl\<lparr>sl_sourceTrie := bt_insert S ?s
     \<lparr>dt_trie = bt_insert D (masked (sr_DestPrefix r)) [r] (dt_trie ?dt),
      dt_rules = filter (\<lambda>r'. masked (sr_DestPrefix r') \<noteq> masked (sr_DestPrefix r)) (dt_rules ?dt) @ [r]\<rparr>
     (sl_sourceTrie sl)\<rparr>"
    by (simp add: addSubnetLocked_def Let_def dest_ok_kept [OF ok(1)])
  then show ?thesis using inv_put [OF inv s ok(2)] by simp
qed

lemma inv_remove:
  assumes inv: "table_inv S D sl" and v: "valid_prefix s" "valid_prefix d"
  shows "table_inv S D (RemoveSubnet S D s d sl)"
proof (cases "bt_get S (sl_sourceTrie sl) (masked s)")
  case None
  then show ?thesis using inv by (simp add: RemoveSubnet_def)
next
  case (Some dt)
  let ?dt = "\<lparr>dt_trie = bt_delete D (masked d) (dt_trie dt),
     dt_rules = filter (\<lambda>r. masked (sr_DestPrefix r) \<noteq> masked d) (dt_rules dt)\<rparr>"
  have dt: "dest_ok D (masked s) dt" using inv Some v by (auto simp: table_inv_def)
  note ok = dest_ok_remove [OF dt v(2)]
  have "bt_size D (dt_trie ?dt) \<noteq> 0 \<Longrightarrow> dt_rules ?dt \<noteq> []"
    using ok by (rule dest_ok_nonempty)
  moreover have "RemoveSubnet S D s d sl = (let src' = bt_insert S (masked s) ?dt (sl_sourceTrie sl) in
      if bt_size D (dt_trie ?dt) = 0 then sl\<lparr>sl_sourceTrie := bt_delete S (masked s) src'\<rparr>
      else sl\<lparr>sl_sourceTrie := src'\<rparr>)"
    using Some by (simp add: RemoveSubnet_def Let_def dest_ok_kept [OF dt])
  ultimately show ?thesis using inv_put [OF inv _ ok] inv_drop [OF inv] v
    by (simp add: Let_def)
qed

lemma inv_empty: "table_inv S D (sl\<lparr>sl_sourceTrie := bt_empty S\<rparr>)"
  by (simp add: table_inv_def src.get_empty)

lemma inv_new: "table_inv S D (NewSubnetLookup S)"
  by (simp add: table_inv_def src.get_empty NewSubnetLookup_def)

lemma inv_step: "table_inv S D sl \<Longrightarrow> call_valid c \<Longrightarrow> table_inv S D (table_step S D sl c)"
proof (cases c)
  case (ReplaceCall rs)
  assume "call_valid c"
  then have "\<And>r. r \<in> set rs \<Longrightarrow> rule_valid r" using ReplaceCall by (simp add: list_all_iff)
  then show ?thesis using ReplaceCall
    by (auto simp: ReplaceAll_def intro!: foldl_inv [of "table_inv S D"] inv_empty inv_add)
qed (simp_all add: AddSubnet_def inv_add inv_remove)

end

sublocale two_level_table \<subseteq> calls: guarded_system "table_step S D" "\<lambda>_. call_valid" "table_inv S D"
  by unfold_locales (rule inv_step)

context two_level_table
begin

lemma inv_run: "list_all call_valid cs \<Longrightarrow> table_inv S D sl \<Longrightarrow> table_inv S D (foldl (table_step S D) sl cs)"
  by (induction cs arbitrary: sl) (auto intro: inv_step)

lemma table_abs_Some:
  "table_abs S D sl (s, d) = Some r \<longleftrightarrow>
     (\<exists>dt. canonical s \<and> canonical d \<and> bt_get S (sl_sourceTrie sl) s = Some dt \<and> bt_get D (dt_trie dt) d = Some [r])"
  by (auto simp: table_abs_def split: option.splits list.splits if_splits)

lemma abs_key:
  assumes "table_inv S D sl" "table_abs S D sl k = Some r"
  shows "rule_valid r \<and> rule_key r = k"
proof -
  obtain s d where k: "k = (s, d)" by (cases k)
  then obtain dt where "canonical s" "canonical d" "bt_get S (sl_sourceTrie sl) s = Some dt"
      "bt_get D (dt_trie dt) d = Some [r]"
    using assms table_abs_Some by blast
  moreover from this have "dest_ok D s dt" using assms(1) by (auto simp: table_inv_def)
  ultimately show ?thesis by (fastforce simp: dest_ok_def rule_key_def k)
qed

lemma set_candidates:
  assumes inv: "table_inv S D sl" and a: "srcIP \<noteq> NoAddr" "dstIP \<noteq> NoAddr"
  shows "set (candidates S D sl srcIP dstIP) = {r. table_abs S D sl (rule_key r) = Some r \<and> rule_applies r srcIP dstIP}"
    (is "?L = ?R")
proof (intro equalityI subsetI)
  fix r assume "r \<in> ?L"
  then obtain s dt d rs where s: "(s, dt) \<in> set (bt_supernets S (sl_sourceTrie sl) (prefix_from srcIP (bit_len srcIP)))"
      and d: "(d, rs) \<in> set (bt_supernets D (dt_trie dt) (prefix_from dstIP (bit_len dstIP)))" and r: "r \<in> set rs"
    by (auto simp: candidates_def)
  then have sd: "canonical s" "canonical d" "covers s (prefix_from srcIP (bit_len srcIP))"
      "covers d (prefix_from dstIP (bit_len dstIP))" "bt_get S (sl_sourceTrie sl) s = Some dt" "bt_get D (dt_trie dt) d = Some rs"
    using a by (auto simp: src.supernets_set dst.supernets_set canonical_host)
  then have "dest_ok D s dt" using inv by (auto simp: table_inv_def)
  then have "rs = [r]" using sd r by (fastforce simp: dest_ok_def)
  then have "table_abs S D sl (s, d) = Some r" using inv sd by (auto simp: table_abs_Some)
  with abs_key [OF inv this] sd show "r \<in> ?R"
    by (auto simp: rule_applies_def rule_key_def rule_valid_def dest: covers_masked)
next
  fix r assume r: "r \<in> ?R"
  let ?s = "masked (sr_SourcePrefix r)" and ?d = "masked (sr_DestPrefix r)"
  from r obtain dt where dt: "canonical ?s" "canonical ?d" "bt_get S (sl_sourceTrie sl) ?s = Some dt"
      "bt_get D (dt_trie dt) ?d = Some [r]"
    using table_abs_Some by (auto simp: rule_key_def)
  moreover have "rule_valid r" using abs_key [OF inv] r by blast
  ultimately have "(?s, dt) \<in> set (bt_supernets S (sl_sourceTrie sl) (prefix_from srcIP (bit_len srcIP)))"
      "(?d, [r]) \<in> set (bt_supernets D (dt_trie dt) (prefix_from dstIP (bit_len dstIP)))"
    using r a by (auto simp: src.supernets_set dst.supernets_set canonical_host rule_applies_def rule_valid_def)
  then show "r \<in> ?L" unfolding candidates_def by force
qed

end


context two_level_table
begin

lemma supernet_rule:
  assumes "table_inv S D sl" "srcIP \<noteq> NoAddr" "dstIP \<noteq> NoAddr"
    and "(s, dt) \<in> set (bt_supernets S (sl_sourceTrie sl) (prefix_from srcIP (bit_len srcIP)))"
    and "(d, rs) \<in> set (bt_supernets D (dt_trie dt) (prefix_from dstIP (bit_len dstIP)))"
  obtains r where "rs = [r]" "rule_valid r" "masked (sr_SourcePrefix r) = s" "masked (sr_DestPrefix r) = d"
proof -
  have sd: "canonical s" "canonical d" "bt_get S (sl_sourceTrie sl) s = Some dt" "bt_get D (dt_trie dt) d = Some rs"
    using assms by (auto simp: src.supernets_set dst.supernets_set canonical_host)
  then have "dest_ok D s dt" using assms(1) by (auto simp: table_inv_def)
  then obtain r where "rs = [r]" "r \<in> set (dt_rules dt)" "masked (sr_DestPrefix r) = d"
    using sd unfolding dest_ok_def by blast
  then show thesis using that [of r] \<open>dest_ok D s dt\<close> by (simp add: dest_ok_def)
qed

lemma supernet_rule_bits:
  assumes "table_inv S D sl" "srcIP \<noteq> NoAddr" "dstIP \<noteq> NoAddr"
    and "(s, dt) \<in> set (bt_supernets S (sl_sourceTrie sl) (prefix_from srcIP (bit_len srcIP)))"
    and "(d, rs) \<in> set (bt_supernets D (dt_trie dt) (prefix_from dstIP (bit_len dstIP)))"
    and "r \<in> set rs"
  shows "pfx_bits (sr_SourcePrefix r) = pfx_bits s \<and> pfx_bits (sr_DestPrefix r) = pfx_bits d"
proof -
  obtain r' where "rs = [r']" "rule_valid r'" "masked (sr_SourcePrefix r') = s" "masked (sr_DestPrefix r') = d"
    using supernet_rule assms(1-5) by blast
  then show ?thesis using assms(6) masked_bits by (auto simp: rule_valid_def)
qed

lemma sorted_candidates:
  assumes inv: "table_inv S D sl" and a: "srcIP \<noteq> NoAddr" "dstIP \<noteq> NoAddr"
  shows "sorted_wrt more_specific (candidates S D sl srcIP dstIP)"
  unfolding candidates_def
proof (rule sorted_wrt_concat)
  let ?ss = "bt_supernets S (sl_sourceTrie sl) (prefix_from srcIP (bit_len srcIP))"
  let ?ds = "\<lambda>dt. bt_supernets D (dt_trie dt) (prefix_from dstIP (bit_len dstIP))"
  note bits = supernet_rule_bits [OF inv a]
  show "sorted_wrt (\<lambda>xs ys. \<forall>x\<in>set xs. \<forall>y\<in>set ys. more_specific x y)
      (map (\<lambda>(_, dt). concat (map snd (?ds dt))) ?ss)"
    unfolding sorted_wrt_map
  proof (rule sorted_wrt_mono_rel [OF _ src.supernets_order])
    fix x y assume xy: "x \<in> set ?ss" "y \<in> set ?ss" and lt: "pfx_bits (fst y) < pfx_bits (fst x)"
    show "\<forall>r\<in>set (case x of (_, dt) \<Rightarrow> concat (map snd (?ds dt))).
        \<forall>r'\<in>set (case y of (_, dt) \<Rightarrow> concat (map snd (?ds dt))). more_specific r r'"
    proof (intro ballI)
      fix r r' assume "r \<in> set (case x of (_, dt) \<Rightarrow> concat (map snd (?ds dt)))"
        and "r' \<in> set (case y of (_, dt) \<Rightarrow> concat (map snd (?ds dt)))"
      then have "pfx_bits (sr_SourcePrefix r) = pfx_bits (fst x)" "pfx_bits (sr_SourcePrefix r') = pfx_bits (fst y)"
        using xy bits [of "fst x" "snd x"] bits [of "fst y" "snd y"] by (auto simp: case_prod_unfold)
      then show "more_specific r r'" using lt by (simp add: more_specific_def)
    qed
  qed (rule canonical_host [OF a(1)])
  fix rs assume "rs \<in> set (map (\<lambda>(_, dt). concat (map snd (?ds dt))) ?ss)"
  then obtain s dt where s: "(s, dt) \<in> set ?ss" and rs: "rs = concat (map snd (?ds dt))" by auto
  show "sorted_wrt more_specific rs"
    unfolding rs
  proof (rule sorted_wrt_concat)
    fix xs assume "xs \<in> set (map snd (?ds dt))"
    then obtain d where "(d, xs) \<in> set (?ds dt)" by auto
    then obtain r where "xs = [r]" using supernet_rule [OF inv a s] by blast
    then show "sorted_wrt more_specific xs" by simp
  next
    show "sorted_wrt (\<lambda>xs ys. \<forall>x\<in>set xs. \<forall>y\<in>set ys. more_specific x y) (map snd (?ds dt))"
      unfolding sorted_wrt_map
    proof (rule sorted_wrt_mono_rel [OF _ dst.supernets_order [OF canonical_host [OF a(2)]]])
      fix x y assume "x \<in> set (?ds dt)" "y \<in> set (?ds dt)" and "pfx_bits (fst y) < pfx_bits (fst x)"
      then show "\<forall>r\<in>set (snd x). \<forall>r'\<in>set (snd y). more_specific r r'"
        using bits [OF s, of "fst x" "snd x"] bits [OF s, of "fst y" "snd y"]
        by (auto simp: more_specific_def)
    qed
  qed
qed

lemma Match_iff:
  assumes inv: "table_inv S D sl" and a: "srcIP \<noteq> NoAddr" "dstIP \<noteq> NoAddr"
  shows "Match S D sl srcIP dstIP port prot = Some r \<longleftrightarrow>
     table_abs S D sl (rule_key r) = Some r \<and> rule_applies r srcIP dstIP \<and>
     checkRule port prot r = Some (Some r) \<and>
     (\<forall>r'. table_abs S D sl (rule_key r') = Some r' \<and> rule_applies r' srcIP dstIP \<and>
        checkRule port prot r' \<noteq> None \<and> r' \<noteq> r \<longrightarrow> more_specific r r')"
proof -
  let ?c = "candidates S D sl srcIP dstIP"
  have "Match S D sl srcIP dstIP port prot = Some r \<longleftrightarrow> first_some (checkRule port prot) ?c = Some (Some r)"
    by (auto simp: Match_candidates split: option.split)
  also have "\<dots> \<longleftrightarrow> (\<exists>x\<in>set ?c. checkRule port prot x = Some (Some r) \<and>
      (\<forall>z\<in>set ?c. checkRule port prot z \<noteq> None \<and> z \<noteq> x \<longrightarrow> more_specific x z))"
    by (rule first_some_least [OF sorted_candidates [OF assms] more_specific_asym])
  also have "\<dots> \<longleftrightarrow> r \<in> set ?c \<and> checkRule port prot r = Some (Some r) \<and>
      (\<forall>z\<in>set ?c. checkRule port prot z \<noteq> None \<and> z \<noteq> r \<longrightarrow> more_specific r z)"
    using checkRule_self by blast
  finally show ?thesis unfolding set_candidates [OF assms] by blast
qed

lemma Match_cong:
  assumes "table_inv S D sl" "table_inv S D sl'" "table_abs S D sl = table_abs S D sl'" "srcIP \<noteq> NoAddr" "dstIP \<noteq> NoAddr"
  shows "Match S D sl srcIP dstIP port prot = Match S D sl' srcIP dstIP port prot"
proof -
  have "Match S D sl srcIP dstIP port prot = Some r \<longleftrightarrow> Match S D sl' srcIP dstIP port prot = Some r" for r
    unfolding Match_iff [OF assms(1,4,5)] Match_iff [OF assms(2,4,5)] assms(3) ..
  then show ?thesis by (metis not_None_eq)
qed

lemma GetAllRules_set:
  assumes "table_inv S D sl"
  shows "set (GetAllRules S sl) = ran (table_abs S D sl)"
proof (intro equalityI subsetI)
  fix r assume "r \<in> set (GetAllRules S sl)"
  then obtain s dt where s: "canonical s" "bt_get S (sl_sourceTrie sl) s = Some dt" "r \<in> set (dt_rules dt)"
    by (auto simp: GetAllRules_def src.all_set)
  then have "dest_ok D s dt" using assms by (auto simp: table_inv_def)
  then have "table_abs S D sl (s, masked (sr_DestPrefix r)) = Some r"
    using s by (auto simp: table_abs_Some dest_ok_def rule_valid_def)
  then show "r \<in> ran (table_abs S D sl)" by (rule ranI)
next
  fix r assume "r \<in> ran (table_abs S D sl)"
  then obtain s d dt where "canonical s" "canonical d" "bt_get S (sl_sourceTrie sl) s = Some dt"
      "bt_get D (dt_trie dt) d = Some [r]"
    by (auto simp: ran_def table_abs_Some)
  moreover from this have "dest_ok D s dt" using assms by (auto simp: table_inv_def)
  ultimately have "(s, dt) \<in> set (bt_all S (sl_sourceTrie sl))" "r \<in> set (dt_rules dt)"
    unfolding src.all_set dest_ok_def by blast+
  then show "r \<in> set (GetAllRules S sl)" by (force simp: GetAllRules_def)
qed

end

interpretation ref_table: two_level_table ref_bart ref_bart
  by unfold_locales

section \<open>Properties\<close>

definition ex_wide :: subnet_rule where
  "ex_wide = \<lparr>sr_SourcePrefix = Prefix (IP4 0x0a000000) 8, sr_DestPrefix = Prefix (IP4 0xc0a80000) 16,
     sr_DisableIcmp = False, sr_RewriteTo = [], sr_PortRanges = [], sr_ResourceId = 1, sr_Protocol = [],
     sr_HTTPTargets = [], sr_TLSCert = [], sr_TLSKey = []\<rparr>"

definition ex_web :: subnet_rule where
  "ex_web = \<lparr>sr_SourcePrefix = Prefix (IP4 0x0a000000) 8, sr_DestPrefix = Prefix (IP4 0xc0a80105) 24,
     sr_DisableIcmp = True, sr_RewriteTo = [],
     sr_PortRanges = [\<lparr>pr_Min = 80, pr_Max = 90, pr_Protocol = ''tcp''\<rparr>], sr_ResourceId = 2, sr_Protocol = [],
     sr_HTTPTargets = [], sr_TLSCert = [], sr_TLSKey = []\<rparr>"

lemma ex_keys:
  "rule_key ex_wide = (Prefix (IP4 0x0a000000) 8, Prefix (IP4 0xc0a80000) 16)"
  "rule_key ex_web = (Prefix (IP4 0x0a000000) 8, Prefix (IP4 0xc0a80100) 24)"
  by (code_simp, code_simp)

lemma ex_valid: "rule_valid ex_wide" "rule_valid ex_web"
  by (code_simp, code_simp)

text \<open>
  C1. The two-level table implements the map of rules.  After any sequence of \<open>AddSubnet\<close>,
  \<open>RemoveSubnet\<close> and \<open>ReplaceAll\<close> calls with valid prefixes, the table holds under each pair of masked
  prefixes exactly the rule that the same calls leave in a plain map keyed by the masked prefixes;
  in particular a replacement leaves no stale rule behind.
\<close>

theorem table_refines_map:
  assumes "prefix_table S" "prefix_table D" "list_all call_valid cs"
  shows "table_abs S D (foldl (table_step S D) (NewSubnetLookup S) cs) = foldl map_step Map.empty cs"
  using two_level_table.abs_run [OF two_level_table.intro [OF assms(1,2)] assms(3)]
    two_level_table.abs_new [OF two_level_table.intro [OF assms(1,2)]]
  by simp

theorem table_refines_map_witness:
  "table_abs ref_bart ref_bart (foldl (table_step ref_bart ref_bart) (NewSubnetLookup ref_bart)
     [AddCall ex_wide, ReplaceCall [ex_web], RemoveCall (Prefix (IP4 0x0a000001) 8) (Prefix (IP4 0xc0a801ff) 24)])
     (rule_key ex_web) = None"
  using table_refines_map [OF ref.prefix_table_axioms ref.prefix_table_axioms,
      of "[AddCall ex_wide, ReplaceCall [ex_web], RemoveCall (Prefix (IP4 0x0a000001) 8) (Prefix (IP4 0xc0a801ff) 24)]"]
  by (simp add: ex_keys ex_valid) (simp add: valid_prefix_def masked_def clear_low_def)

text \<open>
  What a rule says about a packet, in numbers: \<open>decides\<close> if the rule has an opinion on it, \<open>accepts\<close> if that is to pass it.
  Rules for ICMP (protocols 1 and 58) have no ports; other packets need a range around their port for any protocol or for theirs.
\<close>

definition inRange :: "nat \<Rightarrow> nat \<Rightarrow> port_range \<Rightarrow> bool" where
  "inRange port prot pr \<longleftrightarrow> port \<in> {unat (pr_Min pr)..unat (pr_Max pr)} \<and>
     (pr_Protocol pr = [] \<or> (pr_Protocol pr, prot) \<in> {(''tcp'', 6), (''udp'', 17)})"

definition decides :: "nat \<Rightarrow> nat \<Rightarrow> subnet_rule \<Rightarrow> bool" where
  "decides port prot r \<longleftrightarrow> prot \<in> {1, 58} \<or> sr_PortRanges r = [] \<or> (\<exists>pr\<in>set (sr_PortRanges r). inRange port prot pr)"

definition accepts :: "nat \<Rightarrow> nat \<Rightarrow> subnet_rule \<Rightarrow> bool" where
  "accepts port prot r \<longleftrightarrow> decides port prot r \<and> \<not> (prot \<in> {1, 58} \<and> sr_DisableIcmp r)"

lemma rangeAllows_inRange: "rangeAllows port prot pr \<longleftrightarrow> inRange (unat port) (unat prot) pr"
proof -
  have "prot = 6 \<longleftrightarrow> unat prot = 6" "prot = 17 \<longleftrightarrow> unat prot = 17" by (auto simp: word_unat_eq_iff)
  then show ?thesis by (auto simp: rangeAllows_def inRange_def word_le_nat_alt)
qed

lemma checkRule_decides:
  "checkRule port prot r \<noteq> None \<longleftrightarrow> decides (unat port) (unat prot) r"
  "checkRule port prot r = Some (Some r) \<longleftrightarrow> accepts (unat port) (unat prot) r"
proof -
  have "prot = 1 \<longleftrightarrow> unat prot = 1" "prot = 58 \<longleftrightarrow> unat prot = 58" by (auto simp: word_unat_eq_iff)
  then show "checkRule port prot r \<noteq> None \<longleftrightarrow> decides (unat port) (unat prot) r"
    "checkRule port prot r = Some (Some r) \<longleftrightarrow> accepts (unat port) (unat prot) r"
    by (auto simp: checkRule_def decides_def accepts_def list_ex_iff rangeAllows_inRange)
qed

text \<open>
  C2. \<open>Match\<close> returns a rule exactly when it is installed, covers source and destination, allows the port
  and protocol, and is the most specific one (longest source prefix, then longest destination prefix) among
  all installed covering rules that decide the packet.  This holds after every sequence of table calls.  A rule that
  disables ICMP decides every ICMP packet by rejecting it, so it also hides the less specific rules.
\<close>

theorem Match_most_specific:
  assumes "prefix_table S" "prefix_table D" "list_all call_valid cs"
    and "srcIP \<noteq> NoAddr" "dstIP \<noteq> NoAddr"
  shows "Match S D (foldl (table_step S D) (NewSubnetLookup S) cs) srcIP dstIP port prot = Some r \<longleftrightarrow>
     foldl map_step Map.empty cs (rule_key r) = Some r \<and> rule_applies r srcIP dstIP \<and>
     accepts (unat port) (unat prot) r \<and>
     (\<forall>r'. foldl map_step Map.empty cs (rule_key r') = Some r' \<and> rule_applies r' srcIP dstIP \<and>
        decides (unat port) (unat prot) r' \<and> r' \<noteq> r \<longrightarrow> more_specific r r')"
proof -
  note t = two_level_table.intro [OF assms(1,2)]
  have "table_inv S D (foldl (table_step S D) (NewSubnetLookup S) cs)"
    by (rule two_level_table.inv_run [OF t assms(3) two_level_table.inv_new [OF t]])
  from two_level_table.Match_iff [OF t this assms(4,5)] show ?thesis
    by (simp only: two_level_table.abs_run [OF t assms(3)] two_level_table.abs_new [OF t] checkRule_decides)
qed

theorem Match_most_specific_witness:
  "Match ref_bart ref_bart (foldl (table_step ref_bart ref_bart) (NewSubnetLookup ref_bart)
     [AddCall ex_wide, AddCall ex_web]) (IP4 0x0a010203) (IP4 0xc0a80107) 80 TCPProtocolNumber = Some ex_web"
proof -
  have dec: "rule_applies ex_web (IP4 0x0a010203) (IP4 0xc0a80107)"
      "accepts (unat (80 :: 16 word)) (unat TCPProtocolNumber) ex_web" "more_specific ex_web ex_wide"
    by (code_simp, simp only: checkRule_decides(2) [symmetric], code_simp, code_simp)
  show ?thesis
    by (rule Match_most_specific [OF ref.prefix_table_axioms ref.prefix_table_axioms, THEN iffD2])
      (use dec in \<open>auto simp: ex_keys ex_valid split: if_splits\<close>)
qed

text \<open>
  \<open>GetAllRules\<close> lists exactly the installed rules: after any sequence of table calls, its result
  and the range of the rule map are the same set, so the bookkeeping lists never drift from the tries.
\<close>

theorem GetAllRules_exact:
  assumes "prefix_table S" "prefix_table D" "list_all call_valid cs"
  shows "set (GetAllRules S (foldl (table_step S D) (NewSubnetLookup S) cs)) = ran (foldl map_step Map.empty cs)"
proof -
  note t = two_level_table.intro [OF assms(1,2)]
  have "table_inv S D (foldl (table_step S D) (NewSubnetLookup S) cs)"
    by (rule two_level_table.inv_run [OF t assms(3) two_level_table.inv_new [OF t]])
  from two_level_table.GetAllRules_set [OF t this] show ?thesis
    by (simp only: two_level_table.abs_run [OF t assms(3)] two_level_table.abs_new [OF t])
qed

theorem GetAllRules_exact_witness:
  "set (GetAllRules ref_bart (foldl (table_step ref_bart ref_bart) (NewSubnetLookup ref_bart)
     [AddCall ex_wide, ReplaceCall [ex_web]])) = {ex_web}"
  using GetAllRules_exact [OF ref.prefix_table_axioms ref.prefix_table_axioms,
      of "[AddCall ex_wide, ReplaceCall [ex_web]]"]
  by (simp add: ex_valid)

end
