(* ===== verification/Packet_Headers.thy ===== *)
theory Packet_Headers
  imports Net_Ip
begin

unbundle bit_operations_syntax

text \<open>
  The IPv4, TCP and UDP header accessors of gVisor's \<open>header\<close> and \<open>checksum\<close> packages, which the proxy uses to
  read and rewrite packets.  The packages are not part of the repository: the proxy's definitions take them as a record of operations
  (\<open>hdr\<close>), and the locale \<open>header_lib\<close> states the documented behaviour the proxy relies on.  The record \<open>rfc_hdr\<close>
  implements the layouts of RFC 791, 793 and 768 and satisfies the laws.
\<close>

type_synonym bytes = "byte list"

abbreviation IPv4MinimumSize :: nat where "IPv4MinimumSize \<equiv> 20"
abbreviation TCPMinimumSize :: nat where "TCPMinimumSize \<equiv> 20"
abbreviation UDPMinimumSize :: nat where "UDPMinimumSize \<equiv> 8"

section \<open>The library interface\<close>

record hdr =
  h_SourceAddress :: "bytes \<Rightarrow> 32 word"
  h_DestinationAddress :: "bytes \<Rightarrow> 32 word"
  h_TransportProtocol :: "bytes \<Rightarrow> proto"
  h_HeaderLength :: "bytes \<Rightarrow> nat"
  h_SetSourceAddress :: "32 word \<Rightarrow> bytes \<Rightarrow> bytes"
  h_SetDestinationAddress :: "32 word \<Rightarrow> bytes \<Rightarrow> bytes"
  h_SetChecksum :: "16 word \<Rightarrow> bytes \<Rightarrow> bytes"
  h_CalculateChecksum :: "bytes \<Rightarrow> 16 word"
  h_SourcePort :: "bytes \<Rightarrow> 16 word"
  h_DestinationPort :: "bytes \<Rightarrow> 16 word"
  h_SetTCPChecksum :: "16 word \<Rightarrow> bytes \<Rightarrow> bytes"
  h_SetUDPChecksum :: "16 word \<Rightarrow> bytes \<Rightarrow> bytes"
  h_PseudoHeaderChecksum :: "proto \<Rightarrow> 32 word \<Rightarrow> 32 word \<Rightarrow> 16 word \<Rightarrow> 16 word"
  h_Checksum :: "bytes \<Rightarrow> 16 word \<Rightarrow> 16 word"
  h_AddressString :: "32 word \<Rightarrow> string"

text \<open>
  Reading a field after a write; header fields live in the first 20 bytes; the checksum writers of the transport headers keep the
  length and the ports.  TCP and UDP keep their ports at the same place, so one pair of accessors serves both.
\<close>

locale header_lib =
  fixes H :: hdr
  assumes header_only: "take 20 p = take 20 q \<Longrightarrow>
      h_SourceAddress H p = h_SourceAddress H q \<and> h_DestinationAddress H p = h_DestinationAddress H q \<and>
      h_TransportProtocol H p = h_TransportProtocol H q \<and> h_HeaderLength H p = h_HeaderLength H q"
    and set_dst: "20 \<le> length p \<Longrightarrow> h_DestinationAddress H (h_SetDestinationAddress H a p) = a \<and>
      h_SourceAddress H (h_SetDestinationAddress H a p) = h_SourceAddress H p \<and>
      h_TransportProtocol H (h_SetDestinationAddress H a p) = h_TransportProtocol H p \<and>
      h_HeaderLength H (h_SetDestinationAddress H a p) = h_HeaderLength H p \<and>
      length (h_SetDestinationAddress H a p) = length p \<and> drop 20 (h_SetDestinationAddress H a p) = drop 20 p"
    and set_src: "20 \<le> length p \<Longrightarrow> h_SourceAddress H (h_SetSourceAddress H a p) = a \<and>
      h_DestinationAddress H (h_SetSourceAddress H a p) = h_DestinationAddress H p \<and>
      h_TransportProtocol H (h_SetSourceAddress H a p) = h_TransportProtocol H p \<and>
      h_HeaderLength H (h_SetSourceAddress H a p) = h_HeaderLength H p \<and>
      length (h_SetSourceAddress H a p) = length p \<and> drop 20 (h_SetSourceAddress H a p) = drop 20 p"
    and set_ck: "20 \<le> length p \<Longrightarrow> h_SourceAddress H (h_SetChecksum H c p) = h_SourceAddress H p \<and>
      h_DestinationAddress H (h_SetChecksum H c p) = h_DestinationAddress H p \<and>
      h_TransportProtocol H (h_SetChecksum H c p) = h_TransportProtocol H p \<and>
      h_HeaderLength H (h_SetChecksum H c p) = h_HeaderLength H p \<and>
      length (h_SetChecksum H c p) = length p \<and> drop 20 (h_SetChecksum H c p) = drop 20 p"
    and set_tcp_ck: "20 \<le> length t \<Longrightarrow> h_SourcePort H (h_SetTCPChecksum H c t) = h_SourcePort H t \<and>
      h_DestinationPort H (h_SetTCPChecksum H c t) = h_DestinationPort H t \<and> length (h_SetTCPChecksum H c t) = length t"
    and set_udp_ck: "8 \<le> length t \<Longrightarrow> h_SourcePort H (h_SetUDPChecksum H c t) = h_SourcePort H t \<and>
      h_DestinationPort H (h_SetUDPChecksum H c t) = h_DestinationPort H t \<and> length (h_SetUDPChecksum H c t) = length t"
    and address_string: "h_AddressString H a = ip4_string a"

section \<open>The wire layout\<close>

definition be16 :: "bytes \<Rightarrow> nat \<Rightarrow> 16 word" where
  "be16 b i = push_bit 8 (ucast (b ! i)) OR ucast (b ! (i + 1))"

definition be32 :: "bytes \<Rightarrow> nat \<Rightarrow> 32 word" where
  "be32 b i = push_bit 24 (ucast (b ! i)) OR push_bit 16 (ucast (b ! (i + 1))) OR
              push_bit 8 (ucast (b ! (i + 2))) OR ucast (b ! (i + 3))"

definition put16 :: "16 word \<Rightarrow> nat \<Rightarrow> bytes \<Rightarrow> bytes" where
  "put16 w i b = b[i := ucast (drop_bit 8 w), i + 1 := ucast w]"

definition put32 :: "32 word \<Rightarrow> nat \<Rightarrow> bytes \<Rightarrow> bytes" where
  "put32 w i b = b[i := ucast (drop_bit 24 w), i + 1 := ucast (drop_bit 16 w),
                   i + 2 := ucast (drop_bit 8 w), i + 3 := ucast w]"

text \<open>The 16-bit one's complement sum, with the carry folded back.\<close>

definition fold16 :: "nat \<Rightarrow> nat" where
  "fold16 n = (let m = n mod 65536 + n div 65536 in m mod 65536 + m div 65536)"

fun sum16 :: "bytes \<Rightarrow> nat" where
  "sum16 [] = 0"
| "sum16 [a] = unat a * 256"
| "sum16 (a # b # rest) = unat a * 256 + unat b + sum16 rest"

definition rfc_checksum :: "bytes \<Rightarrow> 16 word \<Rightarrow> 16 word" where
  "rfc_checksum b init = of_nat (fold16 (fold16 (unat init + sum16 b)))"

definition rfc_pseudo :: "proto \<Rightarrow> 32 word \<Rightarrow> 32 word \<Rightarrow> 16 word \<Rightarrow> 16 word" where
  "rfc_pseudo pr s d len = of_nat (fold16 (fold16 (unat (drop_bit 16 s) + unat (take_bit 16 s) +
     unat (drop_bit 16 d) + unat (take_bit 16 d) + unat pr mod 256 + unat len)))"

definition rfc_headerLength :: "bytes \<Rightarrow> nat" where
  "rfc_headerLength b = 4 * unat (b ! 0 AND 15)"

definition rfc_hdr :: hdr where
  "rfc_hdr = \<lparr>h_SourceAddress = (\<lambda>b. be32 b 12), h_DestinationAddress = (\<lambda>b. be32 b 16),
     h_TransportProtocol = (\<lambda>b. ucast (b ! 9)), h_HeaderLength = rfc_headerLength,
     h_SetSourceAddress = (\<lambda>a. put32 a 12), h_SetDestinationAddress = (\<lambda>a. put32 a 16),
     h_SetChecksum = (\<lambda>c. put16 c 10), h_CalculateChecksum = (\<lambda>b. rfc_checksum (take (rfc_headerLength b) b) 0),
     h_SourcePort = (\<lambda>b. be16 b 0), h_DestinationPort = (\<lambda>b. be16 b 2),
     h_SetTCPChecksum = (\<lambda>c. put16 c 16), h_SetUDPChecksum = (\<lambda>c. put16 c 6),
     h_PseudoHeaderChecksum = rfc_pseudo, h_Checksum = rfc_checksum, h_AddressString = ip4_string\<rparr>"

lemma join_bytes:
  fixes w :: "32 word"
  shows "push_bit 24 (ucast (ucast (drop_bit 24 w) :: byte)) OR push_bit 16 (ucast (ucast (drop_bit 16 w) :: byte)) OR
     push_bit 8 (ucast (ucast (drop_bit 8 w) :: byte)) OR ucast (ucast w :: byte) = w"
proof (rule bit_word_eqI)
  fix n assume "n < LENGTH(32)"
  then consider "n < 8" | "8 \<le> n" "n < 16" | "16 \<le> n" "n < 24" | "24 \<le> n" "n < 32" by fastforce
  then show "bit (push_bit 24 (ucast (ucast (drop_bit 24 w) :: byte)) OR (push_bit 16 (ucast (ucast (drop_bit 16 w) :: byte)) OR
     push_bit 8 (ucast (ucast (drop_bit 8 w) :: byte)) OR ucast (ucast w :: byte) :: 32 word)) n = bit w n"
    by cases (auto simp: bit_or_iff bit_push_bit_iff bit_ucast_iff bit_drop_bit_eq)
qed

lemma be32_put32: "i + 3 < length b \<Longrightarrow> be32 (put32 w i b) i = w"
  by (simp add: be32_def put32_def nth_list_update join_bytes)

lemma nth_put16: "j \<noteq> i \<Longrightarrow> j \<noteq> i + 1 \<Longrightarrow> put16 w i b ! j = b ! j"
  by (simp add: put16_def)

lemma nth_put32: "j < i \<or> i + 3 < j \<Longrightarrow> put32 w i b ! j = b ! j"
  by (auto simp: put32_def)

lemma length_put [simp]: "length (put16 c i b) = length b" "length (put32 w i b) = length b"
  by (simp_all add: put16_def put32_def)

lemma drop_put: "i + 1 < 20 \<Longrightarrow> drop 20 (put16 c i b) = drop 20 b" "i + 3 < 20 \<Longrightarrow> drop 20 (put32 w i b) = drop 20 b"
  by (simp_all add: put16_def put32_def)

lemma take_nth: "take 20 p = take 20 q \<Longrightarrow> i < 20 \<Longrightarrow> p ! i = q ! i"
  by (metis nth_take)

lemmas rfc_simps = rfc_hdr_def rfc_headerLength_def be16_def nth_put16 nth_put32

lemma be32_cong: "(\<And>j. i \<le> j \<Longrightarrow> j \<le> i + 3 \<Longrightarrow> p ! j = q ! j) \<Longrightarrow> be32 p i = be32 q i"
  by (simp add: be32_def)

interpretation rfc: header_lib rfc_hdr
proof unfold_locales
  fix p q :: bytes
  assume e: "take 20 p = take 20 q"
  note n = take_nth [OF e]
  show "h_SourceAddress rfc_hdr p = h_SourceAddress rfc_hdr q \<and> h_DestinationAddress rfc_hdr p = h_DestinationAddress rfc_hdr q \<and>
      h_TransportProtocol rfc_hdr p = h_TransportProtocol rfc_hdr q \<and> h_HeaderLength rfc_hdr p = h_HeaderLength rfc_hdr q"
    using n by (simp add: rfc_simps be32_def)
next
  fix p :: bytes and a :: "32 word" assume p: "20 \<le> length p"
  show "h_DestinationAddress rfc_hdr (h_SetDestinationAddress rfc_hdr a p) = a \<and>
      h_SourceAddress rfc_hdr (h_SetDestinationAddress rfc_hdr a p) = h_SourceAddress rfc_hdr p \<and>
      h_TransportProtocol rfc_hdr (h_SetDestinationAddress rfc_hdr a p) = h_TransportProtocol rfc_hdr p \<and>
      h_HeaderLength rfc_hdr (h_SetDestinationAddress rfc_hdr a p) = h_HeaderLength rfc_hdr p \<and>
      length (h_SetDestinationAddress rfc_hdr a p) = length p \<and> drop 20 (h_SetDestinationAddress rfc_hdr a p) = drop 20 p"
    using p be32_cong [of 12 "put32 a 16 p" p] by (simp add: rfc_simps be32_put32 drop_put)
  show "h_SourceAddress rfc_hdr (h_SetSourceAddress rfc_hdr a p) = a \<and>
      h_DestinationAddress rfc_hdr (h_SetSourceAddress rfc_hdr a p) = h_DestinationAddress rfc_hdr p \<and>
      h_TransportProtocol rfc_hdr (h_SetSourceAddress rfc_hdr a p) = h_TransportProtocol rfc_hdr p \<and>
      h_HeaderLength rfc_hdr (h_SetSourceAddress rfc_hdr a p) = h_HeaderLength rfc_hdr p \<and>
      length (h_SetSourceAddress rfc_hdr a p) = length p \<and> drop 20 (h_SetSourceAddress rfc_hdr a p) = drop 20 p"
    using p be32_cong [of 16 "put32 a 12 p" p] by (simp add: rfc_simps be32_put32 drop_put)
next
  fix p :: bytes and c :: "16 word"
  show "h_SourceAddress rfc_hdr (h_SetChecksum rfc_hdr c p) = h_SourceAddress rfc_hdr p \<and>
      h_DestinationAddress rfc_hdr (h_SetChecksum rfc_hdr c p) = h_DestinationAddress rfc_hdr p \<and>
      h_TransportProtocol rfc_hdr (h_SetChecksum rfc_hdr c p) = h_TransportProtocol rfc_hdr p \<and>
      h_HeaderLength rfc_hdr (h_SetChecksum rfc_hdr c p) = h_HeaderLength rfc_hdr p \<and>
      length (h_SetChecksum rfc_hdr c p) = length p \<and> drop 20 (h_SetChecksum rfc_hdr c p) = drop 20 p"
    using be32_cong [of 12 "put16 c 10 p" p] be32_cong [of 16 "put16 c 10 p" p]
    by (simp add: rfc_simps drop_put)
  show "h_SourcePort rfc_hdr (h_SetTCPChecksum rfc_hdr c p) = h_SourcePort rfc_hdr p \<and>
      h_DestinationPort rfc_hdr (h_SetTCPChecksum rfc_hdr c p) = h_DestinationPort rfc_hdr p \<and>
      length (h_SetTCPChecksum rfc_hdr c p) = length p"
    by (simp add: rfc_simps)
  show "h_SourcePort rfc_hdr (h_SetUDPChecksum rfc_hdr c p) = h_SourcePort rfc_hdr p \<and>
      h_DestinationPort rfc_hdr (h_SetUDPChecksum rfc_hdr c p) = h_DestinationPort rfc_hdr p \<and>
      length (h_SetUDPChecksum rfc_hdr c p) = length p"
    by (simp add: rfc_simps)
qed (simp add: rfc_simps)

section \<open>Filling in a checksum\<close>

lemma fold16_mod: "fold16 n mod 65535 = n mod 65535"
proof -
  have step: "(k mod 65536 + k div 65536) mod 65535 = k mod 65535" for k :: nat
  proof -
    have "k = k div 65536 * 65535 + (k mod 65536 + k div 65536)" using div_mult_mod_eq [of k 65536] by linarith
    then have "k mod 65535 = (k div 65536 * 65535 + (k mod 65536 + k div 65536)) mod 65535" by (rule arg_cong)
    also have "\<dots> = (k mod 65536 + k div 65536) mod 65535" by (rule mod_mult_self3)
    finally show ?thesis by (rule sym)
  qed
  show ?thesis by (simp add: fold16_def Let_def step)
qed

lemma fold16_le: "n < 2 ^ 32 \<Longrightarrow> fold16 n \<le> 65535"
proof -
  assume n: "n < 2 ^ 32"
  define m where "m = n mod 65536 + n div 65536"
  have "n div 65536 < 65536" using n by (simp add: less_mult_imp_div_less)
  then have m: "m \<le> 131070" using mod_less_divisor [of 65536 n] unfolding m_def by linarith
  show ?thesis
  proof (cases "m < 65536")
    case True
    then show ?thesis by (simp add: fold16_def Let_def m_def [symmetric])
  next
    case False
    then have "m div 65536 = 1" "m mod 65536 = m - 65536" using m by (simp_all add: div_nat_eqI mod_if)
    then show ?thesis using m by (simp add: fold16_def Let_def m_def [symmetric])
  qed
qed

lemma fold16_pos: "0 < n \<Longrightarrow> 0 < fold16 n"
proof -
  have step: "0 < k \<Longrightarrow> 0 < k mod 65536 + k div 65536" for k :: nat
    using div_mult_mod_eq [of k 65536] by (cases "k mod 65536 + k div 65536 = 0") auto
  show "0 < n \<Longrightarrow> 0 < fold16 n" unfolding fold16_def Let_def by (intro step)
qed

lemma unat_byte_lt: "unat (a :: byte) < 256"
  using unsigned_less [of a] by simp

lemma unat_not16: "unat (NOT w :: 16 word) = 65535 - unat w"
proof -
  have "uint (NOT w) = (- uint w - 1) mod 65536"
    by (subst unsigned_not_eq) (simp add: take_bit_eq_mod not_eq_complement)
  also have "\<dots> = (65535 - uint w) mod 65536" by (subst mod_add_self2 [symmetric]) simp
  also have "\<dots> = 65535 - uint w"
    using unsigned_less [of w, where ?'a = int, simplified] unsigned_greater_eq [of w, where ?'a = int]
    by (intro mod_pos_pos_trivial) linarith+
  finally have "nat (uint (NOT w)) = nat (65535 - uint w)" by (rule arg_cong)
  also have "\<dots> = nat 65535 - nat (uint w)" by (rule nat_diff_distrib') simp_all
  finally show ?thesis by simp
qed

lemma fold16_0 [simp]: "fold16 0 = 0"
  by (simp add: fold16_def)

lemma sum16_le: "sum16 b \<le> 65535 * length b"
proof (induction b rule: sum16.induct)
  case (2 a)
  then show ?case using unat_byte_lt [of a] by simp
next
  case (3 a b rest)
  then show ?case using unat_byte_lt [of a] unat_byte_lt [of b] by simp
qed simp

lemma sum16_put16:
  "Suc (2 * k) < length b \<Longrightarrow> b ! (2 * k) = 0 \<Longrightarrow> b ! Suc (2 * k) = 0 \<Longrightarrow> sum16 (put16 w (2 * k) b) = sum16 b + unat w"
proof (induction b arbitrary: k rule: sum16.induct)
  case (3 a c rest)
  show ?case
  proof (cases k)
    case 0
    have "unat (ucast (drop_bit 8 w) :: byte) * 256 + unat (ucast w :: byte) = unat w"
    proof -
      have "unat w div 256 < 256" using unsigned_less [of w, where ?'a = nat] by (simp add: less_mult_imp_div_less)
      then show ?thesis
        by (simp add: unsigned_ucast_eq unsigned_drop_bit_eq take_bit_eq_mod drop_bit_eq_div [where ?'a = nat])
    qed
    then show ?thesis using 3 0 by (simp add: put16_def)
  next
    case (Suc j)
    then show ?thesis using 3 by (simp add: put16_def)
  qed
qed auto

text \<open>
  A field that holds the complement of the sum over the data with the field zero makes the sum over the data all ones, which
  is what a receiver checks.
\<close>

lemma checksum_filled:
  assumes b: "Suc (2 * k) < length b" "b ! (2 * k) = 0" "b ! Suc (2 * k) = 0" and len: "length b \<le> 65535"
  shows "rfc_checksum (put16 (NOT (rfc_checksum b 0)) (2 * k) b) 0 = 0xffff"
proof -
  define n where "n = sum16 b"
  define r where "r = fold16 (fold16 n)"
  have n: "n \<le> 65535 * 65535" using sum16_le [of b] len unfolding n_def by (meson le_trans mult_le_mono2)
  have f: "fold16 n \<le> 65535" using fold16_le n by simp
  have r: "r \<le> 65535" "r mod 65535 = n mod 65535" "n = 0 \<longrightarrow> r = 0"
    using fold16_le [of "fold16 n"] f by (simp_all add: r_def fold16_mod)
  have c: "unat (NOT (rfc_checksum b 0)) = 65535 - r"
  proof -
    have "unat (rfc_checksum b 0) = r" using r(1) by (simp add: rfc_checksum_def n_def r_def unat_of_nat take_bit_nat_eq_self)
    then show ?thesis by (simp add: unat_not16)
  qed
  define m where "m = n + (65535 - r)"
  have "m mod 65535 = 0"
  proof -
    have "(m + r) mod 65535 = (n + 65535) mod 65535" using r(1) by (simp add: m_def)
    then have "(m + r) mod 65535 = r mod 65535" using r(2) by simp
    then show ?thesis using mod_eq_dvd_iff_nat [of r "m + r" 65535] by (simp add: dvd_eq_mod_eq_0)
  qed
  moreover have "0 < m" using r unfolding m_def by (cases "n = 0") auto
  moreover have "m < 2 ^ 32" using n by (simp add: m_def)
  ultimately have "fold16 (fold16 m) mod 65535 = 0" "0 < fold16 (fold16 m)" "fold16 (fold16 m) \<le> 65535"
    using fold16_le [of m] fold16_le [of "fold16 m"] by (simp_all add: fold16_mod fold16_pos)
  then have "fold16 (fold16 m) = 65535" by (cases "fold16 (fold16 m) < 65535") simp_all
  then show ?thesis
    using sum16_put16 [OF b, of "NOT (rfc_checksum b 0)"] c by (simp add: rfc_checksum_def m_def n_def)
qed

end
