(* ===== verification/Log_Buffer.thy ===== *)
theory Log_Buffer
  imports Newt_Prelude
begin

text \<open>
  The buffering contract shared by the access logger and the HTTP request logger: entries are
  appended, a flush drains the buffer under the lock, sends outside the lock, and puts a batch that could not be sent back
  in front of what arrived meanwhile, cut to a fixed capacity.
\<close>

text \<open>How the part of a flush outside the lock ends.\<close>

datatype send_outcome = CompressError | SendError | Sent

definition maxBufferedSessions :: nat where
  "maxBufferedSessions = 100"

definition requeueCap :: nat where
  "requeueCap = maxBufferedSessions * 5"

lemma requeueCap_500 [simp]: "requeueCap = 500"
  by (simp add: requeueCap_def maxBufferedSessions_def)

locale log_buffer =
  fixes pending :: "'s \<Rightarrow> 'e list"
    and push :: "'e \<Rightarrow> 's \<Rightarrow> 's"
    and drain :: "'s \<Rightarrow> 's"
    and requeue :: "'e list \<Rightarrow> 's \<Rightarrow> 's"
  assumes pending_push: "pending (push e s) = pending s @ [e]"
    and pending_drain: "pending (drain s) = []"
    and pending_requeue: "pending (requeue b s) = take requeueCap (b @ pending s)"
begin

lemma pending_pushes: "pending (foldl (\<lambda>s e. push e s) s es) = pending s @ es"
  by (induction es arbitrary: s) (simp_all add: pending_push)

text \<open>A failed flush during which \<open>es\<close> arrive: the batch is kept first, the newest entries are cut.\<close>

lemma failed_flush:
  "pending (requeue b (foldl (\<lambda>s e. push e s) (drain s) es)) = take requeueCap (b @ es)"
  by (simp add: pending_requeue pending_pushes pending_drain)

lemma failed_flush_bound: "length (pending (requeue b s)) \<le> requeueCap"
  by (simp add: pending_requeue)

lemma failed_flush_lossless:
  "length b + length es \<le> requeueCap \<Longrightarrow>
   pending (requeue b (foldl (\<lambda>s e. push e s) (drain s) es)) = b @ es"
  by (simp add: failed_flush)

lemma failed_flush_drops_newest:
  "requeueCap \<le> length b \<Longrightarrow>
   pending (requeue b (foldl (\<lambda>s e. push e s) (drain s) es)) = take requeueCap b"
  by (simp add: failed_flush)

end

end
