(* ===== verification/Access_Log.thy ===== *)
theory Access_Log
  imports Go_Strings Log_Buffer "HOL-Library.Multiset"
begin

text \<open>
  The access logger (\<open>netstack2/access_log.go\<close>): active sessions, the de-duplication table of UDP
  sessions, the buffer of completed sessions, their consolidation, and the flush.

  Instants are nanoseconds since Go's zero time, so \<open>IsZero t\<close> is \<open>t = 0\<close>.  The
  two tables of the code share session objects by pointer: the model has a store \<open>al_heap\<close> from pointers to sessions, and the
  tables hold pointers.  A session in the buffer is never written again, so the
  buffer holds values.  Byte counters are 64-bit words.

  The clock reading, the random session id, and the result of compressing and sending are arguments.  Go fixes
  neither the order of a \<open>range\<close> over a map nor the order of equal elements in \<open>sort.Slice\<close>:
  both are functions (\<open>rng\<close>, \<open>srt\<close>) constrained by the locale \<open>go_order\<close>.
\<close>

section \<open>Data\<close>

record access_session =
  as_SessionID :: string
  as_ResourceID :: int
  as_SourceAddr :: string
  as_DestAddr :: string
  as_Protocol :: string
  as_StartedAt :: instant
  as_EndedAt :: instant
  as_BytesTx :: "64 word"
  as_BytesRx :: "64 word"
  as_ConnectionCount :: int

abbreviation IsZero :: "instant \<Rightarrow> bool" where
  "IsZero t \<equiv> t = 0"

type_synonym udpSessionKey = "string \<times> string \<times> string"

record consolidationKey =
  ck_sourceIP :: string
  ck_destAddr :: string
  ck_protocol :: string
  ck_resourceID :: int

type_synonym ptr = nat

record access_logger =
  al_heap :: "(ptr, access_session) gomap"
  al_next :: ptr
  al_sessions :: "(string, ptr) gomap"
  al_udpSessions :: "(udpSessionKey, ptr) gomap"
  al_completed :: "access_session list"
  al_udpTimeout :: int
  al_sendFn :: bool
  al_stopped :: bool

definition sessionGapThreshold :: int where
  "sessionGapThreshold = 5 * second"

definition minConnectionsToConsolidate :: nat where
  "minConnectionsToConsolidate = 2"

section \<open>Consolidation\<close>

definition extractIP :: "string \<Rightarrow> string" where
  "extractIP addr = (case split_host_port addr of None \<Rightarrow> addr | Some (host, _) \<Rightarrow> host)"

definition sessionKey :: "access_session \<Rightarrow> consolidationKey" where
  "sessionKey s = \<lparr>ck_sourceIP = extractIP (as_SourceAddr s), ck_destAddr = as_DestAddr s,
     ck_protocol = as_Protocol s, ck_resourceID = as_ResourceID s\<rparr>"

definition cloneSession :: "access_session \<Rightarrow> access_session" where
  "cloneSession s = s"

definition finalizeMergedSourceAddr ::
  "access_session \<Rightarrow> string \<Rightarrow> (string, unit) gomap \<Rightarrow> access_session" where
  "finalizeMergedSourceAddr s sourceIP ports =
     (if length ports > 1 then s\<lparr>as_SourceAddr := sourceIP\<rparr> else s)"

definition groupSessions :: "access_session list \<Rightarrow> (consolidationKey, access_session list) gomap" where
  "groupSessions sessions =
     foldl (\<lambda>groups s. mput (sessionKey s)
        (case map_of groups (sessionKey s) of None \<Rightarrow> [s] | Some g \<Rightarrow> g @ [s]) groups) [] sessions"

text \<open>The end of the gap measurement and the end of a merged connection.\<close>

definition endRef :: "access_session \<Rightarrow> instant" where
  "endRef s = (if IsZero (as_EndedAt s) then as_StartedAt s else as_EndedAt s)"

definition mergeInto :: "access_session \<Rightarrow> access_session \<Rightarrow> access_session" where
  "mergeInto cur s =
     (let cur = cur\<lparr>as_ConnectionCount := as_ConnectionCount cur + 1,
                    as_BytesTx := as_BytesTx cur + as_BytesTx s,
                    as_BytesRx := as_BytesRx cur + as_BytesRx s\<rparr>;
          endTime = endRef s
      in if endTime > as_EndedAt cur then cur\<lparr>as_EndedAt := endTime\<rparr> else cur)"

definition startRun :: "access_session \<Rightarrow> access_session" where
  "startRun s = (cloneSession s)\<lparr>as_ConnectionCount := 1\<rparr>"

fun mergeLoop ::
  "string \<Rightarrow> access_session \<Rightarrow> (string, unit) gomap \<Rightarrow> access_session list \<Rightarrow> access_session list" where
  "mergeLoop ip cur sourcePorts [] = [finalizeMergedSourceAddr cur ip sourcePorts]"
| "mergeLoop ip cur sourcePorts (s # rest) =
     (let gap = as_StartedAt s - endRef cur in
      if gap \<le> sessionGapThreshold
      then mergeLoop ip (mergeInto cur s) (mput (as_SourceAddr s) () sourcePorts) rest
      else finalizeMergedSourceAddr cur ip sourcePorts #
           mergeLoop ip (startRun s) [(as_SourceAddr s, ())] rest)"

definition consolidateGroup ::
  "(access_session list \<Rightarrow> access_session list) \<Rightarrow> consolidationKey \<Rightarrow> access_session list \<Rightarrow> access_session list" where
  "consolidateGroup srt key grp =
     (if length grp < minConnectionsToConsolidate then grp
      else (case srt grp of
              [] \<Rightarrow> []
            | s # rest \<Rightarrow> mergeLoop (ck_sourceIP key) (startRun s) [(as_SourceAddr s, ())] rest))"

type_synonym group_order =
  "(consolidationKey, access_session list) gomap \<Rightarrow> (consolidationKey, access_session list) gomap"

definition consolidateSessions ::
  "group_order \<Rightarrow> (access_session list \<Rightarrow> access_session list) \<Rightarrow>
     access_session list \<Rightarrow> access_session list" where
  "consolidateSessions rng srt sessions =
     (if length sessions \<le> 1 then sessions
      else concat (map (\<lambda>(key, grp). consolidateGroup srt key grp) (rng (groupSessions sessions))))"

section \<open>The logger\<close>

definition NewAccessLogger :: "int \<Rightarrow> access_logger" where
  "NewAccessLogger udpTimeout = \<lparr>al_heap = [], al_next = 0, al_sessions = [], al_udpSessions = [],
     al_completed = [], al_udpTimeout = udpTimeout, al_sendFn = False, al_stopped = False\<rparr>"

definition SetSendFunc :: "bool \<Rightarrow> access_logger \<Rightarrow> access_logger" where
  "SetSendFunc fn al = al\<lparr>al_sendFn := fn\<rparr>"

definition newSession :: "string \<Rightarrow> int \<Rightarrow> string \<Rightarrow> string \<Rightarrow> string \<Rightarrow> instant \<Rightarrow> access_session" where
  "newSession sid rid src dst prot now = \<lparr>as_SessionID = sid, as_ResourceID = rid, as_SourceAddr = src,
     as_DestAddr = dst, as_Protocol = prot, as_StartedAt = now, as_EndedAt = 0,
     as_BytesTx = 0, as_BytesRx = 0, as_ConnectionCount = 0\<rparr>"

definition allocSession :: "access_session \<Rightarrow> access_logger \<Rightarrow> ptr \<times> access_logger" where
  "allocSession s al = (al_next al, al\<lparr>al_heap := mput (al_next al) s (al_heap al), al_next := al_next al + 1\<rparr>)"

definition StartTCPSession ::
  "string \<Rightarrow> instant \<Rightarrow> int \<Rightarrow> string \<Rightarrow> string \<Rightarrow> access_logger \<Rightarrow> string \<times> access_logger" where
  "StartTCPSession sid now resourceID srcAddr dstAddr al =
     (let (p, al) = allocSession (newSession sid resourceID srcAddr dstAddr ''tcp'' now) al
      in (sid, al\<lparr>al_sessions := mput sid p (al_sessions al)\<rparr>))"

definition TrackUDPSession ::
  "string \<Rightarrow> instant \<Rightarrow> int \<Rightarrow> string \<Rightarrow> string \<Rightarrow> access_logger \<Rightarrow> string \<times> access_logger" where
  "TrackUDPSession sid now resourceID srcAddr dstAddr al =
     (let key = (srcAddr, dstAddr, ''udp'')
      in case map_of (al_udpSessions al) key of
           Some p \<Rightarrow> (as_SessionID (the (map_of (al_heap al) p)), al)
         | None \<Rightarrow>
             (let (p, al) = allocSession (newSession sid resourceID srcAddr dstAddr ''udp'' now) al
              in (sid, al\<lparr>al_sessions := mput sid p (al_sessions al),
                         al_udpSessions := mput key p (al_udpSessions al)\<rparr>)))"

text \<open>The three steps of a flush: drain under the lock, work outside it, put back under the lock.\<close>

definition drainCompleted :: "access_logger \<Rightarrow> access_logger" where
  "drainCompleted al = al\<lparr>al_completed := []\<rparr>"

definition requeueCompleted :: "access_session list \<Rightarrow> access_logger \<Rightarrow> access_logger" where
  "requeueCompleted batch al =
     (let completed = batch @ al_completed al
      in al\<lparr>al_completed := if length completed > requeueCap then take requeueCap completed else completed\<rparr>)"

definition pushCompleted :: "access_session \<Rightarrow> access_logger \<Rightarrow> access_logger" where
  "pushCompleted s al = al\<lparr>al_completed := al_completed al @ [s]\<rparr>"

definition flush ::
  "group_order \<Rightarrow> (access_session list \<Rightarrow> access_session list) \<Rightarrow> send_outcome \<Rightarrow>
     access_logger \<Rightarrow> access_logger \<times> access_session list option" where
  "flush rng srt out al =
     (if al_completed al = [] then (al, None)
      else let batch = al_completed al; al = drainCompleted al in
        if \<not> al_sendFn al then (al, None)
        else let batch = consolidateSessions rng srt batch in
          case out of
            CompressError \<Rightarrow> (al, None)
          | SendError \<Rightarrow> (requeueCompleted batch al, None)
          | Sent \<Rightarrow> (al, Some batch))"

definition flushIfFull ::
  "group_order \<Rightarrow> (access_session list \<Rightarrow> access_session list) \<Rightarrow> send_outcome \<Rightarrow>
     access_logger \<Rightarrow> access_logger \<times> access_session list option" where
  "flushIfFull rng srt out al =
     (if length (al_completed al) \<ge> maxBufferedSessions then flush rng srt out al else (al, None))"

text \<open>\<open>session.EndedAt = now\<close> through the pointer.\<close>

definition endSession :: "ptr \<Rightarrow> instant \<Rightarrow> access_logger \<Rightarrow> access_logger" where
  "endSession p now al =
     (let s = (the (map_of (al_heap al) p))\<lparr>as_EndedAt := now\<rparr>
      in pushCompleted s (al\<lparr>al_heap := mput p s (al_heap al)\<rparr>))"

definition EndTCPSession ::
  "group_order \<Rightarrow> (access_session list \<Rightarrow> access_session list) \<Rightarrow> send_outcome \<Rightarrow>
     instant \<Rightarrow> string \<Rightarrow> access_logger \<Rightarrow> access_logger \<times> access_session list option" where
  "EndTCPSession rng srt out now sessionID al =
     flushIfFull rng srt out
       (case map_of (al_sessions al) sessionID of
          None \<Rightarrow> al
        | Some p \<Rightarrow> endSession p now (al\<lparr>al_sessions := mdel sessionID (al_sessions al)\<rparr>))"

definition EndUDPSession ::
  "group_order \<Rightarrow> (access_session list \<Rightarrow> access_session list) \<Rightarrow> send_outcome \<Rightarrow>
     instant \<Rightarrow> string \<Rightarrow> access_logger \<Rightarrow> access_logger \<times> access_session list option" where
  "EndUDPSession rng srt out now sessionID al =
     flushIfFull rng srt out
       (case map_of (al_sessions al) sessionID of
          None \<Rightarrow> al
        | Some p \<Rightarrow>
            (let s = the (map_of (al_heap al) p)
             in endSession p now
                  (al\<lparr>al_sessions := mdel sessionID (al_sessions al),
                      al_udpSessions := mdel (as_SourceAddr s, as_DestAddr s, ''udp'') (al_udpSessions al)\<rparr>)))"

definition staleAfter :: int where
  "staleAfter = 5 * 60 * second"

definition reapOne :: "instant \<Rightarrow> access_logger \<Rightarrow> udpSessionKey \<times> ptr \<Rightarrow> access_logger" where
  "reapOne now al = (\<lambda>(key, p).
     let s = the (map_of (al_heap al) p) in
     if as_StartedAt s < now - staleAfter \<and> IsZero (as_EndedAt s)
     then (endSession p now al)\<lparr>al_sessions := mdel (as_SessionID s) (al_sessions al),
                                al_udpSessions := mdel key (al_udpSessions al)\<rparr>
     else al)"

definition reapStaleSessions :: "instant \<Rightarrow> access_logger \<Rightarrow> access_logger" where
  "reapStaleSessions now al = foldl (reapOne now) al (al_udpSessions al)"

definition closeOne :: "instant \<Rightarrow> access_logger \<Rightarrow> string \<times> ptr \<Rightarrow> access_logger" where
  "closeOne now al = (\<lambda>(_, p).
     if IsZero (as_EndedAt (the (map_of (al_heap al) p))) then endSession p now al else al)"

definition CloseLogger ::
  "group_order \<Rightarrow> (access_session list \<Rightarrow> access_session list) \<Rightarrow> send_outcome \<Rightarrow>
     instant \<Rightarrow> access_logger \<Rightarrow> access_logger \<times> access_session list option" where
  "CloseLogger rng srt out now al =
     (if al_stopped al then (al, None)
      else let al = foldl (closeOne now) (al\<lparr>al_stopped := True\<rparr>) (al_sessions al)
           in flush rng srt out (al\<lparr>al_sessions := [], al_udpSessions := []\<rparr>))"

interpretation access_buffer: log_buffer al_completed pushCompleted drainCompleted requeueCompleted
  by unfold_locales (auto simp: pushCompleted_def drainCompleted_def requeueCompleted_def Let_def)

section \<open>What consolidation keeps\<close>

text \<open>A session counts for one connection unless it records more.\<close>

definition connections :: "access_session \<Rightarrow> int" where
  "connections s = (if as_ConnectionCount s = 0 then 1 else as_ConnectionCount s)"

definition timesOK :: "access_session \<Rightarrow> bool" where
  "timesOK s \<longleftrightarrow> 0 < as_StartedAt s \<and> (IsZero (as_EndedAt s) \<or> as_StartedAt s \<le> as_EndedAt s)"

locale go_order =
  fixes rng :: group_order
    and srt :: "access_session list \<Rightarrow> access_session list"
  assumes rng_perm: "mset (rng m) = mset m"
    and srt_perm: "mset (srt g) = mset g"
    and srt_sorted: "sorted (map as_StartedAt (srt g))"

lemma finalize_fields [simp]:
  "as_BytesTx (finalizeMergedSourceAddr s ip ps) = as_BytesTx s"
  "as_BytesRx (finalizeMergedSourceAddr s ip ps) = as_BytesRx s"
  "as_ConnectionCount (finalizeMergedSourceAddr s ip ps) = as_ConnectionCount s"
  "as_StartedAt (finalizeMergedSourceAddr s ip ps) = as_StartedAt s"
  "as_EndedAt (finalizeMergedSourceAddr s ip ps) = as_EndedAt s"
  "as_DestAddr (finalizeMergedSourceAddr s ip ps) = as_DestAddr s"
  "endRef (finalizeMergedSourceAddr s ip ps) = endRef s"
  by (simp_all add: finalizeMergedSourceAddr_def endRef_def)

lemma mergeInto_fields [simp]:
  "as_BytesTx (mergeInto c s) = as_BytesTx c + as_BytesTx s"
  "as_BytesRx (mergeInto c s) = as_BytesRx c + as_BytesRx s"
  "as_ConnectionCount (mergeInto c s) = as_ConnectionCount c + 1"
  "as_StartedAt (mergeInto c s) = as_StartedAt c"
  "as_EndedAt (mergeInto c s) = max (as_EndedAt c) (endRef s)"
  by (simp_all add: mergeInto_def Let_def)

lemma startRun_fields [simp]:
  "as_BytesTx (startRun s) = as_BytesTx s" "as_BytesRx (startRun s) = as_BytesRx s"
  "as_ConnectionCount (startRun s) = 1" "as_StartedAt (startRun s) = as_StartedAt s"
  "as_EndedAt (startRun s) = as_EndedAt s" "endRef (startRun s) = endRef s"
  by (simp_all add: startRun_def cloneSession_def endRef_def)

lemma mergeLoop_sums:
  "sum_list (map as_BytesTx (mergeLoop ip c ps ss)) = as_BytesTx c + sum_list (map as_BytesTx ss)"
  "sum_list (map as_BytesRx (mergeLoop ip c ps ss)) = as_BytesRx c + sum_list (map as_BytesRx ss)"
  "sum_list (map as_ConnectionCount (mergeLoop ip c ps ss)) = as_ConnectionCount c + int (length ss)"
  by (induction ip c ps ss rule: mergeLoop.induct) (simp_all add: Let_def add.assoc)

lemma mergeLoop_count_pos:
  "0 < as_ConnectionCount c \<Longrightarrow> o' \<in> set (mergeLoop ip c ps ss) \<Longrightarrow> 0 < as_ConnectionCount o'"
  by (induction ip c ps ss rule: mergeLoop.induct) (auto simp: Let_def split: if_splits)

lemma mergeLoop_connections:
  assumes "0 < as_ConnectionCount c"
  shows "sum_list (map connections (mergeLoop ip c ps ss)) = as_ConnectionCount c + int (length ss)"
proof -
  have "map connections (mergeLoop ip c ps ss) = map as_ConnectionCount (mergeLoop ip c ps ss)"
    by (intro map_cong refl) (use mergeLoop_count_pos [OF assms] in \<open>fastforce simp: connections_def\<close>)
  then show ?thesis by (simp only: mergeLoop_sums)
qed

lemma mergeLoop_hd_start: "as_StartedAt (hd (mergeLoop ip c ps ss)) = as_StartedAt c"
  by (induction ip c ps ss rule: mergeLoop.induct) (simp_all add: Let_def)

lemma mergeLoop_not_Nil [simp]: "mergeLoop ip c ps ss \<noteq> []"
  by (induction ip c ps ss rule: mergeLoop.induct) (simp_all add: Let_def)

lemma mergeLoop_gaps:
  "successively (\<lambda>a b. sessionGapThreshold < as_StartedAt b - endRef a) (mergeLoop ip c ps ss)"
proof (induction ip c ps ss rule: mergeLoop.induct)
  case (2 ip c ps s rest)
  then show ?case
    by (cases "mergeLoop ip (startRun s) [(as_SourceAddr s, ())] rest")
      (use mergeLoop_hd_start [of ip "startRun s" "[(as_SourceAddr s, ())]" rest] in \<open>auto simp: Let_def\<close>)
qed simp

lemma endRef_mergeInto:
  assumes "timesOK c" "timesOK s" "as_StartedAt c \<le> as_StartedAt s"
  shows "endRef (mergeInto c s) = max (endRef c) (endRef s)" "timesOK (mergeInto c s)"
  using assms by (auto simp: endRef_def timesOK_def max_def)

lemma mergeLoop_covers:
  assumes "timesOK c" "list_all timesOK ss" "sorted (map as_StartedAt (c # ss))" "x \<in> set (c # ss)"
  shows "\<exists>o'\<in>set (mergeLoop ip c ps ss). as_StartedAt o' \<le> as_StartedAt x \<and> endRef x \<le> endRef o'"
  using assms
proof (induction ip c ps ss arbitrary: x rule: mergeLoop.induct)
  case (1 ip c ps)
  then show ?case by simp
next
  case (2 ip c ps s rest)
  let ?t = "as_StartedAt s - endRef c \<le> sessionGapThreshold"
  have ok: "timesOK s" "list_all timesOK rest" "sorted (map as_StartedAt rest)" "as_StartedAt c \<le> as_StartedAt s"
      "\<forall>r\<in>set rest. as_StartedAt s \<le> as_StartedAt r"
    using "2.prems" by auto
  note m = endRef_mergeInto [OF "2.prems"(1) ok(1,4)]
  show ?case
  proof (cases ?t)
    case True
    have so: "sorted (map as_StartedAt (mergeInto c s # rest))" using ok by auto
    define y where "y = (if x \<in> set rest then x else mergeInto c s)"
    have "y \<in> set (mergeInto c s # rest)" by (simp add: y_def)
    with "2.IH"(1) [OF refl True m(2) ok(2) so] obtain o' where
      o': "o' \<in> set (mergeLoop ip (mergeInto c s) (mput (as_SourceAddr s) () ps) rest)"
        "as_StartedAt o' \<le> as_StartedAt y" "endRef y \<le> endRef o'" by blast
    have "as_StartedAt y \<le> as_StartedAt x" "endRef x \<le> endRef y"
      using "2.prems"(4) ok(4) m(1) by (auto simp: y_def)
    then show ?thesis using o' True by (auto simp: Let_def intro!: bexI [of _ o'])
  next
    case False
    have so: "sorted (map as_StartedAt (startRun s # rest))" and tk: "timesOK (startRun s)"
      using ok by (auto simp: timesOK_def)
    show ?thesis
    proof (cases "x = c")
      case True
      then show ?thesis using False by (simp add: Let_def)
    next
      case neq: False
      define y where "y = (if x \<in> set rest then x else startRun s)"
      have "y \<in> set (startRun s # rest)" by (simp add: y_def)
      with "2.IH"(2) [OF refl False tk ok(2) so] obtain o' where
        o': "o' \<in> set (mergeLoop ip (startRun s) [(as_SourceAddr s, ())] rest)"
          "as_StartedAt o' \<le> as_StartedAt y" "endRef y \<le> endRef o'" by blast
      have "as_StartedAt y \<le> as_StartedAt x" "endRef x \<le> endRef y"
        using "2.prems"(4) neq by (auto simp: y_def)
      then show ?thesis using o' False by (auto simp: Let_def intro!: bexI [of _ o'])
    qed
  qed
qed

section \<open>Grouping\<close>

lemma groupSessions_snoc:
  "groupSessions (ss @ [s]) = mput (sessionKey s)
     (case map_of (groupSessions ss) (sessionKey s) of None \<Rightarrow> [s] | Some g \<Rightarrow> g @ [s]) (groupSessions ss)"
  by (simp add: groupSessions_def)

lemma distinct_groups: "distinct (mkeys (groupSessions ss))"
  by (induction ss rule: rev_induct) (simp add: groupSessions_def, simp only: groupSessions_snoc distinct_mput)

lemma groups_content:
  "map_of (groupSessions ss) k =
     (let g = filter (\<lambda>s. sessionKey s = k) ss in if g = [] then None else Some g)"
proof (induction ss rule: rev_induct)
  case (snoc s ss)
  then show ?case by (auto simp: groupSessions_snoc Let_def)
qed (simp add: groupSessions_def)

lemma sum_mput:
  fixes f :: "'v \<Rightarrow> 'b::ab_group_add"
  assumes "distinct (mkeys m)"
  shows "(\<Sum>(k, g)\<leftarrow>mput k' v m. f g)
       = (\<Sum>(k, g)\<leftarrow>m. f g) - (case map_of m k' of None \<Rightarrow> 0 | Some g \<Rightarrow> f g) + f v"
  using assms by (induction m) (auto simp: algebra_simps split: option.split)

lemma groups_sum:
  fixes f :: "access_session \<Rightarrow> 'b::ab_group_add"
  shows "(\<Sum>(k, g)\<leftarrow>groupSessions ss. sum_list (map f g)) = sum_list (map f ss)"
proof (induction ss rule: rev_induct)
  case (snoc s ss)
  then show ?case
    by (simp add: groupSessions_snoc sum_mput [OF distinct_groups, where f = "\<lambda>g. sum_list (map f g)"]
        algebra_simps split: option.split)
qed (simp add: groupSessions_def)

lemma sum_list_mset_eq:
  fixes f :: "'a \<Rightarrow> 'b::comm_monoid_add"
  shows "mset xs = mset ys \<Longrightarrow> sum_list (map f xs) = sum_list (map f ys)"
  by (metis mset_map sum_mset_sum_list)

context go_order
begin

lemma group_sum_by:
  assumes "\<And>k g. g \<noteq> [] \<Longrightarrow> g \<in> snd ` set (groupSessions ss) \<Longrightarrow> sum_list (map f (consolidateGroup srt k g)) = sum_list (map f' g)"
    and "length ss > 1"
  shows "sum_list (map f (consolidateSessions rng srt ss)) = (sum_list (map f' ss) :: 'b::ab_group_add)"
proof -
  let ?m = "groupSessions ss"
  have ne: "g \<noteq> []" if "(k, g) \<in> set ?m" for k g
    using groups_content [of ss k] that distinct_groups [of ss] by (auto simp: Let_def split: if_splits)
  have "sum_list (map f (consolidateSessions rng srt ss))
      = (\<Sum>(k, g)\<leftarrow>rng ?m. sum_list (map f (consolidateGroup srt k g)))"
    using assms(2) by (simp add: consolidateSessions_def sum_list_concat_map comp_def case_prod_unfold)
  also have "\<dots> = (\<Sum>(k, g)\<leftarrow>?m. sum_list (map f (consolidateGroup srt k g)))"
    by (rule sum_list_mset_eq [OF rng_perm])
  also have "\<dots> = (\<Sum>(k, g)\<leftarrow>?m. sum_list (map f' g))"
  proof (intro arg_cong [where f = sum_list] map_cong refl)
    fix x assume "x \<in> set ?m"
    then have "snd x \<noteq> []" "snd x \<in> snd ` set ?m" using ne [of "fst x" "snd x"] by simp_all
    then show "(case x of (k, g) \<Rightarrow> sum_list (map f (consolidateGroup srt k g)))
        = (case x of (k, g) \<Rightarrow> sum_list (map f' g))"
      using assms(1) by (simp add: case_prod_unfold)
  qed
  finally show ?thesis by (simp add: groups_sum)
qed

lemma srt_Cons:
  assumes "minConnectionsToConsolidate \<le> length g"
  obtains s rest where "srt g = s # rest" "mset (s # rest) = mset g"
  using srt_perm [of g] assms by (cases "srt g") (auto simp: minConnectionsToConsolidate_def)

lemma group_bytes:
  "sum_list (map as_BytesTx (consolidateGroup srt k g)) = sum_list (map as_BytesTx g)" (is ?T)
  "sum_list (map as_BytesRx (consolidateGroup srt k g)) = sum_list (map as_BytesRx g)" (is ?R)
proof -
  have "?T \<and> ?R"
  proof (cases "length g < minConnectionsToConsolidate")
    case False
    then obtain s rest where s: "srt g = s # rest" "mset (s # rest) = mset g"
      using srt_Cons [of g] by auto
    note sum_list_mset_eq [OF s(2), of as_BytesTx] sum_list_mset_eq [OF s(2), of as_BytesRx]
    then show ?thesis using False s(1) by (simp add: consolidateGroup_def mergeLoop_sums)
  qed (simp add: consolidateGroup_def)
  then show ?T ?R by simp_all
qed

lemma group_connections:
  assumes "\<And>s. s \<in> set g \<Longrightarrow> as_ConnectionCount s = 0"
  shows "sum_list (map connections (consolidateGroup srt k g)) = int (length g)"
proof (cases "length g < minConnectionsToConsolidate")
  case True
  have "sum_list (map connections g) = int (length g)"
    by (rule sum_list_const) (simp add: assms connections_def)
  then show ?thesis using True by (simp add: consolidateGroup_def)
next
  case False
  then obtain s rest where s: "srt g = s # rest" "mset (s # rest) = mset g"
    using srt_Cons [of g] by auto
  then have "length g = Suc (length rest)" by (metis length_Cons mset_eq_length)
  then show ?thesis using False s by (simp add: consolidateGroup_def mergeLoop_connections)
qed

end

definition sameService :: "access_session \<Rightarrow> access_session \<Rightarrow> bool" where
  "sameService a b \<longleftrightarrow> as_DestAddr a = as_DestAddr b \<and> as_Protocol a = as_Protocol b \<and> as_ResourceID a = as_ResourceID b"

lemma sameService_simps [simp]:
  "sameService (finalizeMergedSourceAddr s ip ps) x = sameService s x"
  "sameService (mergeInto s t) x = sameService s x"
  "sameService (startRun s) x = sameService s x"
  "sameService s s"
  by (simp_all add: sameService_def finalizeMergedSourceAddr_def mergeInto_def Let_def startRun_def cloneSession_def)

lemma mergeLoop_service:
  "sameService c x \<Longrightarrow> (\<And>s. s \<in> set ss \<Longrightarrow> sameService s x) \<Longrightarrow> o' \<in> set (mergeLoop ip c ps ss) \<Longrightarrow> sameService o' x"
  by (induction ip c ps ss rule: mergeLoop.induct) (auto simp: Let_def split: if_splits)

lemma sessionKey_service: "sessionKey a = sessionKey b \<Longrightarrow> sameService a b"
  by (simp add: sessionKey_def sameService_def)

context go_order
begin

lemma group_covers:
  assumes g: "\<And>s. s \<in> set g \<Longrightarrow> timesOK s \<and> sameService s x" and x: "x \<in> set g"
  shows "\<exists>o'\<in>set (consolidateGroup srt k g). sameService o' x \<and> as_StartedAt o' \<le> as_StartedAt x \<and> endRef x \<le> endRef o'"
proof (cases "length g < minConnectionsToConsolidate")
  case True
  then show ?thesis using x by (auto simp: consolidateGroup_def intro!: bexI [of _ x])
next
  case False
  then obtain s rest where s: "srt g = s # rest" "mset (s # rest) = mset g"
    using srt_Cons [of g] by auto
  then have mem: "set (s # rest) = set g" by (metis set_mset_mset)
  have so: "sorted (map as_StartedAt (startRun s # rest))" using srt_sorted [of g] s(1) by simp
  have ok: "timesOK (startRun s)" "list_all timesOK rest" "sameService (startRun s) x"
      "\<And>t. t \<in> set rest \<Longrightarrow> sameService t x"
    using g mem by (auto simp: list_all_iff timesOK_def)
  define y where "y = (if x \<in> set rest then x else startRun s)"
  have y: "y \<in> set (startRun s # rest)" "as_StartedAt y = as_StartedAt x" "endRef y = endRef x"
    using x mem by (auto simp: y_def)
  obtain o' where "o' \<in> set (mergeLoop (ck_sourceIP k) (startRun s) [(as_SourceAddr s, ())] rest)"
      "as_StartedAt o' \<le> as_StartedAt x" "endRef x \<le> endRef o'"
    using mergeLoop_covers [OF ok(1,2) so y(1)] y(2,3) by metis
  moreover from this have "sameService o' x" using mergeLoop_service [OF ok(3,4)] by blast
  ultimately show ?thesis using False s(1) by (auto simp: consolidateGroup_def)
qed

lemma group_gaps:
  assumes "minConnectionsToConsolidate \<le> length g"
  shows "successively (\<lambda>a b. sessionGapThreshold < as_StartedAt b - endRef a) (consolidateGroup srt k g)"
  using assms mergeLoop_gaps by (auto simp: consolidateGroup_def split: list.split)

lemma consolidate_bytes:
  "sum_list (map as_BytesTx (consolidateSessions rng srt ss)) = sum_list (map as_BytesTx ss)"
  "sum_list (map as_BytesRx (consolidateSessions rng srt ss)) = sum_list (map as_BytesRx ss)"
  by (cases "length ss > 1", simp add: group_sum_by [where f' = as_BytesTx] group_bytes,
      simp add: consolidateSessions_def)
    (cases "length ss > 1", simp add: group_sum_by [where f' = as_BytesRx] group_bytes,
      simp add: consolidateSessions_def)

lemma group_members: "g \<in> snd ` set (groupSessions ss) \<Longrightarrow> set g \<subseteq> set ss"
proof -
  assume "g \<in> snd ` set (groupSessions ss)"
  then obtain k where "map_of (groupSessions ss) k = Some g"
    using distinct_groups [of ss] by auto
  then show ?thesis by (auto simp: groups_content Let_def split: if_splits)
qed

lemma consolidate_connections:
  assumes "\<And>s. s \<in> set ss \<Longrightarrow> as_ConnectionCount s = 0"
  shows "sum_list (map connections (consolidateSessions rng srt ss)) = int (length ss)"
proof (cases "length ss > 1")
  case True
  have "sum_list (map connections (consolidateSessions rng srt ss)) = sum_list (map (\<lambda>_. 1) ss)"
  proof (rule group_sum_by [OF _ True])
    fix k g assume "g \<in> snd ` set (groupSessions ss)"
    then have "sum_list (map connections (consolidateGroup srt k g)) = int (length g)"
      using group_members assms by (intro group_connections) blast
    then show "sum_list (map connections (consolidateGroup srt k g)) = sum_list (map (\<lambda>_. 1) g)"
      by (simp add: sum_list_triv)
  qed
  then show ?thesis by (simp add: sum_list_triv)
next
  case False
  have "sum_list (map connections ss) = int (length ss)"
    by (rule sum_list_const) (simp add: assms connections_def)
  then show ?thesis using False by (simp add: consolidateSessions_def)
qed

lemma consolidate_covers:
  assumes ok: "\<And>s. s \<in> set ss \<Longrightarrow> timesOK s" and x: "x \<in> set ss"
  shows "\<exists>o'\<in>set (consolidateSessions rng srt ss). sameService o' x \<and> as_StartedAt o' \<le> as_StartedAt x \<and> endRef x \<le> endRef o'"
proof (cases "length ss > 1")
  case True
  let ?g = "filter (\<lambda>s. sessionKey s = sessionKey x) ss"
  have "map_of (groupSessions ss) (sessionKey x) = Some ?g"
    using x by (auto simp: groups_content Let_def filter_empty_conv)
  then have "(sessionKey x, ?g) \<in> set (rng (groupSessions ss))"
    by (metis map_of_SomeD rng_perm set_mset_mset)
  moreover have "\<exists>o'\<in>set (consolidateGroup srt (sessionKey x) ?g).
      sameService o' x \<and> as_StartedAt o' \<le> as_StartedAt x \<and> endRef x \<le> endRef o'"
    by (rule group_covers) (use ok x sessionKey_service in auto)
  ultimately show ?thesis using True by (auto simp: consolidateSessions_def intro!: bexI)
next
  case False
  then show ?thesis using x by (auto simp: consolidateSessions_def intro!: bexI [of _ x])
qed

end

interpretation stable_order: go_order "\<lambda>m. m" "sort_key as_StartedAt"
  by unfold_locales simp_all

section \<open>The invariant of the logger\<close>

declare map_of_eq_Some_iff [simp del] Some_eq_map_of_iff [simp del]

text \<open>
  Every active session is open and filed under its own id; the UDP table holds exactly the active UDP
  sessions, each under its own pair of addresses; every buffered session has an end time.
\<close>

definition session_ok :: "access_logger \<Rightarrow> string \<Rightarrow> ptr \<Rightarrow> access_session \<Rightarrow> bool" where
  "session_ok al sid p s \<longleftrightarrow> p < al_next al \<and> map_of (al_heap al) p = Some s \<and> as_SessionID s = sid \<and>
     IsZero (as_EndedAt s) \<and>
     (as_Protocol s = ''udp'' \<longrightarrow> map_of (al_udpSessions al) (as_SourceAddr s, as_DestAddr s, ''udp'') = Some p)"

definition udp_ok :: "access_logger \<Rightarrow> udpSessionKey \<Rightarrow> ptr \<Rightarrow> access_session \<Rightarrow> bool" where
  "udp_ok al k p s \<longleftrightarrow> map_of (al_heap al) p = Some s \<and> k = (as_SourceAddr s, as_DestAddr s, ''udp'') \<and>
     as_Protocol s = ''udp'' \<and> map_of (al_sessions al) (as_SessionID s) = Some p"

definition al_inv :: "access_logger \<Rightarrow> bool" where
  "al_inv al \<longleftrightarrow>
     distinct (mkeys (al_udpSessions al)) \<and> distinct (mkeys (al_sessions al)) \<and>
     (\<forall>sid p. map_of (al_sessions al) sid = Some p \<longrightarrow> (\<exists>s. session_ok al sid p s)) \<and>
     (\<forall>k p. map_of (al_udpSessions al) k = Some p \<longrightarrow> (\<exists>s. udp_ok al k p s)) \<and>
     (\<forall>s\<in>set (al_completed al). 0 < as_EndedAt s)"

datatype log_call =
    StartTCPCall string instant int string string
  | EndTCPCall instant string send_outcome
  | TrackUDPCall string instant int string string
  | EndUDPCall instant string send_outcome
  | ReapCall instant
  | FlushCall send_outcome
  | CloseCall instant send_outcome
  | SetSendCall bool

primrec log_step ::
  "group_order \<Rightarrow> (access_session list \<Rightarrow> access_session list) \<Rightarrow> access_logger \<Rightarrow> log_call \<Rightarrow> access_logger" where
  "log_step rng srt al (StartTCPCall sid now rid src dst) = snd (StartTCPSession sid now rid src dst al)"
| "log_step rng srt al (EndTCPCall now sid out) = fst (EndTCPSession rng srt out now sid al)"
| "log_step rng srt al (TrackUDPCall sid now rid src dst) = snd (TrackUDPSession sid now rid src dst al)"
| "log_step rng srt al (EndUDPCall now sid out) = fst (EndUDPSession rng srt out now sid al)"
| "log_step rng srt al (ReapCall now) = reapStaleSessions now al"
| "log_step rng srt al (FlushCall out) = fst (flush rng srt out al)"
| "log_step rng srt al (CloseCall now out) = fst (CloseLogger rng srt out now al)"
| "log_step rng srt al (SetSendCall b) = SetSendFunc b al"

text \<open>New ids are fresh, the clock is past the zero time, and each handler ends the kind of session it started.\<close>

definition sessionProto :: "access_logger \<Rightarrow> string \<Rightarrow> string option" where
  "sessionProto al sid =
     (case map_of (al_sessions al) sid of None \<Rightarrow> None
      | Some p \<Rightarrow> map_option as_Protocol (map_of (al_heap al) p))"

primrec log_allowed :: "access_logger \<Rightarrow> log_call \<Rightarrow> bool" where
  "log_allowed al (StartTCPCall sid now rid src dst) = (\<not> mhas (al_sessions al) sid \<and> 0 < now)"
| "log_allowed al (EndTCPCall now sid out) = (sessionProto al sid \<noteq> Some ''udp'' \<and> 0 < now)"
| "log_allowed al (TrackUDPCall sid now rid src dst) = (\<not> mhas (al_sessions al) sid \<and> 0 < now)"
| "log_allowed al (EndUDPCall now sid out) = (sessionProto al sid \<in> {None, Some ''udp''} \<and> 0 < now)"
| "log_allowed al (ReapCall now) = (0 < now)"
| "log_allowed al (FlushCall out) = True"
| "log_allowed al (CloseCall now out) = (0 < now)"
| "log_allowed al (SetSendCall b) = True"

lemma al_inv_session:
  assumes "al_inv al" "map_of (al_sessions al) sid = Some p"
  obtains s where "session_ok al sid p s"
  using assms unfolding al_inv_def by blast

lemma al_inv_udp:
  assumes "al_inv al" "map_of (al_udpSessions al) k = Some p"
  obtains s where "udp_ok al k p s" "session_ok al (as_SessionID s) p s"
proof -
  obtain s where s: "udp_ok al k p s" using assms unfolding al_inv_def by blast
  then have "map_of (al_sessions al) (as_SessionID s) = Some p" by (simp add: udp_ok_def)
  then show thesis using that s al_inv_session [OF assms(1)] by (metis session_ok_def udp_ok_def option.inject)
qed

lemma al_invI:
  assumes "distinct (mkeys (al_udpSessions al))" "distinct (mkeys (al_sessions al))"
    and "\<And>sid p. map_of (al_sessions al) sid = Some p \<Longrightarrow> \<exists>s. session_ok al sid p s"
    and "\<And>k p. map_of (al_udpSessions al) k = Some p \<Longrightarrow> \<exists>s. udp_ok al k p s"
    and "\<And>s. s \<in> set (al_completed al) \<Longrightarrow> 0 < as_EndedAt s"
  shows "al_inv al"
  using assms unfolding al_inv_def by blast

lemma al_inv_parts:
  "al_inv al \<Longrightarrow> distinct (mkeys (al_udpSessions al))"
  "al_inv al \<Longrightarrow> distinct (mkeys (al_sessions al))"
  "al_inv al \<Longrightarrow> s \<in> set (al_completed al) \<Longrightarrow> 0 < as_EndedAt s"
  by (simp_all add: al_inv_def)

lemma new_logger_inv [simp]: "al_inv (NewAccessLogger t)"
  by (simp add: al_inv_def NewAccessLogger_def)

text \<open>Changes that leave the tables and the store alone.\<close>

lemma inv_same_tables:
  assumes "al_inv al" "al_heap al' = al_heap al" "al_next al' = al_next al"
    "al_sessions al' = al_sessions al" "al_udpSessions al' = al_udpSessions al"
    and "\<And>s. s \<in> set (al_completed al') \<Longrightarrow> 0 < as_EndedAt s"
  shows "al_inv al'"
  using assms unfolding al_inv_def session_ok_def udp_ok_def by simp

lemma inv_StartTCP:
  assumes inv: "al_inv al" and f: "map_of (al_sessions al) sid = None"
  shows "al_inv (snd (StartTCPSession sid now rid src dst al))" (is "al_inv ?al")
proof (rule al_invI)
  show "distinct (mkeys (al_udpSessions ?al))" "distinct (mkeys (al_sessions ?al))"
    using al_inv_parts [OF inv] by (simp_all add: StartTCPSession_def allocSession_def)
next
  fix x p assume x: "map_of (al_sessions ?al) x = Some p"
  show "\<exists>s. session_ok ?al x p s"
  proof (cases "x = sid")
    case True
    then show ?thesis using x by (simp add: StartTCPSession_def allocSession_def session_ok_def newSession_def)
  next
    case False
    then have "map_of (al_sessions al) x = Some p" using x by (simp add: StartTCPSession_def allocSession_def)
    then obtain s where "session_ok al x p s" using al_inv_session [OF inv] by blast
    then have "session_ok ?al x p s" by (auto simp: StartTCPSession_def allocSession_def session_ok_def)
    then show ?thesis ..
  qed
next
  fix k p assume k: "map_of (al_udpSessions ?al) k = Some p"
  then have "map_of (al_udpSessions al) k = Some p" by (simp add: StartTCPSession_def allocSession_def)
  then obtain s where "udp_ok al k p s" "session_ok al (as_SessionID s) p s" using al_inv_udp [OF inv] by blast
  then have "udp_ok ?al k p s" using f
    by (auto simp: StartTCPSession_def allocSession_def session_ok_def udp_ok_def)
  then show "\<exists>s. udp_ok ?al k p s" ..
next
  fix s assume "s \<in> set (al_completed ?al)"
  then show "0 < as_EndedAt s" using al_inv_parts(3) [OF inv] by (simp add: StartTCPSession_def allocSession_def)
qed

lemma inv_TrackUDP:
  assumes inv: "al_inv al" and f: "map_of (al_sessions al) sid = None"
  shows "al_inv (snd (TrackUDPSession sid now rid src dst al))"
proof (cases "map_of (al_udpSessions al) (src, dst, ''udp'')")
  case (Some p)
  then show ?thesis using inv by (simp add: TrackUDPSession_def)
next
  case None
  define al' where "al' = snd (TrackUDPSession sid now rid src dst al)"
  have al': "al_heap al' = mput (al_next al) (newSession sid rid src dst ''udp'' now) (al_heap al)"
      "al_next al' = Suc (al_next al)" "al_sessions al' = mput sid (al_next al) (al_sessions al)"
      "al_udpSessions al' = mput (src, dst, ''udp'') (al_next al) (al_udpSessions al)"
      "al_completed al' = al_completed al"
    using None by (simp_all add: al'_def TrackUDPSession_def allocSession_def Let_def)
  have "al_inv al'"
  proof (rule al_invI)
    fix x p assume x: "map_of (al_sessions al') x = Some p"
    show "\<exists>s. session_ok al' x p s"
    proof (cases "x = sid")
      case True
      then show ?thesis using x by (simp add: al' session_ok_def newSession_def)
    next
      case False
      then obtain s where "session_ok al x p s" using x al_inv_session [OF inv] by (auto simp: al')
      then have "session_ok al' x p s" using None by (auto simp: al' session_ok_def)
      then show ?thesis ..
    qed
  next
    fix k p assume k: "map_of (al_udpSessions al') k = Some p"
    show "\<exists>s. udp_ok al' k p s"
    proof (cases "k = (src, dst, ''udp'')")
      case True
      then show ?thesis using k by (simp add: al' udp_ok_def newSession_def)
    next
      case False
      then obtain s where "udp_ok al k p s" "session_ok al (as_SessionID s) p s"
        using k al_inv_udp [OF inv, of k p] by (auto simp: al')
      then have "udp_ok al' k p s" using f by (auto simp: al' udp_ok_def session_ok_def)
      then show ?thesis ..
    qed
  qed (use al_inv_parts [OF inv] in \<open>auto simp: al'\<close>)
  then show ?thesis by (simp add: al'_def)
qed

text \<open>Ending the session behind one pointer, with its entries removed from the tables.\<close>

lemma inv_end:
  assumes inv: "al_inv al" and sid: "map_of (al_sessions al) sid = Some p" and s: "session_ok al sid p s"
    and now: "0 < now"
    and udp: "as_Protocol s = ''udp'' \<Longrightarrow> u = mdel (as_SourceAddr s, as_DestAddr s, ''udp'') (al_udpSessions al)"
      "as_Protocol s \<noteq> ''udp'' \<Longrightarrow> u = al_udpSessions al"
    and al': "al_sessions al' = mdel sid (al_sessions al)" "al_udpSessions al' = u"
      "al_heap al' = mput p (s\<lparr>as_EndedAt := now\<rparr>) (al_heap al)" "al_next al' = al_next al"
      "al_completed al' = al_completed al @ [s\<lparr>as_EndedAt := now\<rparr>]"
  shows "al_inv al'"
proof (rule al_invI)
  have u_old: "map_of (al_udpSessions al) k = Some q \<and> q \<noteq> p" if "map_of u k = Some q" for k q
  proof -
    have k: "map_of (al_udpSessions al) k = Some q" using that udp by (cases "as_Protocol s = ''udp''") (auto split: if_splits)
    obtain t where t: "udp_ok al k q t" using al_inv_udp [OF inv k] by blast
    show ?thesis
    proof (cases "q = p")
      case True
      then have "t = s" using t s by (simp add: udp_ok_def session_ok_def)
      then show ?thesis using t that udp(1) by (simp add: udp_ok_def)
    qed (simp add: k)
  qed
  {
    fix x q assume "map_of (al_sessions al') x = Some q"
    then have x: "x \<noteq> sid" "map_of (al_sessions al) x = Some q" by (simp_all add: al' split: if_splits)
    then obtain t where t: "session_ok al x q t" using al_inv_session [OF inv] by blast
    then have q: "q \<noteq> p" using s x(1) by (auto simp: session_ok_def)
    then have "session_ok al' x q t" using t s udp
      by (cases "as_Protocol s = ''udp''") (auto simp: session_ok_def al')
    then show "\<exists>s. session_ok al' x q s" ..
  next
    fix k q assume "map_of (al_udpSessions al') k = Some q"
    then have k: "map_of (al_udpSessions al) k = Some q" "q \<noteq> p" using u_old by (simp_all add: al')
    then obtain t where t: "udp_ok al k q t" "session_ok al (as_SessionID t) q t" using al_inv_udp [OF inv] by blast
    moreover have "as_SessionID t \<noteq> sid"
      using t(1) k(2) sid by (auto simp: udp_ok_def)
    ultimately have "udp_ok al' k q t" using k(2)
      by (auto simp: udp_ok_def al')
    then show "\<exists>s. udp_ok al' k q s" ..
  }
qed (use al_inv_parts [OF inv] now udp in \<open>cases "as_Protocol s = ''udp''"; auto simp: al'\<close>)+

lemma mergeLoop_ended:
  "0 < as_EndedAt c \<Longrightarrow> (\<And>s. s \<in> set ss \<Longrightarrow> 0 < as_EndedAt s) \<Longrightarrow> x \<in> set (mergeLoop ip c ps ss) \<Longrightarrow> 0 < as_EndedAt x"
  by (induction ip c ps ss rule: mergeLoop.induct) (auto simp: Let_def less_max_iff_disj split: if_splits)

lemma endSession_fields [simp]:
  "al_sessions (endSession p now al) = al_sessions al" "al_udpSessions (endSession p now al) = al_udpSessions al"
  "al_next (endSession p now al) = al_next al"
  "al_heap (endSession p now al) = mput p ((the (map_of (al_heap al) p))\<lparr>as_EndedAt := now\<rparr>) (al_heap al)"
  "al_completed (endSession p now al) = al_completed al @ [(the (map_of (al_heap al) p))\<lparr>as_EndedAt := now\<rparr>]"
  by (simp_all add: endSession_def pushCompleted_def Let_def)

context go_order
begin

lemma group_ended:
  assumes "\<And>s. s \<in> set g \<Longrightarrow> 0 < as_EndedAt s" "x \<in> set (consolidateGroup srt k g)"
  shows "0 < as_EndedAt x"
proof (cases "length g < minConnectionsToConsolidate")
  case True
  then show ?thesis using assms by (simp add: consolidateGroup_def)
next
  case False
  then obtain s rest where s: "srt g = s # rest" "mset (s # rest) = mset g"
    using srt_Cons [of g] by auto
  then have "set (s # rest) = set g" by (metis set_mset_mset)
  then show ?thesis using assms False s(1) mergeLoop_ended [of "startRun s" rest x "ck_sourceIP k" "[(as_SourceAddr s, ())]"]
    by (auto simp: consolidateGroup_def)
qed

lemma consolidate_ended:
  assumes "\<And>s. s \<in> set ss \<Longrightarrow> 0 < as_EndedAt s" "x \<in> set (consolidateSessions rng srt ss)"
  shows "0 < as_EndedAt x"
proof (cases "length ss > 1")
  case True
  then obtain k g where "(k, g) \<in> set (groupSessions ss)" "x \<in> set (consolidateGroup srt k g)"
    using assms(2) rng_perm by (auto simp: consolidateSessions_def) (metis set_mset_mset)
  moreover from this have "set g \<subseteq> set ss" using group_members by force
  ultimately show ?thesis using group_ended assms(1) by blast
qed (use assms in \<open>simp add: consolidateSessions_def\<close>)

lemma inv_flush:
  assumes "al_inv al"
  shows "al_inv (fst (flush rng srt out al))"
proof -
  have "0 < as_EndedAt s" if "s \<in> set (al_completed (fst (flush rng srt out al)))" for s
    using that consolidate_ended [OF al_inv_parts(3) [OF assms]] al_inv_parts(3) [OF assms]
    by (auto simp: flush_def drainCompleted_def requeueCompleted_def Let_def
        split: if_splits send_outcome.splits dest!: in_set_takeD)
  then show ?thesis
    by (intro inv_same_tables [OF assms])
      (auto simp: flush_def drainCompleted_def requeueCompleted_def Let_def split: send_outcome.split)
qed

lemma inv_flushIfFull: "al_inv al \<Longrightarrow> al_inv (fst (flushIfFull rng srt out al))"
  by (simp add: flushIfFull_def inv_flush)

lemma inv_EndTCP:
  assumes inv: "al_inv al" and "sessionProto al sid \<noteq> Some ''udp''" and now: "0 < now"
  shows "al_inv (fst (EndTCPSession rng srt out now sid al))"
proof (cases "map_of (al_sessions al) sid")
  case None
  then show ?thesis using inv by (simp add: EndTCPSession_def inv_flushIfFull)
next
  case (Some p)
  obtain s where s: "session_ok al sid p s" using al_inv_session [OF inv Some] .
  then have "as_Protocol s \<noteq> ''udp''" using assms(2) Some by (auto simp: sessionProto_def session_ok_def)
  then have "al_inv (endSession p now (al\<lparr>al_sessions := mdel sid (al_sessions al)\<rparr>))"
    using s by (intro inv_end [OF inv Some s now]) (auto simp: session_ok_def)
  then show ?thesis using Some by (simp add: EndTCPSession_def inv_flushIfFull)
qed

lemma inv_EndUDP:
  assumes inv: "al_inv al" and "sessionProto al sid \<in> {None, Some ''udp''}" and now: "0 < now"
  shows "al_inv (fst (EndUDPSession rng srt out now sid al))"
proof (cases "map_of (al_sessions al) sid")
  case None
  then show ?thesis using inv by (simp add: EndUDPSession_def inv_flushIfFull)
next
  case (Some p)
  obtain s where s: "session_ok al sid p s" using al_inv_session [OF inv Some] .
  then have "as_Protocol s = ''udp''" using assms(2) Some by (auto simp: sessionProto_def session_ok_def)
  then have "al_inv (endSession p now (al\<lparr>al_sessions := mdel sid (al_sessions al),
      al_udpSessions := mdel (as_SourceAddr s, as_DestAddr s, ''udp'') (al_udpSessions al)\<rparr>))"
    using s by (intro inv_end [OF inv Some s now]) (auto simp: session_ok_def)
  then show ?thesis using Some s by (simp add: EndUDPSession_def inv_flushIfFull session_ok_def)
qed

end

lemma inv_reapOne:
  assumes inv: "al_inv al" and k: "map_of (al_udpSessions al) k = Some p" and now: "0 < now"
  shows "al_inv (reapOne now al (k, p))"
proof -
  obtain s where s: "udp_ok al k p s" "session_ok al (as_SessionID s) p s" using al_inv_udp [OF inv k] .
  have sid: "map_of (al_sessions al) (as_SessionID s) = Some p" using s(1) by (simp add: udp_ok_def)
  have h: "the (map_of (al_heap al) p) = s" using s(1) by (simp add: udp_ok_def)
  show ?thesis
  proof (cases "as_StartedAt s < now - staleAfter \<and> IsZero (as_EndedAt s)")
    case True
    have "al_inv ((endSession p now al)\<lparr>al_sessions := mdel (as_SessionID s) (al_sessions al),
        al_udpSessions := mdel k (al_udpSessions al)\<rparr>)"
      using s by (intro inv_end [OF inv sid s(2) now]) (auto simp: session_ok_def udp_ok_def)
    then show ?thesis using True by (simp add: reapOne_def h Let_def)
  next
    case False
    then show ?thesis using inv by (auto simp: reapOne_def h Let_def)
  qed
qed

lemma inv_reap:
  assumes "al_inv al" "0 < now"
  shows "al_inv (reapStaleSessions now al)"
proof -
  have "al_inv (foldl (reapOne now) al es)"
    if "al_inv al" "distinct (mkeys es)" "\<And>k p. (k, p) \<in> set es \<Longrightarrow> map_of (al_udpSessions al) k = Some p" for es al
    using that
  proof (induction es arbitrary: al)
    case (Cons e es)
    obtain k p where e: "e = (k, p)" by (cases e)
    have k: "map_of (al_udpSessions al) k = Some p" using Cons.prems(3) e by simp
    have "map_of (al_udpSessions (reapOne now al e)) k' = Some p'" if "(k', p') \<in> set es" for k' p'
    proof -
      have "k' \<noteq> k" using that Cons.prems(2) e by force
      then show ?thesis using Cons.prems(3) [of k' p'] that by (simp add: e reapOne_def Let_def)
    qed
    then show ?case using Cons.IH [of "reapOne now al e"] inv_reapOne [OF Cons.prems(1) k assms(2)] Cons.prems(2)
      by (simp add: e)
  qed simp
  moreover have "map_of (al_udpSessions al) k = Some p" if "(k, p) \<in> set (al_udpSessions al)" for k p
    using that al_inv_parts(1) [OF assms(1)] by (simp add: map_of_is_SomeI)
  ultimately show ?thesis using assms(1) al_inv_parts(1) by (simp add: reapStaleSessions_def)
qed

context go_order
begin

lemma inv_Close:
  assumes "al_inv al" "0 < now"
  shows "al_inv (fst (CloseLogger rng srt out now al))"
proof (cases "al_stopped al")
  case False
  let ?al = "foldl (closeOne now) (al\<lparr>al_stopped := True\<rparr>) (al_sessions al)"
  have "\<forall>s\<in>set (al_completed ?al). 0 < as_EndedAt s"
    by (rule foldl_inv) (use assms al_inv_parts(3) [OF assms(1)] in \<open>auto simp: closeOne_def split: if_splits\<close>)
  then have "al_inv (?al\<lparr>al_sessions := [], al_udpSessions := []\<rparr>)" by (simp add: al_inv_def)
  then show ?thesis using False by (simp add: CloseLogger_def Let_def inv_flush)
qed (use assms in \<open>simp add: CloseLogger_def\<close>)

lemma inv_log_step:
  assumes "al_inv al" "log_allowed al c"
  shows "al_inv (log_step rng srt al c)"
  using assms
proof (cases c)
  case (SetSendCall b)
  then show ?thesis using assms al_inv_parts(3) [OF assms(1)]
    by (auto simp: SetSendFunc_def intro: inv_same_tables)
qed (simp_all add: inv_StartTCP inv_EndTCP inv_TrackUDP inv_EndUDP inv_reap inv_flush inv_Close)

end

sublocale go_order \<subseteq> logger: guarded_system "log_step rng srt" log_allowed al_inv
  by unfold_locales (rule inv_log_step)

section \<open>Properties\<close>

definition exSession :: "string \<Rightarrow> string \<Rightarrow> instant \<Rightarrow> instant \<Rightarrow> access_session" where
  "exSession sid src t0 t1 = (newSession sid 7 src ''10.0.0.9:80'' ''tcp'' t0)\<lparr>as_EndedAt := t1\<rparr>"

text \<open>
  C12. Consolidation loses nothing: whatever the order of map iteration and of equal start times, the consolidated batch
  has the same total of bytes sent and of bytes received as the input, and for raw sessions (no connection count yet) its
  connection counts add up to the number of sessions.
\<close>

theorem consolidate_conserves:
  assumes "go_order rng srt"
  shows "sum_list (map as_BytesTx (consolidateSessions rng srt ss)) = sum_list (map as_BytesTx ss) \<and>
         sum_list (map as_BytesRx (consolidateSessions rng srt ss)) = sum_list (map as_BytesRx ss) \<and>
         (list_all (\<lambda>s. as_ConnectionCount s = 0) ss \<longrightarrow>
            sum_list (map connections (consolidateSessions rng srt ss)) = int (length ss))"
  using go_order.consolidate_bytes [OF assms] go_order.consolidate_connections [OF assms]
  by (simp add: list_all_iff)

theorem consolidate_conserves_witness:
  "sum_list (map connections (consolidateSessions (\<lambda>m. m) (sort_key as_StartedAt)
     [exSession ''a'' ''10.0.0.1:1000'' 10 20, exSession ''b'' ''10.0.0.1:1001'' 15 30,
      exSession ''c'' ''10.0.0.2:1000'' 15 30])) = 3"
  using consolidate_conserves [OF stable_order.go_order_axioms,
      of "[exSession ''a'' ''10.0.0.1:1000'' 10 20, exSession ''b'' ''10.0.0.1:1001'' 15 30,
           exSession ''c'' ''10.0.0.2:1000'' 15 30]"]
  by (simp add: exSession_def newSession_def)

text \<open>
  Every session is represented after consolidation: some entry of the batch for the same destination, protocol and
  resource starts no later and ends no earlier than it; and the merged entries of one group are separated by more than the
  gap threshold, so no further merge was possible.
\<close>

theorem consolidate_represents:
  assumes "go_order rng srt" "list_all timesOK ss" "x \<in> set ss"
  shows "(\<exists>e\<in>set (consolidateSessions rng srt ss). sameService e x \<and>
            as_StartedAt e \<le> as_StartedAt x \<and> endRef x \<le> endRef e) \<and>
         (let g = filter (\<lambda>s. sessionKey s = sessionKey x) ss in 2 \<le> length g \<longrightarrow>
            successively (\<lambda>a b. sessionGapThreshold < as_StartedAt b - endRef a)
              (consolidateGroup srt (sessionKey x) g))"
  using go_order.consolidate_covers [OF assms(1) _ assms(3)] assms(2) go_order.group_gaps [OF assms(1)]
  by (simp add: list_all_iff minConnectionsToConsolidate_def Let_def)

theorem consolidate_represents_witness:
  "\<exists>e\<in>set (consolidateSessions (\<lambda>m. m) (sort_key as_StartedAt)
     [exSession ''a'' ''10.0.0.1:1000'' 10 20, exSession ''b'' ''10.0.0.1:1001'' 15 30]).
       endRef (exSession ''b'' ''10.0.0.1:1001'' 15 30) \<le> endRef e"
proof -
  let ?ss = "[exSession ''a'' ''10.0.0.1:1000'' 10 20, exSession ''b'' ''10.0.0.1:1001'' 15 30]"
  have "list_all timesOK ?ss" by code_simp
  from consolidate_represents [OF stable_order.go_order_axioms this, of "exSession ''b'' ''10.0.0.1:1001'' 15 30"]
  show ?thesis by auto
qed

text \<open>
  C20. The tables of the access logger stay consistent: after any sequence of calls that use fresh ids and end each session with
  its own kind of call, every active session is open and filed under its own id, the UDP table holds exactly the active UDP
  sessions under their own addresses, and everything buffered has an end time.
\<close>

theorem access_logger_consistent:
  assumes "go_order rng srt" "run_ok (log_step rng srt) log_allowed (NewAccessLogger t) cs"
  shows "al_inv (foldl (log_step rng srt) (NewAccessLogger t) cs)"
proof -
  from assms(1) have "guarded_system (log_step rng srt) log_allowed al_inv"
    by (intro guarded_system.intro) (rule go_order.inv_log_step)
  from guarded_system.run_inv [OF this new_logger_inv assms(2)] show ?thesis .
qed

theorem access_logger_consistent_witness:
  "al_inv (foldl (log_step (\<lambda>m. m) (sort_key as_StartedAt)) (NewAccessLogger 0)
     [TrackUDPCall ''u'' 5 7 ''10.0.0.1:9'' ''10.0.0.9:53'', StartTCPCall ''t'' 6 7 ''10.0.0.1:9'' ''10.0.0.9:53'',
      EndTCPCall 8 ''t'' Sent, EndUDPCall 9 ''u'' Sent])"
  by (rule access_logger_consistent [OF stable_order.go_order_axioms]) code_simp

text \<open>
  A failed flush puts the consolidated batch back in front of the sessions that ended meanwhile and keeps the first
  500: the buffer stays bounded, nothing is lost below the bound, and above it the newest sessions are dropped.
\<close>

theorem failed_flush_requeues:
  assumes "al_completed al \<noteq> []" "al_sendFn al"
  shows "fst (flush rng srt SendError al)
           = requeueCompleted (consolidateSessions rng srt (al_completed al)) (drainCompleted al) \<and>
         al_completed (requeueCompleted (consolidateSessions rng srt (al_completed al))
             (foldl (\<lambda>al s. pushCompleted s al) (drainCompleted al) es))
           = take 500 (consolidateSessions rng srt (al_completed al) @ es)"
  using assms access_buffer.failed_flush [of _ al es]
  by (simp add: flush_def Let_def) (simp add: drainCompleted_def)

theorem failed_flush_requeues_witness:
  "al_completed (requeueCompleted (consolidateSessions (\<lambda>m. m) (sort_key as_StartedAt) [exSession ''a'' ''10.0.0.1:1'' 1 2])
     (foldl (\<lambda>al s. pushCompleted s al) (drainCompleted ((NewAccessLogger 0)\<lparr>al_completed := [exSession ''a'' ''10.0.0.1:1'' 1 2], al_sendFn := True\<rparr>))
        [exSession ''b'' ''10.0.0.1:2'' 3 4]))
     = [exSession ''a'' ''10.0.0.1:1'' 1 2, exSession ''b'' ''10.0.0.1:2'' 3 4]"
  using failed_flush_requeues [of "(NewAccessLogger 0)\<lparr>al_completed := [exSession ''a'' ''10.0.0.1:1'' 1 2], al_sendFn := True\<rparr>"
      "\<lambda>m. m" "sort_key as_StartedAt" "[exSession ''b'' ''10.0.0.1:2'' 3 4]"]
  by (simp add: consolidateSessions_def)

text \<open>
  Consolidating a batch that was already consolidated forgets merged connections: two merged connections that were put
  back after a failed send and are merged with a third one are reported as two connections, because a run restarts
  its count at one.
\<close>

theorem reconsolidation_undercounts:
  "sum_list (map connections (consolidateSessions (\<lambda>m. m) (sort_key as_StartedAt)
     (consolidateSessions (\<lambda>m. m) (sort_key as_StartedAt)
        [exSession ''a'' ''10.0.0.1:1'' 1 2, exSession ''b'' ''10.0.0.1:2'' 2 3] @
      [exSession ''c'' ''10.0.0.1:3'' 3 4]))) = 2"
  by code_simp

end
