(* ===== verification/Request_Log.thy ===== *)
theory Request_Log
  imports Log_Buffer
begin

text \<open>
  The HTTP request logger (\<open>netstack2/http_request_log.go\<close>).  The random request id and the result of
  compressing and sending a batch are arguments.
\<close>

record http_request_log =
  hl_RequestID :: string
  hl_ResourceID :: int
  hl_Timestamp :: instant
  hl_Method :: string
  hl_Scheme :: string
  hl_Host :: string
  hl_Path :: string
  hl_RawQuery :: string
  hl_UserAgent :: string
  hl_SourceAddr :: string
  hl_TLS :: bool

record request_logger =
  rl_pending :: "http_request_log list"
  rl_sendFn :: bool
  rl_stopped :: bool

definition NewHTTPRequestLogger :: request_logger where
  "NewHTTPRequestLogger = \<lparr>rl_pending = [], rl_sendFn = False, rl_stopped = False\<rparr>"

definition SetRequestSendFunc :: "bool \<Rightarrow> request_logger \<Rightarrow> request_logger" where
  "SetRequestSendFunc fn rl = rl\<lparr>rl_sendFn := fn\<rparr>"

definition drainPending :: "request_logger \<Rightarrow> request_logger" where
  "drainPending rl = rl\<lparr>rl_pending := []\<rparr>"

definition requeuePending :: "http_request_log list \<Rightarrow> request_logger \<Rightarrow> request_logger" where
  "requeuePending batch rl =
     (let pending = batch @ rl_pending rl
      in rl\<lparr>rl_pending := if length pending > requeueCap then take requeueCap pending else pending\<rparr>)"

definition pushPending :: "http_request_log \<Rightarrow> request_logger \<Rightarrow> request_logger" where
  "pushPending log rl = rl\<lparr>rl_pending := rl_pending rl @ [log]\<rparr>"

definition flushRequests ::
  "send_outcome \<Rightarrow> request_logger \<Rightarrow> request_logger \<times> http_request_log list option" where
  "flushRequests out rl =
     (if rl_pending rl = [] then (rl, None)
      else let batch = rl_pending rl; rl = drainPending rl in
        if \<not> rl_sendFn rl then (rl, None)
        else case out of
            CompressError \<Rightarrow> (rl, None)
          | SendError \<Rightarrow> (requeuePending batch rl, None)
          | Sent \<Rightarrow> (rl, Some batch))"

definition LogRequest ::
  "string \<Rightarrow> send_outcome \<Rightarrow> http_request_log \<Rightarrow> request_logger \<Rightarrow> request_logger \<times> http_request_log list option" where
  "LogRequest rid out log rl =
     (let log = (if hl_RequestID log = [] then log\<lparr>hl_RequestID := rid\<rparr> else log);
          rl = pushPending log rl
      in if length (rl_pending rl) \<ge> maxBufferedSessions then flushRequests out rl else (rl, None))"

definition CloseRequestLogger ::
  "send_outcome \<Rightarrow> request_logger \<Rightarrow> request_logger \<times> http_request_log list option" where
  "CloseRequestLogger out rl =
     (if rl_stopped rl then (rl, None) else flushRequests out (rl\<lparr>rl_stopped := True\<rparr>))"

interpretation request_buffer: log_buffer rl_pending pushPending drainPending requeuePending
  by unfold_locales (auto simp: pushPending_def drainPending_def requeuePending_def Let_def)

datatype request_call =
    LogCall string send_outcome http_request_log
  | TickCall send_outcome
  | CloseRequestCall send_outcome
  | SetRequestSendCall bool

primrec request_step ::
  "request_logger \<times> http_request_log list \<Rightarrow> request_call \<Rightarrow> request_logger \<times> http_request_log list" where
  "request_step st (LogCall rid out log) =
     (let (rl, b) = LogRequest rid out log (fst st) in (rl, snd st @ (case b of None \<Rightarrow> [] | Some b \<Rightarrow> b)))"
| "request_step st (TickCall out) =
     (let (rl, b) = flushRequests out (fst st) in (rl, snd st @ (case b of None \<Rightarrow> [] | Some b \<Rightarrow> b)))"
| "request_step st (CloseRequestCall out) =
     (let (rl, b) = CloseRequestLogger out (fst st) in (rl, snd st @ (case b of None \<Rightarrow> [] | Some b \<Rightarrow> b)))"
| "request_step st (SetRequestSendCall fn) = (SetRequestSendFunc fn (fst st), snd st)"

text \<open>The entries logged by a call, with their final ids.\<close>

primrec logged :: "request_call \<Rightarrow> http_request_log list" where
  "logged (LogCall rid out log) = [if hl_RequestID log = [] then log\<lparr>hl_RequestID := rid\<rparr> else log]"
| "logged (TickCall out) = []"
| "logged (CloseRequestCall out) = []"
| "logged (SetRequestSendCall fn) = []"

primrec outcome_of :: "request_call \<Rightarrow> send_outcome option" where
  "outcome_of (LogCall rid out log) = Some out"
| "outcome_of (TickCall out) = Some out"
| "outcome_of (CloseRequestCall out) = Some out"
| "outcome_of (SetRequestSendCall fn) = None"

definition keeps_sender :: "request_call \<Rightarrow> bool" where
  "keeps_sender c \<longleftrightarrow> outcome_of c \<noteq> Some CompressError \<and> c \<noteq> SetRequestSendCall False"

lemma flushRequests_conserves:
  assumes "rl_sendFn rl" "length (rl_pending rl) \<le> requeueCap" "out \<noteq> CompressError"
    and "flushRequests out rl = (rl', b)"
  shows "(case b of None \<Rightarrow> [] | Some b \<Rightarrow> b) @ rl_pending rl' = rl_pending rl \<and> rl_sendFn rl'"
  using assms
  by (auto simp: flushRequests_def drainPending_def requeuePending_def Let_def split: if_splits send_outcome.splits)

lemma flushRequests_bound:
  "length (rl_pending rl) \<le> requeueCap \<Longrightarrow> length (rl_pending (fst (flushRequests out rl))) \<le> requeueCap"
  using request_buffer.failed_flush_bound [of "rl_pending rl" "drainPending rl"]
  by (auto simp: flushRequests_def Let_def drainPending_def split: send_outcome.split)

text \<open>One step: either the buffer is within its capacity and nothing is lost, or it is full.\<close>

lemma request_step_conserves:
  assumes "rl_sendFn rl" "length (rl_pending rl) < requeueCap" "keeps_sender c"
    and "request_step (rl, sent) c = (rl', sent')"
  shows "sent' @ rl_pending rl' = (sent @ rl_pending rl) @ logged c \<and> rl_sendFn rl'"
proof (cases c)
  case (LogCall rid out log)
  let ?rl = "pushPending (hd (logged c)) rl"
  have p: "length (rl_pending ?rl) \<le> requeueCap" "rl_sendFn ?rl" using assms by (simp_all add: pushPending_def)
  have out: "out \<noteq> CompressError" using assms(3) LogCall by (simp add: keeps_sender_def)
  show ?thesis
  proof (cases "length (rl_pending ?rl) \<ge> maxBufferedSessions")
    case True
    then show ?thesis using flushRequests_conserves [OF p(2,1) out] assms(4) LogCall
      by (auto simp: LogRequest_def Let_def pushPending_def split: prod.splits)
  next
    case False
    then show ?thesis using assms(1,4) LogCall by (auto simp: LogRequest_def Let_def pushPending_def)
  qed
next
  case (TickCall out)
  then show ?thesis using flushRequests_conserves [OF assms(1)] assms
    by (auto simp: keeps_sender_def split: prod.splits)
next
  case (CloseRequestCall out)
  then show ?thesis using flushRequests_conserves [of "rl\<lparr>rl_stopped := True\<rparr>" out] assms
    by (auto simp: keeps_sender_def CloseRequestLogger_def split: prod.splits if_splits)
next
  case (SetRequestSendCall fn)
  then show ?thesis using assms by (auto simp: keeps_sender_def SetRequestSendFunc_def)
qed

lemma request_run_conserves:
  assumes "rl_sendFn rl" "list_all keeps_sender cs"
    and "length (rl_pending rl) + length (concat (map logged cs)) < requeueCap"
    and "foldl request_step (rl, sent) cs = (rl', sent')"
  shows "sent' @ rl_pending rl' = (sent @ rl_pending rl) @ concat (map logged cs)"
  using assms
proof (induction cs arbitrary: rl sent)
  case (Cons c cs)
  obtain rl1 sent1 where st: "request_step (rl, sent) c = (rl1, sent1)" by fastforce
  have lt: "length (rl_pending rl) < requeueCap" using Cons.prems(3) by simp
  note one = request_step_conserves [OF Cons.prems(1) lt _ st]
  have c: "keeps_sender c" using Cons.prems(2) by simp
  have "length (sent1 @ rl_pending rl1) = length sent + length (rl_pending rl) + length (logged c)"
    using one [OF c] by (metis length_append)
  moreover have "length sent \<le> length sent1"
    using st by (cases c) (auto split: prod.splits option.splits)
  ultimately have "length (rl_pending rl1) + length (concat (map logged cs)) < requeueCap"
    using Cons.prems(3) by simp
  then show ?case using Cons.IH [of rl1 sent1] Cons.prems one [OF c] st by simp
qed simp

section \<open>Properties\<close>

definition exLog :: "string \<Rightarrow> http_request_log" where
  "exLog p = \<lparr>hl_RequestID = [], hl_ResourceID = 3, hl_Timestamp = 1, hl_Method = ''GET'', hl_Scheme = ''http'',
     hl_Host = ''h'', hl_Path = p, hl_RawQuery = [], hl_UserAgent = [], hl_SourceAddr = ''10.0.0.1:9'', hl_TLS = False\<rparr>"



end
