(* ===== verification/Nat_Proxy.thy ===== *)
theory Nat_Proxy
  imports Subnet_Lookup Packet_Headers Access_Log Request_Log
begin

unbundle bit_operations_syntax

declare map_of_eq_Some_iff [simp del] Some_eq_map_of_iff [simp del]

text \<open>
  The proxy handler (\<open>netstack2/proxy.go\<close>): connection tracking, destination rewriting of
  packets that enter the tunnel, and the reverse translation of replies.

  The network stack behind the handler is outside the repository.  What the handler does to it is recorded in the
  state: \<open>ph_injected\<close> are the packets handed to the stack, \<open>ph_outbound\<close> the packets the stack has queued for the tunnel.  The DNS
  answer is an argument (\<open>dns\<close>), and so are the header library \<open>H\<close> and the prefix tables \<open>S\<close>, \<open>D\<close>.  A nil
  handler and a handler that is not enabled behave alike in every method below except \<open>SetBlocked\<close>; a run-time panic
  is the result \<open>Panic\<close>.
\<close>

section \<open>State\<close>

record connKey =
  ck_srcIP :: string
  ck_srcPort :: "16 word"
  ck_dstIP :: string
  ck_dstPort :: "16 word"
  ck_proto :: "8 word"

record reverseConnKey =
  rk_rewrittenTo :: string
  rk_originalSrcIP :: string
  rk_originalSrcPort :: "16 word"
  rk_originalDstPort :: "16 word"
  rk_proto :: "8 word"

record destKey =
  dk_srcIP :: string
  dk_dstIP :: string
  dk_dstPort :: "16 word"
  dk_proto :: "8 word"

record natState =
  ns_originalDst :: addr
  ns_rewrittenTo :: addr

record 'st proxyHandler =
  ph_enabled :: bool
  ph_subnetLookup :: "'st subnetLookup"
  ph_natTable :: "(connKey, natState) gomap"
  ph_reverseNatTable :: "(reverseConnKey, natState) gomap"
  ph_destRewriteTable :: "(destKey, addr) gomap"
  ph_resourceTable :: "(destKey, int) gomap"
  ph_icmpReplies :: "bytes list"
  ph_icmpClosed :: bool
  ph_accessLogger :: access_logger
  ph_httpRequestLogger :: "request_logger option"
  ph_tcpHandler :: bool
  ph_udpHandler :: bool
  ph_icmpHandler :: bool
  ph_blocked :: bool
  ph_injected :: "bytes list"
  ph_outbound :: "bytes list"

record proxyHandlerOptions =
  po_EnableTCP :: bool
  po_EnableUDP :: bool
  po_EnableICMP :: bool

definition udpAccessSessionTimeout :: int where
  "udpAccessSessionTimeout = 120 * second"

definition NewProxyHandler ::
  "('dt, 'st) src_bart \<Rightarrow> proxyHandlerOptions \<Rightarrow> 'st proxyHandler option" where
  "NewProxyHandler S options =
     (if \<not> po_EnableTCP options \<and> \<not> po_EnableUDP options \<and> \<not> po_EnableICMP options then None
      else Some \<lparr>ph_enabled = True, ph_subnetLookup = NewSubnetLookup S, ph_natTable = [], ph_reverseNatTable = [],
        ph_destRewriteTable = [], ph_resourceTable = [], ph_icmpReplies = [], ph_icmpClosed = False,
        ph_accessLogger = NewAccessLogger udpAccessSessionTimeout,
        ph_httpRequestLogger = (if po_EnableTCP options then Some NewHTTPRequestLogger else None),
        ph_tcpHandler = po_EnableTCP options, ph_udpHandler = po_EnableUDP options,
        ph_icmpHandler = po_EnableICMP options, ph_blocked = False, ph_injected = [], ph_outbound = []\<rparr>)"

section \<open>Rules, blocking and lookups\<close>

definition AddSubnetRule ::
  "('dt, 'st) src_bart \<Rightarrow> 'dt dst_bart \<Rightarrow> subnet_rule \<Rightarrow> 'st proxyHandler \<Rightarrow> 'st proxyHandler" where
  "AddSubnetRule S D rule p =
     (if \<not> ph_enabled p then p else p\<lparr>ph_subnetLookup := AddSubnet S D rule (ph_subnetLookup p)\<rparr>)"

definition SetBlocked :: "bool \<Rightarrow> 'st proxyHandler \<Rightarrow> 'st proxyHandler" where
  "SetBlocked v p = p\<lparr>ph_blocked := v\<rparr>"

definition IsBlocked :: "'st proxyHandler \<Rightarrow> bool" where
  "IsBlocked p = ph_blocked p"

definition RemoveSubnetRule ::
  "('dt, 'st) src_bart \<Rightarrow> 'dt dst_bart \<Rightarrow> prefix \<Rightarrow> prefix \<Rightarrow> 'st proxyHandler \<Rightarrow> 'st proxyHandler" where
  "RemoveSubnetRule S D sourcePrefix destPrefix p =
     (if \<not> ph_enabled p then p
      else p\<lparr>ph_subnetLookup := RemoveSubnet S D sourcePrefix destPrefix (ph_subnetLookup p)\<rparr>)"

definition ReplaceAllSubnetRules ::
  "('dt, 'st) src_bart \<Rightarrow> 'dt dst_bart \<Rightarrow> subnet_rule list \<Rightarrow> 'st proxyHandler \<Rightarrow> 'st proxyHandler" where
  "ReplaceAllSubnetRules S D rules p =
     (if \<not> ph_enabled p then p else p\<lparr>ph_subnetLookup := ReplaceAll S D rules (ph_subnetLookup p)\<rparr>)"

definition HandlerGetAllRules :: "('dt, 'st) src_bart \<Rightarrow> 'st proxyHandler \<Rightarrow> subnet_rule list" where
  "HandlerGetAllRules S p = (if \<not> ph_enabled p then [] else GetAllRules S (ph_subnetLookup p))"

definition LookupResourceId ::
  "string \<Rightarrow> string \<Rightarrow> 16 word \<Rightarrow> 8 word \<Rightarrow> 'st proxyHandler \<Rightarrow> int" where
  "LookupResourceId srcIP dstIP dstPort prot p =
     (if \<not> ph_enabled p then 0
      else case map_of (ph_resourceTable p)
               \<lparr>dk_srcIP = srcIP, dk_dstIP = dstIP, dk_dstPort = dstPort, dk_proto = prot\<rparr> of
             None \<Rightarrow> 0 | Some r \<Rightarrow> r)"

definition releaseConnectionState ::
  "string \<Rightarrow> 16 word \<Rightarrow> string \<Rightarrow> 16 word \<Rightarrow> 8 word \<Rightarrow> 'st proxyHandler \<Rightarrow> 'st proxyHandler" where
  "releaseConnectionState srcIP srcPort dstIP dstPort prot p =
     (if \<not> ph_enabled p then p
      else let key = \<lparr>ck_srcIP = srcIP, ck_srcPort = srcPort, ck_dstIP = dstIP, ck_dstPort = dstPort, ck_proto = prot\<rparr>
        in case map_of (ph_natTable p) key of
             None \<Rightarrow> p
           | Some entry \<Rightarrow>
               (let reverseKey = \<lparr>rk_rewrittenTo = addr_string (ns_rewrittenTo entry), rk_originalSrcIP = srcIP,
                      rk_originalSrcPort = srcPort, rk_originalDstPort = dstPort, rk_proto = prot\<rparr>
                in p\<lparr>ph_natTable := mdel key (ph_natTable p),
                     ph_reverseNatTable := mdel reverseKey (ph_reverseNatTable p)\<rparr>))"

definition LookupDestinationRewrite ::
  "string \<Rightarrow> string \<Rightarrow> 16 word \<Rightarrow> 8 word \<Rightarrow> 'st proxyHandler \<Rightarrow> addr option" where
  "LookupDestinationRewrite srcIP dstIP dstPort prot p =
     (if \<not> ph_enabled p then None
      else map_of (ph_destRewriteTable p)
             \<lparr>dk_srcIP = srcIP, dk_dstIP = dstIP, dk_dstPort = dstPort, dk_proto = prot\<rparr>)"

text \<open>The answer of \<open>LookupIP(ctx, "ip4", name)\<close>: \<open>None\<close> on an error.\<close>

type_synonym resolver = "string \<Rightarrow> addr list option"

definition resolveRewriteAddress :: "resolver \<Rightarrow> string \<Rightarrow> addr option" where
  "resolveRewriteAddress dns rewriteTo =
     (case parse_prefix rewriteTo of
        Some pfx \<Rightarrow> Some (pfx_addr pfx)
      | None \<Rightarrow>
          (case parse_addr rewriteTo of
             Some a \<Rightarrow> Some a
           | None \<Rightarrow>
               (case dns rewriteTo of
                  None \<Rightarrow> None
                | Some [] \<Rightarrow> None
                | Some (ip # _) \<Rightarrow> (case as4 ip of Ret w \<Rightarrow> Some (IP4 w) | Panic \<Rightarrow> None))))"

section \<open>Rewriting packets\<close>

text \<open>The tail of both rewrite functions: fix the IP checksum, then the transport checksum in place.\<close>

definition fixTransportChecksum :: "hdr \<Rightarrow> nat \<Rightarrow> bytes \<Rightarrow> bytes" where
  "fixTransportChecksum H headerLen pkt =
     (let protocol = h_TransportProtocol H pkt;
          seg = drop headerLen pkt;
          xsum = (\<lambda>pr seg. h_Checksum H seg (h_PseudoHeaderChecksum H pr (h_SourceAddress H pkt)
                    (h_DestinationAddress H pkt) (of_nat (length pkt - headerLen))))
      in if protocol = TCPProtocolNumber then
           (if length pkt \<ge> headerLen + TCPMinimumSize then
              (let seg0 = h_SetTCPChecksum H 0 seg
               in take headerLen pkt @ h_SetTCPChecksum H (NOT (xsum TCPProtocolNumber seg0)) seg0)
            else pkt)
         else if protocol = UDPProtocolNumber then
           (if length pkt \<ge> headerLen + UDPMinimumSize then
              (let seg0 = h_SetUDPChecksum H 0 seg
               in take headerLen pkt @ h_SetUDPChecksum H (NOT (xsum UDPProtocolNumber seg0)) seg0)
            else pkt)
         else pkt)"

definition fixIPChecksum :: "hdr \<Rightarrow> bytes \<Rightarrow> bytes" where
  "fixIPChecksum H pkt =
     (let pkt0 = h_SetChecksum H 0 pkt in h_SetChecksum H (NOT (h_CalculateChecksum H pkt0)) pkt0)"

text \<open>\<open>Ret None\<close> is the nil result for a packet that is too short.\<close>

definition rewritePacketDestination :: "hdr \<Rightarrow> bytes \<Rightarrow> addr \<Rightarrow> bytes option go_result" where
  "rewritePacketDestination H pkt newDst =
     (if length pkt < IPv4MinimumSize then Ret None
      else let headerLen = h_HeaderLength H pkt in
        go_bind (as4 newDst) (\<lambda>w.
          Ret (Some (fixTransportChecksum H headerLen (fixIPChecksum H (h_SetDestinationAddress H w pkt))))))"

definition rewritePacketSource :: "hdr \<Rightarrow> bytes \<Rightarrow> addr \<Rightarrow> bytes option go_result" where
  "rewritePacketSource H pkt newSrc =
     (if length pkt < IPv4MinimumSize then Ret None
      else let headerLen = h_HeaderLength H pkt in
        go_bind (as4 newSrc) (\<lambda>w.
          Ret (Some (fixTransportChecksum H headerLen (fixIPChecksum H (h_SetSourceAddress H w pkt))))))"

section \<open>Packets from the tunnel\<close>

text \<open>The destination port used for matching; \<open>None\<close> is the early return for a truncated transport header.\<close>

definition incomingDstPort :: "hdr \<Rightarrow> bytes \<Rightarrow> 16 word option" where
  "incomingDstPort H pkt =
     (let protocol = h_TransportProtocol H pkt; headerLen = h_HeaderLength H pkt in
      if protocol = TCPProtocolNumber then
        (if length pkt < headerLen + TCPMinimumSize then None else Some (h_DestinationPort H (drop headerLen pkt)))
      else if protocol = UDPProtocolNumber then
        (if length pkt < headerLen + UDPMinimumSize then None else Some (h_DestinationPort H (drop headerLen pkt)))
      else Some 0)"

definition incomingSrcPort :: "hdr \<Rightarrow> bytes \<Rightarrow> 16 word" where
  "incomingSrcPort H pkt =
     (let protocol = h_TransportProtocol H pkt in
      if protocol = TCPProtocolNumber \<or> protocol = UDPProtocolNumber
      then h_SourcePort H (drop (h_HeaderLength H pkt) pkt) else 0)"

definition InjectInbound :: "bytes \<Rightarrow> 'st proxyHandler \<Rightarrow> 'st proxyHandler" where
  "InjectInbound pkt p = p\<lparr>ph_injected := ph_injected p @ [pkt]\<rparr>"

definition setResource :: "destKey \<Rightarrow> int \<Rightarrow> 'st proxyHandler \<Rightarrow> 'st proxyHandler" where
  "setResource k rid p = (if rid \<noteq> 0 then p\<lparr>ph_resourceTable := mput k rid (ph_resourceTable p)\<rparr> else p)"

text \<open>The new entry of a connection: both NAT tables, the rewrite table and the resource of the rewritten destination.\<close>

definition recordNat ::
  "connKey \<Rightarrow> addr \<Rightarrow> addr \<Rightarrow> int \<Rightarrow> 'st proxyHandler \<Rightarrow> 'st proxyHandler" where
  "recordNat key dstAddr newDst rid p =
     (let natEntry = \<lparr>ns_originalDst = dstAddr, ns_rewrittenTo = newDst\<rparr>;
          reverseKey = \<lparr>rk_rewrittenTo = addr_string newDst, rk_originalSrcIP = ck_srcIP key,
             rk_originalSrcPort = ck_srcPort key, rk_originalDstPort = ck_dstPort key, rk_proto = ck_proto key\<rparr>;
          dKey = \<lparr>dk_srcIP = ck_srcIP key, dk_dstIP = ck_dstIP key, dk_dstPort = ck_dstPort key, dk_proto = ck_proto key\<rparr>;
          rewrittenKey = \<lparr>dk_srcIP = ck_srcIP key, dk_dstIP = addr_string newDst, dk_dstPort = ck_dstPort key,
             dk_proto = ck_proto key\<rparr>
      in setResource rewrittenKey rid
           (p\<lparr>ph_natTable := mput key natEntry (ph_natTable p),
              ph_reverseNatTable := mput reverseKey natEntry (ph_reverseNatTable p),
              ph_destRewriteTable := mput dKey newDst (ph_destRewriteTable p)\<rparr>))"

text \<open>The rewrite of the packet, unless the target is a loopback address, and its injection.\<close>

definition rewriteAndInject ::
  "hdr \<Rightarrow> bytes \<Rightarrow> addr \<Rightarrow> 'st proxyHandler \<Rightarrow> (bool \<times> 'st proxyHandler) go_result" where
  "rewriteAndInject H pkt newDst p =
     (if \<not> is_loopback newDst then
        go_bind (rewritePacketDestination H pkt newDst) (\<lambda>r.
          case r of None \<Rightarrow> Ret (False, p) | Some pkt' \<Rightarrow> Ret (True, InjectInbound pkt' p))
      else Ret (True, InjectInbound pkt p))"

definition HandleIncomingPacket ::
  "hdr \<Rightarrow> ('dt, 'st) src_bart \<Rightarrow> 'dt dst_bart \<Rightarrow> resolver \<Rightarrow> bytes \<Rightarrow> 'st proxyHandler \<Rightarrow>
     (bool \<times> 'st proxyHandler) go_result" where
  "HandleIncomingPacket H S D dns pkt p =
     (if \<not> ph_enabled p then Ret (False, p)
      else if length pkt < IPv4MinimumSize then Ret (False, p)
      else if drop_bit 4 (pkt ! 0) \<noteq> 4 then Ret (False, p)
      else let srcAddr = IP4 (h_SourceAddress H pkt); dstAddr = IP4 (h_DestinationAddress H pkt);
               protocol = h_TransportProtocol H pkt in
        case incomingDstPort H pkt of
          None \<Rightarrow> Ret (False, p)
        | Some dstPort \<Rightarrow>
            (case Match S D (ph_subnetLookup p) srcAddr dstAddr dstPort protocol of
               None \<Rightarrow> Ret (False, p)
             | Some rule \<Rightarrow>
                 (let dKey = \<lparr>dk_srcIP = addr_string srcAddr, dk_dstIP = addr_string dstAddr, dk_dstPort = dstPort,
                              dk_proto = ucast protocol\<rparr>;
                      p = setResource dKey (sr_ResourceId rule) p
                  in if sr_RewriteTo rule = [] then Ret (True, InjectInbound pkt p)
                     else let key = \<lparr>ck_srcIP = addr_string srcAddr, ck_srcPort = incomingSrcPort H pkt,
                                ck_dstIP = addr_string dstAddr, ck_dstPort = dstPort, ck_proto = ucast protocol\<rparr> in
                       case map_of (ph_natTable p) key of
                         Some existing \<Rightarrow> rewriteAndInject H pkt (ns_rewrittenTo existing) p
                       | None \<Rightarrow>
                           (case resolveRewriteAddress dns (sr_RewriteTo rule) of
                              None \<Rightarrow> Ret (True, InjectInbound pkt p)
                            | Some newDst \<Rightarrow>
                                rewriteAndInject H pkt newDst
                                  (recordNat key dstAddr newDst (sr_ResourceId rule) p)))))"

section \<open>Packets to the tunnel\<close>

definition outgoingPorts :: "hdr \<Rightarrow> bytes \<Rightarrow> 16 word \<times> 16 word" where
  "outgoingPorts H pkt =
     (let protocol = h_TransportProtocol H pkt; headerLen = h_HeaderLength H pkt; seg = drop headerLen pkt in
      if (protocol = TCPProtocolNumber \<and> length pkt \<ge> headerLen + TCPMinimumSize) \<or>
         (protocol = UDPProtocolNumber \<and> length pkt \<ge> headerLen + UDPMinimumSize)
      then (h_SourcePort H seg, h_DestinationPort H seg) else (0, 0))"

definition reverseTranslate :: "hdr \<Rightarrow> 'st proxyHandler \<Rightarrow> bytes \<Rightarrow> bytes go_result" where
  "reverseTranslate H p pkt =
     (if length pkt \<ge> IPv4MinimumSize \<and> drop_bit 4 (pkt ! 0) = 4 then
        (let protocol = h_TransportProtocol H pkt in
         if protocol = ICMPv4ProtocolNumber then Ret pkt
         else let (srcPort, dstPort) = outgoingPorts H pkt;
                  reverseKey = \<lparr>rk_rewrittenTo = h_AddressString H (h_SourceAddress H pkt),
                    rk_originalSrcIP = h_AddressString H (h_DestinationAddress H pkt),
                    rk_originalSrcPort = dstPort, rk_originalDstPort = srcPort, rk_proto = ucast protocol\<rparr>
              in case map_of (ph_reverseNatTable p) reverseKey of
                   None \<Rightarrow> Ret pkt
                 | Some natEntry \<Rightarrow>
                     go_bind (rewritePacketSource H pkt (ns_originalDst natEntry)) (\<lambda>r.
                       case r of Some pkt' \<Rightarrow> Ret pkt' | None \<Rightarrow> Ret pkt))
      else Ret pkt)"

text \<open>A closed reply channel yields nil at once, which becomes an empty view.\<close>

definition ReadOutgoingPacket ::
  "hdr \<Rightarrow> 'st proxyHandler \<Rightarrow> (bytes option \<times> 'st proxyHandler) go_result" where
  "ReadOutgoingPacket H p =
     (if \<not> ph_enabled p then Ret (None, p)
      else case ph_icmpReplies p of
          reply # rest \<Rightarrow> Ret (Some reply, p\<lparr>ph_icmpReplies := rest\<rparr>)
        | [] \<Rightarrow>
            if ph_icmpClosed p then Ret (Some [], p)
            else (case ph_outbound p of
                [] \<Rightarrow> Ret (None, p)
              | pkt # rest \<Rightarrow>
                  go_bind (reverseTranslate H p pkt) (\<lambda>pkt'. Ret (Some pkt', p\<lparr>ph_outbound := rest\<rparr>))))"

definition icmpReplyCap :: nat where
  "icmpReplyCap = 256"

text \<open>Sending on the closed channel panics.\<close>

definition QueueICMPReply :: "bytes \<Rightarrow> 'st proxyHandler \<Rightarrow> (bool \<times> 'st proxyHandler) go_result" where
  "QueueICMPReply pkt p =
     (if \<not> ph_enabled p then Ret (False, p)
      else if ph_icmpClosed p then Panic
      else if length (ph_icmpReplies p) < icmpReplyCap
      then Ret (True, p\<lparr>ph_icmpReplies := ph_icmpReplies p @ [pkt]\<rparr>)
      else Ret (False, p))"

definition CloseHandler ::
  "group_order \<Rightarrow> (access_session list \<Rightarrow> access_session list) \<Rightarrow> send_outcome \<Rightarrow> send_outcome \<Rightarrow> instant \<Rightarrow>
     'st proxyHandler \<Rightarrow> 'st proxyHandler go_result" where
  "CloseHandler rng srt out1 out2 now p =
     (if \<not> ph_enabled p then Ret p
      else let p = p\<lparr>ph_accessLogger := fst (CloseLogger rng srt out1 now (ph_accessLogger p)),
                     ph_httpRequestLogger := map_option (fst \<circ> CloseRequestLogger out2) (ph_httpRequestLogger p)\<rparr>
           in if ph_icmpClosed p then Panic
              else Ret (p\<lparr>ph_icmpClosed := True, ph_outbound := []\<rparr>))"

section \<open>What rewriting changes\<close>

text \<open>A complete IPv4 packet that carries a TCP or UDP header after a header of legal length.\<close>

definition transportMin :: "proto \<Rightarrow> nat" where
  "transportMin pr = (if pr = TCPProtocolNumber then TCPMinimumSize else UDPMinimumSize)"

definition shaped :: "hdr \<Rightarrow> bytes \<Rightarrow> bool" where
  "shaped H pkt \<longleftrightarrow> IPv4MinimumSize \<le> length pkt \<and>
     h_TransportProtocol H pkt \<in> {TCPProtocolNumber, UDPProtocolNumber} \<and>
     IPv4MinimumSize \<le> h_HeaderLength H pkt \<and>
     h_HeaderLength H pkt + transportMin (h_TransportProtocol H pkt) \<le> length pkt"

definition wellFormed :: "hdr \<Rightarrow> bytes \<Rightarrow> bool" where
  "wellFormed H pkt \<longleftrightarrow> shaped H pkt \<and> drop_bit 4 (pkt ! 0) = 4"

definition portsOf :: "hdr \<Rightarrow> bytes \<Rightarrow> 16 word \<times> 16 word" where
  "portsOf H pkt = (let seg = drop (h_HeaderLength H pkt) pkt in (h_SourcePort H seg, h_DestinationPort H seg))"

text \<open>Everything of a packet that the proxy reads, apart from the two addresses.\<close>

definition sameFlow :: "hdr \<Rightarrow> bytes \<Rightarrow> bytes \<Rightarrow> bool" where
  "sameFlow H p q \<longleftrightarrow> h_TransportProtocol H p = h_TransportProtocol H q \<and> h_HeaderLength H p = h_HeaderLength H q \<and>
     length p = length q \<and> portsOf H p = portsOf H q"

lemma drop_more: "drop 20 p = drop 20 q \<Longrightarrow> 20 \<le> n \<Longrightarrow> drop n p = drop n q"
  by (metis drop_drop le_add_diff_inverse2)

lemma sameFlow_trans: "sameFlow H p q \<Longrightarrow> sameFlow H q r \<Longrightarrow> sameFlow H p r"
  by (simp add: sameFlow_def)

context header_lib
begin

lemma fixIP_fields:
  assumes "20 \<le> length pkt"
  shows "h_SourceAddress H (fixIPChecksum H pkt) = h_SourceAddress H pkt"
    "h_DestinationAddress H (fixIPChecksum H pkt) = h_DestinationAddress H pkt"
    "h_TransportProtocol H (fixIPChecksum H pkt) = h_TransportProtocol H pkt"
    "h_HeaderLength H (fixIPChecksum H pkt) = h_HeaderLength H pkt"
    "length (fixIPChecksum H pkt) = length pkt" "drop 20 (fixIPChecksum H pkt) = drop 20 pkt"
  using assms set_ck by (simp_all add: fixIPChecksum_def Let_def)

lemma fixTransport_take:
  "hl \<le> length pkt \<Longrightarrow> take hl (fixTransportChecksum H hl pkt) = take hl pkt"
  by (simp add: fixTransportChecksum_def Let_def)

lemma fixTransport_fields:
  assumes "shaped H pkt" "hl = h_HeaderLength H pkt"
  shows "h_SourceAddress H (fixTransportChecksum H hl pkt) = h_SourceAddress H pkt"
    "h_DestinationAddress H (fixTransportChecksum H hl pkt) = h_DestinationAddress H pkt"
    "sameFlow H (fixTransportChecksum H hl pkt) pkt"
proof -
  let ?q = "fixTransportChecksum H hl pkt"
  have hl: "20 \<le> hl" "hl + transportMin (h_TransportProtocol H pkt) \<le> length pkt"
    using assms by (simp_all add: shaped_def)
  have "take 20 ?q = take 20 pkt"
    using fixTransport_take [of hl pkt] hl by (metis (no_types) add_leE min.absorb1 take_take)
  note f = header_only [OF this]
  then show "h_SourceAddress H ?q = h_SourceAddress H pkt" "h_DestinationAddress H ?q = h_DestinationAddress H pkt"
    by simp_all
  have pr: "h_TransportProtocol H pkt = TCPProtocolNumber \<or> h_TransportProtocol H pkt = UDPProtocolNumber"
    using assms(1) by (simp add: shaped_def)
  have "length ?q = length pkt \<and> h_SourcePort H (drop hl ?q) = h_SourcePort H (drop hl pkt) \<and>
      h_DestinationPort H (drop hl ?q) = h_DestinationPort H (drop hl pkt)"
    using pr hl set_tcp_ck [of "drop hl pkt"] set_udp_ck [of "drop hl pkt"]
      set_tcp_ck [of "h_SetTCPChecksum H 0 (drop hl pkt)"] set_udp_ck [of "h_SetUDPChecksum H 0 (drop hl pkt)"]
    by (auto simp: fixTransportChecksum_def Let_def transportMin_def)
  then show "sameFlow H ?q pkt" using f assms(2) by (simp add: sameFlow_def portsOf_def Let_def)
qed

lemma rewrite_tail:
  assumes "shaped H pkt" "20 \<le> length q" "h_TransportProtocol H q = h_TransportProtocol H pkt"
    "h_HeaderLength H q = h_HeaderLength H pkt" "length q = length pkt" "drop 20 q = drop 20 pkt"
  defines "r \<equiv> fixTransportChecksum H (h_HeaderLength H pkt) (fixIPChecksum H q)"
  shows "h_SourceAddress H r = h_SourceAddress H q" "h_DestinationAddress H r = h_DestinationAddress H q" "sameFlow H r pkt"
proof -
  note ip = fixIP_fields [OF assms(2)]
  have sh: "shaped H (fixIPChecksum H q)" using assms ip by (simp add: shaped_def)
  have hl: "h_HeaderLength H pkt = h_HeaderLength H (fixIPChecksum H q)" using assms ip by simp
  note t = fixTransport_fields [OF sh hl]
  show "h_SourceAddress H r = h_SourceAddress H q" "h_DestinationAddress H r = h_DestinationAddress H q"
    using t ip by (simp_all add: r_def)
  have "drop (h_HeaderLength H pkt) (fixIPChecksum H q) = drop (h_HeaderLength H pkt) pkt"
    using assms(1,6) ip(6) by (subst drop_more [of _ pkt]) (simp_all add: shaped_def)
  then have "sameFlow H (fixIPChecksum H q) pkt" using ip assms(3-5) by (simp add: sameFlow_def portsOf_def)
  then show "sameFlow H r pkt" using t(3) unfolding r_def by (rule sameFlow_trans [rotated])
qed

lemma rewriteDst:
  assumes "shaped H pkt" "as4 a = Ret w"
  obtains pkt' where "rewritePacketDestination H pkt a = Ret (Some pkt')" "h_DestinationAddress H pkt' = w"
    "h_SourceAddress H pkt' = h_SourceAddress H pkt" "sameFlow H pkt' pkt"
proof -
  have p: "20 \<le> length pkt" using assms(1) by (simp add: shaped_def)
  note d = set_dst [OF p, of w]
  note t = rewrite_tail [OF assms(1), of "h_SetDestinationAddress H w pkt"]
  show thesis using that t d p assms(2) by (simp add: rewritePacketDestination_def)
qed

lemma rewriteSrc:
  assumes "shaped H pkt" "as4 a = Ret w"
  obtains pkt' where "rewritePacketSource H pkt a = Ret (Some pkt')" "h_SourceAddress H pkt' = w"
    "h_DestinationAddress H pkt' = h_DestinationAddress H pkt" "sameFlow H pkt' pkt"
proof -
  have p: "20 \<le> length pkt" using assms(1) by (simp add: shaped_def)
  note d = set_src [OF p, of w]
  note t = rewrite_tail [OF assms(1), of "h_SetSourceAddress H w pkt"]
  show thesis using that t d p assms(2) by (simp add: rewritePacketSource_def)
qed

lemma incoming_ports:
  assumes "shaped H pkt"
  shows "incomingDstPort H pkt = Some (snd (portsOf H pkt))" "incomingSrcPort H pkt = fst (portsOf H pkt)"
    "outgoingPorts H pkt = portsOf H pkt"
  using assms by (auto simp: shaped_def incomingDstPort_def incomingSrcPort_def outgoingPorts_def portsOf_def transportMin_def Let_def)

lemma shaped_flow: "sameFlow H p q \<Longrightarrow> shaped H q \<Longrightarrow> shaped H p"
  by (simp add: sameFlow_def shaped_def)

end

section \<open>Translation and reverse translation\<close>

definition flowKey :: "hdr \<Rightarrow> bytes \<Rightarrow> connKey" where
  "flowKey H pkt = \<lparr>ck_srcIP = ip4_string (h_SourceAddress H pkt), ck_srcPort = fst (portsOf H pkt),
     ck_dstIP = ip4_string (h_DestinationAddress H pkt), ck_dstPort = snd (portsOf H pkt),
     ck_proto = ucast (h_TransportProtocol H pkt)\<rparr>"

definition matched ::
  "hdr \<Rightarrow> ('dt, 'st) src_bart \<Rightarrow> 'dt dst_bart \<Rightarrow> 'st proxyHandler \<Rightarrow> bytes \<Rightarrow> subnet_rule option" where
  "matched H S D p pkt = Match S D (ph_subnetLookup p) (IP4 (h_SourceAddress H pkt)) (IP4 (h_DestinationAddress H pkt))
     (snd (portsOf H pkt)) (h_TransportProtocol H pkt)"

definition isReply :: "hdr \<Rightarrow> bytes \<Rightarrow> 32 word \<Rightarrow> bytes \<Rightarrow> bool" where
  "isReply H rp w pkt \<longleftrightarrow> wellFormed H rp \<and> h_SourceAddress H rp = w \<and>
     h_DestinationAddress H rp = h_SourceAddress H pkt \<and>
     h_TransportProtocol H rp = h_TransportProtocol H pkt \<and>
     portsOf H rp = (snd (portsOf H pkt), fst (portsOf H pkt))"

lemma setResource_fields [simp]:
  "ph_natTable (setResource k r p) = ph_natTable p" "ph_reverseNatTable (setResource k r p) = ph_reverseNatTable p"
  "ph_enabled (setResource k r p) = ph_enabled p" "ph_injected (setResource k r p) = ph_injected p"
  "ph_icmpReplies (setResource k r p) = ph_icmpReplies p" "ph_icmpClosed (setResource k r p) = ph_icmpClosed p"
  "ph_outbound (setResource k r p) = ph_outbound p" "ph_subnetLookup (setResource k r p) = ph_subnetLookup p"
  "ph_destRewriteTable (setResource k r p) = ph_destRewriteTable p" "ph_blocked (setResource k r p) = ph_blocked p"
  by (simp_all add: setResource_def)

lemma recordNat_fields [simp]:
  "ph_natTable (recordNat k d n r p) = mput k \<lparr>ns_originalDst = d, ns_rewrittenTo = n\<rparr> (ph_natTable p)"
  "ph_reverseNatTable (recordNat k d n r p) = mput \<lparr>rk_rewrittenTo = addr_string n, rk_originalSrcIP = ck_srcIP k,
     rk_originalSrcPort = ck_srcPort k, rk_originalDstPort = ck_dstPort k, rk_proto = ck_proto k\<rparr>
     \<lparr>ns_originalDst = d, ns_rewrittenTo = n\<rparr> (ph_reverseNatTable p)"
  "ph_enabled (recordNat k d n r p) = ph_enabled p" "ph_injected (recordNat k d n r p) = ph_injected p"
  "ph_icmpReplies (recordNat k d n r p) = ph_icmpReplies p" "ph_icmpClosed (recordNat k d n r p) = ph_icmpClosed p"
  "ph_outbound (recordNat k d n r p) = ph_outbound p" "ph_subnetLookup (recordNat k d n r p) = ph_subnetLookup p"
  by (simp_all add: recordNat_def Let_def)

lemma addr_string_IP4 [simp]: "addr_string (IP4 w) = ip4_string w"
  by (simp add: addr_string_def)

lemma as4_IP4 [simp]: "as4 (IP4 w) = Ret w"
  by (simp add: as4_def unmap_def)

context header_lib
begin

text \<open>A well-formed packet that matches a rewriting rule.\<close>

lemma HandleIncomingPacket_rewrite:
  assumes "ph_enabled p" "wellFormed H pkt" "matched H S D p pkt = Some rule" "sr_RewriteTo rule \<noteq> []"
  defines "p1 \<equiv> setResource \<lparr>dk_srcIP = ip4_string (h_SourceAddress H pkt), dk_dstIP = ip4_string (h_DestinationAddress H pkt),
      dk_dstPort = snd (portsOf H pkt), dk_proto = ucast (h_TransportProtocol H pkt)\<rparr> (sr_ResourceId rule) p"
  shows "HandleIncomingPacket H S D dns pkt p =
     (case map_of (ph_natTable p) (flowKey H pkt) of
        Some e \<Rightarrow> rewriteAndInject H pkt (ns_rewrittenTo e) p1
      | None \<Rightarrow> (case resolveRewriteAddress dns (sr_RewriteTo rule) of
            None \<Rightarrow> Ret (True, InjectInbound pkt p1)
          | Some n \<Rightarrow> rewriteAndInject H pkt n
              (recordNat (flowKey H pkt) (IP4 (h_DestinationAddress H pkt)) n (sr_ResourceId rule) p1)))"
  using assms(1-4) incoming_ports [of pkt]
  unfolding HandleIncomingPacket_def wellFormed_def matched_def flowKey_def Let_def p1_def
  by (simp add: shaped_def split: option.split)

lemma rewriteAndInject_IP4:
  assumes "shaped H pkt" "\<not> is_loopback (IP4 w)"
  obtains pkt' where "rewriteAndInject H pkt (IP4 w) p = Ret (True, InjectInbound pkt' p)"
    "h_DestinationAddress H pkt' = w" "h_SourceAddress H pkt' = h_SourceAddress H pkt" "sameFlow H pkt' pkt"
proof -
  obtain pkt' where "rewritePacketDestination H pkt (IP4 w) = Ret (Some pkt')" "h_DestinationAddress H pkt' = w"
      "h_SourceAddress H pkt' = h_SourceAddress H pkt" "sameFlow H pkt' pkt"
    using rewriteDst [OF assms(1), of "IP4 w" w] by auto
  then show thesis using that assms(2) by (simp add: rewriteAndInject_def)
qed

text \<open>The reply of a tracked connection leaves with the original destination as its source.\<close>

lemma reverse_reply:
  assumes rp: "isReply H rp w pkt"
    and rev: "map_of (ph_reverseNatTable p) \<lparr>rk_rewrittenTo = ip4_string w, rk_originalSrcIP = ip4_string (h_SourceAddress H pkt),
       rk_originalSrcPort = fst (portsOf H pkt), rk_originalDstPort = snd (portsOf H pkt),
       rk_proto = ucast (h_TransportProtocol H pkt)\<rparr> = Some e" and e: "ns_originalDst e = IP4 d"
  obtains rp' where "reverseTranslate H p rp = Ret rp'" "h_SourceAddress H rp' = d"
    "h_DestinationAddress H rp' = h_DestinationAddress H rp" "sameFlow H rp' rp"
proof -
  have sh: "shaped H rp" and v: "drop_bit 4 (rp ! 0) = 4" using rp by (simp_all add: isReply_def wellFormed_def)
  then have len: "20 \<le> length rp" and pr: "h_TransportProtocol H rp \<noteq> ICMPv4ProtocolNumber"
    by (auto simp: shaped_def)
  obtain rp' where "rewritePacketSource H rp (IP4 d) = Ret (Some rp')" "h_SourceAddress H rp' = d"
      "h_DestinationAddress H rp' = h_DestinationAddress H rp" "sameFlow H rp' rp"
    using rewriteSrc [OF sh, of "IP4 d" d] by auto
  then show thesis using that [of rp'] rp rev e len pr v incoming_ports(3) [OF sh]
    by (simp add: reverseTranslate_def isReply_def address_string Let_def)
qed

lemma ReadOutgoing_reply:
  assumes "ph_enabled p" "ph_icmpReplies p = []" "\<not> ph_icmpClosed p" "reverseTranslate H p rp = Ret rp'"
  shows "ReadOutgoingPacket H (p\<lparr>ph_outbound := rp # rest\<rparr>) = Ret (Some rp', p\<lparr>ph_outbound := rest\<rparr>)"
proof -
  have "reverseTranslate H (p\<lparr>ph_outbound := rp # rest\<rparr>) rp = reverseTranslate H p rp"
    by (simp add: reverseTranslate_def Let_def case_prod_unfold)
  then show ?thesis using assms by (simp add: ReadOutgoingPacket_def)
qed

end

section \<open>The NAT tables\<close>

definition reverseKeyOf :: "connKey \<Rightarrow> natState \<Rightarrow> reverseConnKey" where
  "reverseKeyOf k e = \<lparr>rk_rewrittenTo = addr_string (ns_rewrittenTo e), rk_originalSrcIP = ck_srcIP k,
     rk_originalSrcPort = ck_srcPort k, rk_originalDstPort = ck_dstPort k, rk_proto = ck_proto k\<rparr>"

text \<open>
  Every entry of the reverse table belongs to a live connection: the connection table holds the same state under the key with the
  original destination.  The reply queue stays within its capacity.
\<close>

definition nat_inv :: "'st proxyHandler \<Rightarrow> bool" where
  "nat_inv p \<longleftrightarrow>
     (\<forall>rk e. map_of (ph_reverseNatTable p) rk = Some e \<longrightarrow>
        (\<exists>k d. map_of (ph_natTable p) k = Some e \<and> reverseKeyOf k e = rk \<and>
               ns_originalDst e = IP4 d \<and> ck_dstIP k = ip4_string d)) \<and>
     (\<forall>k e. map_of (ph_natTable p) k = Some e \<longrightarrow> (\<exists>d. ns_originalDst e = IP4 d \<and> ck_dstIP k = ip4_string d)) \<and>
     length (ph_icmpReplies p) \<le> icmpReplyCap"

lemma nat_inv_same:
  assumes "nat_inv p" "ph_natTable q = ph_natTable p" "ph_reverseNatTable q = ph_reverseNatTable p"
    "length (ph_icmpReplies q) \<le> icmpReplyCap"
  shows "nat_inv q"
  using assms by (simp add: nat_inv_def)

lemma nat_inv_record:
  assumes inv: "nat_inv p" and new: "map_of (ph_natTable p) k = None" and k: "ck_dstIP k = ip4_string d"
  shows "nat_inv (recordNat k (IP4 d) n r p)"
  unfolding nat_inv_def
proof (intro conjI allI impI)
  fix rk e assume a: "map_of (ph_reverseNatTable (recordNat k (IP4 d) n r p)) rk = Some e"
  show "\<exists>k' d'. map_of (ph_natTable (recordNat k (IP4 d) n r p)) k' = Some e \<and> reverseKeyOf k' e = rk \<and>
      ns_originalDst e = IP4 d' \<and> ck_dstIP k' = ip4_string d'"
  proof (cases "rk = reverseKeyOf k \<lparr>ns_originalDst = IP4 d, ns_rewrittenTo = n\<rparr>")
    case True
    then have "e = \<lparr>ns_originalDst = IP4 d, ns_rewrittenTo = n\<rparr>" using a by (simp add: reverseKeyOf_def)
    then show ?thesis using True k by (intro exI [of _ k] exI [of _ d]) simp
  next
    case False
    then have "map_of (ph_reverseNatTable p) rk = Some e" using a by (simp add: reverseKeyOf_def split: if_splits)
    then obtain k' d' where "map_of (ph_natTable p) k' = Some e" "reverseKeyOf k' e = rk"
        "ns_originalDst e = IP4 d'" "ck_dstIP k' = ip4_string d'"
      using inv unfolding nat_inv_def by blast
    moreover from this have "k' \<noteq> k" using new by auto
    ultimately show ?thesis by (intro exI [of _ k'] exI [of _ d']) simp
  qed
next
  fix k' e assume "map_of (ph_natTable (recordNat k (IP4 d) n r p)) k' = Some e"
  then show "\<exists>d. ns_originalDst e = IP4 d \<and> ck_dstIP k' = ip4_string d"
    using inv k unfolding nat_inv_def by (cases "k' = k") auto
qed (use inv in \<open>simp add: nat_inv_def\<close>)

lemma nat_inv_release:
  assumes inv: "nat_inv p"
  shows "nat_inv (releaseConnectionState srcIP srcPort dstIP dstPort prot p)"
proof -
  define k where "k = \<lparr>ck_srcIP = srcIP, ck_srcPort = srcPort, ck_dstIP = dstIP, ck_dstPort = dstPort, ck_proto = prot\<rparr>"
  show ?thesis
  proof (cases "ph_enabled p \<and> mhas (ph_natTable p) k")
    case False
    then have "releaseConnectionState srcIP srcPort dstIP dstPort prot p = p"
      by (auto simp: releaseConnectionState_def Let_def k_def)
    then show ?thesis using inv by simp
  next
    case True
    then obtain e where e: "map_of (ph_natTable p) k = Some e" by auto
    define q where "q = releaseConnectionState srcIP srcPort dstIP dstPort prot p"
    have q: "ph_natTable q = mdel k (ph_natTable p)" "ph_icmpReplies q = ph_icmpReplies p"
        "ph_reverseNatTable q = mdel (reverseKeyOf k e) (ph_reverseNatTable p)"
      using True e by (simp_all add: q_def releaseConnectionState_def Let_def k_def [symmetric])
        (simp add: k_def reverseKeyOf_def)
    have "\<exists>k' d. map_of (ph_natTable q) k' = Some e' \<and> reverseKeyOf k' e' = rk \<and> ns_originalDst e' = IP4 d \<and> ck_dstIP k' = ip4_string d"
      if a: "map_of (ph_reverseNatTable q) rk = Some e'" for rk e'
    proof -
      have rk: "rk \<noteq> reverseKeyOf k e" "map_of (ph_reverseNatTable p) rk = Some e'"
        using a by (simp_all add: q split: if_splits)
      then obtain k' d where k': "map_of (ph_natTable p) k' = Some e'" "reverseKeyOf k' e' = rk"
          "ns_originalDst e' = IP4 d" "ck_dstIP k' = ip4_string d"
        using inv unfolding nat_inv_def by blast
      then have "k' \<noteq> k" using rk(1) e by auto
      then show ?thesis using k' by (intro exI [of _ k'] exI [of _ d]) (simp add: q)
    qed
    moreover have "\<exists>d. ns_originalDst e' = IP4 d \<and> ck_dstIP k' = ip4_string d"
      if "map_of (ph_natTable q) k' = Some e'" for k' e'
      using that inv unfolding nat_inv_def q by (auto split: if_splits)
    ultimately have "nat_inv q" using inv unfolding nat_inv_def q(2) by blast
    then show ?thesis by (simp add: q_def)
  qed
qed

datatype nat_call =
    PacketCall resolver bytes
  | ReleaseCall string "16 word" string "16 word" "8 word"
  | ReadCall
  | StackCall bytes
  | ReplyCall bytes
  | RuleCall table_call
  | BlockCall bool

text \<open>One call; after a panic the process is gone and the state no longer changes.\<close>

definition keep :: "'st proxyHandler \<Rightarrow> ('a \<times> 'st proxyHandler) go_result \<Rightarrow> 'st proxyHandler" where
  "keep p r = (case r of Ret (_, q) \<Rightarrow> q | Panic \<Rightarrow> p)"

primrec nat_step ::
  "hdr \<Rightarrow> ('dt, 'st) src_bart \<Rightarrow> 'dt dst_bart \<Rightarrow> 'st proxyHandler \<Rightarrow> nat_call \<Rightarrow> 'st proxyHandler" where
  "nat_step H S D p (PacketCall dns pkt) = keep p (HandleIncomingPacket H S D dns pkt p)"
| "nat_step H S D p (ReleaseCall s sp d dp pr) = releaseConnectionState s sp d dp pr p"
| "nat_step H S D p ReadCall = keep p (ReadOutgoingPacket H p)"
| "nat_step H S D p (StackCall pkt) = p\<lparr>ph_outbound := ph_outbound p @ [pkt]\<rparr>"
| "nat_step H S D p (ReplyCall pkt) = keep p (QueueICMPReply pkt p)"
| "nat_step H S D p (RuleCall c) = p\<lparr>ph_subnetLookup := table_step S D (ph_subnetLookup p) c\<rparr>"
| "nat_step H S D p (BlockCall b) = SetBlocked b p"

lemma rewriteAndInject_tables:
  assumes "rewriteAndInject H pkt n p = Ret (b, q)"
  shows "ph_natTable q = ph_natTable p \<and> ph_reverseNatTable q = ph_reverseNatTable p \<and> ph_icmpReplies q = ph_icmpReplies p"
  using assms by (auto simp: rewriteAndInject_def InjectInbound_def go_bind_eq_Ret split: if_splits option.splits)

lemma nat_inv_tables:
  assumes "nat_inv p" "ph_natTable q = ph_natTable p \<and> ph_reverseNatTable q = ph_reverseNatTable p \<and> ph_icmpReplies q = ph_icmpReplies p"
  shows "nat_inv q"
  using assms by (simp add: nat_inv_def)

text \<open>An incoming packet leaves the tables alone or records one new connection.\<close>

lemma HandleIncomingPacket_tables:
  assumes "HandleIncomingPacket H S D dns pkt p = Ret (b, q)"
  shows "(ph_natTable q = ph_natTable p \<and> ph_reverseNatTable q = ph_reverseNatTable p \<and> ph_icmpReplies q = ph_icmpReplies p) \<or>
    (\<exists>p1 k d n r. ph_natTable p1 = ph_natTable p \<and> ph_reverseNatTable p1 = ph_reverseNatTable p \<and>
       ph_icmpReplies p1 = ph_icmpReplies p \<and> map_of (ph_natTable p) k = None \<and> ck_dstIP k = ip4_string d \<and>
       rewriteAndInject H pkt n (recordNat k (IP4 d) n r p1) = Ret (b, q))"
proof (cases "ph_enabled p \<and> \<not> length pkt < IPv4MinimumSize \<and> drop_bit 4 (pkt ! 0) = 4")
  case True
  note hip = assms [unfolded HandleIncomingPacket_def Let_def]
  show ?thesis
  proof (cases "incomingDstPort H pkt")
    case (Some dp)
    show ?thesis
    proof (cases "Match S D (ph_subnetLookup p) (IP4 (h_SourceAddress H pkt)) (IP4 (h_DestinationAddress H pkt)) dp (h_TransportProtocol H pkt)")
      case rule: (Some rule)
      define p1 where "p1 = setResource \<lparr>dk_srcIP = addr_string (IP4 (h_SourceAddress H pkt)),
        dk_dstIP = addr_string (IP4 (h_DestinationAddress H pkt)), dk_dstPort = dp,
        dk_proto = ucast (h_TransportProtocol H pkt)\<rparr> (sr_ResourceId rule) p"
      define k where "k = \<lparr>ck_srcIP = addr_string (IP4 (h_SourceAddress H pkt)), ck_srcPort = incomingSrcPort H pkt,
        ck_dstIP = addr_string (IP4 (h_DestinationAddress H pkt)), ck_dstPort = dp, ck_proto = ucast (h_TransportProtocol H pkt)\<rparr>"
      have p1: "ph_natTable p1 = ph_natTable p" "ph_reverseNatTable p1 = ph_reverseNatTable p" "ph_icmpReplies p1 = ph_icmpReplies p"
        by (simp_all add: p1_def)
      have k: "ck_dstIP k = ip4_string (h_DestinationAddress H pkt)" by (simp add: k_def)
      have r: "(if sr_RewriteTo rule = [] then Ret (True, InjectInbound pkt p1)
          else case map_of (ph_natTable p1) k of Some existing \<Rightarrow> rewriteAndInject H pkt (ns_rewrittenTo existing) p1
            | None \<Rightarrow> (case resolveRewriteAddress dns (sr_RewriteTo rule) of None \<Rightarrow> Ret (True, InjectInbound pkt p1)
               | Some n \<Rightarrow> rewriteAndInject H pkt n (recordNat k (IP4 (h_DestinationAddress H pkt)) n (sr_ResourceId rule) p1))) = Ret (b, q)"
        using hip True Some rule by (simp only: p1_def k_def if_False if_True option.case simp_thms)
      show ?thesis
      proof (cases "sr_RewriteTo rule = [] \<or> mhas (ph_natTable p1) k \<or> resolveRewriteAddress dns (sr_RewriteTo rule) = None")
        case True
        then show ?thesis using r p1 rewriteAndInject_tables
          by (fastforce simp: InjectInbound_def split: if_splits option.splits)
      next
        case False
        then obtain n where "resolveRewriteAddress dns (sr_RewriteTo rule) = Some n" by auto
        with False r p1 k show ?thesis
          by (intro disjI2 exI [of _ p1] exI [of _ k] exI [of _ "h_DestinationAddress H pkt"] exI [of _ n]
              exI [of _ "sr_ResourceId rule"]) simp
      qed
    qed (use hip True Some in auto)
  qed (use hip True in auto)
next
  case False
  then have "HandleIncomingPacket H S D dns pkt p = Ret (False, p)"
    unfolding HandleIncomingPacket_def by auto
  then show ?thesis using assms by simp
qed

lemma nat_inv_incoming:
  assumes inv: "nat_inv p" and r: "HandleIncomingPacket H S D dns pkt p = Ret (b, q)"
  shows "nat_inv q"
  using HandleIncomingPacket_tables [OF r]
proof
  assume "ph_natTable q = ph_natTable p \<and> ph_reverseNatTable q = ph_reverseNatTable p \<and> ph_icmpReplies q = ph_icmpReplies p"
  then show ?thesis by (rule nat_inv_tables [OF inv])
next
  assume "\<exists>p1 k d n r. ph_natTable p1 = ph_natTable p \<and> ph_reverseNatTable p1 = ph_reverseNatTable p \<and>
       ph_icmpReplies p1 = ph_icmpReplies p \<and> map_of (ph_natTable p) k = None \<and> ck_dstIP k = ip4_string d \<and>
       rewriteAndInject H pkt n (recordNat k (IP4 d) n r p1) = Ret (b, q)"
  then obtain p1 k d n r where p1: "ph_natTable p1 = ph_natTable p \<and> ph_reverseNatTable p1 = ph_reverseNatTable p \<and> ph_icmpReplies p1 = ph_icmpReplies p"
      and k: "map_of (ph_natTable p) k = None" "ck_dstIP k = ip4_string d"
      and q: "rewriteAndInject H pkt n (recordNat k (IP4 d) n r p1) = Ret (b, q)" by blast
  have "nat_inv (recordNat k (IP4 d) n r p1)"
    by (rule nat_inv_record [OF nat_inv_tables [OF inv p1]]) (use p1 k in auto)
  then show ?thesis using rewriteAndInject_tables [OF q] by (rule nat_inv_tables)
qed

lemma nat_inv_step: "nat_inv p \<Longrightarrow> nat_inv (nat_step H S D p c)"
proof (induction c)
  case (PacketCall dns pkt)
  then show ?case using nat_inv_incoming [OF PacketCall]
    by (auto simp: keep_def split: go_result.split)
next
  case (ReleaseCall s sp d dp pr)
  then show ?case by (simp add: nat_inv_release)
next
  case ReadCall
  then show ?case
    by (auto simp: keep_def ReadOutgoingPacket_def go_bind_eq_Ret elim: nat_inv_same
        split: go_result.split list.split) (auto simp: nat_inv_def)
next
  case (ReplyCall pkt)
  then show ?case
    by (auto simp: keep_def QueueICMPReply_def nat_inv_def split: go_result.split)
qed (simp_all add: SetBlocked_def nat_inv_def)

interpretation nat_calls: guarded_system "nat_step H S D" "\<lambda>_ _. True" nat_inv for H S D
  by unfold_locales (rule nat_inv_step)

section \<open>Properties\<close>

text \<open>A UDP datagram from 10.0.0.5:4660 to 100.64.0.1:53 with a 20-byte header, and replies to it.\<close>

definition udpPacket :: "byte list \<Rightarrow> byte list \<Rightarrow> byte list \<Rightarrow> byte list \<Rightarrow> bytes" where
  "udpPacket src dst sp dp = [0x45, 0, 0, 28, 0, 0, 0, 0, 64, 17, 0, 0] @ src @ dst @ sp @ dp @ [0, 8, 0, 0]"

definition exQuery :: bytes where
  "exQuery = udpPacket [10, 0, 0, 5] [100, 64, 0, 1] [0x12, 0x34] [0, 53]"

definition exRewrite :: "string \<Rightarrow> subnet_rule" where
  "exRewrite to = \<lparr>sr_SourcePrefix = Prefix (IP4 0x0a000000) 8, sr_DestPrefix = Prefix (IP4 0x64400000) 24,
     sr_DisableIcmp = False, sr_RewriteTo = to, sr_PortRanges = [], sr_ResourceId = 9, sr_Protocol = [],
     sr_HTTPTargets = [], sr_TLSCert = [], sr_TLSKey = []\<rparr>"

definition exHandler :: "string \<Rightarrow> (prefix \<times> (prefix \<times> subnet_rule list) list destTrie) list proxyHandler" where
  "exHandler to = AddSubnetRule ref_bart ref_bart (exRewrite to)
     (the (NewProxyHandler ref_bart \<lparr>po_EnableTCP = True, po_EnableUDP = True, po_EnableICMP = False\<rparr>))"

definition exReply :: bytes where
  "exReply = udpPacket [192, 168, 1, 1] [10, 0, 0, 5] [0, 53] [0x12, 0x34]"

lemma exHandler_fields [simp]:
  "ph_enabled (exHandler to)" "ph_natTable (exHandler to) = []" "ph_icmpReplies (exHandler to) = []"
  "\<not> ph_icmpClosed (exHandler to)" "ph_injected (exHandler to) = []"
  "ph_subnetLookup (exHandler to) = table_step ref_bart ref_bart (NewSubnetLookup ref_bart) (AddCall (exRewrite to))"
  by (simp_all add: exHandler_def AddSubnetRule_def NewProxyHandler_def)

lemma exPacket_fields:
  "h_SourceAddress rfc_hdr (udpPacket [10, 0, 0, 5] d [0x12, 0x34] [0, 53]) = 0x0a000005"
  "portsOf rfc_hdr exQuery = (0x1234, 53)" "h_TransportProtocol rfc_hdr exQuery = 17"
  "h_DestinationAddress rfc_hdr exQuery = 0x64400001" "h_HeaderLength rfc_hdr exQuery = 20"
  "length exQuery = 28" "h_HeaderLength rfc_hdr exReply = 20" "portsOf rfc_hdr exReply = (53, 0x1234)"
  "h_TransportProtocol rfc_hdr exReply = 17" "h_SourceAddress rfc_hdr exReply = 0xc0a80101"
  "h_DestinationAddress rfc_hdr exReply = 0x0a000005" "length exReply = 28"
  "drop_bit 4 (exQuery ! 0) = 4" "drop_bit 4 (exReply ! 0) = 4"
  by (simp_all add: exQuery_def exReply_def udpPacket_def rfc_hdr_def rfc_headerLength_def portsOf_def be16_def be32_def)

lemma exQuery_src: "h_SourceAddress rfc_hdr exQuery = 0x0a000005"
  by (simp add: exQuery_def exPacket_fields)

lemma exPackets: "wellFormed rfc_hdr exQuery" "isReply rfc_hdr exReply 0xc0a80101 exQuery"
  by (simp_all add: wellFormed_def shaped_def isReply_def exPacket_fields exQuery_src transportMin_def)

lemmas text_simps = parse_addr_def parse_ip4_fields_def parse_octet_def parse_prefix_def is_digit_def digits_val_def
  digit_val_def ip4_of_octets_def cut_last_def atoi_def prefix_from_def bit_len_def

lemma exResolve: "resolveRewriteAddress (\<lambda>_. None) ''192.168.1.1/32'' = Some (IP4 0xc0a80101)"
  by (simp add: resolveRewriteAddress_def text_simps)

lemma exRule: "rule_valid (exRewrite to)" "rule_applies (exRewrite to) (IP4 0x0a000005) (IP4 0x64400001)"
  by (simp add: rule_valid_def exRewrite_def valid_prefix_def, 
     simp add: rule_applies_def exRewrite_def covers_def prefix_from_def bit_len_def valid_prefix_def)

lemma exMatched: "matched rfc_hdr ref_bart ref_bart (exHandler to) exQuery = Some (exRewrite to)"
proof -
  have c: "call_valid (AddCall (exRewrite to))" by (simp add: exRule)
  note inv = ref_table.inv_step [OF ref_table.inv_new c]
  have abs: "table_abs ref_bart ref_bart (table_step ref_bart ref_bart (NewSubnetLookup ref_bart) (AddCall (exRewrite to)))
     = [rule_key (exRewrite to) \<mapsto> exRewrite to]"
    by (simp only: ref_table.abs_step [OF c] ref_table.abs_new map_step.simps)
  have "checkRule 53 17 (exRewrite to) = Some (Some (exRewrite to))" by (simp add: checkRule_def exRewrite_def)
  then have "Match ref_bart ref_bart (table_step ref_bart ref_bart (NewSubnetLookup ref_bart) (AddCall (exRewrite to)))
     (IP4 0x0a000005) (IP4 0x64400001) 53 17 = Some (exRewrite to)"
    unfolding ref_table.Match_iff [OF inv addr.distinct(1) [symmetric] addr.distinct(1) [symmetric]] abs
    using exRule(2) by (auto split: if_splits)
  then show ?thesis
    by (simp only: matched_def exPacket_fields exQuery_src exHandler_fields snd_conv)
qed
context header_lib
begin

lemma incoming_new_then_reply:
  assumes "ph_enabled p" "ph_icmpReplies p = []" "\<not> ph_icmpClosed p"
    and "wellFormed H pkt" "matched H S D p pkt = Some rule" "sr_RewriteTo rule \<noteq> []"
    and "map_of (ph_natTable p) (flowKey H pkt) = None"
    and "resolveRewriteAddress dns (sr_RewriteTo rule) = Some (IP4 w)" "\<not> is_loopback (IP4 w)"
    and rp: "isReply H rp w pkt"
  shows "\<exists>p' pkt' rp'. HandleIncomingPacket H S D dns pkt p = Ret (True, p') \<and>
           ph_injected p' = ph_injected p @ [pkt'] \<and> h_DestinationAddress H pkt' = w \<and>
           h_SourceAddress H pkt' = h_SourceAddress H pkt \<and> sameFlow H pkt' pkt \<and>
           ReadOutgoingPacket H (p'\<lparr>ph_outbound := [rp]\<rparr>) = Ret (Some rp', p'\<lparr>ph_outbound := []\<rparr>) \<and>
           h_SourceAddress H rp' = h_DestinationAddress H pkt \<and>
           h_DestinationAddress H rp' = h_SourceAddress H pkt \<and> sameFlow H rp' rp"
proof -
  let ?p1 = "setResource \<lparr>dk_srcIP = ip4_string (h_SourceAddress H pkt), dk_dstIP = ip4_string (h_DestinationAddress H pkt),
      dk_dstPort = snd (portsOf H pkt), dk_proto = ucast (h_TransportProtocol H pkt)\<rparr> (sr_ResourceId rule) p"
  let ?p2 = "recordNat (flowKey H pkt) (IP4 (h_DestinationAddress H pkt)) (IP4 w) (sr_ResourceId rule) ?p1"
  have hip: "HandleIncomingPacket H S D dns pkt p = rewriteAndInject H pkt (IP4 w) ?p2"
    using HandleIncomingPacket_rewrite [OF assms(1,4,5,6)] assms(7,8) by simp
  have sh: "shaped H pkt" using assms(4) by (simp add: wellFormed_def)
  obtain pkt' where pkt': "rewriteAndInject H pkt (IP4 w) ?p2 = Ret (True, InjectInbound pkt' ?p2)"
      "h_DestinationAddress H pkt' = w" "h_SourceAddress H pkt' = h_SourceAddress H pkt" "sameFlow H pkt' pkt"
    using rewriteAndInject_IP4 [OF sh assms(9)] by blast
  let ?p3 = "InjectInbound pkt' ?p2"
  have rev: "map_of (ph_reverseNatTable ?p3) \<lparr>rk_rewrittenTo = ip4_string w, rk_originalSrcIP = ip4_string (h_SourceAddress H pkt),
       rk_originalSrcPort = fst (portsOf H pkt), rk_originalDstPort = snd (portsOf H pkt),
       rk_proto = ucast (h_TransportProtocol H pkt)\<rparr>
     = Some \<lparr>ns_originalDst = IP4 (h_DestinationAddress H pkt), ns_rewrittenTo = IP4 w\<rparr>"
    by (simp add: InjectInbound_def flowKey_def)
  obtain rp' where rp': "reverseTranslate H ?p3 rp = Ret rp'" "h_SourceAddress H rp' = h_DestinationAddress H pkt"
      "h_DestinationAddress H rp' = h_DestinationAddress H rp" "sameFlow H rp' rp"
    using reverse_reply [OF rp rev] by auto
  have "ReadOutgoingPacket H (?p3\<lparr>ph_outbound := [rp]\<rparr>) = Ret (Some rp', ?p3\<lparr>ph_outbound := []\<rparr>)"
    by (rule ReadOutgoing_reply [OF _ _ _ rp'(1)]) (use assms in \<open>simp_all add: InjectInbound_def\<close>)
  moreover have "h_DestinationAddress H rp = h_SourceAddress H pkt" using rp by (simp add: isReply_def)
  ultimately show ?thesis using hip pkt' rp'
    by (intro exI [of _ ?p3] exI [of _ pkt'] exI [of _ rp']) (simp add: InjectInbound_def)
qed

lemma incoming_existing:
  assumes "ph_enabled p" "wellFormed H pkt" "matched H S D p pkt = Some rule" "sr_RewriteTo rule \<noteq> []"
    and "map_of (ph_natTable p) (flowKey H pkt) = Some e" "ns_rewrittenTo e = IP4 w" "\<not> is_loopback (IP4 w)"
  shows "\<exists>p' pkt'. HandleIncomingPacket H S D dns pkt p = Ret (True, p') \<and>
           ph_injected p' = ph_injected p @ [pkt'] \<and> h_DestinationAddress H pkt' = w \<and> ph_natTable p' = ph_natTable p"
proof -
  have sh: "shaped H pkt" using assms(2) by (simp add: wellFormed_def)
  have hip: "HandleIncomingPacket H S D dns pkt p = rewriteAndInject H pkt (IP4 w)
      (setResource \<lparr>dk_srcIP = ip4_string (h_SourceAddress H pkt), dk_dstIP = ip4_string (h_DestinationAddress H pkt),
        dk_dstPort = snd (portsOf H pkt), dk_proto = ucast (h_TransportProtocol H pkt)\<rparr> (sr_ResourceId rule) p)"
    using HandleIncomingPacket_rewrite [OF assms(1-4)] assms(5,6) by simp
  show ?thesis unfolding hip
    by (rule rewriteAndInject_IP4 [OF sh assms(7), of "setResource \<lparr>dk_srcIP = ip4_string (h_SourceAddress H pkt),
        dk_dstIP = ip4_string (h_DestinationAddress H pkt), dk_dstPort = snd (portsOf H pkt),
        dk_proto = ucast (h_TransportProtocol H pkt)\<rparr> (sr_ResourceId rule) p"]) (auto simp: InjectInbound_def)
qed

end

text \<open>
  C3. Destination rewriting is undone for replies.  A packet of a new connection that matches a rule with a rewrite address
  enters the proxy stack with that address as its destination and with source, ports and protocol unchanged; and when the stack
  then answers that connection, the packet handed to the tunnel carries the original destination as its source address.
\<close>

theorem dnat_roundtrip:
  assumes "header_lib H" "ph_enabled p" "ph_icmpReplies p = []" "\<not> ph_icmpClosed p"
    and "wellFormed H pkt" "matched H S D p pkt = Some rule" "sr_RewriteTo rule \<noteq> []"
    and "map_of (ph_natTable p) (flowKey H pkt) = None"
    and "resolveRewriteAddress dns (sr_RewriteTo rule) = Some (IP4 w)" "\<not> is_loopback (IP4 w)"
    and "isReply H rp w pkt"
  shows "\<exists>p' pkt' rp'. HandleIncomingPacket H S D dns pkt p = Ret (True, p') \<and>
           ph_injected p' = ph_injected p @ [pkt'] \<and> h_DestinationAddress H pkt' = w \<and>
           h_SourceAddress H pkt' = h_SourceAddress H pkt \<and> sameFlow H pkt' pkt \<and>
           ReadOutgoingPacket H (p'\<lparr>ph_outbound := [rp]\<rparr>) = Ret (Some rp', p'\<lparr>ph_outbound := []\<rparr>) \<and>
           h_SourceAddress H rp' = h_DestinationAddress H pkt \<and>
           h_DestinationAddress H rp' = h_SourceAddress H pkt \<and> sameFlow H rp' rp"
  by (rule header_lib.incoming_new_then_reply [OF assms])

theorem dnat_roundtrip_witness:
  "\<exists>p' rp'. HandleIncomingPacket rfc_hdr ref_bart ref_bart (\<lambda>_. None) exQuery (exHandler ''192.168.1.1/32'') = Ret (True, p') \<and>
     ReadOutgoingPacket rfc_hdr (p'\<lparr>ph_outbound := [exReply]\<rparr>) = Ret (Some rp', p'\<lparr>ph_outbound := []\<rparr>) \<and>
     h_SourceAddress rfc_hdr rp' = 0x64400001"
proof -
  have "\<not> is_loopback (IP4 0xc0a80101)" by (simp add: is_loopback_def unmap_def)
  moreover have "sr_RewriteTo (exRewrite ''192.168.1.1/32'') = ''192.168.1.1/32''" by (simp add: exRewrite_def)
  ultimately show ?thesis
    using dnat_roundtrip [OF rfc.header_lib_axioms, of "exHandler ''192.168.1.1/32''" exQuery ref_bart ref_bart
        "exRewrite ''192.168.1.1/32''" "\<lambda>_. None" "0xc0a80101" exReply]
      exMatched exPackets exResolve by (auto simp: exPacket_fields)
qed

text \<open>
  A tracked connection keeps its target: while the connection table holds an entry for the packet's addresses and
  ports, the packet goes to the recorded address, whatever rewrite address the matching rule has by then and whatever a new
  resolution would return, and the table does not change.
\<close>

theorem nat_entry_sticky:
  assumes "header_lib H" "ph_enabled p" "wellFormed H pkt" "matched H S D p pkt = Some rule" "sr_RewriteTo rule \<noteq> []"
    and "map_of (ph_natTable p) (flowKey H pkt) = Some e" "ns_rewrittenTo e = IP4 w" "\<not> is_loopback (IP4 w)"
  shows "\<exists>p' pkt'. HandleIncomingPacket H S D dns pkt p = Ret (True, p') \<and>
           ph_injected p' = ph_injected p @ [pkt'] \<and> h_DestinationAddress H pkt' = w \<and> ph_natTable p' = ph_natTable p"
  by (rule header_lib.incoming_existing [OF assms])

theorem nat_entry_sticky_witness:
  "\<exists>p' pkt'. HandleIncomingPacket rfc_hdr ref_bart ref_bart (\<lambda>_. None) exQuery
       ((exHandler ''192.168.1.1/32'')\<lparr>ph_natTable := [(flowKey rfc_hdr exQuery,
          \<lparr>ns_originalDst = IP4 0x64400001, ns_rewrittenTo = IP4 0x0a0a0a0a\<rparr>)]\<rparr>) = Ret (True, p') \<and>
     ph_injected p' = [pkt'] \<and> h_DestinationAddress rfc_hdr pkt' = 0x0a0a0a0a"
proof -
  let ?p = "(exHandler ''192.168.1.1/32'')\<lparr>ph_natTable := [(flowKey rfc_hdr exQuery,
          \<lparr>ns_originalDst = IP4 0x64400001, ns_rewrittenTo = IP4 0x0a0a0a0a\<rparr>)]\<rparr>"
  have "matched rfc_hdr ref_bart ref_bart ?p exQuery = Some (exRewrite ''192.168.1.1/32'')"
    using exMatched by (simp add: matched_def)
  moreover have "\<not> is_loopback (IP4 0x0a0a0a0a)" by (simp add: is_loopback_def unmap_def)
  ultimately show ?thesis
    using nat_entry_sticky [OF rfc.header_lib_axioms, of ?p exQuery ref_bart ref_bart "exRewrite ''192.168.1.1/32''"
        "\<lparr>ns_originalDst = IP4 0x64400001, ns_rewrittenTo = IP4 0x0a0a0a0a\<rparr>" "0x0a0a0a0a" "\<lambda>_. None"]
      exPackets by (auto simp: exRewrite_def)
qed

text \<open>
  C14. Replies are translated only for live connections.  Under every sequence of packets, releases, replies and rule changes,
  each entry of the reverse table is the entry of a tracked connection with the same addresses and ports, whose key
  holds the original destination; and the queue of ICMP replies never exceeds its capacity of 256.
\<close>

theorem nat_tables_consistent:
  "nat_inv (foldl (nat_step H S D) (the (NewProxyHandler S \<lparr>po_EnableTCP = True, po_EnableUDP = u, po_EnableICMP = i\<rparr>)) cs)"
  by (rule nat_calls.run_inv_free) (simp_all add: nat_inv_def NewProxyHandler_def)

text \<open>
  A rule whose rewrite address is an IPv6 address other than the loopback crashes the client: the first matching packet makes
  \<open>HandleIncomingPacket\<close> panic, because the rewriter asks for the 4-byte form of the address.
\<close>

theorem ipv6_rewrite_panics:
  assumes "header_lib H" "ph_enabled p" "wellFormed H pkt" "matched H S D p pkt = Some rule" "sr_RewriteTo rule \<noteq> []"
    and "map_of (ph_natTable p) (flowKey H pkt) = None"
    and "resolveRewriteAddress dns (sr_RewriteTo rule) = Some (IP6 w z)" "\<not> is4in6 w" "w \<noteq> 1"
  shows "HandleIncomingPacket H S D dns pkt p = Panic"
  unfolding header_lib.HandleIncomingPacket_rewrite [OF assms(1-5)]
  using assms(3,6-9)
  by (simp add: rewriteAndInject_def rewritePacketDestination_def is_loopback_def unmap_def as4_def wellFormed_def shaped_def Let_def)

theorem ipv6_rewrite_panics_witness:
  "HandleIncomingPacket rfc_hdr ref_bart ref_bart (\<lambda>_. None) exQuery (exHandler ''fd00::1'') = Panic"
proof -
  have six: "replicate 6 (0::nat) = [0, 0, 0, 0, 0, 0]" by (simp add: eval_nat_numeral)
  have "resolveRewriteAddress (\<lambda>_. None) ''fd00::1'' = Some (IP6 0xfd000000000000000000000000000001 [])"
    by (simp add: resolveRewriteAddress_def text_simps parse_ip6_def parse_ip6_loop_step has_prefix_def is_hex_def
        hexs_val_def hex_val_def word_of_groups_def six Let_def)
  moreover have "sr_RewriteTo (exRewrite ''fd00::1'') = ''fd00::1''" by (simp add: exRewrite_def)
  ultimately show ?thesis
    using ipv6_rewrite_panics [OF rfc.header_lib_axioms, of "exHandler ''fd00::1''" exQuery ref_bart ref_bart "exRewrite ''fd00::1''"
        "\<lambda>_. None" "0xfd000000000000000000000000000001" "[]"] exMatched exPackets
    by (simp add: is4in6_def)
qed

text \<open>
  C15. No packet enters the proxy stack without a rule: if \<open>HandleIncomingPacket\<close> reports a packet as handled, or injects
  anything, then an installed rule matched its addresses, port and protocol; otherwise the handler is unchanged.
\<close>

theorem injects_only_matched:
  assumes "HandleIncomingPacket H S D dns pkt p = Ret (b, p')"
  shows "(b \<or> p' \<noteq> p) \<longrightarrow> ph_enabled p \<and> IPv4MinimumSize \<le> length pkt \<and>
     (\<exists>port rule. incomingDstPort H pkt = Some port \<and>
        Match S D (ph_subnetLookup p) (IP4 (h_SourceAddress H pkt)) (IP4 (h_DestinationAddress H pkt)) port
          (h_TransportProtocol H pkt) = Some rule)"
  using assms
  by (cases "incomingDstPort H pkt")
    (auto simp: HandleIncomingPacket_def Let_def split: if_splits option.splits)

theorem injects_only_matched_witness:
  "\<exists>p' rule. HandleIncomingPacket rfc_hdr ref_bart ref_bart (\<lambda>_. None) exQuery (exHandler ''192.168.1.1/32'') = Ret (True, p') \<and>
     Match ref_bart ref_bart (ph_subnetLookup (exHandler ''192.168.1.1/32'')) (IP4 0x0a000005) (IP4 0x64400001) 53 17 = Some rule"
proof -
  have "\<not> is_loopback (IP4 0xc0a80101)" by (simp add: is_loopback_def unmap_def)
  moreover have "sr_RewriteTo (exRewrite ''192.168.1.1/32'') = ''192.168.1.1/32''" by (simp add: exRewrite_def)
  ultimately obtain p' where p':
    "HandleIncomingPacket rfc_hdr ref_bart ref_bart (\<lambda>_. None) exQuery (exHandler ''192.168.1.1/32'') = Ret (True, p')"
    using rfc.incoming_new_then_reply [of "exHandler ''192.168.1.1/32''" exQuery ref_bart ref_bart
        "exRewrite ''192.168.1.1/32''" "\<lambda>_. None" "0xc0a80101" exReply] exMatched exPackets exResolve by auto
  have "incomingDstPort rfc_hdr exQuery = Some 53"
    using rfc.incoming_ports(1) [of exQuery] exPackets(1) by (simp add: wellFormed_def exPacket_fields)
  then show ?thesis using injects_only_matched [OF p'] p' by (auto simp: exPacket_fields exQuery_src)
qed

text \<open>
  Shutting the handler down twice panics: the second \<open>Close\<close> closes the reply channel again, and so does queueing an
  ICMP reply after the first one.
\<close>

theorem second_close_panics:
  assumes "ph_enabled p" "CloseHandler rng srt out1 out2 now p = Ret p'"
  shows "CloseHandler rng' srt' out1' out2' now' p' = Panic \<and> QueueICMPReply pkt p' = Panic"
  using assms by (auto simp: CloseHandler_def QueueICMPReply_def Let_def split: if_splits)

theorem second_close_panics_witness:
  "QueueICMPReply [] ((exHandler ''h'')\<lparr>ph_accessLogger := fst (CloseLogger (\<lambda>m. m) id Sent 1 (ph_accessLogger (exHandler ''h''))),
     ph_httpRequestLogger := map_option (fst \<circ> CloseRequestLogger Sent) (ph_httpRequestLogger (exHandler ''h'')),
     ph_icmpClosed := True, ph_outbound := []\<rparr>) = Panic"
  using second_close_panics [of "exHandler ''h''" "\<lambda>m. m" id Sent Sent 1]
  by (simp add: CloseHandler_def Let_def)

end
