(* ===== verification/Conn_Handlers.thy ===== *)
theory Conn_Handlers
  imports Nat_Proxy
begin

unbundle bit_operations_syntax

declare map_of_eq_Some_iff [simp del] Some_eq_map_of_iff [simp del]

text \<open>
  The handlers of the proxy stack (\<open>netstack2/handlers.go\<close>): the TCP and UDP forwarders that connect a tunnelled connection to its
  target, and the ICMP handler that answers echo requests.

  The handlers are built by \<open>NewProxyHandler\<close>, which passes itself as their proxy handler, so that pointer is never nil.  The sockets are
  outside the repository: a handler returns the calls it makes on them as a list of events, in program order, together with the
  state of the proxy handler.  Other goroutines run while a handler dials or copies; what they do to the shared state is an argument
  (\<open>ce_dialing\<close>, \<open>ce_piping\<close>), and the theorems hold for every choice of it.
\<close>

section \<open>Constants and connections\<close>

definition maxConnAttempts :: nat where
  "maxConnAttempts = 2 * 2 ^ 10"

definition tcpKeepaliveCount :: nat where
  "tcpKeepaliveCount = 9"

definition tcpKeepaliveIdle :: int where
  "tcpKeepaliveIdle = 60 * second"

definition tcpKeepaliveInterval :: int where
  "tcpKeepaliveInterval = 30 * second"

definition tcpConnectTimeout :: int where
  "tcpConnectTimeout = 5 * second"

definition tcpWaitTimeout :: int where
  "tcpWaitTimeout = 60 * second"

definition udpSessionTimeout :: int where
  "udpSessionTimeout = 60 * second"

definition icmpTimeout :: int where
  "icmpTimeout = 5 * second"

text \<open>\<open>stack.TransportEndpointID\<close>: the remote side is the client in the tunnel, the local side the destination it addressed.\<close>

record endpointID =
  ei_RemoteAddress :: "32 word"
  ei_RemotePort :: "16 word"
  ei_LocalAddress :: "32 word"
  ei_LocalPort :: "16 word"

datatype side = Origin | Remote

datatype conn_event =
    EvClose side
  | EvHTTP subnet_rule
  | EvDial string int
  | EvListenUDP
  | EvCopy side side
  | EvCloseRead side
  | EvCloseWrite side
  | EvReadDeadline side int

record 'st conn_env =
  ce_sid :: string
  ce_started :: instant
  ce_ended :: instant
  ce_reach :: "string \<Rightarrow> bool"
  ce_resolve :: "string \<Rightarrow> bool"
  ce_socket :: bool
  ce_order :: "conn_event list \<Rightarrow> conn_event list \<Rightarrow> conn_event list"
  ce_rng :: group_order
  ce_srt :: "access_session list \<Rightarrow> access_session list"
  ce_out :: send_outcome
  ce_dialing :: "'st proxyHandler \<Rightarrow> 'st proxyHandler"
  ce_piping :: "'st proxyHandler \<Rightarrow> 'st proxyHandler"

text \<open>\<open>fmt.Sprintf("%s:%d", ip, port)\<close>\<close>

definition hostPort :: "string \<Rightarrow> 16 word \<Rightarrow> string" where
  "hostPort ip port = ip @ '':'' @ itoa (unat port)"

section \<open>TCP\<close>

text \<open>Both ends of the pipe support half-close.\<close>

definition unidirectionalStreamTCP :: "side \<Rightarrow> side \<Rightarrow> conn_event list" where
  "unidirectionalStreamTCP dst src = [EvCopy dst src, EvCloseRead src, EvCloseWrite dst, EvReadDeadline dst tcpWaitTimeout]"

text \<open>The two goroutines run in any order (\<open>ce_order\<close>); the caller waits for both.\<close>

definition pipeTCP :: "'st conn_env \<Rightarrow> conn_event list" where
  "pipeTCP env = ce_order env (unidirectionalStreamTCP Remote Origin) (unidirectionalStreamTCP Origin Remote)"

definition targetOf :: "8 word \<Rightarrow> endpointID \<Rightarrow> 'st proxyHandler \<Rightarrow> string" where
  "targetOf pr i p =
     (let srcIP = ip4_string (ei_RemoteAddress i); dstIP = ip4_string (ei_LocalAddress i)
      in hostPort (case LookupDestinationRewrite srcIP dstIP (ei_LocalPort i) pr p of
                     Some rewrittenAddr \<Rightarrow> addr_string rewrittenAddr | None \<Rightarrow> dstIP) (ei_LocalPort i))"

definition clientAddr :: "endpointID \<Rightarrow> string" where
  "clientAddr i = hostPort (ip4_string (ei_RemoteAddress i)) (ei_RemotePort i)"

definition resourceOf :: "8 word \<Rightarrow> endpointID \<Rightarrow> 'st proxyHandler \<Rightarrow> int" where
  "resourceOf pr i p =
     LookupResourceId (ip4_string (ei_RemoteAddress i)) (ip4_string (ei_LocalAddress i)) (ei_LocalPort i) pr p"

definition releaseOf :: "8 word \<Rightarrow> endpointID \<Rightarrow> 'st proxyHandler \<Rightarrow> 'st proxyHandler" where
  "releaseOf pr i p = releaseConnectionState (ip4_string (ei_RemoteAddress i)) (ei_RemotePort i)
     (ip4_string (ei_LocalAddress i)) (ei_LocalPort i) pr p"

definition updLogger :: "(access_logger \<Rightarrow> access_logger) \<Rightarrow> 'st proxyHandler \<Rightarrow> 'st proxyHandler" where
  "updLogger f p = p\<lparr>ph_accessLogger := f (ph_accessLogger p)\<rparr>"

definition startSession :: "'st conn_env \<Rightarrow> endpointID \<Rightarrow> 'st proxyHandler \<Rightarrow> string \<times> 'st proxyHandler" where
  "startSession env i p =
     (let rid = resourceOf 6 i p in
      if rid \<noteq> 0 then
        (let (sid, al) = StartTCPSession (ce_sid env) (ce_started env) rid (clientAddr i) (targetOf 6 i p) (ph_accessLogger p)
         in (sid, p\<lparr>ph_accessLogger := al\<rparr>))
      else ([], p))"

definition endSessionTCP :: "'st conn_env \<Rightarrow> string \<Rightarrow> 'st proxyHandler \<Rightarrow> 'st proxyHandler" where
  "endSessionTCP env sid p =
     (if sid \<noteq> [] then updLogger (fst \<circ> EndTCPSession (ce_rng env) (ce_srt env) (ce_out env) (ce_ended env) sid) p else p)"

text \<open>The rule that hands a connection on port 80 or 443 to the HTTP handler, which exists together with the TCP handler.\<close>

definition httpRule ::
  "('dt, 'st) src_bart \<Rightarrow> 'dt dst_bart \<Rightarrow> endpointID \<Rightarrow> 'st proxyHandler \<Rightarrow> subnet_rule option" where
  "httpRule S D i p =
     (if (ei_LocalPort i = 80 \<or> ei_LocalPort i = 443) \<and> ph_tcpHandler p then
        (case Match S D (ph_subnetLookup p) (IP4 (ei_RemoteAddress i)) (IP4 (ei_LocalAddress i)) (ei_LocalPort i)
                TCPProtocolNumber of
           Some rule \<Rightarrow> (if sr_Protocol rule \<noteq> [] \<and> 0 < length (sr_HTTPTargets rule) then Some rule else None)
         | None \<Rightarrow> None)
      else None)"

text \<open>
  Deferred calls run in reverse order on every return after they are installed: the session ends, the target is closed, the NAT
  state is released, and the client's connection is closed last.
\<close>

definition handleTCPConn ::
  "('dt, 'st) src_bart \<Rightarrow> 'dt dst_bart \<Rightarrow> 'st conn_env \<Rightarrow> endpointID \<Rightarrow> 'st proxyHandler \<Rightarrow> conn_event list \<times> 'st proxyHandler" where
  "handleTCPConn S D env i p =
     (if IsBlocked p then ([EvClose Origin], p)
      else case httpRule S D i p of
          Some rule \<Rightarrow> ([EvHTTP rule], p)
        | None \<Rightarrow>
            (let targetAddr = targetOf 6 i p;
                 (accessSessionID, p) = startSession env i p;
                 p = ce_dialing env p
             in if \<not> ce_reach env targetAddr
                then ([EvDial targetAddr tcpConnectTimeout, EvClose Origin], releaseOf 6 i (endSessionTCP env accessSessionID p))
                else ([EvDial targetAddr tcpConnectTimeout] @ pipeTCP env @ [EvClose Remote, EvClose Origin],
                      releaseOf 6 i (endSessionTCP env accessSessionID (ce_piping env p)))))"

text \<open>
  The forwarder's callback: a failed handshake answers with a reset and starts no handler.  \<open>keepalive\<close> are the
  three keep-alive settings of \<open>setTCPSocketOptions\<close>, \<open>sndbuf\<close> and \<open>rcvbuf\<close> the stack's default buffer sizes if it has
  them.
\<close>

datatype forward_event =
    FwComplete bool
  | FwKeepAlive bool
  | FwKeepaliveIdle int
  | FwKeepaliveInterval int
  | FwKeepaliveCount nat
  | FwSendBuffer int
  | FwReceiveBuffer int
  | FwHandle endpointID

definition setTCPSocketOptions :: "int option \<Rightarrow> int option \<Rightarrow> forward_event list" where
  "setTCPSocketOptions sndbuf rcvbuf =
     [FwKeepAlive True, FwKeepaliveIdle tcpKeepaliveIdle, FwKeepaliveInterval tcpKeepaliveInterval,
      FwKeepaliveCount tcpKeepaliveCount] @
     (case sndbuf of Some n \<Rightarrow> [FwSendBuffer n] | None \<Rightarrow> []) @ (case rcvbuf of Some n \<Rightarrow> [FwReceiveBuffer n] | None \<Rightarrow> [])"

definition forwardTCP :: "bool \<Rightarrow> int option \<Rightarrow> int option \<Rightarrow> endpointID \<Rightarrow> forward_event list" where
  "forwardTCP created sndbuf rcvbuf i =
     (if \<not> created then [FwComplete True]
      else setTCPSocketOptions sndbuf rcvbuf @ [FwHandle i, FwComplete False])"

section \<open>UDP\<close>

text \<open>The outcome of one \<open>ReadFrom\<close>, and the datagrams written, with their destination.\<close>

datatype packet_read = ReadTimeout | ReadEOF | ReadError | ReadPacket bytes string

text \<open>
  The loop of \<open>copyPacketData\<close> over the reads that happen: it returns whether an error ended it, and the datagrams written.
  \<open>wr n\<close> tells whether the write of the datagram number \<open>n\<close> succeeds.  A read that never returns is the end of the list; the
  deadline set before each read rules it out, so the loop then ends like a timeout.
\<close>

fun copyPacketData :: "(nat \<Rightarrow> bool) \<Rightarrow> string option \<Rightarrow> nat \<Rightarrow> packet_read list \<Rightarrow> bool \<times> (bytes \<times> string) list" where
  "copyPacketData wr to n [] = (False, [])"
| "copyPacketData wr to n (ReadTimeout # rs) = (False, [])"
| "copyPacketData wr to n (ReadEOF # rs) = (False, [])"
| "copyPacketData wr to n (ReadError # rs) = (True, [])"
| "copyPacketData wr to n (ReadPacket b srcAddr # rs) =
     (let writeAddr = (case to of Some a \<Rightarrow> a | None \<Rightarrow> srcAddr) in
      if \<not> wr n then (True, [])
      else let (e, out) = copyPacketData wr to (Suc n) rs in (e, (b, writeAddr) # out))"

definition trackSession :: "'st conn_env \<Rightarrow> endpointID \<Rightarrow> 'st proxyHandler \<Rightarrow> string \<times> 'st proxyHandler" where
  "trackSession env i p =
     (let rid = resourceOf 17 i p in
      if rid \<noteq> 0 then
        (let (sid, al) = TrackUDPSession (ce_sid env) (ce_started env) rid (clientAddr i) (targetOf 17 i p) (ph_accessLogger p)
         in (sid, p\<lparr>ph_accessLogger := al\<rparr>))
      else ([], p))"

definition endSessionUDP :: "'st conn_env \<Rightarrow> string \<Rightarrow> 'st proxyHandler \<Rightarrow> 'st proxyHandler" where
  "endSessionUDP env sid p =
     (if sid \<noteq> [] then updLogger (fst \<circ> EndUDPSession (ce_rng env) (ce_srt env) (ce_out env) (ce_ended env) sid) p else p)"

text \<open>Each direction copies until its timeout; \<open>pipeUDP\<close> waits for both.\<close>

definition unidirectionalPacketStream :: "side \<Rightarrow> side \<Rightarrow> conn_event list" where
  "unidirectionalPacketStream dst src = [EvReadDeadline src udpSessionTimeout, EvCopy dst src]"

definition pipeUDP :: "'st conn_env \<Rightarrow> conn_event list" where
  "pipeUDP env = ce_order env (unidirectionalPacketStream Remote Origin) (unidirectionalPacketStream Origin Remote)"

definition handleUDPConn :: "'st conn_env \<Rightarrow> endpointID \<Rightarrow> 'st proxyHandler \<Rightarrow> conn_event list \<times> 'st proxyHandler" where
  "handleUDPConn env i p =
     (if IsBlocked p then ([EvClose Origin], releaseOf 17 i p)
      else let targetAddr = targetOf 17 i p;
               (accessSessionID, p) = trackSession env i p;
               p = ce_dialing env p
           in if \<not> ce_resolve env targetAddr \<or> \<not> ce_resolve env (clientAddr i) \<or> \<not> ce_socket env
              then ([EvClose Origin], releaseOf 17 i (endSessionUDP env accessSessionID p))
              else ([EvListenUDP] @ pipeUDP env @ [EvClose Remote, EvClose Origin],
                    releaseOf 17 i (endSessionUDP env accessSessionID (ce_piping env p))))"

section \<open>ICMP\<close>

text \<open>
  The accessors of an ICMPv4 header and the encoder of an IPv4 header (gVisor's \<open>header\<close> package), next to those of \<open>hdr\<close>.
\<close>

record ipv4Fields =
  f_TotalLength :: "16 word"
  f_TTL :: byte
  f_Protocol :: byte
  f_SrcAddr :: "32 word"
  f_DstAddr :: "32 word"

record icmp_ops =
  io_Type :: "bytes \<Rightarrow> byte"
  io_Ident :: "bytes \<Rightarrow> 16 word"
  io_Sequence :: "bytes \<Rightarrow> 16 word"
  io_SetType :: "byte \<Rightarrow> bytes \<Rightarrow> bytes"
  io_SetCode :: "byte \<Rightarrow> bytes \<Rightarrow> bytes"
  io_SetIdent :: "16 word \<Rightarrow> bytes \<Rightarrow> bytes"
  io_SetSequence :: "16 word \<Rightarrow> bytes \<Rightarrow> bytes"
  io_SetChecksum :: "16 word \<Rightarrow> bytes \<Rightarrow> bytes"
  io_Encode :: "ipv4Fields \<Rightarrow> bytes \<Rightarrow> bytes"

abbreviation ICMPv4MinimumSize :: nat where "ICMPv4MinimumSize \<equiv> 8"
abbreviation ICMPv4Echo :: byte where "ICMPv4Echo \<equiv> 8"
abbreviation ICMPv4EchoReply :: byte where "ICMPv4EchoReply \<equiv> 0"

text \<open>
  What the operating system does for a ping: whether each socket can be opened, the resolver, the outcome of a write on the raw
  or the unprivileged socket, the messages that arrive before the deadline, the parser of \<open>golang.org/x/net/icmp\<close> and its
  \<open>Marshal\<close>, and the \<open>ping\<close> command.
\<close>

datatype icmp_read = RecvError | RecvPacket bytes

record icmp_message =
  im_Type :: int
  im_Echo :: "(int \<times> int) option"

record icmp_env =
  ie_raw :: bool
  ie_unprivileged :: bool
  ie_resolve :: "string \<Rightarrow> bool"
  ie_write :: "bool \<Rightarrow> string \<Rightarrow> bytes \<Rightarrow> bool"
  ie_reads :: "bool \<Rightarrow> icmp_read list"
  ie_parse :: "bytes \<Rightarrow> icmp_message option"
  ie_marshal :: "int \<Rightarrow> int \<Rightarrow> bytes \<Rightarrow> bytes option"
  ie_pingCommand :: "string \<Rightarrow> bool"

definition isOurReply :: "16 word \<Rightarrow> 16 word \<Rightarrow> bool \<Rightarrow> icmp_message \<Rightarrow> bool" where
  "isOurReply ident sq ignoreIdent m \<longleftrightarrow> im_Type m = 0 \<and>
     (case im_Echo m of None \<Rightarrow> False
      | Some (i, n) \<Rightarrow> n = int (unat sq) \<and> (ignoreIdent \<or> i = int (unat ident)))"

text \<open>The receive loop: the deadline turns the end of the list into an error.\<close>

fun awaitReply :: "icmp_env \<Rightarrow> 16 word \<Rightarrow> 16 word \<Rightarrow> bool \<Rightarrow> icmp_read list \<Rightarrow> bool" where
  "awaitReply env ident sq ignoreIdent [] = False"
| "awaitReply env ident sq ignoreIdent (RecvError # rs) = False"
| "awaitReply env ident sq ignoreIdent (RecvPacket b # rs) =
     (case ie_parse env (take 1500 b) of
        None \<Rightarrow> awaitReply env ident sq ignoreIdent rs
      | Some m \<Rightarrow> if isOurReply ident sq ignoreIdent m then True else awaitReply env ident sq ignoreIdent rs)"

definition sendAndReceiveICMP ::
  "icmp_env \<Rightarrow> string \<Rightarrow> 16 word \<Rightarrow> 16 word \<Rightarrow> bytes \<Rightarrow> bool \<Rightarrow> bool \<Rightarrow> bool" where
  "sendAndReceiveICMP env actualDstIP ident sq payload isUnprivileged ignoreIdent =
     (case ie_marshal env (int (unat ident)) (int (unat sq)) payload of
        None \<Rightarrow> False
      | Some msgBytes \<Rightarrow>
          if \<not> isUnprivileged \<and> \<not> ie_resolve env actualDstIP then False
          else if \<not> ie_write env isUnprivileged actualDstIP msgBytes then False
          else awaitReply env ident sq ignoreIdent (ie_reads env isUnprivileged))"

definition tryRawICMP :: "icmp_env \<Rightarrow> string \<Rightarrow> 16 word \<Rightarrow> 16 word \<Rightarrow> bytes \<Rightarrow> bool \<Rightarrow> bool" where
  "tryRawICMP env actualDstIP ident sq payload ignoreIdent =
     (if \<not> ie_raw env then False else sendAndReceiveICMP env actualDstIP ident sq payload False ignoreIdent)"

definition tryUnprivilegedICMP :: "icmp_env \<Rightarrow> string \<Rightarrow> 16 word \<Rightarrow> 16 word \<Rightarrow> bytes \<Rightarrow> bool" where
  "tryUnprivilegedICMP env actualDstIP ident sq payload =
     (if \<not> ie_unprivileged env then False else sendAndReceiveICMP env actualDstIP ident sq payload True True)"

definition tryPingCommand :: "icmp_env \<Rightarrow> string \<Rightarrow> bool" where
  "tryPingCommand env actualDstIP = ie_pingCommand env actualDstIP"

definition tryICMPMethods :: "icmp_env \<Rightarrow> string \<Rightarrow> 16 word \<Rightarrow> 16 word \<Rightarrow> bytes \<Rightarrow> string \<times> bool" where
  "tryICMPMethods env actualDstIP ident sq payload =
     (if tryRawICMP env actualDstIP ident sq payload False then (''raw ICMP'', True)
      else if tryUnprivilegedICMP env actualDstIP ident sq payload then (''unprivileged ICMP'', True)
      else if tryPingCommand env actualDstIP then (''ping command'', True)
      else ([], False))"

text \<open>
  The reply packet.  The code works in place on one buffer of \<open>totalLen\<close> zero bytes: the first 20 bytes are the IP header, the next
  8 the ICMP header, the rest the payload.  \<open>uint16(totalLen)\<close> wraps.
\<close>

definition buildICMPReply :: "hdr \<Rightarrow> icmp_ops \<Rightarrow> 32 word \<Rightarrow> 32 word \<Rightarrow> 16 word \<Rightarrow> 16 word \<Rightarrow> bytes \<Rightarrow> bytes" where
  "buildICMPReply H I src dst ident sq payload =
     (let totalLen = IPv4MinimumSize + ICMPv4MinimumSize + length payload;
          ipHdr = io_Encode I \<lparr>f_TotalLength = of_nat totalLen, f_TTL = 64, f_Protocol = ucast ICMPv4ProtocolNumber,
                    f_SrcAddr = src, f_DstAddr = dst\<rparr> (replicate IPv4MinimumSize 0);
          ipHdr = h_SetChecksum H (NOT (h_CalculateChecksum H ipHdr)) ipHdr;
          icmpHdr = io_SetSequence I sq (io_SetIdent I ident (io_SetCode I 0 (io_SetType I ICMPv4EchoReply
                      (replicate ICMPv4MinimumSize 0))));
          icmpHdr = io_SetChecksum I 0 icmpHdr;
          icmpHdr = io_SetChecksum I (NOT (h_Checksum H (icmpHdr @ payload) 0)) icmpHdr
      in ipHdr @ icmpHdr @ payload)"

definition injectICMPReply ::
  "hdr \<Rightarrow> icmp_ops \<Rightarrow> string \<Rightarrow> string \<Rightarrow> 16 word \<Rightarrow> 16 word \<Rightarrow> bytes \<Rightarrow> 'st proxyHandler \<Rightarrow> 'st proxyHandler go_result" where
  "injectICMPReply H I dstIP srcIP ident sq payload p =
     (case parse_addr srcIP of
        None \<Rightarrow> Ret p
      | Some srcAddr \<Rightarrow>
          (case parse_addr dstIP of
             None \<Rightarrow> Ret p
           | Some dstAddr \<Rightarrow>
               go_bind (as4 srcAddr) (\<lambda>src. go_bind (as4 dstAddr) (\<lambda>dst.
                 go_bind (QueueICMPReply (buildICMPReply H I src dst ident sq payload) p) (\<lambda>(_, p). Ret p)))))"

text \<open>The arguments of the goroutine that answers a ping.\<close>

record ping_job =
  pj_srcIP :: string
  pj_originalDstIP :: string
  pj_actualDstIP :: string
  pj_ident :: "16 word"
  pj_seq :: "16 word"
  pj_payload :: bytes

definition proxyPing ::
  "hdr \<Rightarrow> icmp_ops \<Rightarrow> icmp_env \<Rightarrow> ping_job \<Rightarrow> 'st proxyHandler \<Rightarrow> 'st proxyHandler go_result" where
  "proxyPing H I env j p =
     (let (method, success) = tryICMPMethods env (pj_actualDstIP j) (pj_ident j) (pj_seq j) (pj_payload j) in
      if \<not> success then Ret p
      else injectICMPReply H I (pj_srcIP j) (pj_originalDstIP j) (pj_ident j) (pj_seq j) (pj_payload j) p)"

text \<open>
  \<open>icmpData\<close> is the transport header of the packet and \<open>payload\<close> the data behind it.  The result is the value returned to the
  stack and the goroutine started.
\<close>

definition handleICMPPacket ::
  "icmp_ops \<Rightarrow> ('dt, 'st) src_bart \<Rightarrow> 'dt dst_bart \<Rightarrow> resolver \<Rightarrow> endpointID \<Rightarrow> bytes \<Rightarrow> bytes \<Rightarrow> 'st proxyHandler \<Rightarrow>
     bool \<times> ping_job option" where
  "handleICMPPacket I S D dns i icmpData payload p =
     (if length icmpData < ICMPv4MinimumSize then (False, None)
      else if io_Type I icmpData \<noteq> ICMPv4Echo then (False, None)
      else let srcIP = ip4_string (ei_RemoteAddress i); dstIP = ip4_string (ei_LocalAddress i) in
        case parse_addr srcIP of
          None \<Rightarrow> (False, None)
        | Some srcAddr \<Rightarrow>
            (case parse_addr dstIP of
               None \<Rightarrow> (False, None)
             | Some dstAddr \<Rightarrow>
                 (case Match S D (ph_subnetLookup p) srcAddr dstAddr 0 ICMPv4ProtocolNumber of
                    None \<Rightarrow> (False, None)
                  | Some matchedRule \<Rightarrow>
                      (let actualDstIP =
                             (if sr_RewriteTo matchedRule \<noteq> [] then
                                (case resolveRewriteAddress dns (sr_RewriteTo matchedRule) of
                                   None \<Rightarrow> dstIP | Some resolvedAddr \<Rightarrow> addr_string resolvedAddr)
                              else dstIP)
                       in (True, Some \<lparr>pj_srcIP = srcIP, pj_originalDstIP = dstIP, pj_actualDstIP = actualDstIP,
                             pj_ident = io_Ident I icmpData, pj_seq = io_Sequence I icmpData, pj_payload = payload\<rparr>)))))"

section \<open>The wire format of an echo reply\<close>

definition be16_bytes :: "16 word \<Rightarrow> bytes" where
  "be16_bytes w = [ucast (drop_bit 8 w), ucast w]"

definition be32_bytes :: "32 word \<Rightarrow> bytes" where
  "be32_bytes w = [ucast (drop_bit 24 w), ucast (drop_bit 16 w), ucast (drop_bit 8 w), ucast w]"

text \<open>The header of RFC 791 without options; the fields that the caller leaves out are zero.\<close>

definition rfc_ipv4 :: "ipv4Fields \<Rightarrow> bytes" where
  "rfc_ipv4 f = [0x45, 0] @ be16_bytes (f_TotalLength f) @ [0, 0, 0, 0, f_TTL f, f_Protocol f, 0, 0] @
     be32_bytes (f_SrcAddr f) @ be32_bytes (f_DstAddr f)"

locale icmp_lib = header_lib +
  fixes I :: icmp_ops
  assumes encode: "length b = 20 \<Longrightarrow> io_Encode I f b = rfc_ipv4 f"
    and ip_checksum: "20 \<le> length b \<Longrightarrow> h_SetChecksum H c b = put16 c 10 b \<and>
      h_CalculateChecksum H b = rfc_checksum (take (rfc_headerLength b) b) 0"
    and checksum: "h_Checksum H b n = rfc_checksum b n"
    and icmp_read: "8 \<le> length b \<Longrightarrow> io_Type I b = b ! 0 \<and> io_Ident I b = be16 b 4 \<and> io_Sequence I b = be16 b 6"
    and icmp_write: "8 \<le> length b \<Longrightarrow> io_SetType I t b = b[0 := t] \<and> io_SetCode I t b = b[1 := t] \<and>
      io_SetChecksum I c b = put16 c 2 b \<and> io_SetIdent I c b = put16 c 4 b \<and> io_SetSequence I c b = put16 c 6 b"

definition rfc_icmp :: icmp_ops where
  "rfc_icmp = \<lparr>io_Type = (\<lambda>b. b ! 0), io_Ident = (\<lambda>b. be16 b 4), io_Sequence = (\<lambda>b. be16 b 6),
     io_SetType = (\<lambda>t b. b[0 := t]), io_SetCode = (\<lambda>t b. b[1 := t]), io_SetIdent = (\<lambda>c. put16 c 4),
     io_SetSequence = (\<lambda>c. put16 c 6), io_SetChecksum = (\<lambda>c. put16 c 2), io_Encode = (\<lambda>f b. rfc_ipv4 f)\<rparr>"

interpretation rfc_icmp: icmp_lib rfc_hdr rfc_icmp
  by unfold_locales (simp_all add: rfc_icmp_def rfc_hdr_def)

text \<open>What a receiver checks of an echo reply.\<close>

definition valid_echo_reply :: "32 word \<Rightarrow> 32 word \<Rightarrow> 16 word \<Rightarrow> 16 word \<Rightarrow> bytes \<Rightarrow> bytes \<Rightarrow> bool" where
  "valid_echo_reply src dst ident sq payload pkt \<longleftrightarrow>
     drop_bit 4 (pkt ! 0) = 4 \<and> rfc_headerLength pkt = 20 \<and> unat (be16 pkt 2) = length pkt \<and>
     pkt ! 8 = 64 \<and> pkt ! 9 = 1 \<and> be32 pkt 12 = src \<and> be32 pkt 16 = dst \<and> rfc_checksum (take 20 pkt) 0 = 0xffff \<and>
     pkt ! 20 = 0 \<and> pkt ! 21 = 0 \<and> be16 pkt 24 = ident \<and> be16 pkt 26 = sq \<and> drop 28 pkt = payload \<and>
     rfc_checksum (drop 20 pkt) 0 = 0xffff"

lemma join_bytes16: "push_bit 8 (ucast (ucast (drop_bit 8 w) :: byte)) OR ucast (ucast w :: byte) = (w :: 16 word)"
proof (rule bit_word_eqI)
  fix n assume "n < LENGTH(16)"
  then consider "n < 8" | "8 \<le> n" "n < 16" by fastforce
  then show "bit (push_bit 8 (ucast (ucast (drop_bit 8 w) :: byte)) OR ucast (ucast w :: byte) :: 16 word) n = bit w n"
    by cases (auto simp: bit_or_iff bit_push_bit_iff bit_ucast_iff bit_drop_bit_eq)
qed

text \<open>The two headers as byte lists, with the checksums \<open>c\<close> and \<open>d\<close>.\<close>

definition ipBytes :: "16 word \<Rightarrow> 16 word \<Rightarrow> 32 word \<Rightarrow> 32 word \<Rightarrow> bytes" where
  "ipBytes c len src dst = [0x45, 0] @ be16_bytes len @ [0, 0, 0, 0, 64, 1] @ be16_bytes c @ be32_bytes src @ be32_bytes dst"

definition icmpBytes :: "16 word \<Rightarrow> 16 word \<Rightarrow> 16 word \<Rightarrow> bytes" where
  "icmpBytes c ident sq = [0, 0] @ be16_bytes c @ be16_bytes ident @ be16_bytes sq"

lemma length_hdrs [simp]: "length (ipBytes c l s d) = 20" "length (icmpBytes c i n) = 8"
  by (simp_all add: ipBytes_def icmpBytes_def be16_bytes_def be32_bytes_def)

lemma put16_hdrs:
  "put16 c 10 (ipBytes c0 l s d) = ipBytes c l s d" "put16 c 2 (icmpBytes c0 i n @ payload) = icmpBytes c i n @ payload"
  by (simp_all add: ipBytes_def icmpBytes_def be16_bytes_def be32_bytes_def put16_def)

lemma ipBytes_sum: "rfc_checksum (ipBytes (NOT (rfc_checksum (ipBytes 0 l s d) 0)) l s d) 0 = 0xffff"
proof -
  have "ipBytes 0 l s d ! 10 = 0" "ipBytes 0 l s d ! Suc 10 = 0"
    by (simp_all add: ipBytes_def be16_bytes_def be32_bytes_def)
  then show ?thesis using checksum_filled [of 5 "ipBytes 0 l s d"] by (simp add: put16_hdrs)
qed

lemma icmpBytes_sum:
  assumes "length payload \<le> 65507"
  shows "rfc_checksum (icmpBytes (NOT (rfc_checksum (icmpBytes 0 i n @ payload) 0)) i n @ payload) 0 = 0xffff"
proof -
  let ?b = "icmpBytes 0 i n @ payload"
  have "?b ! 2 = 0" "?b ! Suc 2 = 0" by (simp_all add: icmpBytes_def be16_bytes_def)
  then show ?thesis using checksum_filled [of 1 ?b] assms by (simp add: put16_hdrs)
qed

lemma hdrs_valid:
  assumes len: "length payload \<le> 65507"
    and c: "rfc_checksum (ipBytes c (of_nat (28 + length payload)) src dst) 0 = 0xffff"
    and d: "rfc_checksum (icmpBytes d ident sq @ payload) 0 = 0xffff"
  shows "valid_echo_reply src dst ident sq payload (ipBytes c (of_nat (28 + length payload)) src dst @ icmpBytes d ident sq @ payload)"
proof -
  let ?l = "of_nat (28 + length payload) :: 16 word"
  let ?p = "ipBytes c ?l src dst @ icmpBytes d ident sq @ payload"
  have n: "?p ! 0 = 0x45" "?p ! 2 = ucast (drop_bit 8 ?l)" "?p ! Suc 2 = ucast ?l" "?p ! 8 = 64" "?p ! 9 = 1"
    "?p ! 20 = 0" "?p ! 21 = 0"
    "be32 ?p 12 = src" "be32 ?p 16 = dst" "be16 ?p 2 = ?l" "be16 ?p 24 = ident" "be16 ?p 26 = sq"
    by (simp_all add: ipBytes_def icmpBytes_def be16_bytes_def be32_bytes_def be16_def be32_def join_bytes join_bytes16)
  have "unat ?l = 28 + length payload" using len by (simp add: unat_of_nat take_bit_nat_eq_self del: of_nat_add)
  then show ?thesis unfolding valid_echo_reply_def rfc_headerLength_def n using c d by simp
qed

context icmp_lib
begin

lemma build_bytes:
  "buildICMPReply H I src dst ident sq payload =
     (let l = of_nat (28 + length payload)
      in ipBytes (NOT (rfc_checksum (ipBytes 0 l src dst) 0)) l src dst @
         icmpBytes (NOT (rfc_checksum (icmpBytes 0 ident sq @ payload) 0)) ident sq @ payload)"
proof -
  define l :: "16 word" where "l = of_nat (28 + length payload)"
  have e: "io_Encode I \<lparr>f_TotalLength = l, f_TTL = 64, f_Protocol = 1, f_SrcAddr = src, f_DstAddr = dst\<rparr>
      (replicate 20 0) = ipBytes 0 l src dst"
    by (simp add: encode rfc_ipv4_def ipBytes_def be16_bytes_def)
  have t: "take (rfc_headerLength (ipBytes 0 l src dst)) (ipBytes 0 l src dst) = ipBytes 0 l src dst"
    by (rule take_all) (simp add: rfc_headerLength_def, simp add: ipBytes_def)
  have i: "io_SetChecksum I 0 (io_SetSequence I sq (io_SetIdent I ident (io_SetCode I 0 (io_SetType I ICMPv4EchoReply (replicate 8 0)))))
      = icmpBytes 0 ident sq"
    by (simp add: icmp_write put16_def icmpBytes_def be16_bytes_def eval_nat_numeral)
  have w: "io_SetChecksum I d (icmpBytes 0 ident sq) = icmpBytes d ident sq" for d
    using icmp_write [of "icmpBytes 0 ident sq" 0 d] put16_hdrs(2) [of d 0 ident sq "[]"] by simp
  show ?thesis
    unfolding buildICMPReply_def Let_def
    by (simp add: e i w ip_checksum t checksum put16_hdrs l_def [symmetric, simplified])
qed

lemma reply_valid:
  "length payload \<le> 65507 \<Longrightarrow> valid_echo_reply src dst ident sq payload (buildICMPReply H I src dst ident sq payload)"
  unfolding build_bytes Let_def by (rule hdrs_valid) (simp_all only: ipBytes_sum icmpBytes_sum)

end

section \<open>Sessions and sockets\<close>

lemma flushIfFull_sessions: "al_sessions (fst (flushIfFull rng srt out al)) = al_sessions al"
  by (simp add: flushIfFull_def flush_def drainCompleted_def requeueCompleted_def Let_def split: send_outcome.split)

lemma endSession_sessions: "al_sessions (endSession q now al) = al_sessions al"
  by (simp add: endSession_def pushCompleted_def Let_def)

lemma EndTCPSession_ends: "map_of (al_sessions (fst (EndTCPSession rng srt out now sid al))) sid = None"
  by (simp add: EndTCPSession_def flushIfFull_sessions endSession_sessions split: option.split)

lemma EndUDPSession_ends: "map_of (al_sessions (fst (EndUDPSession rng srt out now sid al))) sid = None"
  by (simp add: EndUDPSession_def flushIfFull_sessions endSession_sessions Let_def split: option.split)

lemma releaseOf_logger [simp]: "ph_accessLogger (releaseOf pr i p) = ph_accessLogger p"
  by (simp add: releaseOf_def releaseConnectionState_def Let_def split: option.split)

text \<open>The identifier under which the access logger knows the connection, empty if it does not.\<close>

definition sessionOf :: "8 word \<Rightarrow> 'st conn_env \<Rightarrow> endpointID \<Rightarrow> 'st proxyHandler \<Rightarrow> string" where
  "sessionOf pr env i p = fst (if pr = 6 then startSession env i p else trackSession env i p)"

definition ended :: "string \<Rightarrow> 'st proxyHandler \<Rightarrow> bool" where
  "ended sid p \<longleftrightarrow> sid = [] \<or> map_of (al_sessions (ph_accessLogger p)) sid = None"

lemma ended_simps [simp]:
  "ended sid (releaseOf pr i p) = ended sid p" "ended sid (endSessionTCP env sid p)" "ended sid (endSessionUDP env sid p)"
  by (simp_all add: ended_def endSessionTCP_def endSessionUDP_def updLogger_def EndTCPSession_ends EndUDPSession_ends)

text \<open>
  A handler cleans up: the client's connection is closed once, as the last action; a target connection is closed once if it was opened,
  after both directions of the copy are done.
\<close>

definition cleanedUp :: "bool \<Rightarrow> conn_event list \<Rightarrow> bool" where
  "cleanedUp opened ev \<longleftrightarrow> (\<exists>work. ev = work @ (if opened then [EvClose Remote] else []) @ [EvClose Origin] \<and>
     (\<forall>s. EvClose s \<notin> set work) \<and>
     (opened \<longrightarrow> EvCopy Remote Origin \<in> set work \<and> EvCopy Origin Remote \<in> set work))"

definition interleaves :: "'st conn_env \<Rightarrow> bool" where
  "interleaves env \<longleftrightarrow> (\<forall>xs ys. ce_order env xs ys \<in> shuffles xs ys)"

lemma pipe_events:
  assumes "interleaves env"
  shows "set (pipeTCP env) = set (unidirectionalStreamTCP Remote Origin) \<union> set (unidirectionalStreamTCP Origin Remote)"
    "set (pipeUDP env) = set (unidirectionalPacketStream Remote Origin) \<union> set (unidirectionalPacketStream Origin Remote)"
  using assms unfolding interleaves_def pipeTCP_def pipeUDP_def by (metis set_shuffles)+

lemmas pipe_defs = unidirectionalStreamTCP_def unidirectionalPacketStream_def

lemma cleanedUp_piped:
  assumes "interleaves env" "\<forall>s. EvClose s \<noteq> e"
  shows "cleanedUp True ([e] @ pipeTCP env @ [EvClose Remote, EvClose Origin])"
    "cleanedUp True ([e] @ pipeUDP env @ [EvClose Remote, EvClose Origin])"
  using assms pipe_events [OF assms(1)] unfolding cleanedUp_def
  by (auto simp: pipe_defs intro!: exI [of _ "e # pipeTCP env"] exI [of _ "e # pipeUDP env"])

lemma cleanedUp_closed: "cleanedUp False [EvClose Origin]" "cleanedUp False [EvDial t d, EvClose Origin]"
  unfolding cleanedUp_def by (auto intro!: exI [of _ "[]"] exI [of _ "[EvDial t d]"])

section \<open>Pings\<close>

text \<open>The messages received before the first error, and what it means that a ping was answered.\<close>

definition heard :: "icmp_read list \<Rightarrow> bytes list" where
  "heard rs = map (\<lambda>r. case r of RecvPacket b \<Rightarrow> b | RecvError \<Rightarrow> []) (takeWhile (\<lambda>r. r \<noteq> RecvError) rs)"

definition answeredOn :: "icmp_env \<Rightarrow> bool \<Rightarrow> string \<Rightarrow> 16 word \<Rightarrow> 16 word \<Rightarrow> bytes \<Rightarrow> bool" where
  "answeredOn env unpriv dst ident sq payload \<longleftrightarrow>
     (\<exists>msg b m. ie_marshal env (int (unat ident)) (int (unat sq)) payload = Some msg \<and>
        (unpriv \<or> ie_resolve env dst) \<and> ie_write env unpriv dst msg \<and>
        b \<in> set (heard (ie_reads env unpriv)) \<and> ie_parse env (take 1500 b) = Some m \<and> isOurReply ident sq unpriv m)"

definition answered :: "icmp_env \<Rightarrow> string \<Rightarrow> 16 word \<Rightarrow> 16 word \<Rightarrow> bytes \<Rightarrow> bool" where
  "answered env dst ident sq payload \<longleftrightarrow>
     ie_raw env \<and> answeredOn env False dst ident sq payload \<or>
     ie_unprivileged env \<and> answeredOn env True dst ident sq payload \<or> ie_pingCommand env dst"

lemma awaitReply_heard:
  "awaitReply env ident sq ign rs \<longleftrightarrow>
     (\<exists>b m. b \<in> set (heard rs) \<and> ie_parse env (take 1500 b) = Some m \<and> isOurReply ident sq ign m)"
  by (induction env ident sq ign rs rule: awaitReply.induct) (auto simp: heard_def split: option.split)

lemma sendAndReceive_answered:
  "sendAndReceiveICMP env dst ident sq payload unpriv unpriv = answeredOn env unpriv dst ident sq payload"
  by (auto simp: sendAndReceiveICMP_def answeredOn_def awaitReply_heard split: option.split)

lemma tryICMPMethods_answered: "snd (tryICMPMethods env dst ident sq payload) = answered env dst ident sq payload"
  by (simp add: tryICMPMethods_def tryRawICMP_def tryUnprivilegedICMP_def tryPingCommand_def sendAndReceive_answered answered_def)

text \<open>The address a matched echo request is sent on to.\<close>

definition pingTarget :: "resolver \<Rightarrow> subnet_rule \<Rightarrow> endpointID \<Rightarrow> string" where
  "pingTarget dns rule i =
     (if sr_RewriteTo rule = [] then ip4_string (ei_LocalAddress i)
      else case resolveRewriteAddress dns (sr_RewriteTo rule) of
             None \<Rightarrow> ip4_string (ei_LocalAddress i) | Some a \<Rightarrow> addr_string a)"

text \<open>The reply queue has room.\<close>

definition canQueue :: "'st proxyHandler \<Rightarrow> bool" where
  "canQueue p \<longleftrightarrow> ph_enabled p \<and> \<not> ph_icmpClosed p \<and> length (ph_icmpReplies p) < icmpReplyCap"

lemma injectICMPReply_queues:
  "canQueue p \<Longrightarrow> injectICMPReply H I (ip4_string dst) (ip4_string src) ident sq payload p =
     Ret (p\<lparr>ph_icmpReplies := ph_icmpReplies p @ [buildICMPReply H I src dst ident sq payload]\<rparr>)"
  by (simp add: injectICMPReply_def parse_addr_ip4_string QueueICMPReply_def canQueue_def)

section \<open>Properties\<close>

text \<open>
  C34. Every echo reply that the ICMP handler queues is a well-formed packet: IPv4 without options, the total length field is the
  length of the packet, protocol ICMP, both checksums verify, the type is Echo Reply, source, destination, identifier,
  sequence number and payload are the ones asked for; and the tunnel reads exactly this packet.  The bound on the payload is the largest
  one whose total length fits into the 16-bit field.
\<close>

theorem echo_reply_wellformed:
  assumes "icmp_lib H I" "canQueue p" "length payload \<le> 65507"
  shows "\<exists>pkt. injectICMPReply H I (ip4_string dst) (ip4_string src) ident sq payload p =
            Ret (p\<lparr>ph_icmpReplies := ph_icmpReplies p @ [pkt]\<rparr>) \<and>
          valid_echo_reply src dst ident sq payload pkt \<and>
          (ph_icmpReplies p = [] \<longrightarrow> ReadOutgoingPacket H (p\<lparr>ph_icmpReplies := ph_icmpReplies p @ [pkt]\<rparr>) = Ret (Some pkt, p))"
proof -
  let ?pkt = "buildICMPReply H I src dst ident sq payload"
  have "valid_echo_reply src dst ident sq payload ?pkt" by (rule icmp_lib.reply_valid [OF assms(1,3)])
  moreover have "ph_icmpReplies p = [] \<Longrightarrow> p\<lparr>ph_icmpReplies := []\<rparr> = p" by (cases p) simp
  ultimately show ?thesis using assms(2) injectICMPReply_queues [OF assms(2)]
    by (intro exI [of _ ?pkt]) (auto simp: ReadOutgoingPacket_def canQueue_def)
qed

lemma exHandler_canQueue: "canQueue (exHandler to)"
  by (simp add: canQueue_def icmpReplyCap_def)

theorem echo_reply_wellformed_witness:
  "\<exists>pkt. injectICMPReply rfc_hdr rfc_icmp (ip4_string 0x0a000005) (ip4_string 0x64400001) 7 1 [1, 2, 3] (exHandler []) =
      Ret ((exHandler [])\<lparr>ph_icmpReplies := [pkt]\<rparr>) \<and> valid_echo_reply 0x64400001 0x0a000005 7 1 [1, 2, 3] pkt"
  using echo_reply_wellformed [OF rfc_icmp.icmp_lib_axioms exHandler_canQueue [of "[]"], of "[1, 2, 3]" "0x0a000005" "0x64400001" 7 1]
  by auto

text \<open>
  C35. A ping is answered exactly when its target answers.  An echo request that matches a rule starts one ping of the destination, or of the
  rule's rewrite address; the client receives a well-formed reply from the address it pinged, with its identifier, sequence
  number and payload, if a matching echo reply arrives on the raw or the unprivileged socket before an error, or the ping command
  succeeds, and otherwise nothing is queued.  On the raw socket a reply matches by identifier and sequence number, on the other by sequence number.
\<close>

theorem ping_answered:
  assumes "icmp_lib H I" "canQueue p" "length payload \<le> 65507"
    and "8 \<le> length icmpData" "io_Type I icmpData = ICMPv4Echo"
    and "Match S D (ph_subnetLookup p) (IP4 (ei_RemoteAddress i)) (IP4 (ei_LocalAddress i)) 0 ICMPv4ProtocolNumber = Some rule"
  shows "\<exists>j. handleICMPPacket I S D dns i icmpData payload p = (True, Some j) \<and>
           (if answered env (pingTarget dns rule i) (be16 icmpData 4) (be16 icmpData 6) payload
            then \<exists>pkt. proxyPing H I env j p = Ret (p\<lparr>ph_icmpReplies := ph_icmpReplies p @ [pkt]\<rparr>) \<and>
                   valid_echo_reply (ei_LocalAddress i) (ei_RemoteAddress i) (be16 icmpData 4) (be16 icmpData 6) payload pkt
            else proxyPing H I env j p = Ret p)"
proof -
  have io: "io_Ident I icmpData = be16 icmpData 4" "io_Sequence I icmpData = be16 icmpData 6"
    using icmp_lib.icmp_read [OF assms(1,4)] by simp_all
  let ?target = "pingTarget dns rule i"
  define j where "j = \<lparr>pj_srcIP = ip4_string (ei_RemoteAddress i), pj_originalDstIP = ip4_string (ei_LocalAddress i),
     pj_actualDstIP = ?target, pj_ident = be16 icmpData 4, pj_seq = be16 icmpData 6, pj_payload = payload\<rparr>"
  have "handleICMPPacket I S D dns i icmpData payload p = (True, Some j)"
    using assms(4-6) by (simp add: handleICMPPacket_def parse_addr_ip4_string io j_def pingTarget_def Let_def split: option.split)
  moreover have "proxyPing H I env j p = (if answered env ?target (be16 icmpData 4) (be16 icmpData 6) payload
      then Ret (p\<lparr>ph_icmpReplies := ph_icmpReplies p @
        [buildICMPReply H I (ei_LocalAddress i) (ei_RemoteAddress i) (be16 icmpData 4) (be16 icmpData 6) payload]\<rparr>) else Ret p)"
    using tryICMPMethods_answered [of env ?target "be16 icmpData 4" "be16 icmpData 6" payload]
    by (simp add: proxyPing_def j_def case_prod_unfold injectICMPReply_queues [OF assms(2)])
  ultimately show ?thesis using icmp_lib.reply_valid [OF assms(1,3)] by (intro exI [of _ j]) auto
qed

lemma handleTCPConn_cleans:
  assumes "interleaves env" "handleTCPConn S D env i p = (ev, q)" "\<not> IsBlocked p" "httpRule S D i p = None"
  shows "hd ev = EvDial (targetOf 6 i p) tcpConnectTimeout" "cleanedUp (ce_reach env (targetOf 6 i p)) ev"
    "ended (sessionOf 6 env i p) q"
  using assms cleanedUp_piped(1) [OF assms(1), of "EvDial (targetOf 6 i p) tcpConnectTimeout"]
  by (auto simp: handleTCPConn_def Let_def case_prod_unfold sessionOf_def cleanedUp_closed split: if_splits)

lemma handleUDPConn_cleans:
  assumes "interleaves env" "handleUDPConn env i p = (ev, q)" "\<not> IsBlocked p"
  shows "cleanedUp (ce_resolve env (targetOf 17 i p) \<and> ce_resolve env (clientAddr i) \<and> ce_socket env) ev"
    "ended (sessionOf 17 env i p) q"
  using assms cleanedUp_piped(2) [OF assms(1), of EvListenUDP]
  by (auto simp: handleUDPConn_def Let_def case_prod_unfold sessionOf_def cleanedUp_closed split: if_splits)


section \<open>Connections behind a rewritten destination\<close>

text \<open>The identifiers that the stack gives to the connection of an injected packet.\<close>

definition endpointOf :: "hdr \<Rightarrow> bytes \<Rightarrow> endpointID" where
  "endpointOf H pkt = \<lparr>ei_RemoteAddress = h_SourceAddress H pkt, ei_RemotePort = fst (portsOf H pkt),
     ei_LocalAddress = h_DestinationAddress H pkt, ei_LocalPort = snd (portsOf H pkt)\<rparr>"

definition connKeyOf :: "8 word \<Rightarrow> endpointID \<Rightarrow> connKey" where
  "connKeyOf pr i = \<lparr>ck_srcIP = ip4_string (ei_RemoteAddress i), ck_srcPort = ei_RemotePort i,
     ck_dstIP = ip4_string (ei_LocalAddress i), ck_dstPort = ei_LocalPort i, ck_proto = pr\<rparr>"

lemma releaseOf_table:
  "map_of (ph_natTable (releaseOf pr i p)) k = (if ph_enabled p \<and> k = connKeyOf pr i then None else map_of (ph_natTable p) k)"
  by (auto simp: releaseOf_def releaseConnectionState_def connKeyOf_def Let_def split: option.split)

lemma session_tables [simp]:
  "ph_natTable (snd (startSession env i p)) = ph_natTable p" "ph_enabled (snd (startSession env i p)) = ph_enabled p"
  "ph_natTable (endSessionTCP env sid p) = ph_natTable p" "ph_enabled (endSessionTCP env sid p) = ph_enabled p"
  by (simp_all add: startSession_def endSessionTCP_def updLogger_def Let_def case_prod_unfold)

lemma handleTCPConn_table:
  assumes "\<not> IsBlocked p" "ei_LocalPort i \<notin> {80, 443}" "ce_dialing env = id" "ce_piping env = id"
  shows "map_of (ph_natTable (snd (handleTCPConn S D env i p))) k =
    (if ph_enabled p \<and> k = connKeyOf 6 i then None else map_of (ph_natTable p) k)"
  using assms by (simp add: handleTCPConn_def httpRule_def Let_def case_prod_unfold releaseOf_table)

context header_lib
begin

lemma release_after_rewrite:
  assumes "ph_enabled p" "\<not> IsBlocked p" and wf: "wellFormed H pkt" and pr: "h_TransportProtocol H pkt = TCPProtocolNumber"
    and "snd (portsOf H pkt) \<notin> {80, 443}"
    and "matched H S D p pkt = Some rule" "sr_RewriteTo rule \<noteq> []"
    and "map_of (ph_natTable p) (flowKey H pkt) = None"
    and "resolveRewriteAddress dns (sr_RewriteTo rule) = Some (IP4 w)" and w: "w \<noteq> h_DestinationAddress H pkt"
    and env: "ce_dialing env = id" "ce_piping env = id"
  shows "\<exists>p' pkt'. HandleIncomingPacket H S D dns pkt p = Ret (True, p') \<and> ph_injected p' = ph_injected p @ [pkt'] \<and>
           map_of (ph_natTable (snd (handleTCPConn S D env (endpointOf H pkt') p'))) (flowKey H pkt) =
             (if is_loopback (IP4 w) then None
              else Some \<lparr>ns_originalDst = IP4 (h_DestinationAddress H pkt), ns_rewrittenTo = IP4 w\<rparr>)"
proof -
  define p2 where "p2 = recordNat (flowKey H pkt) (IP4 (h_DestinationAddress H pkt)) (IP4 w) (sr_ResourceId rule)
    (setResource \<lparr>dk_srcIP = ip4_string (h_SourceAddress H pkt), dk_dstIP = ip4_string (h_DestinationAddress H pkt),
      dk_dstPort = snd (portsOf H pkt), dk_proto = ucast (h_TransportProtocol H pkt)\<rparr> (sr_ResourceId rule) p)"
  have hip: "HandleIncomingPacket H S D dns pkt p = rewriteAndInject H pkt (IP4 w) p2"
    unfolding p2_def using HandleIncomingPacket_rewrite [OF assms(1) wf assms(6,7)] assms(8,9) by simp
  have p2: "ph_enabled p2" "\<not> IsBlocked p2" "ph_injected p2 = ph_injected p"
      "map_of (ph_natTable p2) (flowKey H pkt) = Some \<lparr>ns_originalDst = IP4 (h_DestinationAddress H pkt), ns_rewrittenTo = IP4 w\<rparr>"
    using assms(1,2) by (simp_all add: p2_def IsBlocked_def) (simp add: recordNat_def Let_def)
  have tab: "map_of (ph_natTable (snd (handleTCPConn S D env (endpointOf H q) (InjectInbound q p2)))) (flowKey H pkt) =
      (if h_DestinationAddress H q = h_DestinationAddress H pkt then None else map_of (ph_natTable p2) (flowKey H pkt))"
    if q: "h_SourceAddress H q = h_SourceAddress H pkt" "portsOf H q = portsOf H pkt" for q
  proof -
    have k: "(flowKey H pkt = connKeyOf 6 (endpointOf H q)) = (h_DestinationAddress H q = h_DestinationAddress H pkt)"
      using q pr by (auto simp: flowKey_def connKeyOf_def endpointOf_def ip4_string_inject)
    have i: "\<not> IsBlocked (InjectInbound q p2)" "ei_LocalPort (endpointOf H q) \<notin> {80, 443}"
        "ph_enabled (InjectInbound q p2)" "ph_natTable (InjectInbound q p2) = ph_natTable p2"
      using p2 assms(5) q(2) by (simp_all add: InjectInbound_def IsBlocked_def endpointOf_def)
    show ?thesis by (simp only: handleTCPConn_table [OF i(1,2) env] i(3,4) k simp_thms)
  qed
  have inj: "ph_injected (InjectInbound q p2) = ph_injected p @ [q]" for q by (simp add: InjectInbound_def p2)
  show ?thesis
  proof (cases "is_loopback (IP4 w)")
    case True
    then have "rewriteAndInject H pkt (IP4 w) p2 = Ret (True, InjectInbound pkt p2)" by (simp add: rewriteAndInject_def)
    then show ?thesis using True hip inj [of pkt] tab [of pkt] by (intro exI [of _ "InjectInbound pkt p2"] exI [of _ pkt]) simp
  next
    case False
    have sh: "shaped H pkt" using wf by (simp add: wellFormed_def)
    obtain q where q: "rewriteAndInject H pkt (IP4 w) p2 = Ret (True, InjectInbound q p2)" "h_DestinationAddress H q = w"
        "h_SourceAddress H q = h_SourceAddress H pkt" "sameFlow H q pkt"
      using rewriteAndInject_IP4 [OF sh False, of p2] by blast
    then have "portsOf H q = portsOf H pkt" by (simp add: sameFlow_def)
    then show ?thesis using False hip inj [of q] tab [of q] q p2 w
      by (intro exI [of _ "InjectInbound q p2"] exI [of _ q]) simp
  qed
qed

lemma ping_rewritten:
  assumes "ph_enabled p" and pkt: "20 \<le> length pkt" "drop_bit 4 (pkt ! 0) = 4" "h_TransportProtocol H pkt = ICMPv4ProtocolNumber"
    and rule: "Match S D (ph_subnetLookup p) (IP4 (h_SourceAddress H pkt)) (IP4 (h_DestinationAddress H pkt)) 0 ICMPv4ProtocolNumber = Some rule"
      "sr_RewriteTo rule \<noteq> []"
    and new: "map_of (ph_natTable p) \<lparr>ck_srcIP = ip4_string (h_SourceAddress H pkt), ck_srcPort = 0,
       ck_dstIP = ip4_string (h_DestinationAddress H pkt), ck_dstPort = 0, ck_proto = 1\<rparr> = None"
    and w: "resolveRewriteAddress dns (sr_RewriteTo rule) = Some (IP4 w)" "\<not> is_loopback (IP4 w)"
  shows "\<exists>p' q. HandleIncomingPacket H S D dns pkt p = Ret (True, p') \<and> ph_injected p' = ph_injected p @ [q] \<and>
    ph_subnetLookup p' = ph_subnetLookup p \<and> h_DestinationAddress H q = w \<and> h_SourceAddress H q = h_SourceAddress H pkt"
proof -
  define q where "q = fixIPChecksum H (h_SetDestinationAddress H w pkt)"
  note d = set_dst [OF pkt(1), of w]
  have "20 \<le> length (h_SetDestinationAddress H w pkt)" using d pkt(1) by simp
  note f = fixIP_fields [OF this]
  have q: "h_DestinationAddress H q = w" "h_SourceAddress H q = h_SourceAddress H pkt" "h_TransportProtocol H q = ICMPv4ProtocolNumber"
    using f d pkt(3) by (simp_all add: q_def)
  have rw: "rewritePacketDestination H pkt (IP4 w) = Ret (Some q)"
    using pkt(1) q(3) by (simp add: rewritePacketDestination_def fixTransportChecksum_def q_def [symmetric])
  define p2 where "p2 = recordNat \<lparr>ck_srcIP = ip4_string (h_SourceAddress H pkt), ck_srcPort = 0,
       ck_dstIP = ip4_string (h_DestinationAddress H pkt), ck_dstPort = 0, ck_proto = 1\<rparr> (IP4 (h_DestinationAddress H pkt)) (IP4 w)
    (sr_ResourceId rule) (setResource \<lparr>dk_srcIP = ip4_string (h_SourceAddress H pkt), dk_dstIP = ip4_string (h_DestinationAddress H pkt),
      dk_dstPort = 0, dk_proto = 1\<rparr> (sr_ResourceId rule) p)"
  have "HandleIncomingPacket H S D dns pkt p = rewriteAndInject H pkt (IP4 w) p2"
    using assms(1) pkt rule new w(1)
    by (simp add: HandleIncomingPacket_def incomingDstPort_def incomingSrcPort_def p2_def)
  then have "HandleIncomingPacket H S D dns pkt p = Ret (True, InjectInbound q p2)"
    using rw w(2) by (simp add: rewriteAndInject_def)
  then show ?thesis using q
    by (intro exI [of _ "InjectInbound q p2"] exI [of _ q]) (simp add: InjectInbound_def p2_def)
qed

end

text \<open>
  When a forwarded TCP connection closes, its NAT state is released only if the rewrite address is a loopback address.  For any other
  rewrite address the connection that the stack hands to the handler already carries the rewritten destination, and the
  handler's release looks for an entry under that destination: the entry recorded under the original destination stays, and with it the
  old target, for the next connection with the same addresses and ports.
\<close>

theorem nat_state_release:
  assumes "header_lib H" "ph_enabled p" "\<not> IsBlocked p" "wellFormed H pkt" "h_TransportProtocol H pkt = TCPProtocolNumber"
    and "snd (portsOf H pkt) \<notin> {80, 443}" "matched H S D p pkt = Some rule" "sr_RewriteTo rule \<noteq> []"
    and "map_of (ph_natTable p) (flowKey H pkt) = None"
    and "resolveRewriteAddress dns (sr_RewriteTo rule) = Some (IP4 w)" "w \<noteq> h_DestinationAddress H pkt"
    and "ce_dialing env = id" "ce_piping env = id"
  shows "\<exists>p' pkt'. HandleIncomingPacket H S D dns pkt p = Ret (True, p') \<and> ph_injected p' = ph_injected p @ [pkt'] \<and>
           map_of (ph_natTable (snd (handleTCPConn S D env (endpointOf H pkt') p'))) (flowKey H pkt) =
             (if is_loopback (IP4 w) then None
              else Some \<lparr>ns_originalDst = IP4 (h_DestinationAddress H pkt), ns_rewrittenTo = IP4 w\<rparr>)"
  by (rule header_lib.release_after_rewrite [OF assms])

text \<open>
  Pings through a rewriting rule get no answer.  The echo request is rewritten before it reaches the ICMP handler, which then looks for a
  rule for the rewritten destination: unless some rule covers that address too, the handler declines the packet and no ping is sent.
\<close>

theorem rewritten_ping_dropped:
  assumes "header_lib H" "ph_enabled p" "20 \<le> length pkt" "drop_bit 4 (pkt ! 0) = 4" "h_TransportProtocol H pkt = ICMPv4ProtocolNumber"
    and "Match S D (ph_subnetLookup p) (IP4 (h_SourceAddress H pkt)) (IP4 (h_DestinationAddress H pkt)) 0 ICMPv4ProtocolNumber = Some rule"
      "sr_RewriteTo rule \<noteq> []"
    and "map_of (ph_natTable p) \<lparr>ck_srcIP = ip4_string (h_SourceAddress H pkt), ck_srcPort = 0,
       ck_dstIP = ip4_string (h_DestinationAddress H pkt), ck_dstPort = 0, ck_proto = 1\<rparr> = None"
    and "resolveRewriteAddress dns (sr_RewriteTo rule) = Some (IP4 w)" "\<not> is_loopback (IP4 w)"
    and "Match S D (ph_subnetLookup p) (IP4 (h_SourceAddress H pkt)) (IP4 w) 0 ICMPv4ProtocolNumber = None"
  shows "\<exists>p' pkt'. HandleIncomingPacket H S D dns pkt p = Ret (True, p') \<and> ph_injected p' = ph_injected p @ [pkt'] \<and>
           handleICMPPacket I S D dns (endpointOf H pkt') icmpData payload p' = (False, None)"
proof -
  obtain p' q where q: "HandleIncomingPacket H S D dns pkt p = Ret (True, p')" "ph_injected p' = ph_injected p @ [q]"
      "ph_subnetLookup p' = ph_subnetLookup p" "h_DestinationAddress H q = w" "h_SourceAddress H q = h_SourceAddress H pkt"
    using header_lib.ping_rewritten [OF assms(1-10)] by blast
  have "handleICMPPacket I S D dns (endpointOf H q) icmpData payload p' = (False, None)"
    using assms(11) q by (simp add: handleICMPPacket_def endpointOf_def parse_addr_ip4_string)
  then show ?thesis using q by blast
qed

subsection \<open>Instances\<close>

definition exConnEnv :: "'st conn_env" where
  "exConnEnv = \<lparr>ce_sid = ''s1'', ce_started = 1, ce_ended = 2, ce_reach = (\<lambda>_. True), ce_resolve = (\<lambda>_. True), ce_socket = True,
     ce_order = (@), ce_rng = id, ce_srt = sort_key as_StartedAt, ce_out = Sent, ce_dialing = id, ce_piping = id\<rparr>"

lemma append_shuffles: "xs @ ys \<in> shuffles xs ys"
  by (induction xs) (auto intro: Cons_in_shuffles_leftI)

lemma exConnEnv_interleaves: "interleaves exConnEnv"
  by (simp add: interleaves_def exConnEnv_def append_shuffles)

definition exEndpoint :: endpointID where
  "exEndpoint = \<lparr>ei_RemoteAddress = 0x0a000005, ei_RemotePort = 4660, ei_LocalAddress = 0x64400001, ei_LocalPort = 53\<rparr>"


lemma exHandler_match:
  "Match ref_bart ref_bart (ph_subnetLookup (exHandler to)) (IP4 s) (IP4 d) port prot =
     (if rule_applies (exRewrite to) (IP4 s) (IP4 d) then Some (exRewrite to) else None)"
proof -
  have c: "call_valid (AddCall (exRewrite to))" by (simp add: exRule)
  note inv = ref_table.inv_step [OF ref_table.inv_new c]
  have abs: "table_abs ref_bart ref_bart (table_step ref_bart ref_bart (NewSubnetLookup ref_bart) (AddCall (exRewrite to)))
     = [rule_key (exRewrite to) \<mapsto> exRewrite to]"
    by (simp only: ref_table.abs_step [OF c] ref_table.abs_new map_step.simps)
  have ck: "checkRule port prot (exRewrite to) = Some (Some (exRewrite to))" by (simp add: checkRule_def exRewrite_def)
  have "Match ref_bart ref_bart (ph_subnetLookup (exHandler to)) (IP4 s) (IP4 d) port prot = Some r \<longleftrightarrow>
      r = exRewrite to \<and> rule_applies (exRewrite to) (IP4 s) (IP4 d)" for r
    unfolding exHandler_fields ref_table.Match_iff [OF inv addr.distinct(1) [symmetric] addr.distinct(1) [symmetric]] abs
    using ck by (auto split: if_splits)
  then show ?thesis by (metis not_None_eq)
qed

lemma exOther: "\<not> rule_applies (exRewrite to) (IP4 0x0a000005) (IP4 0xc0a80101)"
  by (simp add: rule_applies_def exRewrite_def covers_def prefix_from_def bit_len_def valid_prefix_def)

definition exIcmpEnv :: icmp_env where
  "exIcmpEnv = \<lparr>ie_raw = True, ie_unprivileged = False, ie_resolve = (\<lambda>_. True), ie_write = (\<lambda>_ _ _. True),
     ie_reads = (\<lambda>_. [RecvPacket [8], RecvPacket [0]]),
     ie_parse = (\<lambda>b. Some \<lparr>im_Type = uint (b ! 0), im_Echo = Some (7, 1)\<rparr>), ie_marshal = (\<lambda>_ _ b. Some b),
     ie_pingCommand = (\<lambda>_. False)\<rparr>"

definition exEcho :: bytes where
  "exEcho = [8, 0, 0, 0, 0, 7, 0, 1]"

lemma exEcho_fields: "be16 exEcho 4 = 7" "be16 exEcho 6 = 1" "length exEcho = 8" "io_Type rfc_icmp exEcho = 8"
  by (simp_all add: exEcho_def be16_def rfc_icmp_def)

lemma exAnswered: "answered exIcmpEnv dst 7 1 payload"
  by (simp add: answered_def answeredOn_def exIcmpEnv_def heard_def isOurReply_def exI [of _ "[0]"])

theorem ping_answered_witness:
  "\<exists>j pkt. handleICMPPacket rfc_icmp ref_bart ref_bart (\<lambda>_. None) exEndpoint exEcho [1, 2] (exHandler []) = (True, Some j) \<and>
     proxyPing rfc_hdr rfc_icmp exIcmpEnv j (exHandler []) = Ret ((exHandler [])\<lparr>ph_icmpReplies := [pkt]\<rparr>) \<and>
     valid_echo_reply 0x64400001 0x0a000005 7 1 [1, 2] pkt"
proof -
  have m: "Match ref_bart ref_bart (ph_subnetLookup (exHandler [])) (IP4 (ei_RemoteAddress exEndpoint)) (IP4 (ei_LocalAddress exEndpoint))
      0 ICMPv4ProtocolNumber = Some (exRewrite [])"
    using exRule(2) by (simp only: exHandler_match exEndpoint_def endpointID.simps if_True)
  have i: "ei_RemoteAddress exEndpoint = 0x0a000005" "ei_LocalAddress exEndpoint = 0x64400001" by (simp_all add: exEndpoint_def)
  show ?thesis
    using ping_answered [OF rfc_icmp.icmp_lib_axioms exHandler_canQueue, of "[1, 2]" exEcho, OF _ _ _ m, of "\<lambda>_. None" exIcmpEnv]
    by (auto simp: exEcho_fields exAnswered i)
qed

text \<open>A TCP segment and an echo request from 10.0.0.5 to 100.64.0.1.\<close>

definition exSegment :: bytes where
  "exSegment = [0x45, 0, 0, 40, 0, 0, 0, 0, 64, 6, 0, 0, 10, 0, 0, 5, 100, 64, 0, 1, 0x12, 0x34, 0, 22] @ replicate 16 0"

definition exPing :: bytes where
  "exPing = [0x45, 0, 0, 28, 0, 0, 0, 0, 64, 1, 0, 0, 10, 0, 0, 5, 100, 64, 0, 1] @ exEcho"

lemma exSegment_fields:
  "h_SourceAddress rfc_hdr exSegment = 0x0a000005" "h_DestinationAddress rfc_hdr exSegment = 0x64400001"
  "h_TransportProtocol rfc_hdr exSegment = 6" "portsOf rfc_hdr exSegment = (0x1234, 22)" "length exSegment = 40"
  "h_HeaderLength rfc_hdr exSegment = 20" "drop_bit 4 (exSegment ! 0) = 4"
  "h_SourceAddress rfc_hdr exPing = 0x0a000005" "h_DestinationAddress rfc_hdr exPing = 0x64400001"
  "h_TransportProtocol rfc_hdr exPing = 1" "drop_bit 4 (exPing ! 0) = 4" "20 \<le> length exPing"
  by (simp_all add: exSegment_def exPing_def rfc_hdr_def rfc_headerLength_def portsOf_def be16_def be32_def)

theorem nat_state_release_witness:
  "\<exists>p' pkt'. HandleIncomingPacket rfc_hdr ref_bart ref_bart (\<lambda>_. None) exSegment (exHandler ''192.168.1.1/32'') = Ret (True, p') \<and>
     ph_injected p' = [pkt'] \<and>
     map_of (ph_natTable (snd (handleTCPConn ref_bart ref_bart exConnEnv (endpointOf rfc_hdr pkt') p'))) (flowKey rfc_hdr exSegment) =
       Some \<lparr>ns_originalDst = IP4 0x64400001, ns_rewrittenTo = IP4 0xc0a80101\<rparr>"
proof -
  let ?to = "''192.168.1.1/32''"
  have wf: "wellFormed rfc_hdr exSegment" by (simp add: wellFormed_def shaped_def transportMin_def exSegment_fields)
  have m: "matched rfc_hdr ref_bart ref_bart (exHandler ?to) exSegment = Some (exRewrite ?to)"
    using exRule(2) by (simp only: matched_def exHandler_match exSegment_fields if_True snd_conv)
  have lo: "\<not> is_loopback (IP4 0xc0a80101)" by (simp add: is_loopback_def unmap_def)
  have b: "\<not> IsBlocked (exHandler ?to)" by (simp add: IsBlocked_def exHandler_def AddSubnetRule_def NewProxyHandler_def)
  have r: "sr_RewriteTo (exRewrite ?to) = ?to" by (simp add: exRewrite_def)
  have e: "ce_dialing exConnEnv = id" "ce_piping exConnEnv = id" by (simp_all add: exConnEnv_def)
  show ?thesis
    using nat_state_release [OF rfc.header_lib_axioms _ b wf _ _ m, of "\<lambda>_. None" "0xc0a80101" exConnEnv] exResolve lo e
    by (simp add: exSegment_fields r)
qed

theorem rewritten_ping_dropped_witness:
  "\<exists>p' pkt'. HandleIncomingPacket rfc_hdr ref_bart ref_bart (\<lambda>_. None) exPing (exHandler ''192.168.1.1/32'') = Ret (True, p') \<and>
     ph_injected p' = [pkt'] \<and>
     handleICMPPacket rfc_icmp ref_bart ref_bart (\<lambda>_. None) (endpointOf rfc_hdr pkt') exEcho [] p' = (False, None)"
proof -
  let ?to = "''192.168.1.1/32''"
  have m: "Match ref_bart ref_bart (ph_subnetLookup (exHandler ?to)) (IP4 (h_SourceAddress rfc_hdr exPing))
      (IP4 (h_DestinationAddress rfc_hdr exPing)) 0 ICMPv4ProtocolNumber = Some (exRewrite ?to)"
    using exRule(2) by (simp only: exHandler_match exSegment_fields if_True)
  have n: "Match ref_bart ref_bart (ph_subnetLookup (exHandler ?to)) (IP4 (h_SourceAddress rfc_hdr exPing)) (IP4 0xc0a80101) 0
      ICMPv4ProtocolNumber = None"
    using exOther by (simp only: exHandler_match exSegment_fields if_False)
  have lo: "\<not> is_loopback (IP4 0xc0a80101)" by (simp add: is_loopback_def unmap_def)
  have r: "sr_RewriteTo (exRewrite ?to) = ?to" by (simp add: exRewrite_def)
  show ?thesis
    using rewritten_ping_dropped [OF rfc.header_lib_axioms _ _ _ _ m, of "\<lambda>_. None" "0xc0a80101" rfc_icmp exEcho "[]"] exResolve lo n
    by (simp add: exSegment_fields r)
qed

end
