(* ===== verification/Native_Ssh.thy ===== *)
theory Native_Ssh
  imports Go_Strings
begin

declare map_of_eq_Some_iff [simp del] Some_eq_map_of_iff [simp del]

text \<open>
  The native SSH server (\<open>nativessh/server.go\<close>, \<open>nativessh/auth.go\<close>): the credential store, the authentication of SSH clients and of
  browser sessions, and the handling of a session's requests.

  The SSH library is the record \<open>ssh_lib\<close> over an abstract type of public keys; a certificate is a public key that certifies
  another one (\<open>sl_CertKey\<close>).  The host is the record \<open>ssh_host\<close>: accounts with their home directories, files, and the
  password check of PAM.
\<close>

section \<open>Credentials\<close>

record 'k ssh_lib =
  sl_ParseAuthorizedKey :: "string \<Rightarrow> 'k option"
  sl_ParsePrivateKey :: "string \<Rightarrow> 'k option"
  sl_Fingerprint :: "'k \<Rightarrow> string"
  sl_CertKey :: "'k \<Rightarrow> 'k option"
  sl_CheckCert :: "('k \<Rightarrow> bool) \<Rightarrow> string \<Rightarrow> 'k \<Rightarrow> bool"

record ssh_host =
  ho_Home :: "string \<Rightarrow> string option"
  ho_ReadFile :: "string \<Rightarrow> string option"
  ho_Password :: "string \<Rightarrow> string \<Rightarrow> bool"

record 'k CredentialStore =
  cs_caKey :: "'k option"
  cs_principals :: "(string, (string, unit) gomap) gomap"

definition NewCredentialStore :: "'k CredentialStore" where
  "NewCredentialStore = \<lparr>cs_caKey = None, cs_principals = []\<rparr>"

definition SetCAKey :: "'k ssh_lib \<Rightarrow> string \<Rightarrow> 'k CredentialStore \<Rightarrow> bool \<times> 'k CredentialStore" where
  "SetCAKey L authorizedKeyData s =
     (case sl_ParseAuthorizedKey L authorizedKeyData of
        None \<Rightarrow> (False, s) | Some key \<Rightarrow> (True, s\<lparr>cs_caKey := Some key\<rparr>))"

definition AddPrincipals :: "string \<Rightarrow> string \<Rightarrow> 'k CredentialStore \<Rightarrow> 'k CredentialStore" where
  "AddPrincipals username niceId s =
     (let username = trim_space username; niceId = trim_space niceId in
      if username = [] then s
      else let ps = (case map_of (cs_principals s) username of None \<Rightarrow> [] | Some m \<Rightarrow> m);
               ps = mput username () ps;
               ps = (if niceId \<noteq> [] then mput niceId () ps else ps)
           in s\<lparr>cs_principals := mput username ps (cs_principals s)\<rparr>)"

definition getCredentials :: "string \<Rightarrow> 'k CredentialStore \<Rightarrow> 'k option \<times> (string, unit) gomap" where
  "getCredentials username s = (cs_caKey s, case map_of (cs_principals s) username of None \<Rightarrow> [] | Some m \<Rightarrow> m)"

section \<open>Authentication\<close>

text \<open>
  The lines a \<open>bufio.Scanner\<close> returns: it stops at a line that does not fit its buffer of 64 KiB.  The carriage return it drops
  is also dropped by \<open>TrimSpace\<close>.
\<close>

definition scanLines :: "string \<Rightarrow> string list" where
  "scanLines s = takeWhile (\<lambda>l. length l < 65536) (split_on CHR 0x0A s)"

definition CheckAuthorizedKeys :: "'k ssh_lib \<Rightarrow> ssh_host \<Rightarrow> string \<Rightarrow> 'k \<Rightarrow> bool" where
  "CheckAuthorizedKeys L h username key =
     (case ho_Home h username of
        None \<Rightarrow> False
      | Some home \<Rightarrow>
          (case ho_ReadFile h (home @ ''/.ssh/authorized_keys'') of
             None \<Rightarrow> False
           | Some content \<Rightarrow>
               list_ex (\<lambda>line. let line = trim_space line in
                   \<not> (line = [] \<or> has_prefix line ''#'') \<and>
                   (case sl_ParseAuthorizedKey L line of
                      None \<Rightarrow> False | Some parsed \<Rightarrow> sl_Fingerprint L parsed = sl_Fingerprint L key))
                 (scanLines content)))"

definition SystemUserExists :: "ssh_host \<Rightarrow> string \<Rightarrow> bool" where
  "SystemUserExists h username = (ho_Home h username \<noteq> None)"

text \<open>The loop over the principals, in any order: the certificate is accepted under one of them.\<close>

definition certAccepted :: "'k ssh_lib \<Rightarrow> 'k \<Rightarrow> (string, unit) gomap \<Rightarrow> 'k \<Rightarrow> bool" where
  "certAccepted L caKey principals cert =
     list_ex (\<lambda>principal. sl_CheckCert L (\<lambda>auth. sl_Fingerprint L auth = sl_Fingerprint L caKey) principal cert) (mkeys principals)"

text \<open>The public-key callback of the SSH server; \<open>True\<close> accepts.\<close>

definition publicKeyCallback :: "'k ssh_lib \<Rightarrow> ssh_host \<Rightarrow> 'k CredentialStore option \<Rightarrow> string \<Rightarrow> 'k \<Rightarrow> bool" where
  "publicKeyCallback L h store username key =
     (if CheckAuthorizedKeys L h username key then True
      else case store of
          None \<Rightarrow> False
        | Some s \<Rightarrow>
            (let (caKey, userPrincipals) = getCredentials username s in
             case caKey of
               None \<Rightarrow> False
             | Some ca \<Rightarrow> if length userPrincipals = 0 then False else certAccepted L ca userPrincipals key))"

definition passwordCallback :: "ssh_host \<Rightarrow> string \<Rightarrow> string \<Rightarrow> bool" where
  "passwordCallback h username password = ho_Password h username password"

text \<open>A browser session; the result is the error, if any.\<close>

definition AuthenticateWithCertificate ::
  "'k ssh_lib \<Rightarrow> ssh_host \<Rightarrow> 'k CredentialStore option \<Rightarrow> string \<Rightarrow> string \<Rightarrow> string \<Rightarrow> string \<Rightarrow> string option" where
  "AuthenticateWithCertificate L h store username password privateKeyPEM certificate =
     (if \<not> SystemUserExists h username then Some (''user does not exist'')
      else let key = (if privateKeyPEM \<noteq> [] then sl_ParsePrivateKey L privateKeyPEM else None);
               byKey = (case key of None \<Rightarrow> False | Some k \<Rightarrow> CheckAuthorizedKeys L h username k);
               byCert = (case (store, key, sl_ParseAuthorizedKey L certificate) of
                   (Some s, Some k, Some pub) \<Rightarrow>
                     certificate \<noteq> [] \<and>
                     (case sl_CertKey L pub of
                        None \<Rightarrow> False
                      | Some certified \<Rightarrow>
                          if sl_Fingerprint L certified \<noteq> sl_Fingerprint L k then False
                          else let (caKey, userPrincipals) = getCredentials username s in
                            (case caKey of
                               None \<Rightarrow> False
                             | Some ca \<Rightarrow> if length userPrincipals = 0 then False else certAccepted L ca userPrincipals pub))
                 | _ \<Rightarrow> False)
           in if byKey then None
              else if byCert then None
              else if password \<noteq> [] \<and> ho_Password h username password then None
              else Some (''authentication failed''))"

section \<open>Sessions\<close>

text \<open>
  The requests of a session channel with their reply flag.  A pseudo-terminal is a process with its shell, created by \<open>pty-req\<close>
  (\<open>spawn\<close> tells whether that succeeds); the events are the calls on the channel and on the terminal.  The number of the terminal is its position in
  the order of creation, always 0, since a channel creates at most one.
\<close>

datatype ssh_request =
    PtyReq "(32 word \<times> 32 word) option"
  | Shell
  | Exec string
  | WindowChange "(32 word \<times> 32 word) option"
  | OtherRequest

datatype ssh_event =
    EvReply bool
  | EvSpawnPTY
  | EvResize "16 word" "16 word"
  | EvBridge
  | EvExec string
  | EvClosePTY
  | EvCloseChannel

definition parsePTYReq :: "(32 word \<times> 32 word) option \<Rightarrow> 16 word \<times> 16 word" where
  "parsePTYReq payload = (case payload of None \<Rightarrow> (80, 24) | Some (c, r) \<Rightarrow> (ucast c, ucast r))"

definition resizeEvent :: "(32 word \<times> 32 word) option \<Rightarrow> ssh_event list" where
  "resizeEvent payload = (case parsePTYReq payload of (cols, rows) \<Rightarrow> [EvResize cols rows])"

definition replyIf :: "bool \<Rightarrow> bool \<Rightarrow> ssh_event list" where
  "replyIf want ok = (if want then [EvReply ok] else [])"

text \<open>
  The request loop with \<open>sess\<close> (the terminal exists) and \<open>started\<close>.  The bridge goroutine closes the terminal and the channel when the
  shell ends, and \<open>runExecAs\<close> closes the channel when the command ends: both are part of their event.
\<close>

fun handleSession :: "bool \<Rightarrow> bool \<Rightarrow> bool \<Rightarrow> (ssh_request \<times> bool) list \<Rightarrow> ssh_event list" where
  "handleSession spawn sess started [] =
     (if sess \<and> \<not> started then [EvClosePTY] else []) @ [EvCloseChannel]"
| "handleSession spawn sess started ((PtyReq payload, want) # rs) =
     (if \<not> sess \<and> \<not> spawn then replyIf want False @ [EvCloseChannel]
      else (if sess then [] else [EvSpawnPTY]) @ resizeEvent payload @ replyIf want True @
           handleSession spawn True started rs)"
| "handleSession spawn sess started ((Shell, want) # rs) =
     replyIf want True @
     (if started \<or> \<not> sess then handleSession spawn sess started rs
      else [EvBridge] @ handleSession spawn sess True rs)"
| "handleSession spawn sess started ((Exec cmd, want) # rs) = replyIf want True @ [EvExec cmd, EvCloseChannel]"
| "handleSession spawn sess started ((WindowChange payload, want) # rs) =
     (if sess then resizeEvent payload else []) @ replyIf want True @
     handleSession spawn sess started rs"
| "handleSession spawn sess started ((OtherRequest, want) # rs) = replyIf want False @ handleSession spawn sess started rs"

text \<open>The channels of a connection, in order, each with its type and whether accepting it succeeds; a failure ends the connection.\<close>

datatype conn_event = RejectChannel | StartSession string

fun handleConn :: "string \<Rightarrow> (string \<times> bool) list \<Rightarrow> conn_event list" where
  "handleConn user [] = []"
| "handleConn user ((channelType, accepted) # chans) =
     (if channelType \<noteq> ''session'' then RejectChannel # handleConn user chans
      else if \<not> accepted then []
      else StartSession user # handleConn user chans)"

text \<open>The command of an \<open>exec\<close> request: the process that \<open>runExecAs\<close> starts, if any, and the exit status that it sends.\<close>

record exec_account =
  ea_Uid :: string
  ea_Gid :: string
  ea_Groups :: "string list"
  ea_HomeDir :: string

record exec_cmd =
  ec_Args :: "string list"
  ec_Env :: "string list"
  ec_Dir :: string
  ec_Uid :: nat
  ec_Gid :: nat
  ec_Groups :: "nat list"

definition parseUint32 :: "string \<Rightarrow> nat option" where
  "parseUint32 s = (if s \<noteq> [] \<and> list_all is_digit s \<and> digits_val s < 2 ^ 32 then Some (digits_val s) else None)"

definition runExecAs ::
  "(string \<Rightarrow> exec_account option) \<Rightarrow> (string \<Rightarrow> bool) \<Rightarrow> (exec_cmd \<Rightarrow> int option) \<Rightarrow> string \<Rightarrow> string \<Rightarrow> exec_cmd option \<times> int" where
  "runExecAs lookup stat run username command =
     (case lookup username of
        None \<Rightarrow> (None, 1)
      | Some u \<Rightarrow>
          (case parseUint32 (ea_Uid u) of
             None \<Rightarrow> (None, 1)
           | Some uid \<Rightarrow>
               (case parseUint32 (ea_Gid u) of
                  None \<Rightarrow> (None, 1)
                | Some gid \<Rightarrow>
                    (let cmd = \<lparr>ec_Args = [''/bin/sh'', ''-c'', command],
                         ec_Env = [''HOME='' @ ea_HomeDir u, ''USER='' @ username, ''LOGNAME='' @ username,
                           ''PATH=/usr/local/sbin:/usr/local/bin:/usr/sbin:/usr/bin:/sbin:/bin''],
                         ec_Dir = (if stat (ea_HomeDir u) then ea_HomeDir u else ''/''),
                         ec_Uid = uid, ec_Gid = gid, ec_Groups = List.map_filter parseUint32 (ea_Groups u)\<rparr>
                     in (Some cmd, case run cmd of Some code \<Rightarrow> code | None \<Rightarrow> 1)))))"

section \<open>Properties\<close>

text \<open>When a principal set holds a name.\<close>

lemma principals_AddPrincipals:
  "snd (getCredentials u (AddPrincipals username niceId s)) =
     (if trim_space username \<noteq> [] \<and> u = trim_space username
      then (let ps = mput u () (snd (getCredentials u s)) in if trim_space niceId \<noteq> [] then mput (trim_space niceId) () ps else ps)
      else snd (getCredentials u s))"
  by (simp add: getCredentials_def AddPrincipals_def Let_def)

lemma mem_mkeys_mput [simp]: "x \<in> set (mkeys (mput k v m)) \<longleftrightarrow> x = k \<or> x \<in> set (mkeys m)"
  using fst_set_mput [of k v m] by auto

text \<open>
  The principals of a user are exactly those recorded for it: after any sequence of \<open>AddPrincipals\<close> calls a name is
  allowed for a user if and only if some call for that user named it as user or as nice identifier, with surrounding white space
  removed and empty names ignored.
\<close>

theorem principals_recorded:
  "x \<in> set (mkeys (snd (getCredentials u (foldl (\<lambda>s (username, niceId). AddPrincipals username niceId s) NewCredentialStore calls)))) \<longleftrightarrow>
     (\<exists>(username, niceId) \<in> set calls. trim_space username = u \<and> u \<noteq> [] \<and> (x = u \<or> (x = trim_space niceId \<and> x \<noteq> [])))"
proof (induction calls rule: rev_induct)
  case Nil
  then show ?case by (simp add: getCredentials_def NewCredentialStore_def)
next
  case (snoc c calls)
  then show ?case
    by (cases c) (auto simp: principals_AddPrincipals Let_def simp del: set_map split: if_splits)
qed

text \<open>The two proofs of identity that rest on a private key.\<close>

definition keyProof :: "'k ssh_lib \<Rightarrow> ssh_host \<Rightarrow> string \<Rightarrow> string \<Rightarrow> bool" where
  "keyProof L h username pem \<longleftrightarrow>
     (\<exists>k. pem \<noteq> [] \<and> sl_ParsePrivateKey L pem = Some k \<and> CheckAuthorizedKeys L h username k)"

definition certProof :: "'k ssh_lib \<Rightarrow> 'k CredentialStore option \<Rightarrow> string \<Rightarrow> string \<Rightarrow> string \<Rightarrow> bool" where
  "certProof L store username pem certificate \<longleftrightarrow>
     (\<exists>k s pub certified ca. pem \<noteq> [] \<and> certificate \<noteq> [] \<and> store = Some s \<and> sl_ParsePrivateKey L pem = Some k \<and>
        sl_ParseAuthorizedKey L certificate = Some pub \<and> sl_CertKey L pub = Some certified \<and>
        sl_Fingerprint L certified = sl_Fingerprint L k \<and> cs_caKey s = Some ca \<and>
        certAccepted L ca (snd (getCredentials username s)) pub)"

lemma certAccepted_Nil [simp]: "\<not> certAccepted L ca [] pub"
  by (simp add: certAccepted_def)

lemma browser_auth_iff:
  "AuthenticateWithCertificate L h store username password pem certificate = None \<longleftrightarrow>
     SystemUserExists h username \<and>
     (keyProof L h username pem \<or> certProof L store username pem certificate \<or>
      (password \<noteq> [] \<and> passwordCallback h username password))"
  by (auto simp: AuthenticateWithCertificate_def Let_def getCredentials_def passwordCallback_def keyProof_def certProof_def
      split: option.splits if_splits)

lemma keyProof_callback:
  "keyProof L h username pem \<Longrightarrow> \<exists>k. sl_ParsePrivateKey L pem = Some k \<and> publicKeyCallback L h store username k"
  by (auto simp: keyProof_def publicKeyCallback_def)

lemma certProof_callback:
  "certProof L store username pem certificate \<Longrightarrow>
     \<exists>pub. sl_ParseAuthorizedKey L certificate = Some pub \<and> publicKeyCallback L h store username pub"
proof -
  assume "certProof L store username pem certificate"
  then obtain s pub ca where *: "store = Some s" "sl_ParseAuthorizedKey L certificate = Some pub" "cs_caKey s = Some ca"
      "certAccepted L ca (snd (getCredentials username s)) pub"
    unfolding certProof_def by blast
  then have "snd (getCredentials username s) \<noteq> []" by auto
  then have "publicKeyCallback L h store username pub"
    using * by (simp add: publicKeyCallback_def getCredentials_def)
  then show ?thesis using *(2) by blast
qed


text \<open>A host with one account that lists one key, and keys that are their own fingerprints.\<close>

definition sample_lib :: "string ssh_lib" where
  "sample_lib = \<lparr>sl_ParseAuthorizedKey = Some, sl_ParsePrivateKey = Some, sl_Fingerprint = (\<lambda>k. k), sl_CertKey = (\<lambda>_. None),
     sl_CheckCert = (\<lambda>_ _ _. False)\<rparr>"

definition sample_host :: ssh_host where
  "sample_host = \<lparr>ho_Home = (\<lambda>u. if u = ''u'' then Some ''/h'' else None), ho_ReadFile = (\<lambda>_. Some ''k''), ho_Password = (\<lambda>_ _. False)\<rparr>"

lemma sample_listed: "CheckAuthorizedKeys sample_lib sample_host ''u'' ''k''"
proof -
  have "scanLines ''k'' = [''k'']" by (simp add: scanLines_def)
  moreover have "trim_space ''k'' = ''k''" by (simp add: trim_space_def is_space_def)
  moreover have "\<not> has_prefix ''k'' ''#''" by (simp add: has_prefix_def)
  ultimately show ?thesis by (simp add: CheckAuthorizedKeys_def sample_lib_def sample_host_def Let_def)
qed

lemma sample_accepted: "AuthenticateWithCertificate sample_lib sample_host None ''u'' [] ''k'' [] = None"
  using sample_listed by (simp add: browser_auth_iff keyProof_def sample_lib_def sample_host_def SystemUserExists_def)


text \<open>A request to run a command arrives after a terminal was requested and before a shell was.\<close>

definition is_Exec :: "ssh_request \<times> bool \<Rightarrow> bool" where
  "is_Exec r \<longleftrightarrow> (\<exists>cmd. fst r = Exec cmd)"

definition is_PtyReq :: "ssh_request \<times> bool \<Rightarrow> bool" where
  "is_PtyReq r \<longleftrightarrow> (\<exists>sz. fst r = PtyReq sz)"

definition commandBeforeShell :: "(ssh_request \<times> bool) list \<Rightarrow> bool" where
  "commandBeforeShell rs \<longleftrightarrow> list_ex is_Exec rs \<and> Shell \<notin> fst ` set (takeWhile (\<lambda>r. \<not> is_Exec r) rs)"

lemma is_Exec_simps [simp]:
  "\<not> is_Exec (PtyReq sz, w)" "\<not> is_Exec (Shell, w)" "is_Exec (Exec cmd, w)" "\<not> is_Exec (WindowChange sz, w)" "\<not> is_Exec (OtherRequest, w)"
  by (simp_all add: is_Exec_def)

lemma is_PtyReq_simps [simp]:
  "is_PtyReq (PtyReq sz, w)" "\<not> is_PtyReq (Shell, w)" "\<not> is_PtyReq (Exec cmd, w)" "\<not> is_PtyReq (WindowChange sz, w)"
  "\<not> is_PtyReq (OtherRequest, w)"
  by (simp_all add: is_PtyReq_def)

definition terminalReleased :: "ssh_event list \<Rightarrow> bool" where
  "terminalReleased evs \<longleftrightarrow> EvBridge \<in> set evs \<or> EvClosePTY \<in> set evs"

lemma terminalReleased_simps [simp]:
  "\<not> terminalReleased []" "terminalReleased (e # es) \<longleftrightarrow> e = EvBridge \<or> e = EvClosePTY \<or> terminalReleased es"
  "terminalReleased (es @ fs) \<longleftrightarrow> terminalReleased es \<or> terminalReleased fs"
  "\<not> terminalReleased (replyIf w b)" "\<not> terminalReleased (resizeEvent sz)"
  by (auto simp: terminalReleased_def replyIf_def resizeEvent_def split: prod.split)

lemma spawn_replies [simp]: "EvSpawnPTY \<notin> set (replyIf w b)" "EvSpawnPTY \<notin> set (resizeEvent sz)"
  by (auto simp: replyIf_def resizeEvent_def split: prod.split)

lemma released_with_terminal:
  "terminalReleased (handleSession spawn True False rs) \<longleftrightarrow> \<not> commandBeforeShell rs"
  by (induction spawn True False rs rule: handleSession.induct) (simp_all add: commandBeforeShell_def)

text \<open>
  C38. A terminal is released unless a command overtakes the shell: for every sequence of requests on a channel, a terminal that was created is either
  bridged to the channel, whose end closes it, or closed by the handler, if and only if no \<open>exec\<close> request arrives after the
  terminal was requested and before a shell was; \<open>ssh -t host command\<close> sends exactly that sequence, and its terminal with its shell stays.
\<close>

theorem terminal_released_iff:
  "EvSpawnPTY \<in> set (handleSession spawn False False rs) \<Longrightarrow>
   terminalReleased (handleSession spawn False False rs) \<longleftrightarrow> \<not> commandBeforeShell (dropWhile (\<lambda>r. \<not> is_PtyReq r) rs)"
  by (induction spawn False False rs rule: handleSession.induct) (auto simp: released_with_terminal commandBeforeShell_def split: if_splits)

theorem terminal_released_iff_witness:
  "\<not> terminalReleased (handleSession True False False [(PtyReq None, True), (Exec ''ls'', True)]) \<and>
   terminalReleased (handleSession True False False [(PtyReq None, True), (Shell, True)])"
  using terminal_released_iff [of True "[(PtyReq None, True), (Exec ''ls'', True)]"] terminal_released_iff [of True "[(PtyReq None, True), (Shell, True)]"]
  by (simp add: commandBeforeShell_def)

end
