(* ===== verification/Browser_Gateway.thy ===== *)
theory Browser_Gateway
  imports Native_Ssh Packet_Headers
begin

unbundle bit_operations_syntax

declare map_of_eq_Some_iff [simp del] Some_eq_map_of_iff [simp del]

text \<open>
  The browser gateway (\<open>browsergateway/browsergateway.go\<close>, \<open>rdp.go\<close>, \<open>rdcleanpath.go\<close>, \<open>ssh.go\<close>, \<open>ssh_native.go\<close>, \<open>vnc.go\<close>): the registry of
  allowed destinations, the access decision of the three kinds of sessions, the framing of the first RDP message, and the messages of an SSH session.

  A handler's result says what it does with the request: refuse it, or start a session with a destination.  Sockets, the web
  socket and the ASN.1, TLS and SSH libraries are outside the repository; their answers are arguments.  Go does not fix the
  order of a \<open>range\<close> over the registry: it is the function \<open>rng\<close>.
\<close>

section \<open>The registry\<close>

record bg_target =
  bt_ID :: int
  bt_Type :: string
  bt_Destination :: string
  bt_DestinationPort :: int
  bt_AuthToken :: string

record 'k gateway =
  gw_authToken :: string
  gw_sshCreds :: "'k CredentialStore option"
  gw_targets :: "(int, bg_target) gomap"

type_synonym target_order = "(int, bg_target) gomap \<Rightarrow> (int, bg_target) gomap"

definition NewGateway :: "string \<Rightarrow> 'k CredentialStore option \<Rightarrow> 'k gateway" where
  "NewGateway authToken creds = \<lparr>gw_authToken = authToken, gw_sshCreds = creds, gw_targets = []\<rparr>"

definition GatewaySetTargets :: "bg_target list \<Rightarrow> 'k gateway \<Rightarrow> 'k gateway" where
  "GatewaySetTargets targets g = g\<lparr>gw_targets := foldl (\<lambda>m t. mput (bt_ID t) t m) [] targets\<rparr>"

definition GatewayAddTarget :: "bg_target \<Rightarrow> 'k gateway \<Rightarrow> 'k gateway" where
  "GatewayAddTarget t g = g\<lparr>gw_targets := mput (bt_ID t) t (gw_targets g)\<rparr>"

definition GatewayRemoveTarget :: "int \<Rightarrow> 'k gateway \<Rightarrow> 'k gateway" where
  "GatewayRemoveTarget tid g = g\<lparr>gw_targets := mdel tid (gw_targets g)\<rparr>"

definition isAllowed :: "target_order \<Rightarrow> 'k gateway \<Rightarrow> string \<Rightarrow> string \<Rightarrow> int \<Rightarrow> string \<Rightarrow> bool" where
  "isAllowed rng g targetType host port authToken =
     (case filter (\<lambda>(_, t). bt_Type t = targetType \<and> bt_Destination t = host \<and> bt_DestinationPort t = port) (rng (gw_targets g)) of
        [] \<Rightarrow> False
      | (_, t) # _ \<Rightarrow> authToken = bt_AuthToken t)"

definition isTokenValid :: "target_order \<Rightarrow> 'k gateway \<Rightarrow> string \<Rightarrow> string \<Rightarrow> bool" where
  "isTokenValid rng g targetType authToken =
     list_ex (\<lambda>(_, t). bt_Type t = targetType \<and> authToken = bt_AuthToken t) (rng (gw_targets g))"

text \<open>The value \<open>strconv.Atoi\<close> returns next to its error: zero for a syntax error, the nearest bound for an overflow.\<close>

definition atoiValue :: "string \<Rightarrow> int" where
  "atoiValue s =
     (let neg = (s \<noteq> [] \<and> hd s = CHR ''-'');
          body = (if s \<noteq> [] \<and> (hd s = CHR ''-'' \<or> hd s = CHR ''+'') then tl s else s);
          v = (if neg then - int (digits_val body) else int (digits_val body))
      in if body = [] \<or> \<not> list_all is_digit body then 0 else max (- (2 ^ 63)) (min (2 ^ 63 - 1) v))"

section \<open>Requests\<close>

text \<open>The parameters of a request are a function from names to values, empty if absent.\<close>

datatype gw_action =
    Refuse nat string
  | ServeNativeSSH string
  | ServeSSH string string
  | ProbeVNC string
  | ServeVNC string
  | ServeRDP string
  | SessionError string

definition HandleSSH :: "target_order \<Rightarrow> 'k gateway \<Rightarrow> (string \<Rightarrow> string) \<Rightarrow> gw_action" where
  "HandleSSH rng g query =
     (let token = query ''authToken''; nativeSSH = (query ''mode'' \<noteq> ''proxy'') in
      if \<not> nativeSSH then
        (let host = query ''host''; username = query ''username'';
             port = (if query ''port'' = [] then ''22'' else query ''port'')
         in if host = [] \<or> username = [] then Refuse 400 ''missing host or username''
            else if \<not> isAllowed rng g ''ssh'' host (atoiValue port) token
            then Refuse 403 ''destination not allowed or auth token mismatch''
            else ServeSSH (join_host_port host port) username)
      else if \<not> isTokenValid rng g ''ssh'' token then Refuse 401 ''unauthorized''
      else if query ''username'' = [] then Refuse 400 ''missing username''
      else ServeNativeSSH (query ''username''))"

definition handleVNC :: "target_order \<Rightarrow> 'k gateway \<Rightarrow> (string \<Rightarrow> string) \<Rightarrow> gw_action" where
  "handleVNC rng g query =
     (let host = query ''host''; port = (if query ''port'' = [] then ''5900'' else query ''port'') in
      if host = [] then Refuse 400 ''missing host''
      else if \<not> isAllowed rng g ''vnc'' host (atoiValue port) (query ''authToken'')
      then Refuse 403 ''destination not allowed or auth token mismatch''
      else if query ''checkOnly'' = ''1'' then ProbeVNC (join_host_port host port)
      else ServeVNC (join_host_port host port))"

section \<open>RDP\<close>

record rdCleanPathPdu =
  rd_Version :: int
  rd_Destination :: string
  rd_ProxyAuth :: string
  rd_ServerAuth :: string
  rd_PreconnectionBlob :: string
  rd_X224 :: bytes
  rd_ServerCertChain :: "bytes list"
  rd_ServerAddr :: string

definition rdCleanPathVersion :: int where
  "rdCleanPathVersion = 3390"

text \<open>\<open>asn1.Unmarshal\<close> returns the value and the rest of the input.\<close>

definition decodeRDCleanPathRequest :: "(bytes \<Rightarrow> (rdCleanPathPdu \<times> bytes) option) \<Rightarrow> bytes \<Rightarrow> string + rdCleanPathPdu" where
  "decodeRDCleanPathRequest unmarshal buf =
     (case unmarshal buf of
        None \<Rightarrow> Inl ''asn1 unmarshal''
      | Some (pdu, rest) \<Rightarrow>
          if length rest \<noteq> 0 then Inl ''trailing data after RDCleanPath PDU''
          else if rd_Version pdu \<noteq> rdCleanPathVersion then Inl ''unexpected RDCleanPath version''
          else Inr pdu)"

definition encodeRDCleanPathResponse :: "(rdCleanPathPdu \<Rightarrow> 'r) \<Rightarrow> string \<Rightarrow> bytes \<Rightarrow> bytes list \<Rightarrow> 'r" where
  "encodeRDCleanPathResponse marshal serverAddr x224Rsp certChain =
     marshal \<lparr>rd_Version = rdCleanPathVersion, rd_Destination = [], rd_ProxyAuth = [], rd_ServerAuth = [], rd_PreconnectionBlob = [], rd_X224 = x224Rsp,
       rd_ServerCertChain = certChain, rd_ServerAddr = serverAddr\<rparr>"

definition be_value :: "bytes \<Rightarrow> int" where
  "be_value b = foldl (\<lambda>total x. total * 256 + uint x) 0 b"

definition detectRDCleanPathLength :: "bytes \<Rightarrow> int" where
  "detectRDCleanPathLength buf =
     (if length buf < 2 then - 1
      else if buf ! 0 \<noteq> 0x30 then - 2
      else let l = buf ! 1 in
        if l < 0x80 then 2 + uint l
        else let n = unat (l AND 0x7f) in
          if n = 0 \<or> n > 4 then - 2
          else if length buf < 2 + n then - 1
          else 2 + int n + be_value (take n (drop 2 buf)))"

text \<open>The outcome of each \<open>Read\<close>: the bytes and whether it also returned an error.  The end of the list is an error.\<close>

fun readCleanPath ::
  "(bytes \<Rightarrow> (rdCleanPathPdu \<times> bytes) option) \<Rightarrow> bytes \<Rightarrow> (bytes \<times> bool) list \<Rightarrow> string + rdCleanPathPdu" where
  "readCleanPath unmarshal buf reads =
     (let total = detectRDCleanPathLength buf in
      if total = - 2 then Inl ''invalid RDCleanPath PDU''
      else if total > 0 \<and> int (length buf) \<ge> total then decodeRDCleanPathRequest unmarshal (take (nat total) buf)
      else (case reads of
          [] \<Rightarrow> Inl ''read error''
        | (tmp, err) # rest \<Rightarrow>
            if err then Inl ''read error'' else readCleanPath unmarshal (buf @ tmp) rest))"

declare readCleanPath.simps [simp del]

text \<open>The checks of a session, up to the dial.\<close>

definition serveSession :: "target_order \<Rightarrow> 'k gateway \<Rightarrow> string + rdCleanPathPdu \<Rightarrow> gw_action" where
  "serveSession rng g request =
     (case request of
        Inl e \<Rightarrow> SessionError e
      | Inr pdu \<Rightarrow>
          if rd_Destination pdu = [] then SessionError ''RDCleanPath missing destination''
          else if length (rd_X224 pdu) = 0 then SessionError ''RDCleanPath missing X224 connection PDU''
          else let target = (if split_host_port (rd_Destination pdu) = None then join_host_port (rd_Destination pdu) ''3389''
                             else rd_Destination pdu);
                   (rdpHost, rdpPortStr) = (case split_host_port target of None \<Rightarrow> ([], []) | Some hp \<Rightarrow> hp)
               in if \<not> isAllowed rng g ''rdp'' rdpHost (atoiValue rdpPortStr) (rd_ProxyAuth pdu)
                  then SessionError ''RDP destination is not in the allowed target list or auth token mismatch''
                  else ServeRDP target)"

text \<open>One TPKT frame of the server's byte stream.\<close>

definition readX224 :: "bytes \<Rightarrow> string + bytes" where
  "readX224 r =
     (if length r < 4 then Inl ''EOF''
      else if r ! 0 \<noteq> 0x03 then Inl ''unexpected TPKT version''
      else let total = unat (be16 r 2) in
        if total < 4 \<or> total > 4096 then Inl ''unreasonable TPKT length''
        else if length r < total then Inl ''EOF''
        else Inr (take total r))"

text \<open>
  The handshake with the RDP server after the dial: the bytes written to the server before TLS, then the response for the client.  \<open>stream\<close> is what the
  server sends in the clear; \<open>wr\<close> tells whether a write to the server succeeds; \<open>handshake\<close> is the chain of certificates, if TLS comes up.
\<close>

definition rdpHandshake ::
  "(bytes \<Rightarrow> bool) \<Rightarrow> bytes \<Rightarrow> bytes list option \<Rightarrow> (rdCleanPathPdu \<Rightarrow> bytes option) \<Rightarrow> string \<Rightarrow> rdCleanPathPdu \<Rightarrow> bytes \<times> (string + bytes)" where
  "rdpHandshake wr stream handshake marshal serverAddr pdu =
     (let pcb = map (of_nat \<circ> of_char) (rd_PreconnectionBlob pdu) in
      if rd_PreconnectionBlob pdu \<noteq> [] \<and> \<not> wr pcb then ([], Inl ''send PCB'')
      else if \<not> wr (rd_X224 pdu) then (pcb, Inl ''send X224'')
      else (pcb @ rd_X224 pdu,
        (case readX224 stream of
           Inl e \<Rightarrow> Inl (''read X224 response: '' @ e)
         | Inr x224Rsp \<Rightarrow>
             (case handshake of
                None \<Rightarrow> Inl ''TLS handshake with server''
              | Some certs \<Rightarrow>
                  if length certs = 0 then Inl ''server did not present any certificates''
                  else (case encodeRDCleanPathResponse marshal serverAddr x224Rsp certs of
                      None \<Rightarrow> Inl ''encode RDCleanPath response''
                    | Some rsp \<Rightarrow> Inr rsp)))))"

section \<open>SSH sessions\<close>

record sshClientMsg =
  sm_Type :: string
  sm_Password :: string
  sm_PrivateKey :: string
  sm_Certificate :: string
  sm_Data :: string
  sm_Cols :: "32 word"
  sm_Rows :: "32 word"

datatype auth_method = CertMethod | KeyMethod | PasswordMethod string

text \<open>The authentication methods offered to the target, from the first message; \<open>Inl\<close> is the error sent to the browser.\<close>

definition sshAuthMethods :: "'k ssh_lib \<Rightarrow> sshClientMsg \<Rightarrow> string + auth_method list" where
  "sshAuthMethods L m =
     (let byKey = (if sm_PrivateKey m = [] then Inr []
        else case sl_ParsePrivateKey L (sm_PrivateKey m) of
            None \<Rightarrow> Inl ''Failed to parse private key''
          | Some signer \<Rightarrow>
              if sm_Certificate m = [] then Inr [KeyMethod]
              else case sl_ParseAuthorizedKey L (sm_Certificate m) of
                  None \<Rightarrow> Inl ''Failed to parse certificate''
                | Some pub \<Rightarrow>
                    (case sl_CertKey L pub of
                       None \<Rightarrow> Inl ''Provided certificate is not a valid SSH certificate''
                     | Some certified \<Rightarrow>
                         if sl_Fingerprint L certified \<noteq> sl_Fingerprint L signer
                         then Inl ''Failed to combine private key and certificate'' else Inr [CertMethod]))
      in case byKey of
           Inl e \<Rightarrow> Inl e
         | Inr ms \<Rightarrow>
             (let ms = ms @ (if sm_Password m \<noteq> [] then [PasswordMethod (sm_Password m)] else [])
              in if ms = [] then Inl ''No authentication credentials provided'' else Inr ms))"

text \<open>
  The loop that feeds the browser's messages to the terminal: \<open>None\<close> is a message that does not parse.  \<open>wr\<close> tells whether a
  write succeeds; a failed write ends the session with the error \<open>werr\<close>.  \<open>rs\<close> is the resize call for columns and rows.
\<close>

datatype term_event = TermWrite string | WindowChange int int | Resize "16 word" "16 word"

fun pumpInput ::
  "string \<Rightarrow> (32 word \<Rightarrow> 32 word \<Rightarrow> term_event) \<Rightarrow> (string \<Rightarrow> bool) \<Rightarrow> sshClientMsg option list \<Rightarrow> term_event list \<times> string option" where
  "pumpInput werr rs wr [] = ([], None)"
| "pumpInput werr rs wr (None # ms) = pumpInput werr rs wr ms"
| "pumpInput werr rs wr (Some m # ms) =
     (if sm_Type m = ''data'' then
        (if \<not> wr (sm_Data m) then ([], Some werr)
         else apfst ((#) (TermWrite (sm_Data m))) (pumpInput werr rs wr ms))
      else if sm_Type m = ''resize'' \<and> sm_Cols m > 0 \<and> sm_Rows m > 0
      then apfst ((#) (rs (sm_Cols m) (sm_Rows m))) (pumpInput werr rs wr ms)
      else pumpInput werr rs wr ms)"

text \<open>The steps that open the shell on the target, in order; the first that fails ends the session, and all but the pipes report to the browser.\<close>

definition openShell :: "(string \<Rightarrow> bool) \<Rightarrow> string option" where
  "openShell step = find (\<lambda>s. \<not> step s)
     [''ssh dial'', ''ssh new session'', ''ssh request pty'', ''ssh stdin pipe'', ''ssh stdout pipe'', ''ssh stderr pipe'', ''ssh shell'']"

definition serveSSHSession ::
  "'k ssh_lib \<Rightarrow> (auth_method list \<Rightarrow> string \<Rightarrow> bool) \<Rightarrow> (string \<Rightarrow> bool) \<Rightarrow> sshClientMsg option list \<Rightarrow> term_event list \<times> string option" where
  "serveSSHSession L step wr ms =
     (case ms of
        [] \<Rightarrow> ([], Some ''read auth message'')
      | None # _ \<Rightarrow> ([], Some ''expected auth message'')
      | Some authMsg # rest \<Rightarrow>
          if sm_Type authMsg \<noteq> ''auth'' then ([], Some ''expected auth message'')
          else (case sshAuthMethods L authMsg of
              Inl e \<Rightarrow> ([], Some e)
            | Inr methods \<Rightarrow>
                (case openShell (step methods) of
                   Some e \<Rightarrow> ([], Some e)
                 | None \<Rightarrow> pumpInput ''write ssh stdin'' (\<lambda>c r. WindowChange (uint r) (uint c)) wr rest)))"

text \<open>A native session: the first message must authenticate the user against the host; then the same loop serves the terminal.\<close>

definition serveNativeSSHSession ::
  "'k ssh_lib \<Rightarrow> ssh_host \<Rightarrow> bool \<Rightarrow> (string \<Rightarrow> bool) \<Rightarrow> string \<Rightarrow> 'k CredentialStore option \<Rightarrow> sshClientMsg option list \<Rightarrow>
     term_event list \<times> string option" where
  "serveNativeSSHSession L h spawn wr username creds ms =
     (case ms of
        [] \<Rightarrow> ([], Some ''read auth message'')
      | None # _ \<Rightarrow> ([], Some ''expected auth message'')
      | Some authMsg # rest \<Rightarrow>
          if sm_Type authMsg \<noteq> ''auth'' then ([], Some ''expected auth message'')
          else if AuthenticateWithCertificate L h creds username (sm_Password authMsg) (sm_PrivateKey authMsg) (sm_Certificate authMsg) \<noteq> None
          then ([], Some ''auth failed'')
          else if \<not> spawn then ([], Some ''pty session'')
          else pumpInput ''write pty'' (\<lambda>c r. Resize (ucast c) (ucast r)) wr rest)"

section \<open>Properties\<close>

interpretation gateway_targets: keyed_store "\<lambda>g. map_of (gw_targets g)" "\<lambda>k t g. g\<lparr>gw_targets := mput k t (gw_targets g)\<rparr>" GatewayRemoveTarget
  by unfold_locales (simp_all add: GatewayRemoveTarget_def)

text \<open>A registered target that allows the destination with the token.\<close>

definition permits :: "'k gateway \<Rightarrow> string \<Rightarrow> string \<Rightarrow> int \<Rightarrow> string \<Rightarrow> bool" where
  "permits g kind host port token \<longleftrightarrow>
     (\<exists>(_, t) \<in> set (gw_targets g). bt_Type t = kind \<and> bt_Destination t = host \<and> bt_DestinationPort t = port \<and> bt_AuthToken t = token)"

lemma isAllowed_permits:
  assumes "\<And>m. set (rng m) = set m" "isAllowed rng g kind host port token"
  shows "permits g kind host port token"
proof -
  let ?P = "\<lambda>(_, t). bt_Type t = kind \<and> bt_Destination t = host \<and> bt_DestinationPort t = port"
  obtain i t rest where f: "filter ?P (rng (gw_targets g)) = (i, t) # rest" "token = bt_AuthToken t"
    using assms(2) by (auto simp: isAllowed_def split: list.splits)
  then have "(i, t) \<in> set (filter ?P (rng (gw_targets g)))" by (simp only: list.set_intros(1))
  then show ?thesis using assms(1) f(2) by (auto simp: permits_def intro!: bexI [of _ "(i, t)"])
qed


text \<open>One registered SSH target, reached with its token.\<close>

definition sample_gateway :: "unit gateway" where
  "sample_gateway = GatewayAddTarget \<lparr>bt_ID = 1, bt_Type = ''ssh'', bt_Destination = ''h'', bt_DestinationPort = 22, bt_AuthToken = ''t''\<rparr>
     (NewGateway [] None)"

definition sample_query :: "string \<Rightarrow> string" where
  "sample_query k = (if k = ''mode'' then ''proxy'' else if k = ''host'' then ''h'' else if k = ''username'' then ''u''
     else if k = ''authToken'' then ''t'' else [])"

lemma sample_served: "HandleSSH (\<lambda>m. m) sample_gateway sample_query = ServeSSH (join_host_port ''h'' ''22'') ''u''"
proof -
  have "atoiValue ''22'' = 22" by code_simp
  then show ?thesis
    by (simp add: HandleSSH_def Let_def isAllowed_def sample_gateway_def sample_query_def GatewayAddTarget_def NewGateway_def)
qed


lemma detect_append:
  assumes "detectRDCleanPathLength buf \<noteq> - 1"
  shows "detectRDCleanPathLength (buf @ rest) = detectRDCleanPathLength buf"
proof -
  let ?n = "unat (buf ! 1 AND 0x7f)"
  have two: "\<not> length buf < 2" using assms by (auto simp: detectRDCleanPathLength_def)
  then have nth: "(buf @ rest) ! 0 = buf ! 0" "(buf @ rest) ! 1 = buf ! 1" by (auto simp: nth_append)
  show ?thesis
  proof (cases "length buf < 2 + ?n")
    case True
    then have "buf ! 0 \<noteq> 0x30 \<or> buf ! 1 < 0x80 \<or> ?n = 0 \<or> ?n > 4"
      using assms two by (simp add: detectRDCleanPathLength_def Let_def split: if_splits)
    then show ?thesis unfolding detectRDCleanPathLength_def Let_def nth using two by auto
  next
    case False
    then have "take ?n (drop 2 (buf @ rest)) = take ?n (drop 2 buf)" "\<not> length (buf @ rest) < 2 + ?n" by simp_all
    then show ?thesis unfolding detectRDCleanPathLength_def Let_def nth using two False by simp
  qed
qed

lemma readCleanPath_complete:
  assumes "detectRDCleanPathLength buf = n" "n > 0" "int (length buf) \<ge> n"
  shows "readCleanPath u (buf @ rest) reads = decodeRDCleanPathRequest u (take (nat n) buf)"
proof -
  have "detectRDCleanPathLength (buf @ rest) = n" using detect_append [of buf rest] assms by simp
  then show ?thesis using assms by (simp add: readCleanPath.simps [of u "buf @ rest"])
qed

lemma readCleanPath_bad:
  "detectRDCleanPathLength buf = - 2 \<Longrightarrow> readCleanPath u (buf @ rest) reads = Inl ''invalid RDCleanPath PDU''"
  using detect_append [of buf rest] by (simp add: readCleanPath.simps [of u "buf @ rest"])

text \<open>
  C37. The first message of an RDP session is read the same however the network cuts it up: the result of the loop depends only on the bytes that
  arrived, not on the pieces the reads returned, and the bytes after the message are not part of it.
\<close>

theorem readCleanPath_chunking:
  "readCleanPath unmarshal buf (map (\<lambda>b. (b, False)) chunks) = readCleanPath unmarshal (buf @ concat chunks) []"
proof (induction chunks arbitrary: buf)
  case Nil
  then show ?case by simp
next
  case (Cons c cs)
  let ?total = "detectRDCleanPathLength buf"
  consider (bad) "?total = - 2" | (whole) "?total > 0" "int (length buf) \<ge> ?total" | (more) "?total \<noteq> - 2" "\<not> (?total > 0 \<and> int (length buf) \<ge> ?total)"
    by blast
  then show ?case
  proof cases
    case bad
    then show ?thesis using readCleanPath_bad [OF bad, of unmarshal "[]"] readCleanPath_bad [OF bad] by simp
  next
    case whole
    then show ?thesis
      using readCleanPath_complete [OF refl whole, of unmarshal "[]"] readCleanPath_complete [OF refl whole, of unmarshal "concat (c # cs)"] by simp
  next
    case more
    then have "readCleanPath unmarshal buf (map (\<lambda>b. (b, False)) (c # cs)) = readCleanPath unmarshal (buf @ c) (map (\<lambda>b. (b, False)) cs)"
      by (subst readCleanPath.simps) (auto simp: Let_def)
    then show ?thesis by (simp only: Cons.IH concat.simps append_assoc)
  qed
qed

text \<open>Only the frame is taken from the server's bytes, so that TLS starts where the frame ends.\<close>

lemma readX224_frame:
  assumes "readX224 r = Inr out"
  shows "4 \<le> length out \<and> length out \<le> 4096 \<and> r = out @ drop (length out) r \<and> length out = unat (be16 out 2)"
  using assms by (auto simp: readX224_def Let_def be16_def split: if_splits)

end
