(* ===== verification/Health_Check.thy ===== *)
theory Health_Check
  imports Go_Strings "HOL-Library.Multiset"
begin

text \<open>
  The health-check monitor (\<open>healthcheck/healthcheck.go\<close>).

  Targets are pointers into an explicit store, because the map of the monitor and the goroutines of
  \<open>monitorTarget\<close> share them.  A context is a number and cancelling it records the number.  Every goroutine is a program
  counter (\<open>hc_pc\<close>) that names the points of \<open>monitorTarget\<close> between which other code can run; the relation
  \<open>hc_step\<close> interleaves them with the calls of the API.  The network is an argument of a check (\<open>hc_net\<close>).
\<close>

declare map_of_eq_Some_iff [simp del] Some_eq_map_of_iff [simp del]

section \<open>Data\<close>

datatype Health = StatusUnknown | StatusHealthy | StatusUnhealthy

definition Health_String :: "Health \<Rightarrow> string" where
  "Health_String s = (case s of StatusHealthy \<Rightarrow> ''healthy'' | StatusUnhealthy \<Rightarrow> ''unhealthy'' | _ \<Rightarrow> ''unknown'')"

record hc_config =
  hc_ID :: int
  hc_Enabled :: bool
  hc_Path :: string
  hc_Scheme :: string
  hc_Mode :: string
  hc_Hostname :: string
  hc_Port :: int
  hc_Interval :: int
  hc_UnhealthyInterval :: int
  hc_Timeout :: int
  hc_FollowRedirects :: "bool option"
  hc_Headers :: "(string, string) gomap"
  hc_Method :: string
  hc_Status :: int
  hc_TLSServerName :: string
  hc_HealthyThreshold :: int
  hc_UnhealthyThreshold :: int

record hc_client =
  cl_followRedirects :: bool
  cl_DisableKeepAlives :: bool
  cl_InsecureSkipVerify :: bool
  cl_ServerName :: string

record hc_target =
  tg_Config :: hc_config
  tg_Status :: Health
  tg_LastCheck :: instant
  tg_LastError :: string
  tg_CheckCount :: int
  tg_timer :: "int option"
  tg_ctx :: nat
  tg_client :: hc_client
  tg_consecutiveSuccesses :: int
  tg_consecutiveFailures :: int

text \<open>
  The program points of \<open>monitorTarget\<close>: before the initial check, inside the initial check, at the head of the loop,
  blocked in \<open>select\<close> on the context and the timer, inside a later check, returned.
\<close>

datatype hc_pc = Started | FirstCheck Health | LoopHead int | Selecting nat int | LaterCheck Health int | Returned

record hc_monitor =
  mo_targets :: "(int, nat) gomap"
  mo_callback :: bool
  mo_enforceCert :: bool
  mo_heap :: "nat \<Rightarrow> hc_target option"
  mo_nextPtr :: nat
  mo_nextCtx :: nat
  mo_cancelled :: "nat list"
  mo_routines :: "(nat \<times> hc_pc) list"
  mo_notified :: "(int \<times> hc_target) list list"

definition NewMonitor :: "bool \<Rightarrow> bool \<Rightarrow> hc_monitor" where
  "NewMonitor callback enforceCert =
     \<lparr>mo_targets = [], mo_callback = callback, mo_enforceCert = enforceCert, mo_heap = Map.empty, mo_nextPtr = 0,
      mo_nextCtx = 0, mo_cancelled = [], mo_routines = [], mo_notified = []\<rparr>"

section \<open>Adding and removing targets\<close>

definition getAllTargetsUnsafe :: "hc_monitor \<Rightarrow> (int \<times> hc_target) list" where
  "getAllTargetsUnsafe m = map (\<lambda>(tid, p). (tid, the (mo_heap m p))) (mo_targets m)"

definition GetTargetIDs :: "hc_monitor \<Rightarrow> int list" where
  "GetTargetIDs m = mkeys (mo_targets m)"

text \<open>\<open>go m.callback(m.getAllTargetsUnsafe())\<close> if there is a callback: the copy is taken by the caller.\<close>

definition notify :: "hc_monitor \<Rightarrow> hc_monitor" where
  "notify m = (if mo_callback m then m\<lparr>mo_notified := mo_notified m @ [getAllTargetsUnsafe m]\<rparr> else m)"

definition cancelTarget :: "nat \<Rightarrow> hc_monitor \<Rightarrow> hc_monitor" where
  "cancelTarget p m = m\<lparr>mo_cancelled := tg_ctx (the (mo_heap m p)) # mo_cancelled m\<rparr>"

definition setDefaults :: "hc_config \<Rightarrow> hc_config" where
  "setDefaults c = c\<lparr>
     hc_Scheme := if hc_Scheme c = [] then ''http'' else hc_Scheme c,
     hc_Mode := if hc_Mode c = [] then ''http'' else hc_Mode c,
     hc_Method := if hc_Method c = [] then ''GET'' else hc_Method c,
     hc_Interval := if hc_Interval c = 0 then 30 else hc_Interval c,
     hc_UnhealthyInterval := if hc_UnhealthyInterval c = 0 then 30 else hc_UnhealthyInterval c,
     hc_Timeout := if hc_Timeout c = 0 then 5 else hc_Timeout c,
     hc_HealthyThreshold := if hc_HealthyThreshold c = 0 then 1 else hc_HealthyThreshold c,
     hc_UnhealthyThreshold := if hc_UnhealthyThreshold c = 0 then 1 else hc_UnhealthyThreshold c\<rparr>"

definition newTarget :: "bool \<Rightarrow> hc_config \<Rightarrow> nat \<Rightarrow> hc_target" where
  "newTarget enforceCert c ctx =
     \<lparr>tg_Config = c, tg_Status = StatusUnknown, tg_LastCheck = 0, tg_LastError = [], tg_CheckCount = 0, tg_timer = None,
      tg_ctx = ctx,
      tg_client = \<lparr>cl_followRedirects = (hc_FollowRedirects c = None \<or> hc_FollowRedirects c = Some True),
        cl_DisableKeepAlives = True, cl_InsecureSkipVerify = (\<not> enforceCert), cl_ServerName = hc_TLSServerName c\<rparr>,
      tg_consecutiveSuccesses = 0, tg_consecutiveFailures = 0\<rparr>"

definition startMonitor :: "nat \<Rightarrow> hc_monitor \<Rightarrow> hc_monitor" where
  "startMonitor p m = m\<lparr>mo_routines := mo_routines m @ [(p, Started)]\<rparr>"

text \<open>The error result of \<open>addTargetUnsafe\<close>, \<open>None\<close> for \<open>nil\<close>, comes with the new state.\<close>

definition addTargetUnsafe :: "hc_config \<Rightarrow> hc_monitor \<Rightarrow> string option \<times> hc_monitor" where
  "addTargetUnsafe config m =
     (let c = setDefaults config;
          m = (case map_of (mo_targets m) (hc_ID c) of Some existing \<Rightarrow> cancelTarget existing m | None \<Rightarrow> m);
          p = mo_nextPtr m;
          m = m\<lparr>mo_heap := (mo_heap m)(p \<mapsto> newTarget (mo_enforceCert m) c (mo_nextCtx m)),
                mo_nextPtr := Suc p, mo_nextCtx := Suc (mo_nextCtx m),
                mo_targets := mput (hc_ID c) p (mo_targets m)\<rparr>
      in (None, if hc_Enabled c then startMonitor p m else m))"

definition AddTarget :: "hc_config \<Rightarrow> hc_monitor \<Rightarrow> string option \<times> hc_monitor" where
  "AddTarget config m = addTargetUnsafe config m"

primrec AddTargets :: "hc_config list \<Rightarrow> hc_monitor \<Rightarrow> string option \<times> hc_monitor" where
  "AddTargets [] m = (None, m)"
| "AddTargets (c # cs) m =
     (case addTargetUnsafe c m of
        (Some e, m') \<Rightarrow> (Some (''failed to add target '' @ itoa_int (hc_ID c) @ '': '' @ e), m')
      | (None, m') \<Rightarrow> AddTargets cs m')"

definition dropTarget :: "int \<Rightarrow> nat \<Rightarrow> hc_monitor \<Rightarrow> hc_monitor" where
  "dropTarget tid p m = (cancelTarget p m)\<lparr>mo_targets := mdel tid (mo_targets m)\<rparr>"

definition notFoundError :: "int \<Rightarrow> string" where
  "notFoundError tid = ''target with id '' @ itoa_int tid @ '' not found''"

definition RemoveTarget :: "int \<Rightarrow> hc_monitor \<Rightarrow> string option \<times> hc_monitor" where
  "RemoveTarget tid m =
     (case map_of (mo_targets m) tid of
        None \<Rightarrow> (Some (notFoundError tid), m)
      | Some p \<Rightarrow> (None, notify (dropTarget tid p m)))"

primrec removeLoop :: "int list \<Rightarrow> int list \<Rightarrow> hc_monitor \<Rightarrow> int list \<times> hc_monitor" where
  "removeLoop [] notFound m = (notFound, m)"
| "removeLoop (tid # ids) notFound m =
     (case map_of (mo_targets m) tid of
        None \<Rightarrow> removeLoop ids (notFound @ [tid]) m
      | Some p \<Rightarrow> removeLoop ids notFound (dropTarget tid p m))"

text \<open>\<open>RemoveTargets\<close> returns the identifiers its error message lists; the empty list stands for no error.\<close>

definition RemoveTargets :: "int list \<Rightarrow> hc_monitor \<Rightarrow> int list \<times> hc_monitor" where
  "RemoveTargets ids m =
     (let (notFound, m) = removeLoop ids [] m
      in (notFound, if length notFound \<noteq> length ids then notify m else m))"

definition StopMonitor :: "hc_monitor \<Rightarrow> hc_monitor" where
  "StopMonitor m = (foldl (\<lambda>m (tid, p). cancelTarget p m) m (mo_targets m))\<lparr>mo_targets := []\<rparr>"

definition EnableTarget :: "int \<Rightarrow> hc_monitor \<Rightarrow> string option \<times> hc_monitor" where
  "EnableTarget tid m =
     (case map_of (mo_targets m) tid of
        None \<Rightarrow> (Some (notFoundError tid), m)
      | Some p \<Rightarrow>
          (let t = the (mo_heap m p) in
           if hc_Enabled (tg_Config t) then (None, m)
           else (let m = cancelTarget p m;
                     m = m\<lparr>mo_heap := (mo_heap m)(p \<mapsto> t\<lparr>tg_Config := (tg_Config t)\<lparr>hc_Enabled := True\<rparr>, tg_ctx := mo_nextCtx m\<rparr>),
                           mo_nextCtx := Suc (mo_nextCtx m)\<rparr>
                 in (None, startMonitor p m))))"

definition DisableTarget :: "int \<Rightarrow> hc_monitor \<Rightarrow> string option \<times> hc_monitor" where
  "DisableTarget tid m =
     (case map_of (mo_targets m) tid of
        None \<Rightarrow> (Some (notFoundError tid), m)
      | Some p \<Rightarrow>
          (let t = the (mo_heap m p) in
           if \<not> hc_Enabled (tg_Config t) then (None, m)
           else (let m = cancelTarget p m
                 in (None, notify (m\<lparr>mo_heap := (mo_heap m)(p \<mapsto>
                      t\<lparr>tg_Config := (tg_Config t)\<lparr>hc_Enabled := False\<rparr>, tg_Status := StatusUnknown\<rparr>)\<rparr>)))))"

text \<open>
  \<open>SyncTargets\<close>; \<open>rngT\<close> and \<open>rngD\<close> are the orders in which Go ranges over the targets and over the desired set.
\<close>

definition desiredIDs :: "hc_config list \<Rightarrow> (int, hc_config) gomap" where
  "desiredIDs cs = foldl (\<lambda>d c. mput (hc_ID c) c d) [] cs"

definition syncRemove :: "int list \<Rightarrow> hc_monitor \<Rightarrow> hc_monitor" where
  "syncRemove ids m =
     foldl (\<lambda>m tid. case map_of (mo_targets m) tid of Some p \<Rightarrow> dropTarget tid p m | None \<Rightarrow> m) m ids"

primrec syncAdd :: "(int \<times> hc_config) list \<Rightarrow> hc_monitor \<Rightarrow> string option \<times> hc_monitor" where
  "syncAdd [] m = (None, m)"
| "syncAdd (d # ds) m =
     (case map_of (mo_targets m) (fst d) of
        Some existing \<Rightarrow>
          (case addTargetUnsafe (snd d) (dropTarget (fst d) existing m) of
             (Some e, m') \<Rightarrow> (Some (''failed to update target '' @ itoa_int (fst d) @ '': '' @ e), m')
           | (None, m') \<Rightarrow> syncAdd ds m')
      | None \<Rightarrow>
          (case addTargetUnsafe (snd d) m of
             (Some e, m') \<Rightarrow> (Some (''failed to add target '' @ itoa_int (fst d) @ '': '' @ e), m')
           | (None, m') \<Rightarrow> syncAdd ds m'))"

definition SyncTargets ::
  "((int \<times> nat) list \<Rightarrow> (int \<times> nat) list) \<Rightarrow> ((int \<times> hc_config) list \<Rightarrow> (int \<times> hc_config) list) \<Rightarrow>
   hc_config list \<Rightarrow> hc_monitor \<Rightarrow> string option \<times> hc_monitor" where
  "SyncTargets rngT rngD cs m =
     (let desired = desiredIDs cs;
          toRemove = filter (\<lambda>tid. \<not> mhas desired tid) (mkeys (rngT (mo_targets m)))
      in case syncAdd (rngD desired) (syncRemove toRemove m) of
           (Some e, m') \<Rightarrow> (Some e, m')
         | (None, m') \<Rightarrow> (None, if toRemove \<noteq> [] \<or> desired \<noteq> [] then notify m' else m'))"

section \<open>A check\<close>

text \<open>\<open>textproto.CanonicalMIMEHeaderKey\<close>, applied by \<open>Header.Set\<close>.\<close>

definition is_token_char :: "char \<Rightarrow> bool" where
  "is_token_char c \<longleftrightarrow> is_digit c \<or> c \<in> set ''!#$%&*+-.^_`|~'' \<or> of_char c = (39 :: nat) \<or>
     (let n = (of_char (lower_char c) :: nat) in 97 \<le> n \<and> n \<le> 122)"

fun canonical_loop :: "bool \<Rightarrow> string \<Rightarrow> string" where
  "canonical_loop upper [] = []"
| "canonical_loop upper (c # cs) = (if upper then upper_char c else lower_char c) # canonical_loop (c = CHR ''-'') cs"

definition canonical_header :: "string \<Rightarrow> string" where
  "canonical_header k = (if list_all is_token_char k then canonical_loop True k else k)"

record hc_request =
  rq_Method :: string
  rq_URL :: string
  rq_Host :: "string option"
  rq_Header :: "(string, string) gomap"
  rq_Timeout :: int
  rq_client :: hc_client

text \<open>
  What the network answers: the error of a dial, the error of building a request, the error or the status code of a
  request.
\<close>

record hc_net =
  net_Dial :: "string \<Rightarrow> int \<Rightarrow> string option"
  net_NewRequest :: "string \<Rightarrow> string \<Rightarrow> string option"
  net_Do :: "hc_request \<Rightarrow> string + int"

definition performTCPCheck :: "hc_net \<Rightarrow> hc_target \<Rightarrow> bool \<times> string" where
  "performTCPCheck net t =
     (let address = join_host_port (hc_Hostname (tg_Config t)) (itoa_int (hc_Port (tg_Config t)))
      in case net_Dial net address (seconds (hc_Timeout (tg_Config t))) of
           Some err \<Rightarrow> (False, ''TCP dial failed: '' @ err)
         | None \<Rightarrow> (True, []))"

definition checkURL :: "hc_config \<Rightarrow> string" where
  "checkURL c =
     (let host = (if hc_Port c > 0 then join_host_port (hc_Hostname c) (itoa_int (hc_Port c)) else hc_Hostname c);
          url = hc_Scheme c @ ''://'' @ host
      in if hc_Path c = [] then url
         else if has_prefix (hc_Path c) ''/'' then url @ hc_Path c else url @ ''/'' @ hc_Path c)"

text \<open>\<open>rq_Host\<close> is \<open>Some\<close> once the loop over the headers has replaced the host of the URL.\<close>

definition addHeader :: "hc_request \<Rightarrow> string \<times> string \<Rightarrow> hc_request" where
  "addHeader req kv =
     (if equal_fold (fst kv) ''Host'' then req\<lparr>rq_Host := Some (snd kv)\<rparr>
      else req\<lparr>rq_Header := mput (canonical_header (fst kv)) (snd kv) (rq_Header req)\<rparr>)"

definition performHTTPCheck :: "hc_net \<Rightarrow> hc_target \<Rightarrow> bool \<times> string" where
  "performHTTPCheck net t =
     (let c = tg_Config t; url = checkURL c in
      case net_NewRequest net (hc_Method c) url of
        Some err \<Rightarrow> (False, ''failed to create request: '' @ err)
      | None \<Rightarrow>
          (let req = foldl addHeader
             \<lparr>rq_Method = hc_Method c, rq_URL = url, rq_Host = None, rq_Header = [],
              rq_Timeout = seconds (hc_Timeout c), rq_client = tg_client t\<rparr> (hc_Headers c)
           in case net_Do net req of
                Inl err \<Rightarrow> (False, ''request failed: '' @ err)
              | Inr code \<Rightarrow>
                  if hc_Status c > 0 then
                    (if code = hc_Status c then (True, [])
                     else (False, ''unexpected status code: '' @ itoa_int code @ '' (expected: '' @ itoa_int (hc_Status c) @ '')''))
                  else if 200 \<le> code \<and> code < 300 then (True, [])
                  else (False, ''unhealthy status code: '' @ itoa_int code)))"

definition probe :: "hc_net \<Rightarrow> hc_target \<Rightarrow> bool \<times> string" where
  "probe net t = (if to_lower (hc_Mode (tg_Config t)) = ''tcp'' then performTCPCheck net t else performHTTPCheck net t)"

definition beginCheck :: "instant \<Rightarrow> hc_target \<Rightarrow> hc_target" where
  "beginCheck now t = t\<lparr>tg_CheckCount := tg_CheckCount t + 1, tg_LastCheck := now\<rparr>"

definition applyCheck :: "bool \<times> string \<Rightarrow> hc_target \<Rightarrow> hc_target" where
  "applyCheck r t =
     (if fst r then
        (let t = t\<lparr>tg_consecutiveFailures := 0, tg_consecutiveSuccesses := tg_consecutiveSuccesses t + 1\<rparr>
         in if hc_HealthyThreshold (tg_Config t) \<le> tg_consecutiveSuccesses t
            then t\<lparr>tg_Status := StatusHealthy, tg_LastError := []\<rparr> else t)
      else
        (let t = t\<lparr>tg_consecutiveSuccesses := 0, tg_consecutiveFailures := tg_consecutiveFailures t + 1,
                   tg_LastError := snd r\<rparr>
         in if hc_UnhealthyThreshold (tg_Config t) \<le> tg_consecutiveFailures t
            then t\<lparr>tg_Status := StatusUnhealthy\<rparr> else t))"

definition performHealthCheck :: "hc_net \<Rightarrow> instant \<Rightarrow> hc_target \<Rightarrow> hc_target" where
  "performHealthCheck net now t = (let t = beginCheck now t in applyCheck (probe net t) t)"

section \<open>Goroutines\<close>

definition checkInterval :: "hc_target \<Rightarrow> int" where
  "checkInterval t = seconds (if tg_Status t = StatusUnhealthy then hc_UnhealthyInterval (tg_Config t) else hc_Interval (tg_Config t))"

datatype hc_label = Go instant hc_net | Cancelled

text \<open>
  One step of goroutine \<open>g\<close>; \<open>None\<close> when it cannot move that way.  A check begins and ends in two steps, so that calls
  of the API can run while it waits for the network.
\<close>

definition setRoutine :: "nat \<Rightarrow> nat \<Rightarrow> hc_pc \<Rightarrow> hc_target \<Rightarrow> hc_monitor \<Rightarrow> hc_monitor" where
  "setRoutine g p pc t m = m\<lparr>mo_heap := (mo_heap m)(p \<mapsto> t), mo_routines := (mo_routines m)[g := (p, pc)]\<rparr>"

definition monitorTarget :: "nat \<Rightarrow> hc_label \<Rightarrow> hc_monitor \<Rightarrow> hc_monitor option" where
  "monitorTarget g l m =
     (if g < length (mo_routines m) then
        (let (p, pc) = mo_routines m ! g; t = the (mo_heap m p) in
         case l of
           Cancelled \<Rightarrow>
             (case pc of
                Selecting c i \<Rightarrow> if c \<in> set (mo_cancelled m) then Some (setRoutine g p Returned t m) else None
              | _ \<Rightarrow> None)
         | Go now net \<Rightarrow>
             (case pc of
                Started \<Rightarrow> Some (setRoutine g p (FirstCheck (tg_Status t)) (beginCheck now t) m)
              | FirstCheck old \<Rightarrow>
                  (let t' = applyCheck (probe net t) t; i = checkInterval t';
                       m = m\<lparr>mo_heap := (mo_heap m)(p \<mapsto> t')\<rparr>;
                       m = (if old \<noteq> tg_Status t' \<or> old = StatusUnknown then notify m else m)
                   in Some (setRoutine g p (LoopHead i) (t'\<lparr>tg_timer := Some i\<rparr>) m))
              | LoopHead i \<Rightarrow> Some (setRoutine g p (Selecting (tg_ctx t) i) t m)
              | Selecting c i \<Rightarrow> Some (setRoutine g p (LaterCheck (tg_Status t) i) (beginCheck now t) m)
              | LaterCheck old i \<Rightarrow>
                  (let t' = applyCheck (probe net t) t;
                       i' = (if checkInterval t' \<noteq> i then checkInterval t' else i);
                       m = setRoutine g p (LoopHead i') (t'\<lparr>tg_timer := Some i'\<rparr>) m
                   in Some (if old \<noteq> tg_Status t' then notify m else m))
              | Returned \<Rightarrow> None))
      else None)"

inductive hc_step :: "hc_monitor \<Rightarrow> hc_monitor \<Rightarrow> bool" where
  step_add: "hc_step m (snd (AddTarget c m))"
| step_adds: "hc_step m (snd (AddTargets cs m))"
| step_remove: "hc_step m (snd (RemoveTarget tid m))"
| step_removes: "hc_step m (snd (RemoveTargets ids m))"
| step_enable: "hc_step m (snd (EnableTarget tid m))"
| step_disable: "hc_step m (snd (DisableTarget tid m))"
| step_sync: "\<lbrakk>\<And>xs. mset (rngT xs) = mset xs; \<And>xs. mset (rngD xs) = mset xs\<rbrakk>
    \<Longrightarrow> hc_step m (snd (SyncTargets rngT rngD cs m))"
| step_stop: "hc_step m (StopMonitor m)"
| step_go: "monitorTarget g l m = Some m' \<Longrightarrow> hc_step m m'"

inductive hc_reach :: "hc_monitor \<Rightarrow> bool" where
  reach_new: "hc_reach (NewMonitor callback enforceCert)"
| reach_step: "hc_reach m \<Longrightarrow> hc_step m m' \<Longrightarrow> hc_reach m'"

section \<open>The invariant of the monitor\<close>

text \<open>
  \<open>watched\<close>: a goroutine of the target is running and, if it is blocked, listens to the current context of the target.
  \<open>hc_ok\<close> relates the map of targets \<open>T\<close>, the store \<open>H\<close>, the allocation counters, the cancelled contexts \<open>C\<close> and the
  goroutines \<open>R\<close>.
\<close>

definition watched :: "(nat \<times> hc_pc) list \<Rightarrow> nat \<Rightarrow> nat \<Rightarrow> bool" where
  "watched R p c \<longleftrightarrow> (\<exists>pc. (p, pc) \<in> set R \<and> pc \<noteq> Returned \<and> (\<forall>d i. pc = Selecting d i \<longrightarrow> d = c))"

definition hc_ok ::
  "(int \<Rightarrow> nat option) \<Rightarrow> (nat \<Rightarrow> hc_target option) \<Rightarrow> nat \<Rightarrow> nat \<Rightarrow> nat set \<Rightarrow> (nat \<times> hc_pc) list \<Rightarrow> bool" where
  "hc_ok T H np nc C R \<longleftrightarrow>
     (\<forall>tid p. T tid = Some p \<longrightarrow> (\<exists>t. H p = Some t \<and> hc_ID (tg_Config t) = tid)) \<and>
     (\<forall>p t. H p = Some t \<longrightarrow> p < np \<and> tg_ctx t < nc) \<and>
     (\<forall>p q t u. H p = Some t \<longrightarrow> H q = Some u \<longrightarrow> tg_ctx t = tg_ctx u \<longrightarrow> p = q) \<and>
     (\<forall>c\<in>C. c < nc) \<and>
     (\<forall>p t. H p = Some t \<longrightarrow> (\<forall>tid. T tid \<noteq> Some p) \<longrightarrow> tg_ctx t \<in> C) \<and>
     (\<forall>tid p t. T tid = Some p \<longrightarrow> H p = Some t \<longrightarrow> hc_Enabled (tg_Config t) \<longrightarrow> tg_ctx t \<notin> C \<and> watched R p (tg_ctx t)) \<and>
     (\<forall>p pc. (p, pc) \<in> set R \<longrightarrow> (\<exists>t. H p = Some t \<and> (\<forall>c i. pc = Selecting c i \<longrightarrow> c = tg_ctx t \<or> c \<in> C)))"

definition hc_inv :: "hc_monitor \<Rightarrow> bool" where
  "hc_inv m \<longleftrightarrow> distinct (mkeys (mo_targets m)) \<and>
     hc_ok (map_of (mo_targets m)) (mo_heap m) (mo_nextPtr m) (mo_nextCtx m) (set (mo_cancelled m)) (mo_routines m)"

lemma okD:
  assumes "hc_ok T H np nc C R"
  shows "T tid = Some p \<Longrightarrow> \<exists>t. H p = Some t \<and> hc_ID (tg_Config t) = tid"
    and "H p = Some t \<Longrightarrow> p < np \<and> tg_ctx t < nc"
    and "H p = Some t \<Longrightarrow> H q = Some u \<Longrightarrow> tg_ctx t = tg_ctx u \<Longrightarrow> p = q"
    and "c \<in> C \<Longrightarrow> c < nc"
    and "H p = Some t \<Longrightarrow> (\<And>tid. T tid \<noteq> Some p) \<Longrightarrow> tg_ctx t \<in> C"
    and "T tid = Some p \<Longrightarrow> H p = Some t \<Longrightarrow> hc_Enabled (tg_Config t) \<Longrightarrow> tg_ctx t \<notin> C \<and> watched R p (tg_ctx t)"
    and "(p, pc) \<in> set R \<Longrightarrow> \<exists>t. H p = Some t \<and> (\<forall>c i. pc = Selecting c i \<longrightarrow> c = tg_ctx t \<or> c \<in> C)"
proof -
  note c1 = assms [unfolded hc_ok_def]
  note c2 = c1 [THEN conjunct2] note c3 = c2 [THEN conjunct2] note c4 = c3 [THEN conjunct2]
  note c5 = c4 [THEN conjunct2] note c6 = c5 [THEN conjunct2] note c7 = c6 [THEN conjunct2]
  show "T tid = Some p \<Longrightarrow> \<exists>t. H p = Some t \<and> hc_ID (tg_Config t) = tid"
    by (rule c1 [THEN conjunct1, rule_format])
  show "H p = Some t \<Longrightarrow> p < np \<and> tg_ctx t < nc" by (rule c2 [THEN conjunct1, rule_format])
  show "H p = Some t \<Longrightarrow> H q = Some u \<Longrightarrow> tg_ctx t = tg_ctx u \<Longrightarrow> p = q"
    by (rule c3 [THEN conjunct1, rule_format])
  show "c \<in> C \<Longrightarrow> c < nc" by (rule c4 [THEN conjunct1, rule_format])
  show "H p = Some t \<Longrightarrow> (\<And>tid. T tid \<noteq> Some p) \<Longrightarrow> tg_ctx t \<in> C"
    by (rule c5 [THEN conjunct1, rule_format])
  show "T tid = Some p \<Longrightarrow> H p = Some t \<Longrightarrow> hc_Enabled (tg_Config t) \<Longrightarrow> tg_ctx t \<notin> C \<and> watched R p (tg_ctx t)"
    by (rule c6 [THEN conjunct1, rule_format])
  show "(p, pc) \<in> set R \<Longrightarrow> \<exists>t. H p = Some t \<and> (\<forall>c i. pc = Selecting c i \<longrightarrow> c = tg_ctx t \<or> c \<in> C)"
    by (rule c7 [rule_format])
qed

lemma okI:
  assumes "\<And>tid p. T tid = Some p \<Longrightarrow> \<exists>t. H p = Some t \<and> hc_ID (tg_Config t) = tid"
    and "\<And>p t. H p = Some t \<Longrightarrow> p < np \<and> tg_ctx t < nc"
    and "\<And>p q t u. H p = Some t \<Longrightarrow> H q = Some u \<Longrightarrow> tg_ctx t = tg_ctx u \<Longrightarrow> p = q"
    and "\<And>c. c \<in> C \<Longrightarrow> c < nc"
    and "\<And>p t. H p = Some t \<Longrightarrow> (\<And>tid. T tid \<noteq> Some p) \<Longrightarrow> tg_ctx t \<in> C"
    and "\<And>tid p t. T tid = Some p \<Longrightarrow> H p = Some t \<Longrightarrow> hc_Enabled (tg_Config t) \<Longrightarrow> tg_ctx t \<notin> C \<and> watched R p (tg_ctx t)"
    and "\<And>p pc. (p, pc) \<in> set R \<Longrightarrow> \<exists>t. H p = Some t \<and> (\<forall>c i. pc = Selecting c i \<longrightarrow> c = tg_ctx t \<or> c \<in> C)"
  shows "hc_ok T H np nc C R"
  unfolding hc_ok_def by (intro conjI; intro allI impI ballI; rule assms; blast)

lemma ok_inj: "hc_ok T H np nc C R \<Longrightarrow> T i = Some p \<Longrightarrow> T j = Some p \<Longrightarrow> i = j"
  using okD(1) [of T H np nc C R i p] okD(1) [of T H np nc C R j p] by auto

lemma watched_append: "watched R p c \<Longrightarrow> watched (R @ S) p c"
  by (auto simp: watched_def)

lemma ok_drop:
  assumes ok: "hc_ok T H np nc C R" and p: "T tid = Some p" "H p = Some t"
  shows "hc_ok (T(tid := None)) H np nc (insert (tg_ctx t) C) R"
proof (rule okI)
  fix q u assume u: "H q = Some u" "\<And>i. (T(tid := None)) i \<noteq> Some q"
  show "tg_ctx u \<in> insert (tg_ctx t) C"
  proof (cases "q = p")
    case False
    have "T i \<noteq> Some q" for i using u(2) [of i] p False by (cases "i = tid") auto
    then show ?thesis using okD(5) [OF ok u(1)] by blast
  qed (use u p in auto)
next
  fix i q u assume a: "(T(tid := None)) i = Some q" "H q = Some u" "hc_Enabled (tg_Config u)"
  then have "T i = Some q" "i \<noteq> tid" by (auto split: if_splits)
  then have "q \<noteq> p" using ok_inj [OF ok] p by blast
  then show "tg_ctx u \<notin> insert (tg_ctx t) C \<and> watched R q (tg_ctx u)"
    using okD(6) [OF ok \<open>T i = Some q\<close> a(2,3)] okD(3) [OF ok a(2) p(2)] by blast
next
  fix q pc assume "(q, pc) \<in> set R"
  then show "\<exists>u. H q = Some u \<and> (\<forall>c i. pc = Selecting c i \<longrightarrow> c = tg_ctx u \<or> c \<in> insert (tg_ctx t) C)"
    using okD(7) [OF ok, of q pc] by auto
qed (use okD(1,2,3,4) [OF ok] p in \<open>auto split: if_splits\<close>)

lemma ok_fresh:
  assumes ok: "hc_ok T H np nc C R" and T: "T (hc_ID (tg_Config t)) = None" and t: "tg_ctx t = nc"
  shows "hc_ok (T(hc_ID (tg_Config t) \<mapsto> np)) (H(np \<mapsto> t)) (Suc np) (Suc nc) C
           (R @ (if hc_Enabled (tg_Config t) then [(np, Started)] else []))"
proof (rule okI)
  have np: "H np = None" using okD(2) [OF ok, of np] by fastforce
  have lt: "u = t \<and> q = np \<or> q \<noteq> np \<and> H q = Some u \<and> tg_ctx u < nc" if "(H(np \<mapsto> t)) q = Some u" for q u
    using that okD(2) [OF ok, of q u] by (cases "q = np") simp_all
  {
    fix i p assume "(T(hc_ID (tg_Config t) \<mapsto> np)) i = Some p"
    then show "\<exists>u. (H(np \<mapsto> t)) p = Some u \<and> hc_ID (tg_Config u) = i"
      using okD(1) [OF ok, of i p] np by (auto split: if_splits)
  next
    fix p u assume "(H(np \<mapsto> t)) p = Some u"
    then show "p < Suc np \<and> tg_ctx u < Suc nc" using okD(2) [OF ok, of p u] t by (auto split: if_splits)
  next
    fix p q u v assume "(H(np \<mapsto> t)) p = Some u" "(H(np \<mapsto> t)) q = Some v" "tg_ctx u = tg_ctx v"
    then show "p = q" using lt [of p u] lt [of q v] okD(3) [OF ok, of p u q v] t by (metis less_irrefl)
  next
    fix c assume "c \<in> C" then show "c < Suc nc" using okD(4) [OF ok] by fastforce
  next
    fix p u assume a: "(H(np \<mapsto> t)) p = Some u" "\<And>i. (T(hc_ID (tg_Config t) \<mapsto> np)) i \<noteq> Some p"
    have "p \<noteq> np" using a(2) [of "hc_ID (tg_Config t)"] by auto
    moreover have "T i \<noteq> Some p" for i using a(2) [of i] T by (cases "i = hc_ID (tg_Config t)") auto
    ultimately show "tg_ctx u \<in> C" using okD(5) [OF ok, of p u] a(1) by auto
  next
    fix i p u assume a: "(T(hc_ID (tg_Config t) \<mapsto> np)) i = Some p" "(H(np \<mapsto> t)) p = Some u" "hc_Enabled (tg_Config u)"
    show "tg_ctx u \<notin> C \<and> watched (R @ (if hc_Enabled (tg_Config t) then [(np, Started)] else [])) p (tg_ctx u)"
    proof (cases "p = np")
      case True then show ?thesis using a t okD(4) [OF ok, of nc] by (auto simp: watched_def)
    next
      case False
      then have "T i = Some p" "H p = Some u" using a by (auto split: if_splits)
      then show ?thesis using okD(6) [OF ok _ _ a(3)] watched_append by blast
    qed
  next
    fix p pc assume "(p, pc) \<in> set (R @ (if hc_Enabled (tg_Config t) then [(np, Started)] else []))"
    then show "\<exists>u. (H(np \<mapsto> t)) p = Some u \<and> (\<forall>c i. pc = Selecting c i \<longrightarrow> c = tg_ctx u \<or> c \<in> C)"
      using okD(7) [OF ok, of p pc] np by (auto split: if_splits)
  }
qed

text \<open>A goroutine moves and updates its own target.\<close>

lemma watched_move:
  assumes "watched R q c" "g < length R" "R ! g = (p, pc)" "pc' \<noteq> Returned \<or> (p = q \<longrightarrow> (\<exists>d i. pc = Selecting d i \<and> d \<noteq> c))"
    "p = q \<longrightarrow> (\<forall>d i. pc' = Selecting d i \<longrightarrow> d = c)"
  shows "watched (R[g := (p, pc')]) q c"
proof -
  obtain pc0 h where h: "h < length R" "R ! h = (q, pc0)" "pc0 \<noteq> Returned" "\<forall>d i. pc0 = Selecting d i \<longrightarrow> d = c"
    using assms(1) by (auto simp: watched_def in_set_conv_nth)
  show ?thesis
  proof (cases "h = g")
    case True
    then have "p = q" "pc' \<noteq> Returned" using h assms(3,4) by auto
    then show ?thesis using assms(2,5) by (auto simp: watched_def intro: set_update_memI)
  next
    case False
    then have "R[g := (p, pc')] ! h = (q, pc0)" using h by simp
    then have "(q, pc0) \<in> set (R[g := (p, pc')])" using h(1) by (metis length_list_update nth_mem)
    then show ?thesis using h(3,4) by (auto simp: watched_def)
  qed
qed

lemma ok_move:
  assumes ok: "hc_ok T H np nc C R" and g: "g < length R" "R ! g = (p, pc)" and p: "H p = Some t"
    and t': "tg_ctx t' = tg_ctx t" "tg_Config t' = tg_Config t"
    and sel: "\<forall>d i. pc' = Selecting d i \<longrightarrow> d = tg_ctx t"
    and ret: "pc' \<noteq> Returned \<or> (\<exists>d i. pc = Selecting d i \<and> d \<in> C)"
  shows "hc_ok T (H(p \<mapsto> t')) np nc C (R[g := (p, pc')])"
proof (rule okI)
  have upd: "\<exists>v. H q = Some v \<and> tg_ctx v = tg_ctx u \<and> tg_Config v = tg_Config u" if "(H(p \<mapsto> t')) q = Some u" for q u
    using that p t' by (auto split: if_splits)
  {
    fix i q assume "T i = Some q"
    then show "\<exists>u. (H(p \<mapsto> t')) q = Some u \<and> hc_ID (tg_Config u) = i" using okD(1) [OF ok] p t' by fastforce
  next
    fix q u assume "(H(p \<mapsto> t')) q = Some u"
    then show "q < np \<and> tg_ctx u < nc" using upd okD(2) [OF ok] by metis
  next
    fix q r u v assume "(H(p \<mapsto> t')) q = Some u" "(H(p \<mapsto> t')) r = Some v" "tg_ctx u = tg_ctx v"
    then show "q = r" using upd okD(3) [OF ok] by metis
  next
    fix c assume "c \<in> C" then show "c < nc" by (rule okD(4) [OF ok])
  next
    fix q u assume "(H(p \<mapsto> t')) q = Some u" "\<And>i. T i \<noteq> Some q"
    then show "tg_ctx u \<in> C" using upd okD(5) [OF ok] by metis
  next
    fix i q u assume a: "T i = Some q" "(H(p \<mapsto> t')) q = Some u" "hc_Enabled (tg_Config u)"
    then obtain v where v: "H q = Some v" "tg_ctx v = tg_ctx u" "tg_Config v = tg_Config u" using upd by blast
    have w: "tg_ctx u \<notin> C" "watched R q (tg_ctx u)" using okD(6) [OF ok a(1) v(1)] a(3) v by auto
    have "watched (R[g := (p, pc')]) q (tg_ctx u)"
      by (rule watched_move [OF w(2) g]) (use ret w(1) sel p v in auto)
    then show "tg_ctx u \<notin> C \<and> watched (R[g := (p, pc')]) q (tg_ctx u)" using w(1) by blast
  next
    fix q qc assume "(q, qc) \<in> set (R[g := (p, pc')])"
    then consider "(q, qc) = (p, pc')" | "(q, qc) \<in> set R" using set_update_subset_insert by fast
    then show "\<exists>u. (H(p \<mapsto> t')) q = Some u \<and> (\<forall>c i. qc = Selecting c i \<longrightarrow> c = tg_ctx u \<or> c \<in> C)"
    proof cases
      case 1 then show ?thesis using sel t' by auto
    next
      case 2 then show ?thesis using okD(7) [OF ok] p t' by fastforce
    qed
  }
qed

lemma ok_enable:
  assumes ok: "hc_ok T H np nc C R" and p: "T tid = Some p" "H p = Some t"
    and t': "tg_ctx t' = nc" "hc_ID (tg_Config t') = hc_ID (tg_Config t)"
  shows "hc_ok T (H(p \<mapsto> t')) np (Suc nc) (insert (tg_ctx t) C) (R @ [(p, Started)])"
proof (rule okI)
  have lt: "u = t' \<and> q = p \<or> q \<noteq> p \<and> H q = Some u \<and> tg_ctx u < nc" if "(H(p \<mapsto> t')) q = Some u" for q u
    using that okD(2) [OF ok, of q u] by (cases "q = p") simp_all
  have tc: "tg_ctx t < nc" "p < np" using okD(2) [OF ok p(2)] by auto
  {
    fix i q assume "T i = Some q"
    then show "\<exists>u. (H(p \<mapsto> t')) q = Some u \<and> hc_ID (tg_Config u) = i" using okD(1) [OF ok, of i q] p t' by auto
  next
    fix q u assume "(H(p \<mapsto> t')) q = Some u"
    then show "q < np \<and> tg_ctx u < Suc nc" using lt [of q u] okD(2) [OF ok, of q u] tc t' by auto
  next
    fix q r u v assume "(H(p \<mapsto> t')) q = Some u" "(H(p \<mapsto> t')) r = Some v" "tg_ctx u = tg_ctx v"
    then show "q = r" using lt [of q u] lt [of r v] okD(3) [OF ok, of q u r v] t' by (metis less_irrefl)
  next
    fix c assume "c \<in> insert (tg_ctx t) C" then show "c < Suc nc" using okD(4) [OF ok, of c] tc by auto
  next
    fix q u assume a: "(H(p \<mapsto> t')) q = Some u" "\<And>i. T i \<noteq> Some q"
    then show "tg_ctx u \<in> insert (tg_ctx t) C" using lt [OF a(1)] okD(5) [OF ok _ a(2)] p(1) by blast
  next
    fix i q u assume a: "T i = Some q" "(H(p \<mapsto> t')) q = Some u" "hc_Enabled (tg_Config u)"
    show "tg_ctx u \<notin> insert (tg_ctx t) C \<and> watched (R @ [(p, Started)]) q (tg_ctx u)"
    proof (cases "q = p")
      case True then show ?thesis using a t' tc okD(4) [OF ok, of nc] by (auto simp: watched_def)
    next
      case False
      then have u: "H q = Some u" using a by simp
      then show ?thesis using okD(6) [OF ok a(1) u a(3)] okD(3) [OF ok u p(2)] False watched_append by blast
    qed
  next
    fix q pc assume "(q, pc) \<in> set (R @ [(p, Started)])"
    then show "\<exists>u. (H(p \<mapsto> t')) q = Some u \<and> (\<forall>c i. pc = Selecting c i \<longrightarrow> c = tg_ctx u \<or> c \<in> insert (tg_ctx t) C)"
      using okD(7) [OF ok, of q pc] p by auto
  }
qed

lemma ok_disable:
  assumes ok: "hc_ok T H np nc C R" and p: "T tid = Some p" "H p = Some t"
    and t': "tg_ctx t' = tg_ctx t" "hc_ID (tg_Config t') = hc_ID (tg_Config t)" "\<not> hc_Enabled (tg_Config t')"
  shows "hc_ok T (H(p \<mapsto> t')) np nc (insert (tg_ctx t) C) R"
proof (rule okI)
  have old: "\<exists>v. H q = Some v \<and> tg_ctx v = tg_ctx u" if "(H(p \<mapsto> t')) q = Some u" for q u
    using that p t' by (auto split: if_splits)
  {
    fix i q assume "T i = Some q"
    then show "\<exists>u. (H(p \<mapsto> t')) q = Some u \<and> hc_ID (tg_Config u) = i" using okD(1) [OF ok, of i q] p t' by auto
  next
    fix q u assume "(H(p \<mapsto> t')) q = Some u"
    then show "q < np \<and> tg_ctx u < nc" using old okD(2) [OF ok] by metis
  next
    fix q r u v assume "(H(p \<mapsto> t')) q = Some u" "(H(p \<mapsto> t')) r = Some v" "tg_ctx u = tg_ctx v"
    then show "q = r" using old okD(3) [OF ok] by metis
  next
    fix c assume "c \<in> insert (tg_ctx t) C" then show "c < nc" using okD(4) [OF ok, of c] okD(2) [OF ok p(2)] by auto
  next
    fix q u assume "(H(p \<mapsto> t')) q = Some u" "\<And>i. T i \<noteq> Some q"
    then show "tg_ctx u \<in> insert (tg_ctx t) C" using old okD(5) [OF ok] by (metis insert_iff)
  next
    fix i q u assume a: "T i = Some q" "(H(p \<mapsto> t')) q = Some u" "hc_Enabled (tg_Config u)"
    then have q: "q \<noteq> p" "H q = Some u" using t' by (auto split: if_splits)
    then show "tg_ctx u \<notin> insert (tg_ctx t) C \<and> watched R q (tg_ctx u)"
      using okD(6) [OF ok a(1) q(2) a(3)] okD(3) [OF ok q(2) p(2)] by blast
  next
    fix q pc assume "(q, pc) \<in> set R"
    then show "\<exists>u. (H(p \<mapsto> t')) q = Some u \<and> (\<forall>c i. pc = Selecting c i \<longrightarrow> c = tg_ctx u \<or> c \<in> insert (tg_ctx t) C)"
      using okD(7) [OF ok, of q pc] p t' by auto
  }
qed

lemma ok_stop:
  assumes ok: "hc_ok T H np nc C R" and C': "C' = C \<union> {tg_ctx t |t p tid. T tid = Some p \<and> H p = Some t}"
  shows "hc_ok Map.empty H np nc C' R"
proof (rule okI)
  fix c assume "c \<in> C'" then show "c < nc" using okD(2,4) [OF ok] by (auto simp: C')
next
  fix q u assume "H q = Some u" then show "tg_ctx u \<in> C'" using okD(5) [OF ok, of q u] by (auto simp: C')
next
  fix q pc assume "(q, pc) \<in> set R"
  then show "\<exists>u. H q = Some u \<and> (\<forall>c i. pc = Selecting c i \<longrightarrow> c = tg_ctx u \<or> c \<in> C')"
    using okD(7) [OF ok, of q pc] by (auto simp: C')
qed (use okD(2,3) [OF ok] in auto)

section \<open>Every operation keeps the invariant\<close>

lemma inv_NewMonitor: "hc_inv (NewMonitor cb ec)"
  by (simp add: hc_inv_def NewMonitor_def hc_ok_def)

lemma inv_ok:
  "hc_inv m \<Longrightarrow> hc_ok (map_of (mo_targets m)) (mo_heap m) (mo_nextPtr m) (mo_nextCtx m) (set (mo_cancelled m)) (mo_routines m)"
  by (simp add: hc_inv_def)

lemma notify_fields [simp]:
  "mo_targets (notify m) = mo_targets m" "mo_heap (notify m) = mo_heap m" "mo_nextPtr (notify m) = mo_nextPtr m"
  "mo_nextCtx (notify m) = mo_nextCtx m" "mo_cancelled (notify m) = mo_cancelled m"
  "mo_routines (notify m) = mo_routines m" "mo_enforceCert (notify m) = mo_enforceCert m"
  by (simp_all add: notify_def)

lemma inv_notify [simp]: "hc_inv (notify m) = hc_inv m"
  by (simp add: hc_inv_def)

lemma inv_heap: "hc_inv m \<Longrightarrow> map_of (mo_targets m) tid = Some p \<Longrightarrow> \<exists>t. mo_heap m p = Some t \<and> hc_ID (tg_Config t) = tid"
  unfolding hc_inv_def using okD(1) by blast

lemma dropTarget_fields [simp]:
  "mo_targets (dropTarget tid p m) = mdel tid (mo_targets m)" "mo_heap (dropTarget tid p m) = mo_heap m"
  "mo_nextPtr (dropTarget tid p m) = mo_nextPtr m" "mo_nextCtx (dropTarget tid p m) = mo_nextCtx m"
  "mo_cancelled (dropTarget tid p m) = tg_ctx (the (mo_heap m p)) # mo_cancelled m"
  "mo_routines (dropTarget tid p m) = mo_routines m" "mo_enforceCert (dropTarget tid p m) = mo_enforceCert m"
  by (simp_all add: dropTarget_def cancelTarget_def)

lemma map_of_mdel_fun: "map_of (mdel k m) = (map_of m)(k := None)"
  by (rule ext) simp

lemma map_of_mput_fun: "map_of (mput k v m) = (map_of m)(k \<mapsto> v)"
  by (rule ext) simp

lemma inv_dropTarget [inv_intros]:
  assumes "hc_inv m" "map_of (mo_targets m) tid = Some p"
  shows "hc_inv (dropTarget tid p m)"
proof -
  obtain t where t: "mo_heap m p = Some t" using inv_heap [OF assms] by blast
  show ?thesis using ok_drop [of _ _ _ _ _ _ tid p t] assms t by (simp add: hc_inv_def map_of_mdel_fun)
qed

lemma newTarget_fields [simp]:
  "tg_Config (newTarget ec c x) = c" "tg_ctx (newTarget ec c x) = x" "tg_Status (newTarget ec c x) = StatusUnknown"
  by (simp_all add: newTarget_def)

lemma setDefaults_fields [simp]:
  "hc_ID (setDefaults c) = hc_ID c" "hc_Enabled (setDefaults c) = hc_Enabled c"
  by (simp_all add: setDefaults_def)

lemma addTargetUnsafe_fields [simp]:
  "fst (addTargetUnsafe c m) = None"
  "mo_targets (snd (addTargetUnsafe c m)) = mput (hc_ID c) (mo_nextPtr m) (mo_targets m)"
  "mo_heap (snd (addTargetUnsafe c m)) = (mo_heap m)(mo_nextPtr m \<mapsto> newTarget (mo_enforceCert m) (setDefaults c) (mo_nextCtx m))"
  "mo_nextPtr (snd (addTargetUnsafe c m)) = Suc (mo_nextPtr m)"
  "mo_nextCtx (snd (addTargetUnsafe c m)) = Suc (mo_nextCtx m)"
  "mo_cancelled (snd (addTargetUnsafe c m)) =
     (case map_of (mo_targets m) (hc_ID c) of Some p \<Rightarrow> tg_ctx (the (mo_heap m p)) # mo_cancelled m | None \<Rightarrow> mo_cancelled m)"
  "mo_routines (snd (addTargetUnsafe c m)) =
     mo_routines m @ (if hc_Enabled c then [(mo_nextPtr m, Started)] else [])"
  "mo_enforceCert (snd (addTargetUnsafe c m)) = mo_enforceCert m"
  by (simp_all add: addTargetUnsafe_def Let_def cancelTarget_def startMonitor_def split: option.split)

lemma inv_addTargetUnsafe [inv_intros]:
  assumes inv: "hc_inv m"
  shows "hc_inv (snd (addTargetUnsafe c m))"
proof (cases "map_of (mo_targets m) (hc_ID c)")
  case None
  then show ?thesis
    using inv ok_fresh [where t = "newTarget (mo_enforceCert m) (setDefaults c) (mo_nextCtx m)"
        and T = "map_of (mo_targets m)"] by (auto simp: hc_inv_def map_of_mput_fun)
next
  case (Some p)
  then obtain t where t: "mo_heap m p = Some t" using inv_heap [OF inv] by blast
  have "hc_ok ((map_of (mo_targets m))(hc_ID c := None)) (mo_heap m) (mo_nextPtr m) (mo_nextCtx m)
      (insert (tg_ctx t) (set (mo_cancelled m))) (mo_routines m)"
    using ok_drop [OF inv_ok [OF inv], of "hc_ID c" p t] Some t by simp
  from ok_fresh [OF this, of "newTarget (mo_enforceCert m) (setDefaults c) (mo_nextCtx m)"]
  show ?thesis using inv Some t by (simp add: hc_inv_def map_of_mput_fun)
qed

lemma addTargetUnsafe_case [simp]:
  "(case addTargetUnsafe c m of (None, m') \<Rightarrow> f m' | (Some e, m') \<Rightarrow> g e m') = f (snd (addTargetUnsafe c m))"
  by (metis (no_types, lifting) addTargetUnsafe_fields(1) case_prod_beta option.simps(4))

lemma inv_AddTargets [inv_intros]: "hc_inv m \<Longrightarrow> hc_inv (snd (AddTargets cs m))"
  by (induction cs arbitrary: m) (simp_all add: inv_addTargetUnsafe)

lemma inv_removeLoop: "hc_inv m \<Longrightarrow> hc_inv (snd (removeLoop ids nf m))"
  by (induction ids arbitrary: m nf) (auto intro: inv_dropTarget split: option.split)

lemma inv_syncRemove: "hc_inv m \<Longrightarrow> hc_inv (syncRemove ids m)"
  unfolding syncRemove_def by (rule foldl_inv) (auto intro: inv_dropTarget split: option.split)

lemma inv_syncAdd: "hc_inv m \<Longrightarrow> hc_inv (snd (syncAdd ds m))"
  by (induction ds arbitrary: m)
    (auto intro: inv_dropTarget inv_addTargetUnsafe split: option.split)

lemma syncAdd_ok: "fst (syncAdd ds m) = None"
  by (induction ds arbitrary: m) (auto split: option.split)

lemma SyncTargets_eq:
  "SyncTargets rngT rngD cs m =
     (let toRemove = filter (\<lambda>i. \<not> mhas (desiredIDs cs) i) (mkeys (rngT (mo_targets m)));
          m' = snd (syncAdd (rngD (desiredIDs cs)) (syncRemove toRemove m))
      in (None, if toRemove \<noteq> [] \<or> desiredIDs cs \<noteq> [] then notify m' else m'))"
  by (simp add: SyncTargets_def case_prod_beta syncAdd_ok Let_def)

lemma inv_EnableTarget [inv_intros]:
  assumes inv: "hc_inv m"
  shows "hc_inv (snd (EnableTarget tid m))"
proof (cases "map_of (mo_targets m) tid")
  case (Some p)
  then obtain t where t: "mo_heap m p = Some t" using inv_heap [OF inv] by blast
  show ?thesis
    using inv Some t ok_enable [OF inv_ok [OF inv], of tid p t, where t' = "t\<lparr>tg_Config := (tg_Config t)\<lparr>hc_Enabled := True\<rparr>, tg_ctx := mo_nextCtx m\<rparr>"]
    by (simp add: EnableTarget_def hc_inv_def cancelTarget_def startMonitor_def Let_def)
qed (simp add: EnableTarget_def inv)

lemma inv_DisableTarget [inv_intros]:
  assumes inv: "hc_inv m"
  shows "hc_inv (snd (DisableTarget tid m))"
proof (cases "map_of (mo_targets m) tid")
  case (Some p)
  then obtain t where t: "mo_heap m p = Some t" using inv_heap [OF inv] by blast
  show ?thesis
    using inv Some t ok_disable [OF inv_ok [OF inv], of tid p t, where t' = "t\<lparr>tg_Config := (tg_Config t)\<lparr>hc_Enabled := False\<rparr>, tg_Status := StatusUnknown\<rparr>"]
    by (simp add: DisableTarget_def hc_inv_def cancelTarget_def Let_def)
qed (simp add: DisableTarget_def inv)

lemma foldl_cancel:
  "foldl (\<lambda>m (tid, p). cancelTarget p m) m ps =
     m\<lparr>mo_cancelled := rev (map (\<lambda>(tid, p). tg_ctx (the (mo_heap m p))) ps) @ mo_cancelled m\<rparr>"
  by (induction ps arbitrary: m) (auto simp: cancelTarget_def)

lemma inv_StopMonitor [inv_intros]:
  assumes inv: "hc_inv m"
  shows "hc_inv (StopMonitor m)"
proof -
  have "(\<lambda>(tid, p). tg_ctx (the (mo_heap m p))) ` set (mo_targets m)
      = {tg_ctx t |t p tid. map_of (mo_targets m) tid = Some p \<and> mo_heap m p = Some t}" (is "?A = ?B")
  proof
    show "?A \<subseteq> ?B"
    proof clarify
      fix tid p assume "(tid, p) \<in> set (mo_targets m)"
      then have "map_of (mo_targets m) tid = Some p" using inv by (simp add: hc_inv_def map_of_is_SomeI)
      moreover from inv_heap [OF inv this] obtain t where "mo_heap m p = Some t" by blast
      ultimately show "\<exists>t q i. tg_ctx (the (mo_heap m p)) = tg_ctx t \<and> map_of (mo_targets m) i = Some q \<and> mo_heap m q = Some t"
        by force
    qed
    show "?B \<subseteq> ?A" by (force dest: map_of_SomeD)
  qed
  then show ?thesis
    using inv ok_stop [of "map_of (mo_targets m)" "mo_heap m" _ _ "set (mo_cancelled m)"]
    by (simp add: StopMonitor_def foldl_cancel hc_inv_def Un_commute)
qed

lemma check_fields [simp]:
  "tg_ctx (beginCheck now t) = tg_ctx t" "tg_Config (beginCheck now t) = tg_Config t"
  "tg_ctx (applyCheck r t) = tg_ctx t" "tg_Config (applyCheck r t) = tg_Config t"
  "tg_client (applyCheck r t) = tg_client t" "tg_client (beginCheck now t) = tg_client t"
  by (simp_all add: beginCheck_def applyCheck_def Let_def)

lemma inv_setRoutine:
  assumes inv: "hc_inv m" and "g < length (mo_routines m)" "mo_routines m ! g = (p, pc)" "mo_heap m p = Some t"
    "tg_ctx t' = tg_ctx t" "tg_Config t' = tg_Config t" "\<forall>d i. pc' = Selecting d i \<longrightarrow> d = tg_ctx t"
    "pc' \<noteq> Returned \<or> (\<exists>d i. pc = Selecting d i \<and> d \<in> set (mo_cancelled m))"
  shows "hc_inv (setRoutine g p pc' t' m)"
  using ok_move [OF inv_ok [OF inv] assms(2-8)] inv by (simp add: setRoutine_def hc_inv_def)

lemma setRoutine_notify:
  "hc_inv (setRoutine g p pc t (notify (m\<lparr>mo_heap := (mo_heap m)(p \<mapsto> u)\<rparr>))) = hc_inv (setRoutine g p pc t m)"
  "hc_inv (setRoutine g p pc t (m\<lparr>mo_heap := (mo_heap m)(p \<mapsto> u)\<rparr>)) = hc_inv (setRoutine g p pc t m)"
  by (simp_all add: hc_inv_def setRoutine_def)

lemma inv_monitorTarget:
  assumes inv: "hc_inv m" and step: "monitorTarget g l m = Some m'"
  shows "hc_inv m'"
proof -
  obtain p pc where g: "g < length (mo_routines m)" "mo_routines m ! g = (p, pc)"
    using step by (cases "mo_routines m ! g") (auto simp: monitorTarget_def split: if_splits)
  then have "(p, pc) \<in> set (mo_routines m)" by (metis nth_mem)
  then obtain t where t: "mo_heap m p = Some t" using okD(7) [OF inv_ok [OF inv]] by blast
  note move = inv_setRoutine [OF inv g t]
  show ?thesis
    using step g t
    by (auto simp: monitorTarget_def Let_def setRoutine_notify split: hc_label.splits hc_pc.splits if_splits intro!: move)
qed

lemma hc_step_inv: "hc_step m m' \<Longrightarrow> hc_inv m \<Longrightarrow> hc_inv m'"
proof (induction rule: hc_step.induct)
  case (step_add m c) then show ?case by (simp add: AddTarget_def inv_addTargetUnsafe)
next
  case (step_remove m tid) then show ?case by (auto simp: RemoveTarget_def inv_dropTarget split: option.split)
next
  case (step_removes m ids)
  then show ?case using inv_removeLoop [of m ids "[]"] by (auto simp: RemoveTargets_def Let_def split: prod.split)
next
  case (step_sync rngT rngD m cs)
  then have "hc_inv (snd (syncAdd ds (syncRemove ids m)))" for ds ids by (simp add: inv_syncAdd inv_syncRemove)
  then show ?case by (simp add: SyncTargets_eq Let_def)
next
  case (step_go g l m m') then show ?case by (simp add: inv_monitorTarget)
qed (simp_all add: inv_AddTargets inv_EnableTarget inv_DisableTarget inv_StopMonitor)

lemma reach_inv: "hc_reach m \<Longrightarrow> hc_inv m"
  by (induction rule: hc_reach.induct) (simp_all add: inv_NewMonitor hc_step_inv)

section \<open>Synchronisation\<close>

lemma syncAdd_spec:
  assumes "hc_inv m" "distinct (mkeys ds)" "\<forall>d\<in>set ds. hc_ID (snd d) = fst d"
  shows "mo_nextPtr m \<le> mo_nextPtr (snd (syncAdd ds m)) \<and> mo_enforceCert (snd (syncAdd ds m)) = mo_enforceCert m \<and>
    (\<forall>p < mo_nextPtr m. mo_heap (snd (syncAdd ds m)) p = mo_heap m p) \<and>
    (\<forall>tid. tid \<notin> fst ` set ds \<longrightarrow> map_of (mo_targets (snd (syncAdd ds m))) tid = map_of (mo_targets m) tid) \<and>
    (\<forall>tid c. (tid, c) \<in> set ds \<longrightarrow> (\<exists>p x. mo_nextPtr m \<le> p \<and> map_of (mo_targets (snd (syncAdd ds m))) tid = Some p \<and>
       p < mo_nextPtr (snd (syncAdd ds m)) \<and>
       mo_heap (snd (syncAdd ds m)) p = Some (newTarget (mo_enforceCert m) (setDefaults c) x)))"
  using assms
proof (induction ds arbitrary: m)
  case (Cons d ds)
  obtain k c where d: "d = (k, c)" by fastforce
  then have k: "hc_ID c = k" and ids: "\<forall>d\<in>set ds. hc_ID (snd d) = fst d" using Cons.prems(3) by simp_all
  define n where "n = (case map_of (mo_targets m) k of Some e \<Rightarrow> dropTarget k e m | None \<Rightarrow> m)"
  have n: "mo_nextPtr n = mo_nextPtr m" "mo_heap n = mo_heap m" "mo_enforceCert n = mo_enforceCert m"
    "\<And>i. i \<noteq> k \<Longrightarrow> map_of (mo_targets n) i = map_of (mo_targets m) i" "hc_inv n"
    using Cons.prems(1) by (auto simp: n_def inv_dropTarget split: option.split)
  have eq: "syncAdd (d # ds) m = syncAdd ds (snd (addTargetUnsafe c n))"
    by (auto simp: n_def d split: option.split)
  have ds: "distinct (mkeys ds)" "k \<notin> fst ` set ds" using Cons.prems(2) by (auto simp: d)
  note IH = Cons.IH [OF inv_addTargetUnsafe [OF n(5), of c] ds(1) ids]
  let ?m' = "snd (syncAdd ds (snd (addTargetUnsafe c n)))"
  have P1: "Suc (mo_nextPtr m) \<le> mo_nextPtr ?m'" "mo_enforceCert ?m' = mo_enforceCert m"
    using IH by (simp_all add: n)
  have P2: "mo_heap ?m' p = mo_heap m p" if "p < mo_nextPtr m" for p using IH that by (simp add: n)
  have P3: "map_of (mo_targets ?m') i = map_of (mo_targets m) i" if "i \<notin> fst ` set (d # ds)" for i
    using IH that k by (simp add: n d)
  have P4: "\<exists>p x. mo_nextPtr m \<le> p \<and> map_of (mo_targets ?m') i = Some p \<and> p < mo_nextPtr ?m' \<and>
      mo_heap ?m' p = Some (newTarget (mo_enforceCert m) (setDefaults e) x)" if ie: "(i, e) \<in> set (d # ds)" for i e
  proof (cases "(i, e) = d")
    case True
    then have "map_of (mo_targets ?m') i = Some (mo_nextPtr m)" "mo_heap ?m' (mo_nextPtr m)
        = Some (newTarget (mo_enforceCert m) (setDefaults e) (mo_nextCtx n))"
      using IH ds(2) k by (simp_all add: d n)
    then show ?thesis using P1 by (intro exI [of _ "mo_nextPtr m"] exI [of _ "mo_nextCtx n"]) auto
  next
    case False
    then have "(i, e) \<in> set ds" using ie by simp
    note IH [THEN conjunct2, THEN conjunct2, THEN conjunct2, THEN conjunct2, rule_format, OF this]
    then obtain p x where "Suc (mo_nextPtr m) \<le> p" "map_of (mo_targets ?m') i = Some p" "p < mo_nextPtr ?m'"
        "mo_heap ?m' p = Some (newTarget (mo_enforceCert m) (setDefaults e) x)"
      by (auto simp: n)
    then show ?thesis by (intro exI [of _ p] exI [of _ x]) auto
  qed
  show ?case unfolding eq using P1 P2 P3 P4 by simp
qed simp

lemma syncRemove_fields:
  "mo_heap (syncRemove ids m) = mo_heap m \<and> mo_nextPtr (syncRemove ids m) = mo_nextPtr m \<and>
   mo_enforceCert (syncRemove ids m) = mo_enforceCert m \<and>
   map_of (mo_targets (syncRemove ids m)) i = (if i \<in> set ids then None else map_of (mo_targets m) i)"
  unfolding syncRemove_def by (induction ids arbitrary: m) (auto split: option.splits)

lemma desiredIDs_lookup:
  "map_of (desiredIDs cs) i = (case filter (\<lambda>c. hc_ID c = i) cs of [] \<Rightarrow> None | ws \<Rightarrow> Some (last ws))"
  unfolding desiredIDs_def using gomap.find_put_loop [of hc_ID "[]" cs i] by (simp split: list.split)

lemma desiredIDs_keys: "distinct (mkeys (desiredIDs cs)) \<and> fst ` set (desiredIDs cs) = hc_ID ` set cs"
proof -
  have "distinct (mkeys d) \<Longrightarrow> distinct (mkeys (foldl (\<lambda>d c. mput (hc_ID c) c d) d cs)) \<and>
      fst ` set (foldl (\<lambda>d c. mput (hc_ID c) c d) d cs) = fst ` set d \<union> hc_ID ` set cs" for d
    by (induction cs arbitrary: d) (auto simp: dom_update dom_map_of_conv_image_fst [symmetric])
  from this [of "[]"] show ?thesis by (simp add: desiredIDs_def)
qed

lemma desiredIDs_entry: "(k, c) \<in> set (desiredIDs cs) \<longleftrightarrow> map_of (desiredIDs cs) k = Some c"
  using desiredIDs_keys map_of_eq_Some_iff by metis

lemma SyncTargets_state:
  assumes inv: "hc_inv m" and rngT: "\<And>xs. mset (rngT xs) = mset xs" and rngD: "\<And>xs. mset (rngD xs) = mset xs"
    and sync: "SyncTargets rngT rngD cs m = (err, m')"
  shows "err = None" "hc_inv m'"
    and "p < mo_nextPtr m \<Longrightarrow> mo_heap m' p = mo_heap m p"
    and "map_of (desiredIDs cs) i = None \<Longrightarrow> map_of (mo_targets m') i = None"
    and "map_of (desiredIDs cs) i = Some c \<Longrightarrow>
      \<exists>q x. mo_nextPtr m \<le> q \<and> map_of (mo_targets m') i = Some q \<and> mo_heap m' q = Some (newTarget (mo_enforceCert m) (setDefaults c) x)"
proof -
  let ?rm = "filter (\<lambda>i. \<not> mhas (desiredIDs cs) i) (mkeys (rngT (mo_targets m)))"
  let ?r = "syncRemove ?rm m" and ?ds = "rngD (desiredIDs cs)"
  define n where "n = snd (syncAdd ?ds ?r)"
  have m': "err = None" "m' = n \<or> m' = notify n" using sync by (auto simp: SyncTargets_eq Let_def n_def split: if_splits)
  have setD: "set ?ds = set (desiredIDs cs)" using rngD by (metis mset_eq_setD)
  have distD: "distinct (mkeys ?ds)" using desiredIDs_keys [of cs] rngD by (metis mset_eq_imp_distinct_iff mset_map)
  have "hc_ID c = k" if "(k, c) \<in> set (desiredIDs cs)" for k c
    using that filter_eq_last [of "\<lambda>c. hc_ID c = k" cs] unfolding desiredIDs_entry desiredIDs_lookup
    by (auto split: list.splits)
  then have idD: "\<forall>d\<in>set ?ds. hc_ID (snd d) = fst d" unfolding setD by (metis prod.collapse)
  have invn: "hc_inv ?r" "hc_inv n" using inv_syncRemove inv_syncAdd inv by (simp_all add: n_def)
  note spec = syncAdd_spec [OF invn(1) distD idD, folded n_def]
  have setT: "set (mkeys (rngT (mo_targets m))) = set (mkeys (mo_targets m))" using rngT by (metis mset_eq_setD set_map)
  have old: "mo_heap ?r = mo_heap m" "mo_nextPtr ?r = mo_nextPtr m" "mo_enforceCert ?r = mo_enforceCert m"
    "map_of (mo_targets ?r) i = (if mhas (desiredIDs cs) i then map_of (mo_targets m) i else None)" for i
    using syncRemove_fields [of ?rm m i] setT by (auto simp: map_of_eq_None_iff)
  show "err = None" "hc_inv m'" using m' invn(2) by auto
  show "p < mo_nextPtr m \<Longrightarrow> mo_heap m' p = mo_heap m p" using spec m'(2) old by auto
  have "map_of (desiredIDs cs) i = None \<longleftrightarrow> i \<notin> fst ` set ?ds" by (simp add: setD map_of_eq_None_iff)
  then show "map_of (desiredIDs cs) i = None \<Longrightarrow> map_of (mo_targets m') i = None"
    using spec [THEN conjunct2, THEN conjunct2, THEN conjunct2, THEN conjunct1, rule_format, of i] m'(2) old(4) [of i]
    by auto
  assume "map_of (desiredIDs cs) i = Some c"
  then have "(i, c) \<in> set ?ds" by (simp add: setD desiredIDs_entry)
  from spec [THEN conjunct2, THEN conjunct2, THEN conjunct2, THEN conjunct2, rule_format, OF this]
  show "\<exists>q x. mo_nextPtr m \<le> q \<and> map_of (mo_targets m') i = Some q \<and> mo_heap m' q = Some (newTarget (mo_enforceCert m) (setDefaults c) x)"
    unfolding old using m'(2) by auto
qed

section \<open>Hysteresis of the status\<close>

text \<open>
  The status the thresholds promise, from the outcomes of the checks, latest first: the latest check decides if it ends a
  long enough run of equal outcomes, otherwise the earlier checks do.
\<close>

fun thresholdStatus :: "int \<Rightarrow> int \<Rightarrow> bool list \<Rightarrow> Health" where
  "thresholdStatus hT uT [] = StatusUnknown"
| "thresholdStatus hT uT (r # rs) =
     (if (if r then hT else uT) \<le> int (length (takeWhile (\<lambda>b. b = r) (r # rs)))
      then (if r then StatusHealthy else StatusUnhealthy) else thresholdStatus hT uT rs)"

definition runChecks :: "(hc_net \<times> instant) list \<Rightarrow> hc_target \<Rightarrow> hc_target" where
  "runChecks ns t = foldl (\<lambda>t (net, now). performHealthCheck net now t) t ns"

lemma probe_cong:
  assumes c: "tg_Config t = tg_Config u" and l: "tg_client t = tg_client u"
  shows "probe net t = probe net u"
  unfolding probe_def performTCPCheck_def performHTTPCheck_def c l ..

lemma runChecks_state:
  fixes c :: hc_config and ec :: bool and x :: nat
  defines "out ns \<equiv> rev (map (\<lambda>(net, now). fst (probe net (newTarget ec c x))) ns)"
  shows "tg_Config (runChecks ns (newTarget ec c x)) = c \<and>
    tg_client (runChecks ns (newTarget ec c x)) = tg_client (newTarget ec c x) \<and>
    tg_CheckCount (runChecks ns (newTarget ec c x)) = int (length ns) \<and>
    tg_consecutiveSuccesses (runChecks ns (newTarget ec c x)) = int (length (takeWhile (\<lambda>b. b = True) (out ns))) \<and>
    tg_consecutiveFailures (runChecks ns (newTarget ec c x)) = int (length (takeWhile (\<lambda>b. b = False) (out ns))) \<and>
    tg_Status (runChecks ns (newTarget ec c x)) = thresholdStatus (hc_HealthyThreshold c) (hc_UnhealthyThreshold c) (out ns)"
proof (induction ns rule: rev_induct)
  case Nil
  then show ?case by (simp add: runChecks_def out_def newTarget_def)
next
  case (snoc n ns)
  obtain net now where n: "n = (net, now)" by fastforce
  let ?t = "runChecks ns (newTarget ec c x)"
  have t: "runChecks (ns @ [n]) (newTarget ec c x) = applyCheck (probe net (newTarget ec c x)) (beginCheck now ?t)"
    using snoc probe_cong [of "beginCheck now ?t" "newTarget ec c x" net]
    by (simp add: runChecks_def n performHealthCheck_def Let_def)
  have outs: "out (ns @ [n]) = fst (probe net (newTarget ec c x)) # out ns" by (simp add: out_def n)
  show ?case unfolding t outs using snoc
    by (cases "fst (probe net (newTarget ec c x))") (simp_all add: applyCheck_def beginCheck_def Let_def)
qed

section \<open>Example runs\<close>

definition exConfig :: "int \<Rightarrow> hc_config" where
  "exConfig i = \<lparr>hc_ID = i, hc_Enabled = True, hc_Path = ''/'', hc_Scheme = [], hc_Mode = ''tcp'', hc_Hostname = ''h'',
     hc_Port = 80, hc_Interval = 10, hc_UnhealthyInterval = 5, hc_Timeout = 0, hc_FollowRedirects = None, hc_Headers = [],
     hc_Method = [], hc_Status = 0, hc_TLSServerName = [], hc_HealthyThreshold = 2, hc_UnhealthyThreshold = 0\<rparr>"

definition exNet :: hc_net where
  "exNet = \<lparr>net_Dial = (\<lambda>_ _. Some ''refused''), net_NewRequest = (\<lambda>_ _. None), net_Do = (\<lambda>_. Inl ''refused'')\<rparr>"

lemma reach_calls:
  "hc_reach m \<Longrightarrow> hc_reach (snd (AddTarget c m))"
  "hc_reach m \<Longrightarrow> hc_reach (snd (RemoveTarget i m))"
  "hc_reach m \<Longrightarrow> hc_reach (snd (EnableTarget i m))"
  "hc_reach m \<Longrightarrow> hc_reach (snd (DisableTarget i m))"
  by (auto intro: reach_step hc_step.intros)

definition exTarget :: hc_target where
  "exTarget = newTarget False (setDefaults (exConfig 1)) 0"

definition exAdded :: hc_monitor where
  "exAdded = snd (AddTarget (exConfig 1) (NewMonitor True False))"

lemma exAdded_fields [simp]:
  "mo_targets exAdded = [(1, 0)]" "mo_heap exAdded = [0 \<mapsto> exTarget]" "mo_cancelled exAdded = []"
  "mo_routines exAdded = [(0, Started)]" "mo_nextCtx exAdded = 1" "mo_nextPtr exAdded = 1" "mo_callback exAdded"
  by (simp_all add: exAdded_def AddTarget_def NewMonitor_def exConfig_def exTarget_def addTargetUnsafe_def startMonitor_def)

lemma exAdded_reach: "hc_reach exAdded"
  unfolding exAdded_def by (intro reach_calls reach_new)

lemma seconds_small [simp]: "seconds 5 = 5 * second" "seconds 10 = 10 * second"
  by (simp_all add: seconds_def)

lemma probe_exNet: "to_lower (hc_Mode (tg_Config t)) = ''tcp'' \<Longrightarrow> probe exNet t = (False, ''TCP dial failed: refused'')"
  by (simp add: probe_def performTCPCheck_def exNet_def)

lemma exTarget_fields [simp]:
  "to_lower (hc_Mode (tg_Config exTarget)) = ''tcp''" "tg_Status exTarget = StatusUnknown" "tg_ctx exTarget = 0"
  "hc_Enabled (tg_Config exTarget)" "hc_UnhealthyThreshold (tg_Config exTarget) = 1" "hc_UnhealthyInterval (tg_Config exTarget) = 5"
  "tg_consecutiveFailures exTarget = 0"
  by (simp_all add: exTarget_def setDefaults_def exConfig_def to_lower_def lower_char_def newTarget_def)

definition exDisabled :: hc_target where
  "exDisabled = (beginCheck 0 exTarget)\<lparr>tg_Config := (tg_Config exTarget)\<lparr>hc_Enabled := False\<rparr>, tg_Status := StatusUnknown\<rparr>"

text \<open>The target is disabled while its first check waits for the network.\<close>

lemma ex_disabled:
  "\<exists>m. hc_reach m \<and> mo_routines m = [(0, FirstCheck StatusUnknown)] \<and> mo_targets m = [(1, 0)] \<and> mo_heap m = [0 \<mapsto> exDisabled] \<and>
     mo_nextCtx m = 1 \<and> mo_cancelled m = [0]"
proof -
  obtain a where a: "monitorTarget 0 (Go 0 exNet) exAdded = Some a" "mo_routines a = [(0, FirstCheck StatusUnknown)]"
      "mo_targets a = [(1, 0)]" "mo_heap a = [0 \<mapsto> beginCheck 0 exTarget]" "mo_cancelled a = []" "mo_nextCtx a = 1"
    by (simp add: monitorTarget_def setRoutine_def)
  have "hc_reach a" by (rule reach_step [OF exAdded_reach step_go [OF a(1)]])
  then have "hc_reach (snd (DisableTarget 1 a))" by (rule reach_calls)
  moreover have "mo_routines (snd (DisableTarget 1 a)) = [(0, FirstCheck StatusUnknown)]" "mo_targets (snd (DisableTarget 1 a)) = [(1, 0)]"
      "mo_heap (snd (DisableTarget 1 a)) = [0 \<mapsto> exDisabled]" "mo_nextCtx (snd (DisableTarget 1 a)) = 1"
      "mo_cancelled (snd (DisableTarget 1 a)) = [0]"
    by (simp_all add: DisableTarget_def a cancelTarget_def exDisabled_def)
  ultimately show ?thesis by blast
qed

text \<open>A goroutine inside its first check gets to its \<open>select\<close> and then listens to the context the target has by then.\<close>

lemma ex_first_to_select:
  assumes "hc_reach m" "g < length (mo_routines m)" "mo_routines m ! g = (p, FirstCheck old)" "mo_heap m p = Some t"
  shows "\<exists>m' t' i. hc_reach m' \<and> mo_routines m' = (mo_routines m)[g := (p, Selecting (tg_ctx t) i)] \<and>
    mo_heap m' = (mo_heap m)(p \<mapsto> t') \<and> tg_ctx t' = tg_ctx t \<and> tg_Config t' = tg_Config t \<and>
    mo_cancelled m' = mo_cancelled m \<and> mo_targets m' = mo_targets m"
proof -
  obtain n u i where n: "monitorTarget g (Go 0 exNet) m = Some n" "mo_routines n = (mo_routines m)[g := (p, LoopHead i)]"
      "mo_heap n = (mo_heap m)(p \<mapsto> u)" "tg_ctx u = tg_ctx t" "tg_Config u = tg_Config t" "mo_cancelled n = mo_cancelled m"
      "mo_targets n = mo_targets m"
    using assms by (cases "old \<noteq> tg_Status (applyCheck (probe exNet t) t) \<or> old = StatusUnknown")
      (simp_all add: monitorTarget_def Let_def setRoutine_def)
  have "hc_reach n" by (rule reach_step [OF assms(1) step_go [OF n(1)]])
  moreover obtain n' where n': "monitorTarget g (Go 0 exNet) n = Some n'" "mo_routines n' = (mo_routines m)[g := (p, Selecting (tg_ctx t) i)]"
      "mo_heap n' = (mo_heap m)(p \<mapsto> u)" "mo_cancelled n' = mo_cancelled m" "mo_targets n' = mo_targets m"
    using n assms(2) by (simp add: monitorTarget_def Let_def setRoutine_def)
  ultimately have "hc_reach n'" by (blast intro: reach_step step_go)
  then show ?thesis using n' n by blast
qed

section \<open>Properties\<close>

text \<open>
  C22. The thresholds work as a hysteresis.  After any sequence of checks of a new target, whatever the network answers,
  its status is the one that a run of successes of length \<open>HealthyThreshold\<close>, or of failures of length
  \<open>UnhealthyThreshold\<close>, ended last; before the first such run it is unknown.
\<close>

theorem status_hysteresis:
  "tg_Status (runChecks ns (newTarget ec c x)) = thresholdStatus (hc_HealthyThreshold c) (hc_UnhealthyThreshold c)
     (rev (map (\<lambda>(net, now). fst (probe net (newTarget ec c x))) ns))"
  using runChecks_state by blast

text \<open>
  C21. Goroutines and targets stay matched under every interleaving of API calls, goroutine steps and network answers.
  An enabled target of the map has a context that is not cancelled and a goroutine that is running, and which listens to
  that context when it is blocked.  A goroutine that is blocked for a target no longer in the map can stop at once.
\<close>

theorem monitors_match_targets:
  assumes "hc_reach m"
  shows "(map_of (mo_targets m) tid = Some p \<and> mo_heap m p = Some t \<and> hc_Enabled (tg_Config t) \<longrightarrow>
            tg_ctx t \<notin> set (mo_cancelled m) \<and> watched (mo_routines m) p (tg_ctx t)) \<and>
         (g < length (mo_routines m) \<and> mo_routines m ! g = (q, Selecting c i) \<and> (\<forall>tid. map_of (mo_targets m) tid \<noteq> Some q) \<longrightarrow>
            (\<exists>m'. monitorTarget g Cancelled m = Some m' \<and> mo_routines m' ! g = (q, Returned)))"
proof (intro conjI impI)
  note ok = inv_ok [OF reach_inv [OF assms]]
  {
    assume "map_of (mo_targets m) tid = Some p \<and> mo_heap m p = Some t \<and> hc_Enabled (tg_Config t)"
    then show "tg_ctx t \<notin> set (mo_cancelled m)" "watched (mo_routines m) p (tg_ctx t)" using okD(6) [OF ok] by blast+
  next
    assume g: "g < length (mo_routines m) \<and> mo_routines m ! g = (q, Selecting c i) \<and> (\<forall>tid. map_of (mo_targets m) tid \<noteq> Some q)"
    then have "(q, Selecting c i) \<in> set (mo_routines m)" by (metis nth_mem)
    then obtain u where u: "mo_heap m q = Some u" "c = tg_ctx u \<or> c \<in> set (mo_cancelled m)" using okD(7) [OF ok] by blast
    then have "c \<in> set (mo_cancelled m)" using okD(5) [OF ok u(1)] g by blast
    then show "\<exists>m'. monitorTarget g Cancelled m = Some m' \<and> mo_routines m' ! g = (q, Returned)"
      using g by (simp add: monitorTarget_def setRoutine_def)
  }
qed

theorem monitors_match_targets_witness:
  "tg_ctx exTarget \<notin> set (mo_cancelled exAdded) \<and> watched (mo_routines exAdded) 0 (tg_ctx exTarget)"
  using monitors_match_targets [OF exAdded_reach, of 1 0 exTarget] by simp

text \<open>
  C11. \<open>SyncTargets\<close> installs exactly the desired set, in whatever order Go ranges over its maps: it returns no error, the
  identifiers are those of the desired configurations, every target is new with the last configuration given for its
  identifier and status unknown, and the context of every target that existed before is cancelled.
\<close>

theorem SyncTargets_exact:
  assumes reach: "hc_reach m" and rngT: "\<And>xs. mset (rngT xs) = mset xs" and rngD: "\<And>xs. mset (rngD xs) = mset xs"
    and sync: "SyncTargets rngT rngD cs m = (err, m')"
  shows "err = None \<and> set (GetTargetIDs m') = hc_ID ` set cs \<and>
    (\<forall>tid t. (tid, t) \<in> set (getAllTargetsUnsafe m') \<longrightarrow>
       tg_Config t = setDefaults (last (filter (\<lambda>c. hc_ID c = tid) cs)) \<and> tg_Status t = StatusUnknown) \<and>
    (\<forall>p t. mo_heap m p = Some t \<longrightarrow> tg_ctx t \<in> set (mo_cancelled m'))"
proof -
  note st = SyncTargets_state [OF reach_inv [OF reach] rngT rngD sync]
  have "set (GetTargetIDs m') = hc_ID ` set cs"
  proof -
    have "map_of (mo_targets m') i = None \<longleftrightarrow> map_of (desiredIDs cs) i = None" for i
      using st(4) [of i] st(5) [of i] by (cases "map_of (desiredIDs cs) i") auto
    then show ?thesis using desiredIDs_keys [of cs] by (auto simp: GetTargetIDs_def map_of_eq_None_iff)
  qed
  moreover have "tg_Config t = setDefaults (last (filter (\<lambda>c. hc_ID c = tid) cs)) \<and> tg_Status t = StatusUnknown"
    if tt: "(tid, t) \<in> set (getAllTargetsUnsafe m')" for tid t
  proof -
    obtain p where p: "(tid, p) \<in> set (mo_targets m')" "t = the (mo_heap m' p)"
      using tt by (auto simp: getAllTargetsUnsafe_def)
    then have T: "map_of (mo_targets m') tid = Some p" using st(2) by (simp add: hc_inv_def map_of_is_SomeI)
    then obtain c where c: "map_of (desiredIDs cs) tid = Some c" using st(4) [of tid] by force
    then have "c = last (filter (\<lambda>c. hc_ID c = tid) cs)" unfolding desiredIDs_lookup by (auto split: list.splits)
    then show ?thesis using st(5) [OF c] T p(2) by auto
  qed
  moreover have "tg_ctx t \<in> set (mo_cancelled m')" if t: "mo_heap m p = Some t" for p t
  proof -
    have p: "p < mo_nextPtr m" using t okD(2) [OF inv_ok [OF reach_inv [OF reach]]] by blast
    have "map_of (mo_targets m') i \<noteq> Some p" for i
      using st(4) [of i] st(5) [of i] p by (cases "map_of (desiredIDs cs) i") auto
    then show ?thesis using okD(5) [OF inv_ok [OF st(2)], of p t] st(3) [OF p] t by simp
  qed
  ultimately show ?thesis using st(1) by blast
qed

theorem SyncTargets_exact_witness:
  "set (GetTargetIDs (snd (SyncTargets rev rev [exConfig 2, exConfig 3] exAdded))) = {2, 3} \<and>
   0 \<in> set (mo_cancelled (snd (SyncTargets rev rev [exConfig 2, exConfig 3] exAdded)))"
proof -
  have ids: "hc_ID (exConfig i) = i" for i by (simp add: exConfig_def)
  note sync = SyncTargets_exact [OF exAdded_reach mset_rev mset_rev surjective_pairing, of "[exConfig 2, exConfig 3]"]
  show ?thesis
    using sync [THEN conjunct2, THEN conjunct1]
      sync [THEN conjunct2, THEN conjunct2, THEN conjunct2, rule_format, of 0 exTarget] by (simp add: ids)
qed

text \<open>
  Disabling a target does not reset its status for good: a check that is waiting for the network when
  \<open>DisableTarget\<close> runs ends later and overwrites the status, so that a disabled target is reported as unhealthy.
\<close>

theorem disabled_target_unhealthy:
  "\<exists>m p t. hc_reach m \<and> map_of (mo_targets m) 1 = Some p \<and> mo_heap m p = Some t \<and> \<not> hc_Enabled (tg_Config t) \<and>
     tg_Status t = StatusUnhealthy"
proof -
  obtain b where b: "hc_reach b" "mo_routines b = [(0, FirstCheck StatusUnknown)]" "mo_targets b = [(1, 0)]" "mo_heap b = [0 \<mapsto> exDisabled]"
    using ex_disabled by blast
  have "probe exNet exDisabled = (False, ''TCP dial failed: refused'')" by (rule probe_exNet) (simp add: exDisabled_def)
  then obtain c u where "monitorTarget 0 (Go 0 exNet) b = Some c" "mo_targets c = [(1, 0)]" "mo_heap c 0 = Some u"
      "\<not> hc_Enabled (tg_Config u)" "tg_Status u = StatusUnhealthy"
    by (simp add: monitorTarget_def b Let_def setRoutine_def applyCheck_def exDisabled_def beginCheck_def)
  then show ?thesis using reach_step [OF b(1) step_go] by (intro exI [of _ c] exI [of _ 0] exI [of _ u]) auto
qed

text \<open>
  \<open>EnableTarget\<close> does not always stop the old goroutine: one that is inside a check while the target is disabled and
  enabled again finds the new context at its next \<open>select\<close>, so that two goroutines check the same target from then on.
\<close>

theorem reenabled_target_checked_twice:
  "\<exists>m p t i j. hc_reach m \<and> map_of (mo_targets m) 1 = Some p \<and> mo_heap m p = Some t \<and> tg_ctx t \<notin> set (mo_cancelled m) \<and>
     mo_routines m = [(p, Selecting (tg_ctx t) i), (p, Selecting (tg_ctx t) j)]"
proof -
  obtain b where b: "hc_reach b" "mo_routines b = [(0, FirstCheck StatusUnknown)]" "mo_targets b = [(1, 0)]" "mo_heap b = [0 \<mapsto> exDisabled]"
      "mo_nextCtx b = 1" "mo_cancelled b = [0]"
    using ex_disabled by blast
  have "hc_reach (snd (EnableTarget 1 b))" using b(1) by (rule reach_calls)
  moreover obtain u where "mo_routines (snd (EnableTarget 1 b)) = [(0, FirstCheck StatusUnknown), (0, Started)]"
      "mo_heap (snd (EnableTarget 1 b)) = [0 \<mapsto> u]" "tg_ctx u = 1" "mo_targets (snd (EnableTarget 1 b)) = [(1, 0)]"
      "mo_cancelled (snd (EnableTarget 1 b)) = [0, 0]"
    by (simp add: EnableTarget_def b Let_def exDisabled_def beginCheck_def cancelTarget_def startMonitor_def)
  ultimately obtain c v i where c: "hc_reach c" "mo_routines c = [(0, Selecting 1 i), (0, Started)]" "mo_heap c = [0 \<mapsto> v]"
      "tg_ctx v = 1" "mo_targets c = [(1, 0)]" "mo_cancelled c = [0, 0]"
    using ex_first_to_select [of "snd (EnableTarget 1 b)" 0 0 StatusUnknown u] by auto
  then obtain d where d: "monitorTarget 1 (Go 0 exNet) c = Some d" "mo_routines d = [(0, Selecting 1 i), (0, FirstCheck (tg_Status v))]"
      "mo_heap d = [0 \<mapsto> beginCheck 0 v]" "mo_targets d = [(1, 0)]" "mo_cancelled d = [0, 0]"
    by (simp add: monitorTarget_def setRoutine_def)
  have "hc_reach d" by (rule reach_step [OF c(1) step_go [OF d(1)]])
  then obtain e w j where "hc_reach e" "mo_routines e = [(0, Selecting 1 i), (0, Selecting 1 j)]" "mo_heap e = [0 \<mapsto> w]" "tg_ctx w = 1"
      "mo_cancelled e = [0, 0]" "mo_targets e = [(1, 0)]"
    using ex_first_to_select [of d 1 0 "tg_Status v" "beginCheck 0 v"] d c(4) by auto
  then show ?thesis by (intro exI [of _ e] exI [of _ 0] exI [of _ w] exI [of _ i] exI [of _ j]) simp
qed

end
