(* ===== verification/Shared_Bind.thy ===== *)
theory Shared_Bind
  imports Net_Ip
begin

text \<open>
  The UDP socket shared by WireGuard, the relay and the hole puncher (\<open>bind/shared_bind.go\<close>).

  Sockets and packet connections are numbers.  What the bind hands to the outside is recorded in its state: the datagrams
  written (\<open>sb_wire\<close>), the calls of the magic-response callback (\<open>sb_called\<close>) and the sockets it closed
  (\<open>sb_closedSockets\<close>).  The error of a write and the datagrams a read delivers are arguments.  \<open>linux\<close> is
  \<open>runtime.GOOS == "linux" || runtime.GOOS == "android"\<close>, \<open>ideal\<close> is \<open>wgConn.IdealBatchSize\<close>.  The receive goroutines of the
  socket are program counters, because they block on the condition variable of a rebind.
\<close>

section \<open>Data\<close>

type_synonym addr_port = "addr \<times> 16 word"
type_synonym bytes = "byte list"

definition ascii :: "string \<Rightarrow> bytes" where
  "ascii s = map (\<lambda>c. of_char c) s"

definition MagicTestRequest :: bytes where
  "MagicTestRequest = ascii ''PANGOLIN_TEST_REQ''"

definition MagicTestResponse :: bytes where
  "MagicTestResponse = ascii ''PANGOLIN_TEST_RSP''"

definition MagicPacketDataLen :: nat where
  "MagicPacketDataLen = 8"

definition MagicTestRequestLen :: nat where
  "MagicTestRequestLen = 17 + MagicPacketDataLen"

definition MagicTestResponseLen :: nat where
  "MagicTestResponseLen = 17 + MagicPacketDataLen"

text \<open>
  Endpoints of WireGuard: the standard one with its address, or any other, of which \<open>Send\<close> only uses the bytes of \<open>DstToBytes\<close>.
\<close>

datatype wg_endpoint = StdNetEndpoint addr_port | OtherEndpoint bytes

datatype bind_error = ErrClosed | ErrText string | ErrIO string

datatype wire = Socket nat | Netstack nat

record shared_bind =
  sb_udpConn :: "nat option"
  sb_ipv4PC :: "nat option"
  sb_ipv6PC :: "nat option"
  sb_refCount :: "32 word"
  sb_closed :: bool
  sb_port :: "16 word"
  sb_recvFuncs :: nat
  sb_netstackPackets :: "(bytes \<times> wg_endpoint) list"
  sb_netstackConn :: "nat option option"
  sb_netstackEndpoints :: "addr_port list"
  sb_ipv4Msgs :: nat
  sb_closeChan :: bool
  sb_magicResponseCallback :: bool
  sb_rebinding :: bool
  sb_wire :: "(wire \<times> bytes \<times> addr_port) list"
  sb_called :: "(addr_port \<times> bytes) list"
  sb_closedSockets :: "nat list"

text \<open>\<open>New\<close>: the connection, unless nil, with its local port.\<close>

definition NewBind :: "(nat \<times> 16 word) option \<Rightarrow> string + shared_bind" where
  "NewBind conn = (case conn of
     None \<Rightarrow> Inl ''udpConn cannot be nil''
   | Some (c, port) \<Rightarrow> Inr
       \<lparr>sb_udpConn = Some c, sb_ipv4PC = None, sb_ipv6PC = None, sb_refCount = 1, sb_closed = False, sb_port = port,
        sb_recvFuncs = 0, sb_netstackPackets = [], sb_netstackConn = None, sb_netstackEndpoints = [], sb_ipv4Msgs = 0,
        sb_closeChan = False, sb_magicResponseCallback = False, sb_rebinding = False, sb_wire = [], sb_called = [],
        sb_closedSockets = []\<rparr>)"

section \<open>References and sockets\<close>

definition SetNetstackConn :: "nat option \<Rightarrow> shared_bind \<Rightarrow> shared_bind" where
  "SetNetstackConn conn b = b\<lparr>sb_netstackConn := Some conn\<rparr>"

definition GetNetstackConn :: "shared_bind \<Rightarrow> nat option" where
  "GetNetstackConn b = (case sb_netstackConn b of None \<Rightarrow> None | Some conn \<Rightarrow> conn)"

definition unmapAddrPort :: "addr_port \<Rightarrow> addr_port" where
  "unmapAddrPort ap = (unmap (fst ap), snd ap)"

definition netstackPacketsCap :: nat where
  "netstackPacketsCap = 1024"

text \<open>
  \<open>InjectPacket\<close>.  When room is left in the channel and the close channel is closed as well, \<open>select\<close> may take
  either case: \<open>pick\<close> is its choice.
\<close>

definition InjectPacket :: "bool \<Rightarrow> bytes \<Rightarrow> addr_port \<Rightarrow> shared_bind \<Rightarrow> bind_error option \<times> shared_bind" where
  "InjectPacket pick data fromAddr b =
     (if sb_closed b then (Some ErrClosed, b)
      else let fromAddr = unmapAddrPort fromAddr;
               b = b\<lparr>sb_netstackEndpoints := List.insert fromAddr (sb_netstackEndpoints b)\<rparr>
           in if length (sb_netstackPackets b) < netstackPacketsCap \<and> (sb_closeChan b \<longrightarrow> pick)
              then (None, b\<lparr>sb_netstackPackets := sb_netstackPackets b @ [(data, StdNetEndpoint fromAddr)]\<rparr>)
              else if sb_closeChan b then (Some ErrClosed, b)
              else (Some (ErrText ''netstack packet buffer full''), b))"

definition AddRef :: "shared_bind \<Rightarrow> shared_bind" where
  "AddRef b = b\<lparr>sb_refCount := sb_refCount b + 1\<rparr>"

definition closeUDP :: "shared_bind \<Rightarrow> shared_bind" where
  "closeUDP b = (case sb_udpConn b of None \<Rightarrow> b
     | Some c \<Rightarrow> b\<lparr>sb_udpConn := None, sb_closedSockets := sb_closedSockets b @ [c]\<rparr>)"

text \<open>\<open>cerr\<close> is the error of closing the socket.\<close>

definition closeConnection :: "bind_error option \<Rightarrow> shared_bind \<Rightarrow> bind_error option \<times> shared_bind" where
  "closeConnection cerr b =
     (if sb_closed b then (None, b)
      else (if sb_udpConn b = None then None else cerr,
        (closeUDP b)\<lparr>sb_closed := True, sb_closeChan := True, sb_ipv4PC := None, sb_ipv6PC := None,
          sb_netstackConn := None, sb_netstackEndpoints := []\<rparr>))"

definition Release :: "bind_error option \<Rightarrow> shared_bind \<Rightarrow> bind_error option \<times> shared_bind" where
  "Release cerr b =
     (let newCount = sb_refCount b - 1; b = b\<lparr>sb_refCount := newCount\<rparr> in
      if sint newCount < 0 then (Some (ErrText ''SharedBind reference count went negative''), b\<lparr>sb_refCount := 0\<rparr>)
      else if newCount = 0 then closeConnection cerr b
      else (None, b))"

definition CloseBind :: "bind_error option \<Rightarrow> shared_bind \<Rightarrow> bind_error option \<times> shared_bind" where
  "CloseBind cerr b = Release cerr b"

definition ClearNetstackConn :: "shared_bind \<Rightarrow> shared_bind" where
  "ClearNetstackConn b = b\<lparr>sb_netstackConn := None, sb_netstackEndpoints := []\<rparr>"

definition CloseSocket :: "shared_bind \<Rightarrow> (string + 16 word) \<times> shared_bind" where
  "CloseSocket b =
     (if sb_closed b then (Inl ''bind is closed'', b)
      else (Inr (sb_port b), closeUDP (b\<lparr>sb_rebinding := True\<rparr>)))"

text \<open>The packet connections for a socket; the message buffers are only made on Linux.\<close>

definition Rebind :: "bool \<Rightarrow> nat \<Rightarrow> (nat \<times> 16 word) option \<Rightarrow> shared_bind \<Rightarrow> string option \<times> shared_bind" where
  "Rebind linux ideal newConn b = (case newConn of
     None \<Rightarrow> (Some ''newConn cannot be nil'', b)
   | Some (c, port) \<Rightarrow>
       if sb_closed b then (Some ''bind is closed'', b)
       else (None, (closeUDP b)\<lparr>sb_udpConn := Some c, sb_ipv4PC := Some c, sb_ipv6PC := Some c,
               sb_ipv4Msgs := if linux then ideal else sb_ipv4Msgs b, sb_port := port, sb_rebinding := False\<rparr>))"

definition SetMagicResponseCallback :: "bool \<Rightarrow> shared_bind \<Rightarrow> shared_bind" where
  "SetMagicResponseCallback callback b = b\<lparr>sb_magicResponseCallback := callback\<rparr>"

definition OpenBind :: "bool \<Rightarrow> nat \<Rightarrow> shared_bind \<Rightarrow> (bind_error + nat \<times> 16 word) \<times> shared_bind" where
  "OpenBind linux ideal b =
     (if sb_closed b then (Inl ErrClosed, b)
      else case sb_udpConn b of
        None \<Rightarrow> (Inl ErrClosed, b)
      | Some c \<Rightarrow>
          (let b = (if linux then b\<lparr>sb_ipv4PC := Some c, sb_ipv6PC := Some c, sb_ipv4Msgs := ideal\<rparr> else b);
               b = b\<lparr>sb_recvFuncs := 2\<rparr>
           in (Inr (2, sb_port b), b)))"

definition BatchSize :: "bool \<Rightarrow> nat \<Rightarrow> nat" where
  "BatchSize linux ideal = (if linux then ideal else 1)"

section \<open>Writing\<close>

text \<open>A write is recorded whether or not it fails; \<open>werr\<close> gives its error.\<close>

type_synonym write_error = "wire \<Rightarrow> bytes \<Rightarrow> addr_port \<Rightarrow> string option"

definition putWire :: "wire \<Rightarrow> bytes \<Rightarrow> addr_port \<Rightarrow> shared_bind \<Rightarrow> shared_bind" where
  "putWire w data dest b = b\<lparr>sb_wire := sb_wire b @ [(w, data, dest)]\<rparr>"

definition WriteToUDP :: "write_error \<Rightarrow> bytes \<Rightarrow> addr_port \<Rightarrow> shared_bind \<Rightarrow> (bind_error + nat) \<times> shared_bind" where
  "WriteToUDP werr data dest b =
     (if sb_closed b then (Inl ErrClosed, b)
      else case sb_udpConn b of
        None \<Rightarrow> (Inl ErrClosed, b)
      | Some c \<Rightarrow> (case werr (Socket c) data dest of
            Some e \<Rightarrow> (Inl (ErrIO e), putWire (Socket c) data dest b)
          | None \<Rightarrow> (Inr (length data), putWire (Socket c) data dest b)))"

definition of_be :: "bytes \<Rightarrow> 'a::len word" where
  "of_be bs = word_of_nat (foldl (\<lambda>a c. a * 256 + unat c) 0 bs)"

text \<open>The destination of an endpoint that is not a \<open>StdNetEndpoint\<close>: address bytes, then the port, low byte first.\<close>

definition le_port :: "byte \<Rightarrow> byte \<Rightarrow> 16 word" where
  "le_port lo hi = ucast lo OR push_bit 8 (ucast hi)"

definition endpointAddrPort :: "wg_endpoint \<Rightarrow> addr_port" where
  "endpointAddrPort ep = (case ep of
     StdNetEndpoint ap \<Rightarrow> ap
   | OtherEndpoint bs \<Rightarrow>
       if 6 \<le> length bs then
         (if 18 \<le> length bs then (IP6 (of_be (take 16 bs)) [], le_port (bs ! 16) (bs ! 17))
          else (IP4 (of_be (take 4 bs)), le_port (bs ! 4) (bs ! 5)))
       else (NoAddr, 0))"

primrec sendAll :: "write_error \<Rightarrow> wire \<Rightarrow> addr_port \<Rightarrow> bytes list \<Rightarrow> shared_bind \<Rightarrow> bind_error option \<times> shared_bind" where
  "sendAll werr w dest [] b = (None, b)"
| "sendAll werr w dest (buf # bufs) b =
     (case werr w buf dest of
        Some e \<Rightarrow> (Some (ErrIO e), putWire w buf dest b)
      | None \<Rightarrow> sendAll werr w dest bufs (putWire w buf dest b))"

definition SendBind :: "write_error \<Rightarrow> bytes list \<Rightarrow> wg_endpoint \<Rightarrow> shared_bind \<Rightarrow> bind_error option \<times> shared_bind" where
  "SendBind werr bufs ep b =
     (if sb_closed b then (Some ErrClosed, b)
      else let dest = endpointAddrPort ep in
        if fst dest = NoAddr then (Some (ErrText ''could not extract destination address from endpoint''), b)
        else let viaSocket =
               (case sb_udpConn b of
                  None \<Rightarrow> (Some ErrClosed, b)
                | Some c \<Rightarrow> sendAll werr (Socket c) dest bufs b)
          in if dest \<in> set (sb_netstackEndpoints b)
             then (case GetNetstackConn b of Some n \<Rightarrow> sendAll werr (Netstack n) dest bufs b | None \<Rightarrow> viaSocket)
             else viaSocket)"

text \<open>\<open>Endpoint.DstToBytes\<close>: the binary form of an address and port.\<close>

definition be_bytes :: "nat \<Rightarrow> 'a::len word \<Rightarrow> bytes" where
  "be_bytes n w = map (\<lambda>i. word_of_nat (unat w div 256 ^ i mod 256)) (rev [0..<n])"

definition DstToBytes :: "addr_port \<Rightarrow> bytes" where
  "DstToBytes ap =
     (case fst ap of NoAddr \<Rightarrow> [] | IP4 w \<Rightarrow> be_bytes 4 w | IP6 w zone \<Rightarrow> be_bytes 16 w @ ascii zone)
     @ [ucast (snd ap), ucast (drop_bit 8 (snd ap))]"

section \<open>Receiving\<close>

definition IsMagicPacket :: "bytes \<Rightarrow> bool" where
  "IsMagicPacket payload \<longleftrightarrow>
     MagicTestRequestLen \<le> length payload \<and> take (length MagicTestRequest) payload = MagicTestRequest \<or>
     MagicTestResponseLen \<le> length payload \<and> take (length MagicTestResponse) payload = MagicTestResponse"

text \<open>\<open>addr\<close> is the sender, \<open>None\<close> for a nil pointer, to which nothing can be written.\<close>

definition handleMagicPacket :: "bytes \<Rightarrow> addr_port option \<Rightarrow> shared_bind \<Rightarrow> bool \<times> shared_bind" where
  "handleMagicPacket data addr b =
     (if MagicTestRequestLen \<le> length data \<and> take (length MagicTestRequest) data = MagicTestRequest then
        (let echoData = take MagicPacketDataLen (drop (length MagicTestRequest) data);
             response = MagicTestResponse @ echoData
         in (True, case (sb_udpConn b, addr) of (Some c, Some a) \<Rightarrow> putWire (Socket c) response a b | _ \<Rightarrow> b))
      else if MagicTestResponseLen \<le> length data \<and> take (length MagicTestResponse) data = MagicTestResponse then
        (let echoData = take MagicPacketDataLen (drop (length MagicTestResponse) data)
         in (True, if sb_magicResponseCallback b
               then b\<lparr>sb_called := sb_called b @ [(case addr of Some a \<Rightarrow> unmapAddrPort a | None \<Rightarrow> (NoAddr, 0), echoData)]\<rparr> else b))
      else (False, b))"

text \<open>Go's \<open>copy\<close> into a slice, and the slots WireGuard passes: buffers, sizes and endpoints.\<close>

definition go_copy :: "bytes \<Rightarrow> bytes \<Rightarrow> bytes" where
  "go_copy dst src = take (length dst) src @ drop (length src) dst"

record slots =
  sl_bufs :: "bytes list"
  sl_sizes :: "nat list"
  sl_eps :: "wg_endpoint option list"

definition putSlot :: "nat \<Rightarrow> nat \<Rightarrow> addr_port option \<Rightarrow> slots \<Rightarrow> slots" where
  "putSlot w n addr s = s\<lparr>sl_sizes := (sl_sizes s)[w := n],
     sl_eps := (case addr of Some a \<Rightarrow> (sl_eps s)[w := Some (StdNetEndpoint (unmapAddrPort a))] | None \<Rightarrow> sl_eps s)\<rparr>"

text \<open>
  The loop of \<open>receiveIPv4Batch\<close> over the messages \<open>(N, Addr)\<close> from index \<open>i\<close>; \<open>w\<close> is \<open>writeIdx\<close>.  The data of a message
  is read from the buffers when its turn comes, after earlier iterations have written to them.
\<close>

fun batchLoop :: "nat \<Rightarrow> (nat \<times> addr_port option) list \<Rightarrow> nat \<Rightarrow> slots \<Rightarrow> shared_bind \<Rightarrow> nat \<times> slots \<times> shared_bind" where
  "batchLoop i [] w s b = (w, s, b)"
| "batchLoop i ((n, addr) # ms) w s b =
     (if n = 0 then batchLoop (Suc i) ms w s b
      else let (magic, b) = (case addr of None \<Rightarrow> (False, b) | Some a \<Rightarrow> handleMagicPacket (take n (sl_bufs s ! i)) addr b)
        in if magic then batchLoop (Suc i) ms w s b
           else let s = (if w \<noteq> i then s\<lparr>sl_bufs := (sl_bufs s)[w := go_copy (sl_bufs s ! w) (take n (sl_bufs s ! i))]\<rparr> else s)
             in batchLoop (Suc i) ms (Suc w) (putSlot w n addr s) b)"

text \<open>\<open>pc.ReadBatch\<close> fills the first buffers with the datagrams it delivers.\<close>

definition fillBufs :: "(bytes \<times> addr_port option) list \<Rightarrow> bytes list \<Rightarrow> bytes list" where
  "fillBufs ds bufs = map2 (\<lambda>d buf. go_copy buf (fst d)) ds bufs @ drop (length ds) bufs"

definition receiveIPv4Batch ::
  "(nat \<Rightarrow> string + (bytes \<times> addr_port option) list) \<Rightarrow> slots \<Rightarrow> shared_bind \<Rightarrow> (bind_error + nat) \<times> slots \<times> shared_bind" where
  "receiveIPv4Batch readBatch s b =
     (case readBatch (min (length (sl_bufs s)) (sb_ipv4Msgs b)) of
        Inl e \<Rightarrow> (Inl (ErrIO e), s, b)
      | Inr ds \<Rightarrow>
          (let (w, s, b) = batchLoop 0 (map2 (\<lambda>(d, a) buf. (min (length d) (length buf), a)) ds (sl_bufs s)) 0 (s\<lparr>sl_bufs := fillBufs ds (sl_bufs s)\<rparr>) b
           in (Inr w, s, b)))"

text \<open>\<open>receiveIPv4Simple\<close> on the results of the successive reads; \<open>None\<close> while it blocks in the next read.\<close>

primrec receiveIPv4Simple ::
  "(string + bytes \<times> addr_port option) list \<Rightarrow> slots \<Rightarrow> shared_bind \<Rightarrow> ((bind_error + nat) \<times> slots \<times> shared_bind) option" where
  "receiveIPv4Simple [] s b = None"
| "receiveIPv4Simple (r # rs) s b = (case r of
     Inl e \<Rightarrow> Some (Inl (ErrIO e), s, b)
   | Inr (d, addr) \<Rightarrow>
       (let s = s\<lparr>sl_bufs := (sl_bufs s)[0 := go_copy (sl_bufs s ! 0) d]\<rparr>;
            n = min (length d) (length (sl_bufs s ! 0));
            (magic, b) = handleMagicPacket (take n (sl_bufs s ! 0)) addr b
        in if magic then receiveIPv4Simple rs s b
           else Some (Inr 1, putSlot 0 n addr s, b)))"

text \<open>The receive function for injected packets; \<open>None\<close> while it blocks, \<open>pick\<close> the choice of \<open>select\<close> when both cases are ready.\<close>

definition receiveNetstack :: "bool \<Rightarrow> slots \<Rightarrow> shared_bind \<Rightarrow> ((bind_error + nat) \<times> slots \<times> shared_bind) option" where
  "receiveNetstack pick s b =
     (if sb_closeChan b \<and> (sb_netstackPackets b = [] \<or> \<not> pick) then Some (Inl ErrClosed, s, b)
      else case sb_netstackPackets b of
        [] \<Rightarrow> None
      | (d, ep) # ps \<Rightarrow>
          (let b = b\<lparr>sb_netstackPackets := ps\<rparr> in
           if length d \<le> length (sl_bufs s ! 0)
           then Some (Inr 1, s\<lparr>sl_bufs := (sl_bufs s)[0 := go_copy (sl_bufs s ! 0) d], sl_sizes := (sl_sizes s)[0 := length d],
                  sl_eps := (sl_eps s)[0 := Some ep]\<rparr>, b)
           else Some (Inr 0, s, b)))"

section \<open>Calls and receive goroutines\<close>

datatype bind_call =
    CAddRef | CRelease "bind_error option" | CInject bool bytes addr_port | CSetNetstack "nat option" | CClearNetstack
  | CCloseSocket | CRebind "(nat \<times> 16 word) option" | CSetCallback bool | COpen | CWrite write_error bytes addr_port
  | CSend write_error "bytes list" wg_endpoint | CReceiveNetstack bool slots

definition bindCall :: "bool \<Rightarrow> nat \<Rightarrow> bind_call \<Rightarrow> shared_bind \<Rightarrow> shared_bind" where
  "bindCall linux ideal c b = (case c of
     CAddRef \<Rightarrow> AddRef b
   | CRelease e \<Rightarrow> snd (Release e b)
   | CInject pick d a \<Rightarrow> snd (InjectPacket pick d a b)
   | CSetNetstack n \<Rightarrow> SetNetstackConn n b
   | CClearNetstack \<Rightarrow> ClearNetstackConn b
   | CCloseSocket \<Rightarrow> snd (CloseSocket b)
   | CRebind n \<Rightarrow> snd (Rebind linux ideal n b)
   | CSetCallback f \<Rightarrow> SetMagicResponseCallback f b
   | COpen \<Rightarrow> snd (OpenBind linux ideal b)
   | CWrite we d a \<Rightarrow> snd (WriteToUDP we d a b)
   | CSend we ds ep \<Rightarrow> snd (SendBind we ds ep b)
   | CReceiveNetstack pick s \<Rightarrow> (case receiveNetstack pick s b of None \<Rightarrow> b | Some (r, s', b') \<Rightarrow> b'))"

text \<open>
  The points of the function \<open>makeReceiveSocket\<close> returns: at the head of the loop, reading from a socket, at the test of the
  waiting loop with the lock held, inside \<open>rebindingCond.Wait\<close>, after the waiting loop, returned.
\<close>

datatype recv_pc = AtHead | Reading nat "nat option" | AtWaitTest | InWait | AfterWait | RecvReturned "bind_error option"

record bind_sys =
  sy_bind :: shared_bind
  sy_recv :: "recv_pc list"

datatype recv_input = RecvInput slots "nat \<Rightarrow> string + (bytes \<times> addr_port option) list" "(string + bytes \<times> addr_port option) list"

definition makeReceiveSocket :: "bool \<Rightarrow> recv_input \<Rightarrow> recv_pc \<Rightarrow> shared_bind \<Rightarrow> (recv_pc \<times> shared_bind) option" where
  "makeReceiveSocket linux inp pc b = (case pc of
     AtHead \<Rightarrow>
       Some (if sb_closed b then RecvReturned (Some ErrClosed)
             else case sb_udpConn b of None \<Rightarrow> AtWaitTest | Some c \<Rightarrow> Reading c (sb_ipv4PC b), b)
   | Reading c p \<Rightarrow>
       (case inp of RecvInput s readBatch reads \<Rightarrow>
          (case (if p \<noteq> None \<and> linux then Some (receiveIPv4Batch readBatch s b) else receiveIPv4Simple reads s b) of
             None \<Rightarrow> None
           | Some (Inl e, s', b') \<Rightarrow> Some (if sb_rebinding b' then AtWaitTest else RecvReturned (Some e), b')
           | Some (Inr n, s', b') \<Rightarrow> Some (RecvReturned None, b')))
   | AtWaitTest \<Rightarrow> Some (if sb_rebinding b \<and> \<not> sb_closed b then InWait else AfterWait, b)
   | InWait \<Rightarrow> None
   | AfterWait \<Rightarrow> Some (if sb_closed b then RecvReturned (Some ErrClosed) else AtHead, b)
   | RecvReturned e \<Rightarrow> None)"

text \<open>\<open>rebindingCond.Broadcast\<close>, which only a successful \<open>Rebind\<close> calls.\<close>

definition broadcast :: "recv_pc list \<Rightarrow> recv_pc list" where
  "broadcast rs = map (\<lambda>pc. if pc = InWait then AtWaitTest else pc) rs"

inductive bind_step :: "bool \<Rightarrow> nat \<Rightarrow> bind_sys \<Rightarrow> bind_sys \<Rightarrow> bool" for linux ideal where
  step_call: "(\<And>n. c \<noteq> CRebind n) \<Longrightarrow> bind_step linux ideal y (y\<lparr>sy_bind := bindCall linux ideal c (sy_bind y)\<rparr>)"
| step_rebind: "Rebind linux ideal n (sy_bind y) = (e, b') \<Longrightarrow>
    bind_step linux ideal y (y\<lparr>sy_bind := b', sy_recv := if e = None then broadcast (sy_recv y) else sy_recv y\<rparr>)"
| step_receive: "bind_step linux ideal y (y\<lparr>sy_recv := sy_recv y @ [AtHead]\<rparr>)"
| step_recv: "i < length (sy_recv y) \<Longrightarrow> makeReceiveSocket linux inp (sy_recv y ! i) (sy_bind y) = Some (pc, b') \<Longrightarrow>
    bind_step linux ideal y (y\<lparr>sy_bind := b', sy_recv := (sy_recv y)[i := pc]\<rparr>)"

inductive bind_steps :: "bool \<Rightarrow> nat \<Rightarrow> bind_sys \<Rightarrow> bind_sys \<Rightarrow> bool" for linux ideal where
  steps_refl: "bind_steps linux ideal y y"
| steps_more: "bind_steps linux ideal x y \<Longrightarrow> bind_step linux ideal y z \<Longrightarrow> bind_steps linux ideal x z"

inductive bind_reach :: "bool \<Rightarrow> nat \<Rightarrow> bind_sys \<Rightarrow> bool" for linux ideal where
  reach_new: "NewBind (Some conn) = Inr b \<Longrightarrow> bind_reach linux ideal \<lparr>sy_bind = b, sy_recv = []\<rparr>"
| reach_step: "bind_reach linux ideal y \<Longrightarrow> bind_step linux ideal y z \<Longrightarrow> bind_reach linux ideal z"

section \<open>The invariant of the bind\<close>

named_theorems bind_defs "the operations of the bind"

declare AddRef_def [bind_defs] Release_def [bind_defs] closeConnection_def [bind_defs] closeUDP_def [bind_defs]
  InjectPacket_def [bind_defs] SetNetstackConn_def [bind_defs] ClearNetstackConn_def [bind_defs] CloseSocket_def [bind_defs]
  Rebind_def [bind_defs] SetMagicResponseCallback_def [bind_defs] OpenBind_def [bind_defs] WriteToUDP_def [bind_defs]
  putWire_def [bind_defs] receiveNetstack_def [bind_defs]

definition bind_inv :: "shared_bind \<Rightarrow> bool" where
  "bind_inv b \<longleftrightarrow> (sb_closeChan b \<longleftrightarrow> sb_closed b) \<and>
     (sb_closed b \<longrightarrow> sb_udpConn b = None) \<and>
     (sb_udpConn b = None \<longrightarrow> sb_closed b \<or> sb_rebinding b) \<and>
     length (sb_netstackPackets b) \<le> netstackPacketsCap"

lemma sendAll_wire:
  "\<exists>ws. snd (sendAll werr w dest bufs b) = b\<lparr>sb_wire := sb_wire b @ ws\<rparr>"
proof (induction bufs arbitrary: b)
  case Nil
  show ?case by (intro exI [of _ "[]"]) simp
next
  case (Cons buf bufs)
  show ?case
  proof (cases "werr w buf dest")
    case None
    obtain ws where "snd (sendAll werr w dest bufs (putWire w buf dest b))
        = (putWire w buf dest b)\<lparr>sb_wire := sb_wire (putWire w buf dest b) @ ws\<rparr>" using Cons.IH by blast
    then show ?thesis using None by (intro exI [of _ "(w, buf, dest) # ws"]) (simp add: putWire_def)
  next
    case (Some e)
    then show ?thesis by (intro exI [of _ "[(w, buf, dest)]"]) (simp add: putWire_def)
  qed
qed

lemma SendBind_wire: "\<exists>ws. snd (SendBind werr bufs ep b) = b\<lparr>sb_wire := sb_wire b @ ws\<rparr>"
proof -
  have "\<exists>ws. b = b\<lparr>sb_wire := sb_wire b @ ws\<rparr>" by (intro exI [of _ "[]"]) simp
  then show ?thesis using sendAll_wire [of werr] by (auto simp: SendBind_def Let_def split: option.split)
qed

text \<open>A magic packet only adds to what was written and called.\<close>

lemma handleMagicPacket_logs:
  "\<exists>ws cs. snd (handleMagicPacket d a b) = b\<lparr>sb_wire := sb_wire b @ ws, sb_called := sb_called b @ cs\<rparr>"
proof -
  have "\<exists>ws cs. b = b\<lparr>sb_wire := sb_wire b @ ws, sb_called := sb_called b @ cs\<rparr>"
    by (intro exI [of _ "[]"]) simp
  moreover have "\<exists>ws cs. b\<lparr>sb_wire := sb_wire b @ [x]\<rparr> = b\<lparr>sb_wire := sb_wire b @ ws, sb_called := sb_called b @ cs\<rparr>" for x
    by (intro exI [of _ "[x]"] exI [of _ "[]"]) simp
  moreover have "\<exists>ws cs. b\<lparr>sb_called := sb_called b @ [x]\<rparr> = b\<lparr>sb_wire := sb_wire b @ ws, sb_called := sb_called b @ cs\<rparr>" for x
    by (intro exI [of _ "[]"] exI [of _ "[x]"]) simp
  ultimately show ?thesis
    by (auto simp: handleMagicPacket_def Let_def putWire_def split: option.split)
qed

definition same_state :: "shared_bind \<Rightarrow> shared_bind \<Rightarrow> bool" where
  "same_state b b' \<longleftrightarrow> (\<exists>ws cs. b' = b\<lparr>sb_wire := ws, sb_called := cs\<rparr>)"

lemma same_state_trans [trans]: "same_state a b \<Longrightarrow> same_state b c \<Longrightarrow> same_state a c"
  unfolding same_state_def by (elim exE) (simp, blast)

lemma same_state_refl [simp]: "same_state b b"
  unfolding same_state_def by (intro exI [of _ "sb_wire b"] exI [of _ "sb_called b"]) simp

lemma same_handleMagicPacket: "handleMagicPacket d a b = (m, b') \<Longrightarrow> same_state b b'"
  using handleMagicPacket_logs [of d a b] unfolding same_state_def by auto

lemma same_batchLoop: "batchLoop i ms w s b = (w', s', b') \<Longrightarrow> same_state b b'"
proof (induction i ms w s b rule: batchLoop.induct)
  case (2 i n addr ms w s b)
  show ?case
  proof (cases "n = 0")
    case False
    obtain m b1 where mb: "(case addr of None \<Rightarrow> (False, b) | Some a \<Rightarrow> handleMagicPacket (take n (sl_bufs s ! i)) addr b) = (m, b1)"
      by fastforce
    then have "same_state b b1" by (auto split: option.splits intro: same_handleMagicPacket)
    moreover have "same_state b1 b'" using 2 False mb by (cases m) (auto simp: Let_def)
    ultimately show ?thesis by (rule same_state_trans)
  qed (use 2 in simp)
qed simp

lemma same_Batch: "receiveIPv4Batch rd s b = (r, s', b') \<Longrightarrow> same_state b b'"
  by (auto simp: receiveIPv4Batch_def Let_def split: sum.splits prod.splits intro: same_batchLoop)

lemma same_Simple: "receiveIPv4Simple rs s b = Some (r, s', b') \<Longrightarrow> same_state b b'"
proof (induction rs arbitrary: s b)
  case (Cons x rs)
  then show ?case
    by (auto simp: Let_def split: sum.splits prod.splits if_splits dest: same_handleMagicPacket intro: same_state_trans)
qed simp

lemma same_makeReceiveSocket: "makeReceiveSocket linux inp pc b = Some (pc', b') \<Longrightarrow> same_state b b'"
  by (auto simp: makeReceiveSocket_def split: recv_pc.splits recv_input.splits option.splits sum.splits if_splits
      intro: same_Batch same_Simple)

lemma same_state_fields:
  assumes "same_state b b'"
  shows "sb_closed b' = sb_closed b" "sb_rebinding b' = sb_rebinding b" "sb_closeChan b' = sb_closeChan b"
    "sb_udpConn b' = sb_udpConn b" "sb_netstackPackets b' = sb_netstackPackets b" "sb_refCount b' = sb_refCount b"
    "sb_netstackEndpoints b' = sb_netstackEndpoints b" "sb_netstackConn b' = sb_netstackConn b"
  using assms unfolding same_state_def by auto

lemma bindCall_inv: "bind_inv b \<Longrightarrow> bind_inv (bindCall linux ideal c b)"
proof (cases c)
  case (CSend we ds ep)
  assume "bind_inv b"
  moreover obtain ws where "bindCall linux ideal c b = b\<lparr>sb_wire := sb_wire b @ ws\<rparr>"
    using SendBind_wire [of we ds ep b] CSend by (auto simp: bindCall_def)
  ultimately show ?thesis by (simp add: bind_inv_def)
qed (auto simp: bind_inv_def bindCall_def bind_defs Let_def split: option.splits prod.splits list.splits if_splits)

lemma bindCall_closed: "sb_closed b \<Longrightarrow> sb_closed (bindCall linux ideal c b)"
proof (cases c)
  case (CSend we ds ep)
  assume "sb_closed b"
  moreover obtain ws where "bindCall linux ideal c b = b\<lparr>sb_wire := sb_wire b @ ws\<rparr>"
    using SendBind_wire [of we ds ep b] CSend by (auto simp: bindCall_def)
  ultimately show ?thesis by simp
qed (auto simp: bindCall_def bind_defs Let_def split: option.splits prod.splits list.splits)

lemma bindCall_rebinding: "sb_rebinding b \<Longrightarrow> (\<And>n. c \<noteq> CRebind n) \<Longrightarrow> sb_rebinding (bindCall linux ideal c b)"
proof (cases c)
  case (CSend we ds ep)
  assume "sb_rebinding b"
  moreover obtain ws where "bindCall linux ideal c b = b\<lparr>sb_wire := sb_wire b @ ws\<rparr>"
    using SendBind_wire [of we ds ep b] CSend by (auto simp: bindCall_def)
  ultimately show ?thesis by simp
qed (auto simp: bindCall_def bind_defs Let_def split: option.splits prod.splits list.splits)

interpretation bind_calls: guarded_system "\<lambda>b c. bindCall linux ideal c b" "\<lambda>_ _. True" bind_inv for linux ideal
  by unfold_locales (rule bindCall_inv)

definition sys_inv :: "bind_sys \<Rightarrow> bool" where
  "sys_inv y \<longleftrightarrow> bind_inv (sy_bind y) \<and> (InWait \<in> set (sy_recv y) \<longrightarrow> sb_rebinding (sy_bind y))"

lemma same_state_inv: "same_state b b' \<Longrightarrow> bind_inv b \<Longrightarrow> bind_inv b'"
  by (simp add: bind_inv_def same_state_fields)

lemma broadcast_wakes: "InWait \<notin> set (broadcast rs)"
  by (auto simp: broadcast_def)

lemma bind_step_inv: "bind_step linux ideal y z \<Longrightarrow> sys_inv y \<Longrightarrow> sys_inv z"
proof (induction rule: bind_step.induct)
  case (step_call c y)
  then show ?case using bindCall_inv bindCall_rebinding [OF _ step_call.hyps] by (simp add: sys_inv_def)
next
  case (step_rebind n y e b')
  then have "b' = bindCall linux ideal (CRebind n) (sy_bind y)" by (simp add: bindCall_def)
  then have "bind_inv b'" using step_rebind.prems bindCall_inv by (simp add: sys_inv_def)
  moreover have "e \<noteq> None \<longrightarrow> b' = sy_bind y" using step_rebind.hyps by (auto simp: Rebind_def split: option.splits if_splits)
  ultimately show ?case using step_rebind.prems broadcast_wakes by (auto simp: sys_inv_def)
next
  case (step_recv i y inp pc b')
  have same: "same_state (sy_bind y) b'" by (rule same_makeReceiveSocket [OF step_recv.hyps(2)])
  have "pc = InWait \<longrightarrow> sb_rebinding (sy_bind y)"
    using step_recv.hyps(2)
    by (auto simp: makeReceiveSocket_def split: recv_pc.splits recv_input.splits option.splits sum.splits if_splits)
  then show ?case
    using step_recv.prems same_state_inv [OF same] same_state_fields [OF same] set_update_subset_insert [of "sy_recv y" i pc]
    by (auto simp: sys_inv_def)
qed (auto simp: sys_inv_def)

lemma bind_reach_inv: "bind_reach linux ideal y \<Longrightarrow> sys_inv y"
proof (induction rule: bind_reach.induct)
  case (reach_new conn b)
  then show ?case by (auto simp: sys_inv_def bind_inv_def NewBind_def split: prod.splits)
qed (rule bind_step_inv)

section \<open>Batches\<close>

lemma handleMagicPacket_IsMagic: "fst (handleMagicPacket d a b) = IsMagicPacket d"
  by (simp add: handleMagicPacket_def IsMagicPacket_def Let_def)

definition passed :: "bytes \<times> addr_port option \<Rightarrow> bool" where
  "passed m \<longleftrightarrow> fst m \<noteq> [] \<and> \<not> (snd m \<noteq> None \<and> IsMagicPacket (fst m))"

definition slot_holds :: "slots \<Rightarrow> nat \<Rightarrow> bytes \<times> addr_port option \<Rightarrow> bool" where
  "slot_holds s j m \<longleftrightarrow> take (sl_sizes s ! j) (sl_bufs s ! j) = fst m \<and>
     (\<forall>a. snd m = Some a \<longrightarrow> sl_eps s ! j = Some (StdNetEndpoint (unmapAddrPort a)))"

definition slots_ok :: "nat \<Rightarrow> nat \<Rightarrow> slots \<Rightarrow> bool" where
  "slots_ok K L s \<longleftrightarrow> length (sl_bufs s) = K \<and> length (sl_sizes s) = K \<and> length (sl_eps s) = K \<and>
     (\<forall>j<K. length (sl_bufs s ! j) = L)"

lemma length_go_copy: "length src \<le> length dst \<Longrightarrow> length (go_copy dst src) = length dst"
  by (simp add: go_copy_def)

lemma take_go_copy: "length src \<le> length dst \<Longrightarrow> take (length src) (go_copy dst src) = src"
  by (simp add: go_copy_def)

text \<open>One message is written to slot \<open>w\<close>, at or before its own position.\<close>

definition writeSlot :: "nat \<Rightarrow> nat \<Rightarrow> bytes \<times> addr_port option \<Rightarrow> slots \<Rightarrow> slots" where
  "writeSlot i w m s = putSlot w (length (fst m)) (snd m)
     (if w \<noteq> i then s\<lparr>sl_bufs := (sl_bufs s)[w := go_copy (sl_bufs s ! w) (fst m)]\<rparr> else s)"

lemma writeSlot_spec:
  assumes "slots_ok K L s" "w \<le> i" "i < K" "take (length (fst m)) (sl_bufs s ! i) = fst m" "length (fst m) \<le> L"
  shows "slots_ok K L (writeSlot i w m s)" "slot_holds (writeSlot i w m s) w m"
    and "j \<noteq> w \<Longrightarrow> sl_bufs (writeSlot i w m s) ! j = sl_bufs s ! j"
    and "j \<noteq> w \<Longrightarrow> slot_holds (writeSlot i w m s) j n = slot_holds s j n"
proof -
  have len: "length (sl_bufs s ! w) = L" "w < K" using assms by (auto simp: slots_ok_def)
  show "slots_ok K L (writeSlot i w m s)"
    using assms len by (auto simp: slots_ok_def writeSlot_def putSlot_def nth_list_update length_go_copy split: option.split)
  show "slot_holds (writeSlot i w m s) w m"
    using assms len take_go_copy [of "fst m" "sl_bufs s ! w"]
    by (auto simp: slots_ok_def slot_holds_def writeSlot_def putSlot_def split: option.split)
  show "j \<noteq> w \<Longrightarrow> sl_bufs (writeSlot i w m s) ! j = sl_bufs s ! j"
    by (auto simp: writeSlot_def putSlot_def split: option.split)
  show "j \<noteq> w \<Longrightarrow> slot_holds (writeSlot i w m s) j n = slot_holds s j n"
    by (auto simp: slot_holds_def writeSlot_def putSlot_def split: option.split)
qed

lemma batchLoop_cons:
  assumes "take (length d) (sl_bufs s ! i) = d"
  shows "batchLoop i ((length d, a) # ms) w s b =
    (let b' = (if d \<noteq> [] \<and> a \<noteq> None then snd (handleMagicPacket d a b) else b)
     in if passed (d, a) then batchLoop (Suc i) ms (Suc w) (writeSlot i w (d, a) s) b'
        else batchLoop (Suc i) ms w s b')"
  using assms handleMagicPacket_IsMagic [of d a b]
  by (cases a) (auto simp: passed_def writeSlot_def Let_def split: prod.split)

lemma batchLoop_spec:
  assumes "slots_ok K L s" "w \<le> i" "i + length ds \<le> K"
    and "\<forall>k<length ds. take (length (fst (ds ! k))) (sl_bufs s ! (i + k)) = fst (ds ! k) \<and> length (fst (ds ! k)) \<le> L"
    and "batchLoop i (map (\<lambda>(d, a). (length d, a)) ds) w s b = (w', s', b')"
  shows "w' = w + length (filter passed ds) \<and> (\<forall>j<w. \<forall>m. slot_holds s' j m = slot_holds s j m) \<and>
    (\<forall>j<length (filter passed ds). slot_holds s' (w + j) (filter passed ds ! j))"
  using assms
proof (induction ds arbitrary: i w s b)
  case (Cons m ds)
  obtain d a where m: "m = (d, a)" by fastforce
  have d: "take (length d) (sl_bufs s ! i) = d" "length d \<le> L" using Cons.prems(4) by (auto simp: m dest: spec [of _ 0])
  have nxt: "take (length (fst (ds ! k))) (sl_bufs s ! (Suc i + k)) = fst (ds ! k) \<and> length (fst (ds ! k)) \<le> L" if "k < length ds" for k
    using Cons.prems(4) [rule_format, of "Suc k"] that by simp
  define b1 where "b1 = (if d \<noteq> [] \<and> a \<noteq> None then snd (handleMagicPacket d a b) else b)"
  note step = Cons.prems(5) [simplified m list.map prod.case batchLoop_cons [OF d(1)] Let_def, folded b1_def]
  show ?case
  proof (cases "passed m")
    case False
    then have run: "batchLoop (Suc i) (map (\<lambda>(d, a). (length d, a)) ds) w s b1 = (w', s', b')" using step by (simp add: m)
    have "w \<le> Suc i" "Suc i + length ds \<le> K" using Cons.prems by auto
    then show ?thesis using Cons.IH [OF Cons.prems(1) _ _ _ run] nxt False by simp
  next
    case True
    let ?s = "writeSlot i w m s"
    have run: "batchLoop (Suc i) (map (\<lambda>(d, a). (length d, a)) ds) (Suc w) ?s b1 = (w', s', b')" using step True by (simp add: m)
    note ws = writeSlot_spec [OF Cons.prems(1,2), of m]
    have ok: "slots_ok K L ?s" "slot_holds ?s w m" using ws(1,2) Cons.prems(3) d by (auto simp: m)
    have "take (length (fst (ds ! k))) (sl_bufs ?s ! (Suc i + k)) = fst (ds ! k) \<and> length (fst (ds ! k)) \<le> L" if "k < length ds" for k
      using nxt [OF that] ws(3) [of "Suc i + k"] Cons.prems(2,3) d by (simp add: m)
    then have IH: "w' = Suc w + length (filter passed ds) \<and> (\<forall>j<Suc w. \<forall>m. slot_holds s' j m = slot_holds ?s j m) \<and>
        (\<forall>j<length (filter passed ds). slot_holds s' (Suc w + j) (filter passed ds ! j))"
      using Cons.IH [OF ok(1) _ _ _ run] Cons.prems(2,3) by simp
    have "slot_holds s' (w + j) (filter passed (m # ds) ! j)" if "j < length (filter passed (m # ds))" for j
      using IH ok(2) True that by (cases j) (auto simp: m)
    moreover have "slot_holds s' j n = slot_holds s j n" if "j < w" for j n
      using IH ws(4) [of j n] that Cons.prems(3) d by (cases n) (simp add: m)
    ultimately show ?thesis using IH True by simp
  qed
qed simp

lemma fillBufs_nth:
  "length ds \<le> length bufs \<Longrightarrow> j < length bufs \<Longrightarrow>
     fillBufs ds bufs ! j = (if j < length ds then go_copy (bufs ! j) (fst (ds ! j)) else bufs ! j)"
  by (simp add: fillBufs_def nth_append)

lemma length_fillBufs [simp]: "length ds \<le> length bufs \<Longrightarrow> length (fillBufs ds bufs) = length bufs"
  by (simp add: fillBufs_def)

section \<open>The binary form of an endpoint\<close>

lemma foldl_be:
  "foldl (\<lambda>a (c :: byte). a * 256 + unat c) acc (map (\<lambda>i. word_of_nat (x div 256 ^ i mod 256)) (rev [0..<n]))
     = acc * 256 ^ n + x mod 256 ^ n"
proof (induction n arbitrary: acc)
  case (Suc n)
  have "unat (word_of_nat (x div 256 ^ n mod 256) :: byte) = x div 256 ^ n mod 256"
    by (simp add: unat_of_nat)
  then show ?case using Suc [of "acc * 256 + x div 256 ^ n mod 256"]
    by (simp add: mod_mult2_eq [of x "256 ^ n" 256, simplified mult.commute] algebra_simps)
qed simp

lemma of_be_be_bytes: "LENGTH('a) \<le> 8 * n \<Longrightarrow> of_be (be_bytes n w) = (w :: 'a::len word)"
proof -
  assume n: "LENGTH('a) \<le> 8 * n"
  have "unat w < 2 ^ LENGTH('a)" by simp
  also have "(2 :: nat) ^ LENGTH('a) \<le> 2 ^ (8 * n)" using n by (rule power_increasing) simp
  finally have "unat w mod 256 ^ n = unat w" by (simp add: power_mult)
  then show ?thesis by (simp add: of_be_def be_bytes_def foldl_be)
qed

lemma le_port_bytes: "le_port (ucast p) (ucast (drop_bit 8 p)) = p"
  by (rule bit_word_eqI) (auto simp: le_port_def bit_simps)

lemma length_be_bytes [simp]: "length (be_bytes n w) = n"
  by (simp add: be_bytes_def)

section \<open>References\<close>

text \<open>The number of references the calls leave, and whether it ever dropped to zero.\<close>

definition netRefs :: "bind_call list \<Rightarrow> int" where
  "netRefs cs = 1 + (\<Sum>c\<leftarrow>cs. case c of CAddRef \<Rightarrow> 1 | CRelease e \<Rightarrow> -1 | _ \<Rightarrow> 0)"

definition refsExhausted :: "bind_call list \<Rightarrow> bool" where
  "refsExhausted cs \<longleftrightarrow> (\<exists>n\<le>length cs. netRefs (take n cs) \<le> 0)"

lemma netRefs_snoc: "netRefs (cs @ [c]) = netRefs cs + (case c of CAddRef \<Rightarrow> 1 | CRelease e \<Rightarrow> -1 | _ \<Rightarrow> 0)"
  by (simp add: netRefs_def)

lemma netRefs_bound: "netRefs cs \<le> 1 + int (length cs)"
  by (induction cs rule: rev_induct) (auto simp: netRefs_snoc netRefs_def split: bind_call.split)

lemma refsExhausted_snoc: "refsExhausted (cs @ [c]) \<longleftrightarrow> refsExhausted cs \<or> netRefs (cs @ [c]) \<le> 0"
proof -
  have old: "(\<exists>n\<le>length cs. netRefs (take n (cs @ [c])) \<le> 0) \<longleftrightarrow> refsExhausted cs"
    unfolding refsExhausted_def by (intro ex_cong conj_cong) auto
  have "refsExhausted (cs @ [c]) \<longleftrightarrow> (\<exists>n\<le>length cs. netRefs (take n (cs @ [c])) \<le> 0) \<or> netRefs (take (Suc (length cs)) (cs @ [c])) \<le> 0"
    unfolding refsExhausted_def using le_Suc_eq [of _ "length cs"] by auto
  then show ?thesis unfolding old by simp
qed

lemma sint_small: "0 \<le> x \<Longrightarrow> x < 2 ^ 31 \<Longrightarrow> sint (word_of_int x :: 32 word) = x"
  by (simp add: sint_sbintrunc' signed_take_bit_int_eq_self)

lemma bindCall_refCount:
  "sb_refCount (bindCall linux ideal c b) = (case c of
     CAddRef \<Rightarrow> sb_refCount b + 1
   | CRelease e \<Rightarrow> (if sint (sb_refCount b - 1) < 0 then 0 else sb_refCount b - 1)
   | _ \<Rightarrow> sb_refCount b)"
proof (cases c)
  case (CSend we ds ep)
  obtain ws where "bindCall linux ideal c b = b\<lparr>sb_wire := sb_wire b @ ws\<rparr>"
    using SendBind_wire [of we ds ep b] CSend by (auto simp: bindCall_def)
  then show ?thesis using CSend by simp
qed (auto simp: bindCall_def bind_defs Let_def split: option.splits prod.splits list.splits)

lemma bindCall_opens:
  assumes "\<not> sb_closed b"
  shows "sb_closed (bindCall linux ideal c b) \<longleftrightarrow> (\<exists>e. c = CRelease e) \<and> sb_refCount b = 1"
proof (cases c)
  case (CSend we ds ep)
  obtain ws where "bindCall linux ideal c b = b\<lparr>sb_wire := sb_wire b @ ws\<rparr>"
    using SendBind_wire [of we ds ep b] CSend by (auto simp: bindCall_def)
  then show ?thesis using CSend assms by simp
qed (use assms in \<open>auto simp: bindCall_def bind_defs Let_def split: option.splits prod.splits list.splits\<close>)

lemma refs_tracked:
  assumes "NewBind (Some conn) = Inr b0" "length cs < 2 ^ 31 - 2"
  shows "(refsExhausted cs \<longleftrightarrow> sb_closed (foldl (\<lambda>b c. bindCall linux ideal c b) b0 cs)) \<and>
    (\<not> refsExhausted cs \<longrightarrow> sb_refCount (foldl (\<lambda>b c. bindCall linux ideal c b) b0 cs) = word_of_int (netRefs cs))"
  using assms(2)
proof (induction cs rule: rev_induct)
  case Nil
  then show ?case using assms(1) by (auto simp: refsExhausted_def netRefs_def NewBind_def split: prod.splits)
next
  case (snoc c cs)
  let ?b = "foldl (\<lambda>b c. bindCall linux ideal c b) b0 cs"
  show ?case
  proof (cases "refsExhausted cs")
    case True
    then show ?thesis using snoc bindCall_closed by (simp add: refsExhausted_snoc)
  next
    case False
    then have pos: "netRefs cs > 0" by (auto simp: refsExhausted_def)
    have small: "netRefs cs < 2 ^ 31" using netRefs_bound [of cs] snoc.prems by simp
    have IH: "\<not> sb_closed ?b" "sb_refCount ?b = word_of_int (netRefs cs)" using snoc False by auto
    have one: "word_of_int (netRefs cs) = (1 :: 32 word) \<longleftrightarrow> netRefs cs = 1"
      using pos small sint_small [of "netRefs cs"] by fastforce
    have closed: "sb_closed (bindCall linux ideal c ?b) \<longleftrightarrow> (\<exists>e. c = CRelease e) \<and> netRefs cs = 1"
      unfolding bindCall_opens [OF IH(1)] IH(2) one ..
    have nonneg: "\<not> sint (word_of_int (netRefs cs) - 1 :: 32 word) < 0"
      using sint_small [of "netRefs cs - 1"] pos small by simp
    have count: "sb_refCount (bindCall linux ideal c ?b) = word_of_int (netRefs (cs @ [c]))"
      unfolding bindCall_refCount IH(2) netRefs_snoc by (cases c) (simp_all add: nonneg)
    have "netRefs (cs @ [c]) \<le> 0 \<longleftrightarrow> (\<exists>e. c = CRelease e) \<and> netRefs cs = 1"
      unfolding netRefs_snoc using pos by (cases c) auto
    then show ?thesis using False closed count by (simp add: refsExhausted_snoc)
  qed
qed

lemma endpoints_kept:
  assumes "ap \<in> set (sb_netstackEndpoints b)" "c \<noteq> CClearNetstack" "\<not> sb_closed (bindCall linux ideal c b)"
  shows "ap \<in> set (sb_netstackEndpoints (bindCall linux ideal c b))"
proof (cases c)
  case (CSend we ds ep)
  obtain ws where "bindCall linux ideal c b = b\<lparr>sb_wire := sb_wire b @ ws\<rparr>"
    using SendBind_wire [of we ds ep b] CSend by (auto simp: bindCall_def)
  then show ?thesis using assms by simp
qed (use assms in \<open>auto simp: bindCall_def bind_defs Let_def split: option.splits prod.splits list.splits if_splits\<close>)

lemma foldl_closed: "sb_closed b \<Longrightarrow> sb_closed (foldl (\<lambda>b c. bindCall linux ideal c b) b cs)"
  by (rule foldl_inv) (simp_all add: bindCall_closed)

lemma endpoints_kept_run:
  "ap \<in> set (sb_netstackEndpoints b) \<Longrightarrow> CClearNetstack \<notin> set cs \<Longrightarrow>
   \<not> sb_closed (foldl (\<lambda>b c. bindCall linux ideal c b) b cs) \<Longrightarrow>
   ap \<in> set (sb_netstackEndpoints (foldl (\<lambda>b c. bindCall linux ideal c b) b cs))"
proof (induction cs arbitrary: b)
  case (Cons c cs)
  have "\<not> sb_closed (bindCall linux ideal c b)" using Cons.prems(3) foldl_closed by fastforce
  then have "ap \<in> set (sb_netstackEndpoints (bindCall linux ideal c b))" using endpoints_kept [of ap b c linux ideal] Cons.prems(1,2) by auto
  then show ?case using Cons by simp
qed simp

lemma sendAll_ok:
  "(\<And>d. werr w d dest = None) \<Longrightarrow>
   sendAll werr w dest ds b = (None, b\<lparr>sb_wire := sb_wire b @ map (\<lambda>d. (w, d, dest)) ds\<rparr>)"
  by (induction ds arbitrary: b) (simp_all add: putWire_def)

definition exBind :: shared_bind where
  "exBind = (case NewBind (Some (7, 51820)) of Inr b \<Rightarrow> b | Inl e \<Rightarrow> undefined)"

lemma exBind_new: "NewBind (Some (7, 51820)) = Inr exBind"
  by (simp add: exBind_def NewBind_def)

text \<open>A receiver that waits for a rebind of the example bind.\<close>

definition exWaiting :: bind_sys where
  "exWaiting = \<lparr>sy_bind = snd (CloseSocket exBind), sy_recv = [InWait]\<rparr>"

lemma exWaiting_reach: "bind_reach linux ideal exWaiting"
proof -
  have b: "\<not> sb_closed (snd (CloseSocket exBind))" "sb_rebinding (snd (CloseSocket exBind))" "sb_udpConn (snd (CloseSocket exBind)) = None"
    by (simp_all add: exBind_def NewBind_def CloseSocket_def closeUDP_def)
  have "bind_reach linux ideal \<lparr>sy_bind = exBind, sy_recv = []\<rparr>" by (rule reach_new [OF exBind_new])
  from reach_step [OF this step_receive] have "bind_reach linux ideal \<lparr>sy_bind = exBind, sy_recv = [AtHead]\<rparr>" by simp
  from reach_step [OF this step_call, of CCloseSocket]
  have r: "bind_reach linux ideal \<lparr>sy_bind = snd (CloseSocket exBind), sy_recv = [AtHead]\<rparr>" by (simp add: bindCall_def)
  have go: "bind_reach linux ideal \<lparr>sy_bind = snd (CloseSocket exBind), sy_recv = [pc']\<rparr>"
    if "bind_reach linux ideal \<lparr>sy_bind = snd (CloseSocket exBind), sy_recv = [pc]\<rparr>"
      "makeReceiveSocket linux inp pc (snd (CloseSocket exBind)) = Some (pc', snd (CloseSocket exBind))" for pc pc' inp
    using reach_step [OF that(1) step_recv [of 0]] that(2) by simp
  have "bind_reach linux ideal \<lparr>sy_bind = snd (CloseSocket exBind), sy_recv = [AtWaitTest]\<rparr>"
    by (rule go [OF r]) (simp add: makeReceiveSocket_def b)
  then show ?thesis unfolding exWaiting_def by (rule go) (simp add: makeReceiveSocket_def b)
qed

definition exClosed :: bind_sys where
  "exClosed = exWaiting\<lparr>sy_bind := snd (Release None (sy_bind exWaiting))\<rparr>"

lemma exClosed_reach: "bind_reach linux ideal exClosed"
  using reach_step [OF exWaiting_reach step_call, of "CRelease None" linux ideal] by (simp add: exClosed_def bindCall_def)

text \<open>On a closed bind nothing wakes a waiting receiver.\<close>

lemma closed_wait_step:
  "bind_step linux ideal y z \<Longrightarrow> sb_closed (sy_bind y) \<Longrightarrow> i < length (sy_recv y) \<Longrightarrow> sy_recv y ! i = InWait \<Longrightarrow>
   sb_closed (sy_bind z) \<and> i < length (sy_recv z) \<and> sy_recv z ! i = InWait"
proof (induction rule: bind_step.induct)
  case (step_rebind n y e b')
  then have "e \<noteq> None" "b' = sy_bind y" by (auto simp: Rebind_def split: option.splits)
  then show ?case using step_rebind.prems by auto
next
  case (step_recv j y inp pc b')
  then have "j \<noteq> i" by (auto simp: makeReceiveSocket_def)
  then show ?case using step_recv same_state_fields [OF same_makeReceiveSocket [OF step_recv.hyps(2)]] by simp
qed (simp_all add: bindCall_closed nth_append)

lemma closed_wait_steps:
  "bind_steps linux ideal y z \<Longrightarrow> sb_closed (sy_bind y) \<Longrightarrow> i < length (sy_recv y) \<Longrightarrow> sy_recv y ! i = InWait \<Longrightarrow>
   sb_closed (sy_bind z) \<and> i < length (sy_recv z) \<and> sy_recv z ! i = InWait"
  by (induction rule: bind_steps.induct) (auto dest: closed_wait_step)

section \<open>Properties\<close>

text \<open>
  C9. A batch read passes exactly the datagrams WireGuard should see.  The compaction in place never overwrites a datagram
  that is still to be read: the slots hold, in order, the datagrams that are not empty and not connectivity tests,
  each with the unmapped address of its sender.
\<close>

theorem receiveIPv4Batch_filters:
  assumes ok: "slots_ok K L s" and read: "readBatch (min K (sb_ipv4Msgs b)) = Inr ds"
    and fit: "length ds \<le> min K (sb_ipv4Msgs b)" "\<forall>m\<in>set ds. length (fst m) \<le> L"
  shows "\<exists>s' b'. receiveIPv4Batch readBatch s b = (Inr (length (filter passed ds)), s', b') \<and>
    (\<forall>j<length (filter passed ds). slot_holds s' j (filter passed ds ! j))"
proof -
  let ?s = "s\<lparr>sl_bufs := fillBufs ds (sl_bufs s)\<rparr>"
  have K: "length (sl_bufs s) = K" "\<And>j. j < K \<Longrightarrow> length (sl_bufs s ! j) = L" using ok by (auto simp: slots_ok_def)
  have L: "length (fst (ds ! k)) \<le> L" if "k < length ds" for k using fit(2) that by simp
  have ms: "map2 (\<lambda>(d, a) buf. (min (length d) (length buf), a)) ds (sl_bufs s) = map (\<lambda>(d, a). (length d, a)) ds"
    using fit(1) K L by (intro nth_equalityI) (auto simp: split_beta)
  have ok': "slots_ok K L ?s"
    using ok fit(1) L by (auto simp: slots_ok_def fillBufs_nth length_go_copy)
  have data: "\<forall>k<length ds. take (length (fst (ds ! k))) (sl_bufs ?s ! (0 + k)) = fst (ds ! k) \<and> length (fst (ds ! k)) \<le> L"
    using fit(1) K L by (auto simp: fillBufs_nth take_go_copy)
  obtain w s' b' where run: "batchLoop 0 (map (\<lambda>(d, a). (length d, a)) ds) 0 ?s b = (w, s', b')" by (metis prod_cases3)
  have "receiveIPv4Batch readBatch s b = (Inr w, s', b')"
    using read run by (simp add: receiveIPv4Batch_def K ms)
  then show ?thesis using batchLoop_spec [OF ok' _ _ data run] fit(1) by simp
qed

theorem receiveIPv4Batch_filters_witness:
  "\<exists>s' b'. receiveIPv4Batch (\<lambda>n. Inr [([], None), (MagicTestRequest @ replicate 8 5, Some (IP4 9, 4)), ([1, 2], Some (IP4 9, 4))])
       \<lparr>sl_bufs = replicate 3 (replicate 40 0), sl_sizes = [0, 0, 0], sl_eps = [None, None, None]\<rparr> (exBind\<lparr>sb_ipv4Msgs := 128\<rparr>)
     = (Inr 1, s', b') \<and> slot_holds s' 0 ([1, 2], Some (IP4 9, 4))"
proof -
  let ?ds = "[([], None), (MagicTestRequest @ replicate 8 5, Some (IP4 9, 4 :: 16 word)), ([1, 2], Some (IP4 9, 4))] :: (bytes \<times> addr_port option) list"
  have len: "length MagicTestRequest = 17" "length MagicTestResponse = 17"
    by (simp_all add: MagicTestRequest_def MagicTestResponse_def ascii_def)
  have keep: "filter passed ?ds = [([1, 2], Some (IP4 9, 4))]"
    by (simp add: passed_def IsMagicPacket_def len MagicTestRequestLen_def MagicTestResponseLen_def MagicPacketDataLen_def)
  have ok: "slots_ok 3 40 \<lparr>sl_bufs = replicate 3 (replicate 40 0), sl_sizes = [0, 0, 0], sl_eps = [None, None, None]\<rparr>"
    by (simp add: slots_ok_def)
  have "sb_ipv4Msgs (exBind\<lparr>sb_ipv4Msgs := 128\<rparr>) = 128" by simp
  from receiveIPv4Batch_filters [OF ok, where readBatch = "\<lambda>n. Inr ?ds" and ds = ?ds and b = "exBind\<lparr>sb_ipv4Msgs := 128\<rparr>", unfolded keep this]
  show ?thesis by (simp add: len)
qed

text \<open>
  A connectivity test makes a round trip: a request is answered on the socket with a response that carries its eight
  bytes, the response is recognised by the other side, whose callback gets the same bytes and the unmapped sender, and
  neither packet reaches WireGuard.
\<close>

theorem magic_roundtrip:
  assumes "length echo = MagicPacketDataLen" "sb_udpConn b = Some c" "sb_magicResponseCallback b'"
  shows "\<exists>rsp. handleMagicPacket (MagicTestRequest @ echo) (Some a) b = (True, b\<lparr>sb_wire := sb_wire b @ [(Socket c, rsp, a)]\<rparr>) \<and>
    handleMagicPacket rsp (Some a') b' = (True, b'\<lparr>sb_called := sb_called b' @ [(unmapAddrPort a', echo)]\<rparr>) \<and>
    IsMagicPacket (MagicTestRequest @ echo) \<and> IsMagicPacket rsp"
proof -
  have len: "length MagicTestRequest = 17" "length MagicTestResponse = 17"
    by (simp_all add: MagicTestRequest_def MagicTestResponse_def ascii_def)
  have "MagicTestResponse \<noteq> MagicTestRequest" by (simp add: MagicTestRequest_def MagicTestResponse_def ascii_def)
  then show ?thesis
    using assms len by (intro exI [of _ "MagicTestResponse @ echo"])
      (simp add: handleMagicPacket_def IsMagicPacket_def MagicTestRequestLen_def MagicTestResponseLen_def putWire_def)
qed

theorem magic_roundtrip_witness:
  "\<exists>rsp. handleMagicPacket (MagicTestRequest @ [1, 2, 3, 4, 5, 6, 7, 8]) (Some (IP4 9, 4)) exBind
       = (True, exBind\<lparr>sb_wire := [(Socket 7, rsp, (IP4 9, 4))]\<rparr>) \<and>
     handleMagicPacket rsp (Some (IP4 10, 5)) (exBind\<lparr>sb_magicResponseCallback := True\<rparr>)
       = (True, exBind\<lparr>sb_magicResponseCallback := True, sb_called := [((IP4 10, 5), [1, 2, 3, 4, 5, 6, 7, 8])]\<rparr>)"
proof -
  have b: "sb_udpConn exBind = Some 7" "sb_wire exBind = []" "sb_called exBind = []" by (simp_all add: exBind_def NewBind_def)
  show ?thesis
    using magic_roundtrip [of "[1, 2, 3, 4, 5, 6, 7, 8]" exBind 7 "exBind\<lparr>sb_magicResponseCallback := True\<rparr>" "(IP4 9, 4)" "(IP4 10, 5)"] b
    by (auto simp: MagicPacketDataLen_def unmapAddrPort_def unmap_def)
qed

text \<open>
  C24. The socket is closed by the release that drops the last reference and by nothing else: after any sequence of fewer
  than \<open>2 ^ 31 - 2\<close> calls the bind is closed exactly if the references taken, counting the creator's, were all given back
  at some point, and while it is open the counter is the number of references held.
\<close>

theorem closed_by_last_release:
  assumes "NewBind (Some conn) = Inr b0" "length cs < 2 ^ 31 - 2"
  shows "(sb_closed (foldl (\<lambda>b c. bindCall linux ideal c b) b0 cs) \<longleftrightarrow> refsExhausted cs) \<and>
    (\<not> refsExhausted cs \<longrightarrow> sb_refCount (foldl (\<lambda>b c. bindCall linux ideal c b) b0 cs) = word_of_int (netRefs cs))"
  using refs_tracked [OF assms] by blast

theorem closed_by_last_release_witness:
  "sb_closed (foldl (\<lambda>b c. bindCall True 128 c b) exBind [CAddRef, CRelease None, COpen, CRelease None, CAddRef]) \<and>
   \<not> sb_closed (foldl (\<lambda>b c. bindCall True 128 c b) exBind [CAddRef, CRelease None, COpen])"
proof -
  have "netRefs (take 4 [CAddRef, CRelease None, COpen, CRelease None, CAddRef]) = 0" by (simp add: netRefs_def)
  then have "refsExhausted [CAddRef, CRelease None, COpen, CRelease None, CAddRef]"
    unfolding refsExhausted_def by (intro exI [of _ 4]) simp
  moreover have "\<not> refsExhausted [CAddRef, CRelease None, COpen]"
    by (auto simp: refsExhausted_def netRefs_def take_Cons split: nat.splits)
  ultimately show ?thesis
    using closed_by_last_release [OF exBind_new, of "[CAddRef, CRelease None, COpen, CRelease None, CAddRef]" True 128]
      closed_by_last_release [OF exBind_new, of "[CAddRef, CRelease None, COpen]" True 128] by simp
qed

text \<open>
  Sending to an endpoint given in binary form reaches the address it was made from: \<open>Send\<close> reads back what
  \<open>DstToBytes\<close> wrote, for every IPv4 address and every IPv6 address without a zone, and every port.
\<close>

theorem endpoint_roundtrip:
  "endpointAddrPort (OtherEndpoint (DstToBytes (IP4 w, p))) = (IP4 w, p) \<and>
   endpointAddrPort (OtherEndpoint (DstToBytes (IP6 v [], p))) = (IP6 v [], p)"
  by (simp add: endpointAddrPort_def DstToBytes_def of_be_be_bytes le_port_bytes ascii_def nth_append)

text \<open>
  Replies leave the way the packets came.  Once a packet was injected from an address, and as long as the bind is open
  and the relay was not cleared, everything sent to that address goes through the netstack connection, in order; an
  address no packet was injected from is reached through the socket.
\<close>

theorem replies_use_ingress:
  assumes inj: "InjectPacket pick d from b = (e, b1)" "\<not> sb_closed b" "fst from \<noteq> NoAddr"
    and run: "b2 = foldl (\<lambda>b c. bindCall linux ideal c b) b1 cs" "CClearNetstack \<notin> set cs" "\<not> sb_closed b2"
    and conn: "GetNetstackConn b2 = Some n" and ok: "\<And>w d a. werr w d a = None"
  shows "SendBind werr ds (StdNetEndpoint (unmapAddrPort from)) b2
      = (None, b2\<lparr>sb_wire := sb_wire b2 @ map (\<lambda>d. (Netstack n, d, unmapAddrPort from)) ds\<rparr>) \<and>
    (ap \<notin> set (sb_netstackEndpoints b2) \<and> fst ap \<noteq> NoAddr \<and> sb_udpConn b2 = Some c \<longrightarrow>
      SendBind werr ds (StdNetEndpoint ap) b2 = (None, b2\<lparr>sb_wire := sb_wire b2 @ map (\<lambda>d. (Socket c, d, ap)) ds\<rparr>))"
proof -
  have "unmapAddrPort from \<in> set (sb_netstackEndpoints b1)"
    using inj by (auto simp: InjectPacket_def Let_def split: if_splits)
  then have "unmapAddrPort from \<in> set (sb_netstackEndpoints b2)" using endpoints_kept_run run by blast
  moreover have "fst (unmapAddrPort from) \<noteq> NoAddr"
    using inj(3) by (cases "fst from") (auto simp: unmapAddrPort_def unmap_def)
  ultimately show ?thesis
    using run(3) conn sendAll_ok [of werr] ok by (simp add: SendBind_def endpointAddrPort_def)
qed

theorem replies_use_ingress_witness:
  "SendBind (\<lambda>_ _ _. None) [[1], [2]] (StdNetEndpoint (IP4 0x0a000001, 99))
      (bindCall True 128 COpen (snd (InjectPacket True [0] (IP4 0x0a000001, 99) (SetNetstackConn (Some 3) exBind))))
    = (None, (bindCall True 128 COpen (snd (InjectPacket True [0] (IP4 0x0a000001, 99) (SetNetstackConn (Some 3) exBind))))
        \<lparr>sb_wire := [(Netstack 3, [1], (IP4 0x0a000001, 99)), (Netstack 3, [2], (IP4 0x0a000001, 99))]\<rparr>)"
proof -
  have b: "\<not> sb_closed exBind" "\<not> sb_closeChan exBind" "sb_wire exBind = []" "sb_netstackPackets exBind = []" "sb_udpConn exBind = Some 7"
    by (simp_all add: exBind_def NewBind_def)
  let ?b1 = "snd (InjectPacket True [0] (IP4 0x0a000001, 99) (SetNetstackConn (Some 3) exBind))"
  have "\<not> sb_closed (bindCall True 128 COpen ?b1)" "GetNetstackConn (bindCall True 128 COpen ?b1) = Some 3" "sb_wire (bindCall True 128 COpen ?b1) = []"
    using b by (simp_all add: bindCall_def bind_defs Let_def netstackPacketsCap_def GetNetstackConn_def)
  moreover have "unmapAddrPort (IP4 0x0a000001, 99) = (IP4 0x0a000001, 99)" by (simp add: unmapAddrPort_def unmap_def)
  moreover have "\<not> sb_closed (SetNetstackConn (Some 3) exBind)" using b by (simp add: SetNetstackConn_def)
  ultimately show ?thesis
    using replies_use_ingress [of True "[0]" "(IP4 0x0a000001, 99)" "SetNetstackConn (Some 3) exBind" "fst (InjectPacket True [0] (IP4 0x0a000001, 99) (SetNetstackConn (Some 3) exBind))" ?b1
        "bindCall True 128 COpen ?b1" True 128 "[COpen]" 3 "\<lambda>_ _ _. None" "[[1], [2]]"] by simp
qed

text \<open>
  C23. A rebind loses no receiver.  In every reachable state a receive goroutine only waits while a rebind is pending,
  so it cannot have missed the wake-up; and once \<open>Rebind\<close> has installed a new socket the goroutine goes on to
  read from that socket.
\<close>

theorem receiver_resumes:
  assumes reach: "bind_reach linux ideal y" and i: "i < length (sy_recv y)" "sy_recv y ! i = InWait"
    and rebind: "Rebind linux ideal (Some (c, port)) (sy_bind y) = (None, b')"
  shows "sb_rebinding (sy_bind y) \<and>
    (\<exists>z. bind_steps linux ideal (y\<lparr>sy_bind := b', sy_recv := broadcast (sy_recv y)\<rparr>) z \<and> sy_recv z ! i = Reading c (Some c))"
proof
  have "InWait \<in> set (sy_recv y)" using i nth_mem by metis
  then show "sb_rebinding (sy_bind y)" using bind_reach_inv [OF reach] by (simp add: sys_inv_def)
  have b': "\<not> sb_closed b'" "\<not> sb_rebinding b'" "sb_udpConn b' = Some c" "sb_ipv4PC b' = Some c"
    using rebind by (auto simp: Rebind_def closeUDP_def split: option.splits if_splits)
  let ?y = "y\<lparr>sy_bind := b', sy_recv := broadcast (sy_recv y)\<rparr>"
  let ?at = "\<lambda>pc. ?y\<lparr>sy_recv := (broadcast (sy_recv y))[i := pc]\<rparr>"
  have go: "bind_step linux ideal (?at pc) (?at pc')"
    if "makeReceiveSocket linux inp pc b' = Some (pc', b')" for pc pc' inp
    using step_recv [of i "?at pc" linux inp pc' b' ideal] that i(1) by (simp add: broadcast_def)
  have "(broadcast (sy_recv y))[i := AtWaitTest] = broadcast (sy_recv y)" using i by (simp add: broadcast_def list_update_same_conv)
  then have "?y = ?at AtWaitTest" by simp
  then have "bind_steps linux ideal ?y (?at AtWaitTest)" using steps_refl by metis
  also have "bind_step linux ideal (?at AtWaitTest) (?at AfterWait)" by (rule go) (simp add: makeReceiveSocket_def b')
  finally (steps_more) have "bind_steps linux ideal ?y (?at AfterWait)" .
  also have "bind_step linux ideal (?at AfterWait) (?at AtHead)" by (rule go) (simp add: makeReceiveSocket_def b')
  finally (steps_more) have "bind_steps linux ideal ?y (?at AtHead)" .
  also have "bind_step linux ideal (?at AtHead) (?at (Reading c (Some c)))" by (rule go) (simp add: makeReceiveSocket_def b')
  finally (steps_more) have "bind_steps linux ideal ?y (?at (Reading c (Some c)))" .
  moreover have "sy_recv (?at (Reading c (Some c))) ! i = Reading c (Some c)" using i(1) by (simp add: broadcast_def)
  ultimately show "\<exists>z. bind_steps linux ideal ?y z \<and> sy_recv z ! i = Reading c (Some c)" by blast
qed

theorem receiver_resumes_witness:
  "\<exists>z. bind_steps True 128 (exWaiting\<lparr>sy_bind := snd (Rebind True 128 (Some (8, 51821)) (sy_bind exWaiting)), sy_recv := [AtWaitTest]\<rparr>) z \<and>
     sy_recv z ! 0 = Reading 8 (Some 8)"
proof -
  have "fst (Rebind True 128 (Some (8, 51821)) (sy_bind exWaiting)) = None"
    by (simp add: exWaiting_def Rebind_def CloseSocket_def closeUDP_def exBind_def NewBind_def)
  then have "Rebind True 128 (Some (8, 51821)) (sy_bind exWaiting) = (None, snd (Rebind True 128 (Some (8, 51821)) (sy_bind exWaiting)))"
    by (metis prod.collapse)
  from receiver_resumes [OF exWaiting_reach _ _ this, of 0] show ?thesis by (simp add: exWaiting_def broadcast_def)
qed

text \<open>
  Closing the bind during a rebind leaves a goroutine behind: \<open>closeConnection\<close> does not signal the condition variable and
  \<open>Rebind\<close> refuses a closed bind, so a receiver that was waiting waits in every later state.
\<close>

theorem closed_receiver_stuck:
  assumes "bind_steps linux ideal exClosed z"
  shows "bind_reach linux ideal exClosed \<and> sb_closed (sy_bind z) \<and> sy_recv z ! 0 = InWait"
proof -
  have "sb_closed (sy_bind exClosed)" by (simp add: exClosed_def exWaiting_def bind_defs exBind_def NewBind_def)
  then show ?thesis
    using closed_wait_steps [OF assms, of 0] exClosed_reach by (simp add: exClosed_def exWaiting_def)
qed

theorem closed_receiver_stuck_witness:
  "sy_recv (exClosed\<lparr>sy_bind := bindCall True 128 (CRebind (Some (8, 51821))) (sy_bind exClosed)\<rparr>) ! 0 = InWait"
proof -
  have "Rebind True 128 (Some (8, 51821)) (sy_bind exClosed) = (Some ''bind is closed'', sy_bind exClosed)"
    by (simp add: exClosed_def exWaiting_def bind_defs exBind_def NewBind_def)
  then have "bind_steps True 128 exClosed (exClosed\<lparr>sy_bind := bindCall True 128 (CRebind (Some (8, 51821))) (sy_bind exClosed)\<rparr>)"
    using steps_more [OF steps_refl step_rebind, of True 128 "Some (8, 51821)" exClosed] by (simp add: bindCall_def)
  then show ?thesis by (rule closed_receiver_stuck [THEN conjunct2, THEN conjunct2])
qed

end
