(* ===== verification/Proxy_Manager.thy ===== *)
theory Proxy_Manager
  imports Go_Strings
begin

text \<open>
  The proxy manager (\<open>proxy/manager.go\<close>): its targets, listeners and byte counters, and the per-tunnel session counters of
  \<open>internal/state/telemetry_view.go\<close>.  The handlers of accepted connections are in \<open>Proxy_Conns\<close>.

  A listener is a socket number with its port and the target address its goroutine forwards to.  Whether the network lets the
  manager listen on a port is an argument, \<open>listen\<close>, that sees the ports already bound.  Counters of a tunnel are pointers
  into \<open>pm_heap\<close>, because connections keep them after the tunnel was cleared.  \<open>pm_flushed\<close> records what went to the metric
  \<open>AddTunnelBytesSet\<close>.
\<close>

declare map_of_eq_Some_iff [simp del] Some_eq_map_of_iff [simp del]

section \<open>Data\<close>

definition maxUDPPacketSize :: nat where
  "maxUDPPacketSize = 65507"

definition defaultUDPIdleTimeout :: int where
  "defaultUDPIdleTimeout = 90 * second"

type_synonym attrs = "(string \<times> string) list"

record tunnel_entry =
  te_attrInTCP :: attrs
  te_attrOutTCP :: attrs
  te_attrInUDP :: attrs
  te_attrOutUDP :: attrs
  te_bytesInTCP :: "64 word"
  te_bytesOutTCP :: "64 word"
  te_bytesInUDP :: "64 word"
  te_bytesOutUDP :: "64 word"
  te_activeTCP :: int
  te_activeUDP :: int

definition newEntry :: tunnel_entry where
  "newEntry = \<lparr>te_attrInTCP = [], te_attrOutTCP = [], te_attrInUDP = [], te_attrOutUDP = [], te_bytesInTCP = 0, te_bytesOutTCP = 0,
     te_bytesInUDP = 0, te_bytesOutUDP = 0, te_activeTCP = 0, te_activeUDP = 0\<rparr>"

record managed_listener =
  ml_sock :: nat
  ml_port :: int
  ml_target :: string

type_synonym targets = "(string, (int, string) gomap) gomap"

record proxy_manager =
  pm_tnet :: bool
  pm_tcpTargets :: targets
  pm_udpTargets :: targets
  pm_listeners :: "managed_listener list"
  pm_udpConns :: "managed_listener list"
  pm_running :: bool
  pm_nativeListenIP :: string
  pm_currentTunnelID :: string
  pm_tunnels :: "(string, nat) gomap option"
  pm_asyncBytes :: bool
  pm_flushStop :: bool
  pm_udpIdleTimeout :: int
  pm_blocked :: bool
  pm_heap :: "tunnel_entry list"
  pm_flushed :: "(int \<times> attrs) list"
  pm_nextSock :: nat
  pm_closed :: "nat list"
  pm_flushLoops :: nat

definition NewProxyManagerWithoutTNet :: proxy_manager where
  "NewProxyManagerWithoutTNet =
     \<lparr>pm_tnet = False, pm_tcpTargets = [], pm_udpTargets = [], pm_listeners = [], pm_udpConns = [], pm_running = False,
      pm_nativeListenIP = [], pm_currentTunnelID = [], pm_tunnels = None, pm_asyncBytes = False, pm_flushStop = False,
      pm_udpIdleTimeout = defaultUDPIdleTimeout, pm_blocked = False, pm_heap = [], pm_flushed = [], pm_nextSock = 0,
      pm_closed = [], pm_flushLoops = 0\<rparr>"

definition NewProxyManager :: "bool \<Rightarrow> proxy_manager" where
  "NewProxyManager tnet = NewProxyManagerWithoutTNet\<lparr>pm_tnet := tnet, pm_tunnels := Some []\<rparr>"

definition NewProxyManagerNative :: "string \<Rightarrow> proxy_manager" where
  "NewProxyManagerNative listenIP = NewProxyManagerWithoutTNet\<lparr>pm_nativeListenIP := listenIP, pm_tunnels := Some []\<rparr>"

definition SetTNet :: "bool \<Rightarrow> proxy_manager \<Rightarrow> proxy_manager" where
  "SetTNet tnet pm = pm\<lparr>pm_tnet := tnet\<rparr>"

definition SetBlocked :: "bool \<Rightarrow> proxy_manager \<Rightarrow> proxy_manager" where
  "SetBlocked v pm = pm\<lparr>pm_blocked := v\<rparr>"

definition SetUDPIdleTimeout :: "int \<Rightarrow> proxy_manager \<Rightarrow> proxy_manager" where
  "SetUDPIdleTimeout d pm = pm\<lparr>pm_udpIdleTimeout := if d \<le> 0 then defaultUDPIdleTimeout else d\<rparr>"

section \<open>Byte counters\<close>

text \<open>The labels of a tunnel; \<open>site\<close> and \<open>includeID\<close> are the site labels and the tunnel-id switch of the telemetry package.\<close>

definition buildAttrs :: "attrs \<Rightarrow> bool \<Rightarrow> string \<Rightarrow> string \<Rightarrow> string \<Rightarrow> attrs" where
  "buildAttrs site includeID tid direction protocol =
     site @ (if includeID then [(''tunnel_id'', tid)] else []) @ [(''direction'', direction), (''protocol'', protocol)]"

text \<open>\<open>getEntry\<close>: the pointer of a tunnel's counters.\<close>

definition getEntry :: "string \<Rightarrow> proxy_manager \<Rightarrow> nat option" where
  "getEntry tid pm = (case pm_tunnels pm of None \<Rightarrow> None | Some ts \<Rightarrow> map_of ts tid)"

definition updEntry :: "nat \<Rightarrow> (tunnel_entry \<Rightarrow> tunnel_entry) \<Rightarrow> proxy_manager \<Rightarrow> proxy_manager" where
  "updEntry p f pm = pm\<lparr>pm_heap := (pm_heap pm)[p := f (pm_heap pm ! p)]\<rparr>"

text \<open>\<open>SetTunnelID\<close>; writing to the nil map of a manager made by \<open>NewProxyManagerWithoutTNet\<close> panics.\<close>

definition SetTunnelID :: "attrs \<Rightarrow> bool \<Rightarrow> string \<Rightarrow> proxy_manager \<Rightarrow> proxy_manager go_result" where
  "SetTunnelID site includeID tid pm = (case pm_tunnels pm of
     None \<Rightarrow> Panic
   | Some ts \<Rightarrow>
       (let pm = pm\<lparr>pm_currentTunnelID := tid\<rparr>;
            pm = (if mhas ts tid then pm
                  else pm\<lparr>pm_tunnels := Some (mput tid (length (pm_heap pm)) ts), pm_heap := pm_heap pm @ [newEntry]\<rparr>);
            build = buildAttrs site includeID tid
        in Ret (updEntry (the (getEntry tid pm)) (\<lambda>e. e\<lparr>
             te_attrInTCP := build ''ingress'' ''tcp'', te_attrOutTCP := build ''egress'' ''tcp'',
             te_attrInUDP := build ''ingress'' ''udp'', te_attrOutUDP := build ''egress'' ''udp''\<rparr>) pm)))"

definition AddTunnelBytesSet :: "int \<Rightarrow> attrs \<Rightarrow> proxy_manager \<Rightarrow> proxy_manager" where
  "AddTunnelBytesSet n a pm = pm\<lparr>pm_flushed := pm_flushed pm @ [(n, a)]\<rparr>"

text \<open>Swap the four counters of an entry to zero and report those that were not zero, as signed 64-bit numbers.\<close>

definition drained :: "tunnel_entry \<Rightarrow> (int \<times> attrs) list" where
  "drained e = map (\<lambda>(w, a). (sint w, a)) (filter (\<lambda>(w, a). 0 < w)
     [(te_bytesInTCP e, te_attrInTCP e), (te_bytesOutTCP e, te_attrOutTCP e),
      (te_bytesInUDP e, te_attrInUDP e), (te_bytesOutUDP e, te_attrOutUDP e)])"

definition flushEntry :: "nat \<Rightarrow> proxy_manager \<Rightarrow> proxy_manager" where
  "flushEntry p pm = updEntry p (\<lambda>e. e\<lparr>te_bytesInTCP := 0, te_bytesOutTCP := 0, te_bytesInUDP := 0, te_bytesOutUDP := 0\<rparr>)
     (pm\<lparr>pm_flushed := pm_flushed pm @ drained (pm_heap pm ! p)\<rparr>)"

definition ClearTunnelID :: "proxy_manager \<Rightarrow> proxy_manager" where
  "ClearTunnelID pm =
     (let tid = pm_currentTunnelID pm in
      if tid = [] then pm
      else let pm = (case getEntry tid pm of
                       None \<Rightarrow> pm
                     | Some p \<Rightarrow> (flushEntry p pm)\<lparr>pm_tunnels := map_option (mdel tid) (pm_tunnels pm)\<rparr>)
           in pm\<lparr>pm_currentTunnelID := []\<rparr>)"

definition SetAsyncBytes :: "bool \<Rightarrow> proxy_manager \<Rightarrow> proxy_manager" where
  "SetAsyncBytes b pm =
     (let pm = pm\<lparr>pm_asyncBytes := b\<rparr> in
      if b \<and> \<not> pm_flushStop pm then pm\<lparr>pm_flushStop := True, pm_flushLoops := Suc (pm_flushLoops pm)\<rparr> else pm)"

text \<open>
  The interval of \<open>flushLoop\<close> from the parsed environment variable, if it is set and parses; a ticker that is not positive
  panics.
\<close>

definition flushInterval :: "int option \<Rightarrow> int go_result" where
  "flushInterval env =
     (let i = (case env of Some d \<Rightarrow> if 0 < d \<and> d div 2 < 2 * second then d div 2 else 2 * second | None \<Rightarrow> 2 * second)
      in if 0 < i then Ret i else Panic)"

text \<open>One tick of \<open>flushLoop\<close>, which its stop branch repeats.\<close>

definition flushTick :: "proxy_manager \<Rightarrow> proxy_manager" where
  "flushTick pm = foldl (\<lambda>pm p. flushEntry p pm) pm (case pm_tunnels pm of None \<Rightarrow> [] | Some ts \<Rightarrow> map snd ts)"

text \<open>\<open>countingWriter.Write\<close> once the wrapped writer has written \<open>n\<close> bytes; \<open>ent\<close> is the entry of the connection.\<close>

definition countBytes :: "string \<Rightarrow> bool \<Rightarrow> nat \<Rightarrow> tunnel_entry \<Rightarrow> tunnel_entry" where
  "countBytes proto out n e =
     (if proto = ''tcp'' then
        (if out then e\<lparr>te_bytesOutTCP := te_bytesOutTCP e + of_nat n\<rparr> else e\<lparr>te_bytesInTCP := te_bytesInTCP e + of_nat n\<rparr>)
      else if proto = ''udp'' then
        (if out then e\<lparr>te_bytesOutUDP := te_bytesOutUDP e + of_nat n\<rparr> else e\<lparr>te_bytesInUDP := te_bytesInUDP e + of_nat n\<rparr>)
      else e)"

definition countingWrite :: "attrs \<Rightarrow> nat \<Rightarrow> bool \<Rightarrow> string \<Rightarrow> nat \<Rightarrow> proxy_manager \<Rightarrow> proxy_manager" where
  "countingWrite labels ent out proto n pm =
     (if 0 < n then
        (if pm_asyncBytes pm then updEntry ent (countBytes proto out n) pm else AddTunnelBytesSet (int n) labels pm)
      else pm)"

section \<open>Targets and listeners\<close>

type_synonym listen = "string \<Rightarrow> int \<Rightarrow> int list \<Rightarrow> string option"

definition unsupportedProto :: "string \<Rightarrow> string" where
  "unsupportedProto proto = ''unsupported protocol: '' @ proto"

definition startTarget :: "listen \<Rightarrow> string \<Rightarrow> string \<Rightarrow> int \<Rightarrow> string \<Rightarrow> proxy_manager \<Rightarrow> string option \<times> proxy_manager" where
  "startTarget listen proto listenIP port targetAddr pm =
     (let l = \<lparr>ml_sock = pm_nextSock pm, ml_port = port, ml_target = targetAddr\<rparr>;
          native = pm_nativeListenIP pm;
          noNet = ''proxy manager has no tnet or native IP configured'' in
      if proto = ''tcp'' then
        (if \<not> pm_tnet pm \<and> native = [] then (Some noNet, pm)
         else case listen proto port (map ml_port (pm_listeners pm)) of
           Some e \<Rightarrow> (Some (if pm_tnet pm then ''failed to create TCP listener: '' @ e
                        else ''failed to create native TCP listener on '' @ native @ '':'' @ itoa_int port @ '': '' @ e), pm)
         | None \<Rightarrow> (None, pm\<lparr>pm_listeners := pm_listeners pm @ [l], pm_nextSock := Suc (pm_nextSock pm)\<rparr>))
      else if proto = ''udp'' then
        (if \<not> pm_tnet pm \<and> native = [] then (Some noNet, pm)
         else case listen proto port (map ml_port (pm_udpConns pm)) of
           Some e \<Rightarrow> (Some (if pm_tnet pm then ''failed to create UDP listener: '' @ e
                        else ''failed to create native UDP listener on '' @ native @ '':'' @ itoa_int port @ '': '' @ e), pm)
         | None \<Rightarrow> (None, pm\<lparr>pm_udpConns := pm_udpConns pm @ [l], pm_nextSock := Suc (pm_nextSock pm)\<rparr>))
      else (Some (unsupportedProto proto), pm))"

definition putTarget :: "string \<Rightarrow> int \<Rightarrow> string \<Rightarrow> targets \<Rightarrow> targets" where
  "putTarget listenIP port addr ts =
     mput listenIP (mput port addr (case map_of ts listenIP of None \<Rightarrow> [] | Some m \<Rightarrow> m)) ts"

definition AddProxyTarget :: "listen \<Rightarrow> string \<Rightarrow> string \<Rightarrow> int \<Rightarrow> string \<Rightarrow> proxy_manager \<Rightarrow> string option \<times> proxy_manager" where
  "AddProxyTarget listen proto listenIP port targetAddr pm =
     (if proto \<noteq> ''tcp'' \<and> proto \<noteq> ''udp'' then (Some (unsupportedProto proto), pm)
      else let pm = (if proto = ''tcp'' then pm\<lparr>pm_tcpTargets := putTarget listenIP port targetAddr (pm_tcpTargets pm)\<rparr>
                     else pm\<lparr>pm_udpTargets := putTarget listenIP port targetAddr (pm_udpTargets pm)\<rparr>)
           in if pm_running pm then startTarget listen proto listenIP port targetAddr pm else (None, pm))"

text \<open>The loop that closes and removes the first listener on a port: the listener closed, and the list without it.\<close>

fun removeByPort :: "int \<Rightarrow> managed_listener list \<Rightarrow> managed_listener option \<times> managed_listener list" where
  "removeByPort port [] = (None, [])"
| "removeByPort port (l # ls) =
     (if ml_port l = port then (Some l, ls) else let (c, ls') = removeByPort port ls in (c, l # ls'))"

definition closeOpt :: "managed_listener option \<Rightarrow> proxy_manager \<Rightarrow> proxy_manager" where
  "closeOpt c pm = (case c of None \<Rightarrow> pm | Some l \<Rightarrow> pm\<lparr>pm_closed := pm_closed pm @ [ml_sock l]\<rparr>)"

definition targetNotFound :: "string \<Rightarrow> int \<Rightarrow> string" where
  "targetNotFound listenIP port = ''target not found: '' @ listenIP @ '':'' @ itoa_int port"

definition RemoveProxyTarget :: "string \<Rightarrow> string \<Rightarrow> int \<Rightarrow> proxy_manager \<Rightarrow> string option \<times> proxy_manager" where
  "RemoveProxyTarget proto listenIP port pm =
     (if proto = ''tcp'' then
        (case map_of (pm_tcpTargets pm) listenIP of
           None \<Rightarrow> (Some (targetNotFound listenIP port), pm)
         | Some m \<Rightarrow>
             (let (c, ls) = removeByPort port (pm_listeners pm)
              in (None, closeOpt c (pm\<lparr>pm_tcpTargets := mput listenIP (mdel port m) (pm_tcpTargets pm), pm_listeners := ls\<rparr>))))
      else if proto = ''udp'' then
        (case map_of (pm_udpTargets pm) listenIP of
           None \<Rightarrow> (Some (targetNotFound listenIP port), pm)
         | Some m \<Rightarrow>
             (let (c, ls) = removeByPort port (pm_udpConns pm)
              in (None, closeOpt c (pm\<lparr>pm_udpTargets := mput listenIP (mdel port m) (pm_udpTargets pm), pm_udpConns := ls\<rparr>))))
      else (Some (unsupportedProto proto), pm))"

text \<open>The targets in the order in which the two nested loops of \<open>Start\<close> visit them.\<close>

definition flatTargets :: "targets \<Rightarrow> (string \<times> int \<times> string) list" where
  "flatTargets ts = concat (map (\<lambda>(ip, m). map (\<lambda>(port, addr). (ip, port, addr)) m) ts)"

primrec startAll :: "listen \<Rightarrow> string \<Rightarrow> string \<Rightarrow> (string \<times> int \<times> string) list \<Rightarrow> proxy_manager \<Rightarrow> string option \<times> proxy_manager" where
  "startAll listen proto pre [] pm = (None, pm)"
| "startAll listen proto pre (t # ts) pm =
     (case startTarget listen proto (fst t) (fst (snd t)) (snd (snd t)) pm of
        (Some e, pm') \<Rightarrow> (Some (pre @ e), pm')
      | (None, pm') \<Rightarrow> startAll listen proto pre ts pm')"

definition Start :: "listen \<Rightarrow> proxy_manager \<Rightarrow> string option \<times> proxy_manager" where
  "Start listen pm =
     (if pm_running pm then (None, pm)
      else case startAll listen ''tcp'' ''failed to start TCP target: '' (flatTargets (pm_tcpTargets pm)) pm of
        (Some e, pm1) \<Rightarrow> (Some e, pm1)
      | (None, pm1) \<Rightarrow>
          (case startAll listen ''udp'' ''failed to start UDP target: '' (flatTargets (pm_udpTargets pm1)) pm1 of
             (Some e, pm2) \<Rightarrow> (Some e, pm2)
           | (None, pm2) \<Rightarrow> (None, pm2\<lparr>pm_running := True\<rparr>)))"

definition StopProxy :: "proxy_manager \<Rightarrow> proxy_manager" where
  "StopProxy pm =
     (if \<not> pm_running pm then pm
      else pm\<lparr>pm_running := False, pm_listeners := [], pm_udpConns := [],
             pm_closed := pm_closed pm @ map ml_sock (rev (pm_listeners pm)) @ map ml_sock (rev (pm_udpConns pm))\<rparr>)"

definition GetTargets :: "proxy_manager \<Rightarrow> targets \<times> targets" where
  "GetTargets pm = (pm_tcpTargets pm, pm_udpTargets pm)"

section \<open>Session counters\<close>

definition IncSessions :: "string \<Rightarrow> (string, int) gomap \<Rightarrow> (string, int) gomap" where
  "IncSessions tid s = mput tid ((case map_of s tid of None \<Rightarrow> 0 | Some c \<Rightarrow> c) + 1) s"

definition DecSessions :: "string \<Rightarrow> (string, int) gomap \<Rightarrow> (string, int) gomap" where
  "DecSessions tid s = (case map_of s tid of None \<Rightarrow> s
     | Some c \<Rightarrow> if c - 1 \<le> 0 then mdel tid s else mput tid (c - 1) s)"

definition ClearTunnel :: "string \<Rightarrow> (string, int) gomap \<Rightarrow> (string, int) gomap" where
  "ClearTunnel tid s = mdel tid s"

definition SessionsByTunnel :: "(string, int) gomap \<Rightarrow> (string, int) gomap" where
  "SessionsByTunnel s = filter (\<lambda>(tid, c). c > 0) s"

section \<open>No byte is lost\<close>

text \<open>All bytes the manager knows of, modulo \<open>2 ^ 64\<close>: those waiting in counters and those handed to the metric.\<close>

definition entryBytes :: "tunnel_entry \<Rightarrow> 64 word" where
  "entryBytes e = te_bytesInTCP e + te_bytesOutTCP e + te_bytesInUDP e + te_bytesOutUDP e"

definition knownBytes :: "proxy_manager \<Rightarrow> 64 word" where
  "knownBytes pm = (\<Sum>e\<leftarrow>pm_heap pm. entryBytes e) + (\<Sum>f\<leftarrow>pm_flushed pm. word_of_int (fst f))"

lemma sum_list_update_group:
  fixes f :: "'a \<Rightarrow> 'b::ab_group_add"
  shows "p < length xs \<Longrightarrow> (\<Sum>x\<leftarrow>xs[p := y]. f x) = (\<Sum>x\<leftarrow>xs. f x) - f (xs ! p) + f y"
proof (induction xs arbitrary: p)
  case (Cons x xs)
  then show ?case by (cases p) (simp_all add: algebra_simps)
qed simp

lemma drained_bytes: "(\<Sum>f\<leftarrow>drained e. word_of_int (fst f)) = entryBytes e"
proof -
  have "(\<Sum>f\<leftarrow>map (\<lambda>(w, a). (sint w, a)) (filter (\<lambda>(w, a). 0 < w) ws). word_of_int (fst f)) = (\<Sum>x\<leftarrow>ws. fst x)"
    for ws :: "(64 word \<times> attrs) list"
    by (induction ws) (auto simp: word_gt_0)
  from this [of "[(te_bytesInTCP e, te_attrInTCP e), (te_bytesOutTCP e, te_attrOutTCP e),
      (te_bytesInUDP e, te_attrInUDP e), (te_bytesOutUDP e, te_attrOutUDP e)]"]
  show ?thesis by (simp add: drained_def entryBytes_def algebra_simps)
qed

lemma known_flushEntry: "p < length (pm_heap pm) \<Longrightarrow> knownBytes (flushEntry p pm) = knownBytes pm"
  by (simp add: knownBytes_def flushEntry_def updEntry_def sum_list_update_group drained_bytes entryBytes_def)

lemma flushEntry_heap [simp]:
  "length (pm_heap (flushEntry p pm)) = length (pm_heap pm)" "pm_tunnels (flushEntry p pm) = pm_tunnels pm"
  by (simp_all add: flushEntry_def updEntry_def)

definition tunnels_ok :: "proxy_manager \<Rightarrow> bool" where
  "tunnels_ok pm \<longleftrightarrow> (\<forall>ts tid p. pm_tunnels pm = Some ts \<longrightarrow> (tid, p) \<in> set ts \<longrightarrow> p < length (pm_heap pm))"

lemma getEntry_ok: "tunnels_ok pm \<Longrightarrow> getEntry tid pm = Some p \<Longrightarrow> p < length (pm_heap pm)"
  by (force simp: tunnels_ok_def getEntry_def split: option.splits dest: map_of_SomeD)

lemma known_flushTick:
  assumes "tunnels_ok pm"
  shows "knownBytes (flushTick pm) = knownBytes pm \<and> tunnels_ok (flushTick pm) \<and> length (pm_heap (flushTick pm)) = length (pm_heap pm)"
proof -
  define ps where "ps = (case pm_tunnels pm of None \<Rightarrow> [] | Some ts \<Rightarrow> map snd ts)"
  have tick: "flushTick pm = foldl (\<lambda>pm p. flushEntry p pm) pm ps" by (simp add: flushTick_def ps_def)
  have "list_all (\<lambda>p. p < length (pm_heap q)) ps \<Longrightarrow>
      knownBytes (foldl (\<lambda>pm p. flushEntry p pm) q ps) = knownBytes q \<and>
      pm_tunnels (foldl (\<lambda>pm p. flushEntry p pm) q ps) = pm_tunnels q \<and>
      length (pm_heap (foldl (\<lambda>pm p. flushEntry p pm) q ps)) = length (pm_heap q)" for ps q
    by (induction ps arbitrary: q) (simp_all add: known_flushEntry list_all_iff)
  moreover have "list_all (\<lambda>p. p < length (pm_heap pm)) ps"
    using assms by (cases "pm_tunnels pm") (auto simp: tunnels_ok_def list_all_iff ps_def)
  ultimately show ?thesis using assms by (simp add: tunnels_ok_def tick)
qed

lemma known_SetTunnelID:
  assumes "tunnels_ok pm" "SetTunnelID site inc tid pm = Ret pm'"
  shows "knownBytes pm' = knownBytes pm \<and> tunnels_ok pm' \<and> length (pm_heap pm) \<le> length (pm_heap pm')"
proof -
  obtain ts where ts: "pm_tunnels pm = Some ts" using assms(2) by (auto simp: SetTunnelID_def split: option.splits)
  show ?thesis
  proof (cases "map_of ts tid")
    case None
    then have "tunnels_ok pm'"
      using assms ts set_mput_sub [of tid "length (pm_heap pm)" ts]
      by (fastforce simp: SetTunnelID_def tunnels_ok_def updEntry_def Let_def)
    then show ?thesis using assms ts None
      by (auto simp: SetTunnelID_def knownBytes_def updEntry_def getEntry_def Let_def entryBytes_def newEntry_def)
  next
    case (Some p)
    then have "p < length (pm_heap pm)" using getEntry_ok [OF assms(1), of tid] ts by (simp add: getEntry_def)
    then show ?thesis using assms ts Some
      by (auto simp: SetTunnelID_def knownBytes_def updEntry_def getEntry_def Let_def sum_list_update_group entryBytes_def tunnels_ok_def)
  qed
qed

lemma known_ClearTunnelID:
  assumes "tunnels_ok pm"
  shows "knownBytes (ClearTunnelID pm) = knownBytes pm \<and> tunnels_ok (ClearTunnelID pm) \<and>
    length (pm_heap (ClearTunnelID pm)) = length (pm_heap pm)"
proof (cases "pm_currentTunnelID pm = [] \<or> getEntry (pm_currentTunnelID pm) pm = None")
  case True
  then show ?thesis using assms by (auto simp: ClearTunnelID_def Let_def knownBytes_def tunnels_ok_def)
next
  case False
  then obtain p where p: "getEntry (pm_currentTunnelID pm) pm = Some p" by auto
  then have lt: "p < length (pm_heap pm)" by (rule getEntry_ok [OF assms])
  have "knownBytes (ClearTunnelID pm) = knownBytes (flushEntry p pm)" using False p by (simp add: ClearTunnelID_def Let_def knownBytes_def)
  moreover have "tunnels_ok (ClearTunnelID pm)"
    using assms False p by (auto simp: ClearTunnelID_def Let_def tunnels_ok_def mdel_filter)
  ultimately show ?thesis using known_flushEntry [OF lt] False p by (simp add: ClearTunnelID_def Let_def)
qed

lemma known_countingWrite:
  assumes "ent < length (pm_heap pm)" "proto \<in> {''tcp'', ''udp''}"
  shows "knownBytes (countingWrite a ent out proto n pm) = knownBytes pm + of_nat n \<and>
    length (pm_heap (countingWrite a ent out proto n pm)) = length (pm_heap pm) \<and>
    pm_tunnels (countingWrite a ent out proto n pm) = pm_tunnels pm"
proof -
  have "entryBytes (countBytes proto out n e) = entryBytes e + of_nat n" for e
    using assms(2) by (auto simp: entryBytes_def countBytes_def)
  then show ?thesis using assms(1)
    by (simp add: countingWrite_def knownBytes_def updEntry_def AddTunnelBytesSet_def sum_list_update_group)
qed

text \<open>The calls that move bytes, or make and clear the entries they are counted in.\<close>

datatype byte_call = Count attrs nat bool string nat | Tick | SetTunnel attrs bool string | ClearTunnelCall | SetAsync bool

definition byteStep :: "proxy_manager \<Rightarrow> byte_call \<Rightarrow> proxy_manager" where
  "byteStep pm c = (case c of
     Count a ent out proto n \<Rightarrow> countingWrite a ent out proto n pm
   | Tick \<Rightarrow> flushTick pm
   | SetTunnel site inc tid \<Rightarrow> (case SetTunnelID site inc tid pm of Ret pm' \<Rightarrow> pm' | Panic \<Rightarrow> pm)
   | ClearTunnelCall \<Rightarrow> ClearTunnelID pm
   | SetAsync b \<Rightarrow> SetAsyncBytes b pm)"

text \<open>A writer counts in an entry that some earlier \<open>getEntry\<close> returned, cleared by now or not.\<close>

definition byteAllowed :: "proxy_manager \<Rightarrow> byte_call \<Rightarrow> bool" where
  "byteAllowed pm c = (case c of
     Count a ent out proto n \<Rightarrow> ent < length (pm_heap pm) \<and> proto \<in> {''tcp'', ''udp''}
   | _ \<Rightarrow> True)"

definition countedBytes :: "byte_call \<Rightarrow> nat" where
  "countedBytes c = (case c of Count a ent out proto n \<Rightarrow> n | _ \<Rightarrow> 0)"

lemma known_byteStep:
  assumes "tunnels_ok pm" "byteAllowed pm c"
  shows "tunnels_ok (byteStep pm c) \<and> knownBytes (byteStep pm c) = knownBytes pm + of_nat (countedBytes c)"
proof (cases c)
  case (Count a ent out proto n)
  then show ?thesis
    using assms known_countingWrite [of ent pm proto a out n] by (simp add: byteStep_def byteAllowed_def countedBytes_def tunnels_ok_def)
next
  case (SetTunnel site inc tid)
  then show ?thesis
    using assms known_SetTunnelID [of pm site inc tid] by (auto simp: byteStep_def countedBytes_def split: go_result.split)
next
  case (SetAsync b)
  then show ?thesis
    using assms by (simp add: byteStep_def countedBytes_def SetAsyncBytes_def Let_def tunnels_ok_def knownBytes_def)
qed (use assms known_flushTick known_ClearTunnelID in \<open>simp_all add: byteStep_def countedBytes_def\<close>)

interpretation byte_counts: guarded_system byteStep byteAllowed tunnels_ok
  by unfold_locales (simp add: known_byteStep)

lemma known_run:
  "tunnels_ok pm \<Longrightarrow> run_ok byteStep byteAllowed pm cs \<Longrightarrow>
   knownBytes (foldl byteStep pm cs) = knownBytes pm + of_nat (\<Sum>c\<leftarrow>cs. countedBytes c)"
  by (induction cs arbitrary: pm) (simp_all add: known_byteStep algebra_simps)

section \<open>Listening\<close>

definition hasNet :: "proxy_manager \<Rightarrow> bool" where
  "hasNet pm \<longleftrightarrow> pm_tnet pm \<or> pm_nativeListenIP pm \<noteq> []"

text \<open>A network on which listening fails exactly when the port is bound.\<close>

definition free_ports :: "listen \<Rightarrow> bool" where
  "free_ports listen \<longleftrightarrow> (\<forall>proto port bound. listen proto port bound = None \<longleftrightarrow> port \<notin> set bound)"

text \<open>Targets and listeners of a protocol as one of the two pairs of fields.\<close>

definition targetsOf :: "string \<Rightarrow> proxy_manager \<Rightarrow> targets" where
  "targetsOf proto pm = (if proto = ''tcp'' then pm_tcpTargets pm else pm_udpTargets pm)"

definition listenersOf :: "string \<Rightarrow> proxy_manager \<Rightarrow> managed_listener list" where
  "listenersOf proto pm = (if proto = ''tcp'' then pm_listeners pm else pm_udpConns pm)"

definition portsOf :: "string \<Rightarrow> string \<Rightarrow> proxy_manager \<Rightarrow> (int, string) gomap" where
  "portsOf ip proto pm = (case map_of (targetsOf proto pm) ip of None \<Rightarrow> [] | Some m \<Rightarrow> m)"

text \<open>The target address a listener serves on each port.\<close>

definition served :: "managed_listener list \<Rightarrow> (int, string) gomap" where
  "served ls = map (\<lambda>l. (ml_port l, ml_target l)) ls"

text \<open>
  The invariant of a manager whose targets all have the listen address \<open>ip\<close>: while it runs there is exactly one listener for
  each target, forwarding to the target's address, and otherwise there is none.
\<close>

definition proto_ok :: "string \<Rightarrow> string \<Rightarrow> proxy_manager \<Rightarrow> bool" where
  "proto_ok ip proto pm \<longleftrightarrow>
     (targetsOf proto pm = [] \<or> (\<exists>m. targetsOf proto pm = [(ip, m)])) \<and> distinct (mkeys (portsOf ip proto pm)) \<and>
     distinct (map ml_port (listenersOf proto pm)) \<and>
     (if pm_running pm
      then map_of (portsOf ip proto pm) = map_of (served (listenersOf proto pm))
      else listenersOf proto pm = [])"

definition manager_ok :: "string \<Rightarrow> proxy_manager \<Rightarrow> bool" where
  "manager_ok ip pm \<longleftrightarrow> hasNet pm \<and> proto_ok ip ''tcp'' pm \<and> proto_ok ip ''udp'' pm"

lemma startTarget_free:
  assumes "free_ports listen" "hasNet pm" "proto \<in> {''tcp'', ''udp''}" "port \<notin> ml_port ` set (listenersOf proto pm)"
  shows "startTarget listen proto ip port addr pm = (None,
    (let l = \<lparr>ml_sock = pm_nextSock pm, ml_port = port, ml_target = addr\<rparr>; pm' = pm\<lparr>pm_nextSock := Suc (pm_nextSock pm)\<rparr>
     in if proto = ''tcp'' then pm'\<lparr>pm_listeners := pm_listeners pm @ [l]\<rparr> else pm'\<lparr>pm_udpConns := pm_udpConns pm @ [l]\<rparr>))"
proof -
  have "listen proto port (map ml_port (listenersOf proto pm)) = None" using assms by (simp add: free_ports_def)
  then show ?thesis using assms by (auto simp: startTarget_def hasNet_def listenersOf_def Let_def)
qed

lemma removeByPort_filter:
  "distinct (map ml_port ls) \<Longrightarrow> snd (removeByPort port ls) = filter (\<lambda>l. ml_port l \<noteq> port) ls"
proof (induction ls)
  case (Cons l ls)
  have "ml_port l = port \<Longrightarrow> filter (\<lambda>x. ml_port x \<noteq> port) ls = ls" using Cons.prems by (auto simp: filter_id_conv image_iff)
  then show ?case using Cons by (auto simp: split_beta)
qed simp

lemma served_remove: "served (filter (\<lambda>l. ml_port l \<noteq> port) ls) = mdel port (served ls)"
  by (induction ls) (simp_all add: served_def)

lemma served_add: "port \<notin> ml_port ` set ls \<Longrightarrow> ml_port l = port \<Longrightarrow>
    map_of (served (ls @ [l])) = (map_of (served ls))(port \<mapsto> ml_target l)"
  by (induction ls) (auto simp: served_def fun_eq_iff)

lemma served_ports: "map_of (served ls) port = None \<longleftrightarrow> port \<notin> ml_port ` set ls"
  by (simp add: served_def map_of_eq_None_iff image_image)

lemma closeOpt_fields [simp]:
  "pm_tcpTargets (closeOpt c pm) = pm_tcpTargets pm" "pm_udpTargets (closeOpt c pm) = pm_udpTargets pm"
  "pm_listeners (closeOpt c pm) = pm_listeners pm" "pm_udpConns (closeOpt c pm) = pm_udpConns pm"
  "pm_running (closeOpt c pm) = pm_running pm" "hasNet (closeOpt c pm) = hasNet pm"
  by (simp_all add: closeOpt_def hasNet_def split: option.split)

lemma RemoveProxyTarget_effect:
  assumes "proto \<in> {''tcp'', ''udp''}" "q \<in> {''tcp'', ''udp''}" "pm' = snd (RemoveProxyTarget proto ip port pm)"
  shows "pm_running pm' = pm_running pm" "hasNet pm' = hasNet pm"
    "targetsOf q pm' = (case map_of (targetsOf proto pm) ip of
       Some m \<Rightarrow> if q = proto then mput ip (mdel port m) (targetsOf q pm) else targetsOf q pm | None \<Rightarrow> targetsOf q pm)"
    "listenersOf q pm' = (if q = proto \<and> map_of (targetsOf proto pm) ip \<noteq> None
       then snd (removeByPort port (listenersOf q pm)) else listenersOf q pm)"
    "fst (RemoveProxyTarget proto ip port pm) = (if map_of (targetsOf proto pm) ip = None then Some (targetNotFound ip port) else None)"
  using assms by (auto simp: RemoveProxyTarget_def targetsOf_def listenersOf_def hasNet_def closeOpt_def split_beta
      split: option.splits)

lemma proto_ok_remove:
  assumes ok: "proto_ok ip proto pm" and "targetsOf proto pm' = (case map_of (targetsOf proto pm) ip of
       Some m \<Rightarrow> mput ip (mdel port m) (targetsOf proto pm) | None \<Rightarrow> targetsOf proto pm)"
    "listenersOf proto pm' = (if map_of (targetsOf proto pm) ip \<noteq> None
       then snd (removeByPort port (listenersOf proto pm)) else listenersOf proto pm)"
    "pm_running pm' = pm_running pm"
  shows "proto_ok ip proto pm' \<and> portsOf ip proto pm' = mdel port (portsOf ip proto pm)"
proof (cases "targetsOf proto pm = []")
  case True
  then show ?thesis using assms by (auto simp: proto_ok_def portsOf_def)
next
  case False
  then obtain m where m: "targetsOf proto pm = [(ip, m)]" using ok by (auto simp: proto_ok_def)
  have d: "distinct (map ml_port (listenersOf proto pm))" "distinct (mkeys m)"
    using ok by (auto simp: proto_ok_def portsOf_def m)
  have t: "targetsOf proto pm' = [(ip, mdel port m)]" "portsOf ip proto pm = m" "portsOf ip proto pm' = mdel port m"
    "listenersOf proto pm' = filter (\<lambda>l. ml_port l \<noteq> port) (listenersOf proto pm)"
    using assms(2,3) removeByPort_filter [OF d(1)] by (auto simp: m portsOf_def)
  have "map_of (mdel port m) = map_of (served (listenersOf proto pm'))" if "pm_running pm"
    using ok that t by (auto simp: proto_ok_def served_remove fun_eq_iff)
  then show ?thesis using ok t d assms(4) by (auto simp: proto_ok_def distinct_map_filter)
qed

lemma proto_ok_frame:
  "proto_ok ip q pm \<Longrightarrow> targetsOf q pm' = targetsOf q pm \<Longrightarrow> listenersOf q pm' = listenersOf q pm \<Longrightarrow>
   pm_running pm' = pm_running pm \<Longrightarrow> proto_ok ip q pm'"
  unfolding proto_ok_def portsOf_def by simp

lemma manager_ok_iff:
  "manager_ok ip pm \<longleftrightarrow> hasNet pm \<and> (\<forall>q\<in>{''tcp'', ''udp''}. proto_ok ip q pm)"
  by (simp add: manager_ok_def)

lemma RemoveProxyTarget_ok:
  assumes ok: "manager_ok ip pm" and proto: "proto \<in> {''tcp'', ''udp''}"
  shows "manager_ok ip (snd (RemoveProxyTarget proto ip port pm)) \<and>
    pm_running (snd (RemoveProxyTarget proto ip port pm)) = pm_running pm \<and>
    (\<forall>q\<in>{''tcp'', ''udp''}. portsOf ip q (snd (RemoveProxyTarget proto ip port pm))
      = (if q = proto then mdel port (portsOf ip q pm) else portsOf ip q pm))"
proof -
  let ?pm = "snd (RemoveProxyTarget proto ip port pm)"
  have "proto_ok ip q ?pm \<and> portsOf ip q ?pm = (if q = proto then mdel port (portsOf ip q pm) else portsOf ip q pm)"
    if q: "q \<in> {''tcp'', ''udp''}" for q
  proof (cases "q = proto")
    case True
    have pq: "proto_ok ip q pm" using ok q by (auto simp: manager_ok_iff)
    from True show ?thesis
      using proto_ok_remove [of ip q pm ?pm port] pq RemoveProxyTarget_effect [OF proto q refl, where ip = ip and port = port and pm = pm]
      by (simp split: option.splits)
  next
    case False
    then show ?thesis
      using proto_ok_frame [of ip q pm ?pm] ok q RemoveProxyTarget_effect [OF proto q refl, where ip = ip and port = port and pm = pm]
      by (auto simp: manager_ok_iff portsOf_def split: option.splits)
  qed
  then show ?thesis using ok RemoveProxyTarget_effect(1,2) [OF proto proto refl, where ip = ip and port = port and pm = pm]
    by (simp add: manager_ok_iff)
qed

lemma AddProxyTarget_ok:
  assumes listen: "free_ports listen" and ok: "manager_ok ip pm" and proto: "proto \<in> {''tcp'', ''udp''}"
    and fresh: "map_of (portsOf ip proto pm) port = None"
  shows "fst (AddProxyTarget listen proto ip port addr pm) = None \<and> manager_ok ip (snd (AddProxyTarget listen proto ip port addr pm)) \<and>
    pm_running (snd (AddProxyTarget listen proto ip port addr pm)) = pm_running pm \<and>
    (\<forall>q\<in>{''tcp'', ''udp''}. portsOf ip q (snd (AddProxyTarget listen proto ip port addr pm))
      = (if q = proto then mput port addr (portsOf ip q pm) else portsOf ip q pm))"
proof -
  let ?r = "AddProxyTarget listen proto ip port addr pm"
  let ?l = "\<lparr>ml_sock = pm_nextSock pm, ml_port = port, ml_target = addr\<rparr>"
  have pok: "proto_ok ip proto pm" "hasNet pm" using ok proto by (auto simp: manager_ok_def)
  have noport: "port \<notin> ml_port ` set (listenersOf proto pm)"
    using pok(1) fresh served_ports by (cases "pm_running pm") (auto simp: proto_ok_def)
  let ?put = "if proto = ''tcp'' then pm\<lparr>pm_tcpTargets := putTarget ip port addr (pm_tcpTargets pm)\<rparr>
    else pm\<lparr>pm_udpTargets := putTarget ip port addr (pm_udpTargets pm)\<rparr>"
  have put: "listenersOf q ?put = listenersOf q pm" "hasNet ?put = hasNet pm" "pm_running ?put = pm_running pm"
    "pm_nextSock ?put = pm_nextSock pm" for q by (simp_all add: listenersOf_def hasNet_def)
  have start: "startTarget listen proto ip port addr ?put = (None,
    (let pm' = ?put\<lparr>pm_nextSock := Suc (pm_nextSock pm)\<rparr>
     in if proto = ''tcp'' then pm'\<lparr>pm_listeners := pm_listeners pm @ [?l]\<rparr> else pm'\<lparr>pm_udpConns := pm_udpConns pm @ [?l]\<rparr>))"
    using startTarget_free [OF listen, of ?put proto port ip addr] put pok(2) proto noport by (auto simp: Let_def)
  have fields: "fst ?r = None" "pm_running (snd ?r) = pm_running pm" "hasNet (snd ?r)"
    "targetsOf q (snd ?r) = (if q = proto then putTarget ip port addr (targetsOf q pm) else targetsOf q pm)"
    "listenersOf q (snd ?r) = (if q = proto \<and> pm_running pm then listenersOf q pm @ [?l] else listenersOf q pm)"
    if "q \<in> {''tcp'', ''udp''}" for q
    using that proto start pok(2) by (auto simp: AddProxyTarget_def Let_def targetsOf_def listenersOf_def hasNet_def)
  have new: "portsOf ip proto (snd ?r) = mput port addr (portsOf ip proto pm)"
    using fields(4) [OF proto] by (simp add: portsOf_def putTarget_def)
  have "targetsOf proto (snd ?r) = [(ip, mput port addr (portsOf ip proto pm))]"
    using fields(4) [OF proto] pok(1) by (auto simp: proto_ok_def portsOf_def putTarget_def)
  moreover have "map_of (mput port addr (portsOf ip proto pm)) = map_of (served (listenersOf proto (snd ?r)))" if "pm_running pm"
    using pok(1) that served_add [OF noport, of ?l] fields(5) [OF proto] by (auto simp: proto_ok_def fun_eq_iff)
  ultimately have "proto_ok ip proto (snd ?r)"
    using pok(1) noport fields(2,5) [OF proto] new by (auto simp: proto_ok_def)
  moreover have "proto_ok ip q (snd ?r) \<and> portsOf ip q (snd ?r) = portsOf ip q pm" if "q \<in> {''tcp'', ''udp''}" "q \<noteq> proto" for q
    using proto_ok_frame [of ip q pm "snd ?r"] fields [OF that(1)] ok that by (auto simp: manager_ok_iff portsOf_def)
  ultimately show ?thesis using fields(1-3) [OF proto] new proto by (auto simp: manager_ok_iff)
qed

lemma startAll_free:
  assumes "free_ports listen" "hasNet pm" "proto \<in> {''tcp'', ''udp''}" "distinct (map (fst \<circ> snd) ts)"
    "(fst \<circ> snd) ` set ts \<inter> ml_port ` set (listenersOf proto pm) = {}"
  shows "\<exists>pm' ls. startAll listen proto pre ts pm = (None, pm') \<and> listenersOf proto pm' = listenersOf proto pm @ ls \<and>
    served ls = map snd ts \<and> hasNet pm' \<and> pm_running pm' = pm_running pm \<and> (\<forall>q. targetsOf q pm' = targetsOf q pm) \<and>
    (\<forall>q\<in>{''tcp'', ''udp''}. q \<noteq> proto \<longrightarrow> listenersOf q pm' = listenersOf q pm)"
  using assms
proof (induction ts arbitrary: pm)
  case Nil
  show ?case using Nil.prems(2) by (intro exI [of _ pm] exI [of _ "[]"]) (simp add: served_def)
next
  case (Cons t ts)
  obtain ip port addr where t: "t = (ip, port, addr)" by (cases t)
  let ?l = "\<lparr>ml_sock = pm_nextSock pm, ml_port = port, ml_target = addr\<rparr>"
  obtain p1 where p1: "startTarget listen proto ip port addr pm = (None, p1)" "listenersOf proto p1 = listenersOf proto pm @ [?l]"
      "hasNet p1" "pm_running p1 = pm_running pm" "\<And>q. targetsOf q p1 = targetsOf q pm"
      "\<And>q. q \<in> {''tcp'', ''udp''} \<Longrightarrow> q \<noteq> proto \<Longrightarrow> listenersOf q p1 = listenersOf q pm"
    using startTarget_free [of listen pm proto port ip addr] Cons.prems
    by (auto simp: t Let_def listenersOf_def hasNet_def targetsOf_def)
  have "(fst \<circ> snd) ` set ts \<inter> ml_port ` set (listenersOf proto p1) = {}" "distinct (map (fst \<circ> snd) ts)"
    using Cons.prems(4,5) by (auto simp: p1(2) t comp_def)
  from Cons.IH [OF Cons.prems(1) p1(3) Cons.prems(3) this(2,1)]
  obtain pm' ls where "startAll listen proto pre ts p1 = (None, pm')" "listenersOf proto pm' = listenersOf proto p1 @ ls"
      "served ls = map snd ts" "hasNet pm'" "pm_running pm' = pm_running p1" "\<forall>q. targetsOf q pm' = targetsOf q p1"
      "\<forall>q\<in>{''tcp'', ''udp''}. q \<noteq> proto \<longrightarrow> listenersOf q pm' = listenersOf q p1" by blast
  then show ?case using p1 by (intro exI [of _ pm'] exI [of _ "?l # ls"]) (simp add: t served_def)
qed

lemma flatTargets_ports:
  assumes "proto_ok ip proto pm"
  shows "map snd (flatTargets (targetsOf proto pm)) = portsOf ip proto pm" "distinct (map (fst \<circ> snd) (flatTargets (targetsOf proto pm)))"
proof -
  consider "targetsOf proto pm = []" | m where "targetsOf proto pm = [(ip, m)]" using assms by (auto simp: proto_ok_def)
  then show eq: "map snd (flatTargets (targetsOf proto pm)) = portsOf ip proto pm"
    by cases (auto simp: flatTargets_def portsOf_def split_beta comp_def)
  have "map (fst \<circ> snd) (flatTargets (targetsOf proto pm)) = mkeys (map snd (flatTargets (targetsOf proto pm)))" by simp
  then show "distinct (map (fst \<circ> snd) (flatTargets (targetsOf proto pm)))"
    unfolding eq using assms by (simp add: proto_ok_def)
qed

lemma Start_ok:
  assumes listen: "free_ports listen" and ok: "manager_ok ip pm"
  shows "fst (Start listen pm) = None \<and> manager_ok ip (snd (Start listen pm)) \<and> pm_running (snd (Start listen pm)) \<and>
    (\<forall>q. portsOf ip q (snd (Start listen pm)) = portsOf ip q pm)"
proof (cases "pm_running pm")
  case True
  then show ?thesis using ok by (simp add: Start_def)
next
  case False
  have pok: "proto_ok ip ''tcp'' pm" "proto_ok ip ''udp'' pm" "hasNet pm" using ok by (auto simp: manager_ok_def)
  have none: "listenersOf ''tcp'' pm = []" "listenersOf ''udp'' pm = []" using pok False by (auto simp: proto_ok_def)
  have tt: "targetsOf ''tcp'' p = pm_tcpTargets p" "targetsOf ''udp'' p = pm_udpTargets p" for p by (simp_all add: targetsOf_def)
  note ft = flatTargets_ports [OF pok(1), unfolded tt] and fu = flatTargets_ports [OF pok(2), unfolded tt]
  obtain p1 l1 where p1: "startAll listen ''tcp'' ''failed to start TCP target: '' (flatTargets (pm_tcpTargets pm)) pm = (None, p1)"
      "listenersOf ''tcp'' p1 = l1" "served l1 = portsOf ip ''tcp'' pm" "hasNet p1" "\<And>q. targetsOf q p1 = targetsOf q pm"
      "listenersOf ''udp'' p1 = []"
    using startAll_free [OF listen pok(3), of "''tcp''" "flatTargets (pm_tcpTargets pm)" "''failed to start TCP target: ''"] ft none by auto
  have ut: "pm_udpTargets p1 = pm_udpTargets pm" using p1(5) [of "''udp''"] by (simp add: tt)
  obtain p2 l2 where p2: "startAll listen ''udp'' ''failed to start UDP target: '' (flatTargets (pm_udpTargets p1)) p1 = (None, p2)"
      "listenersOf ''udp'' p2 = l2" "served l2 = portsOf ip ''udp'' pm" "hasNet p2" "\<And>q. targetsOf q p2 = targetsOf q pm"
      "listenersOf ''tcp'' p2 = l1"
    using startAll_free [OF listen p1(4), of "''udp''" "flatTargets (pm_udpTargets pm)" "''failed to start UDP target: ''"] fu p1 by (auto simp: ut)
  let ?pm = "p2\<lparr>pm_running := True\<rparr>"
  have start: "Start listen pm = (None, ?pm)" using False p1(1) p2(1) by (simp add: Start_def)
  have fields: "targetsOf q ?pm = targetsOf q pm" "listenersOf q ?pm = listenersOf q p2" for q
    using p2(5) [of q] by (auto simp: targetsOf_def listenersOf_def split: if_splits)
  have ports: "portsOf ip q ?pm = portsOf ip q pm" for q by (simp add: portsOf_def fields)
  have "map ml_port l = mkeys (served l)" for l by (simp add: served_def)
  then have "proto_ok ip ''tcp'' ?pm" "proto_ok ip ''udp'' ?pm"
    using pok p1 p2 by (auto simp: proto_ok_def ports fields)
  then show ?thesis using start ports p2(4) by (simp add: manager_ok_def hasNet_def)
qed

lemma StopProxy_ok:
  assumes "manager_ok ip pm"
  shows "manager_ok ip (StopProxy pm) \<and> \<not> pm_running (StopProxy pm) \<and> (\<forall>q. portsOf ip q (StopProxy pm) = portsOf ip q pm)"
  using assms by (auto simp: manager_ok_def proto_ok_def StopProxy_def listenersOf_def portsOf_def targetsOf_def hasNet_def)

section \<open>Properties\<close>


definition exBytes :: "byte_call list" where
  "exBytes = [SetTunnel [] True ''k'', SetAsync True, Count [] 0 False ''tcp'' 100, Tick, Count [] 0 True ''udp'' 7, ClearTunnelCall]"


text \<open>A network that refuses a bound port.\<close>

definition exListen :: listen where
  "exListen proto port bound = (if port \<in> set bound then Some ''address in use'' else None)"

lemmas listen_simps = AddProxyTarget_def RemoveProxyTarget_def startTarget_def putTarget_def Start_def StopProxy_def flatTargets_def
  NewProxyManager_def NewProxyManagerWithoutTNet_def exListen_def closeOpt_def Let_def

text \<open>
  The listen address of a target is not part of what identifies its listener: with targets of two listen addresses on the
  same port the second cannot be started, and removing it closes the listener of the first, whose target stays configured.
\<close>

theorem remove_closes_other_listener:
  "let pm0 = snd (Start exListen (NewProxyManager True));
       (e1, pm1) = AddProxyTarget exListen ''tcp'' ''10.0.0.1'' 80 ''a:80'' pm0;
       (e2, pm2) = AddProxyTarget exListen ''tcp'' ''10.0.0.2'' 80 ''b:80'' pm1;
       (e3, pm3) = RemoveProxyTarget ''tcp'' ''10.0.0.2'' 80 pm2
   in e1 = None \<and> e2 \<noteq> None \<and> e3 = None \<and> map ml_target (pm_listeners pm2) = [''a:80''] \<and> pm_listeners pm3 = [] \<and>
      map_of (pm_tcpTargets pm3) ''10.0.0.1'' = Some [(80, ''a:80'')]"
  by (simp add: listen_simps)

text \<open>
  A start that fails half way leaks its listeners: those opened before the error stay open, and \<open>Stop\<close> does not close
  them because the manager never became running.
\<close>

theorem failed_start_leaks:
  "let pm0 = (NewProxyManager True)\<lparr>pm_tcpTargets := [(''10.0.0.1'', [(80, ''a:80'')]), (''10.0.0.2'', [(80, ''b:80'')])]\<rparr>;
       (e, pm1) = Start exListen pm0
   in e \<noteq> None \<and> \<not> pm_running pm1 \<and> map ml_target (pm_listeners pm1) = [''a:80''] \<and> StopProxy pm1 = pm1 \<and> pm_closed (StopProxy pm1) = []"
  by (simp add: listen_simps)

end
