(* ===== verification/Newt_Targets.thy ===== *)
theory Newt_Targets
  imports Proxy_Manager "HOL-Library.Multiset"
begin

text \<open>
  The proxy targets of the agent (\<open>newt/targets.go\<close>, and the target part of \<open>handleSync\<close> in \<open>newt/data.go\<close>): parsing target
  strings, adding and removing them at the proxy manager, and bringing the manager in line with a desired list.  Running
  the up-down script is an argument, \<open>run\<close>, from the argument vector to an error or the output.
\<close>

declare map_of_eq_Some_iff [simp del] Some_eq_map_of_iff [simp del]

section \<open>Target strings\<close>

definition parseTargetString :: "string \<Rightarrow> string + int \<times> string" where
  "parseTargetString target =
     (if CHR '':'' \<notin> set target then Inl (''invalid target format, no colon found: '' @ target)
      else let listenPortStr = takeWhile (\<lambda>c. c \<noteq> CHR '':'') target;
               remainder = tl (dropWhile (\<lambda>c. c \<noteq> CHR '':'') target)
        in case scan_int listenPortStr of
             None \<Rightarrow> Inl (''invalid listen port: '' @ listenPortStr)
           | Some listenPort \<Rightarrow>
               if listenPort \<le> 0 \<or> listenPort > 65535 then Inl (''listen port out of range: '' @ itoa_int listenPort)
               else case split_host_port remainder of
                 None \<Rightarrow> Inl (''invalid host:port format '' @ remainder)
               | Some (host, targetPort) \<Rightarrow>
                   if host = [] then Inl (''empty host in target: '' @ target)
                   else if targetPort = [] then Inl (''empty target port in target: '' @ target)
                   else Inr (listenPort, join_host_port host targetPort))"

definition targetString :: "int \<Rightarrow> string \<Rightarrow> string" where
  "targetString port addr = itoa_int port @ CHR '':'' # addr"

section \<open>Updating targets\<close>

datatype script_error = ExitError int string | OtherError string

type_synonym run_script = "string list \<Rightarrow> script_error + string"

definition executeUpdownScript :: "run_script \<Rightarrow> string \<Rightarrow> string \<Rightarrow> string \<Rightarrow> string \<Rightarrow> string + string" where
  "executeUpdownScript run script action proto target =
     (if script = [] then Inr target
      else if str_fields script = [] then Inl ''invalid updown script command''
      else case run (str_fields script @ [action, proto, target]) of
        Inl (ExitError code stderr) \<Rightarrow> Inl (''updown script execution failed (exit code '' @ itoa_int code @ ''): '' @ stderr)
      | Inl (OtherError e) \<Rightarrow> Inl (''updown script execution failed: '' @ e)
      | Inr output \<Rightarrow> Inr (if trim_space output \<noteq> [] then trim_space output else target))"

definition processTarget :: "run_script \<Rightarrow> string \<Rightarrow> string \<Rightarrow> string \<Rightarrow> string" where
  "processTarget run script proto target =
     (if script = [] then target
      else case executeUpdownScript run script ''add'' proto target of
        Inl e \<Rightarrow> target
      | Inr newTarget \<Rightarrow> if newTarget \<noteq> [] then newTarget else target)"

text \<open>When a target is removed the script runs as well, and nothing depends on its result.\<close>

primrec updateTargets ::
  "listen \<Rightarrow> run_script \<Rightarrow> string \<Rightarrow> string \<Rightarrow> string \<Rightarrow> string \<Rightarrow> string list \<Rightarrow> proxy_manager \<Rightarrow>
   string option \<times> proxy_manager" where
  "updateTargets listen run script action tunnelIP proto [] pm = (None, pm)"
| "updateTargets listen run script action tunnelIP proto (t # ts) pm =
     (case parseTargetString t of
        Inl e \<Rightarrow> updateTargets listen run script action tunnelIP proto ts pm
      | Inr (port, target) \<Rightarrow>
          if action = ''add'' then
            (let pm = snd (RemoveProxyTarget proto tunnelIP port pm);
                 pm = snd (AddProxyTarget listen proto tunnelIP port (processTarget run script proto target) pm)
             in updateTargets listen run script action tunnelIP proto ts pm)
          else if action = ''remove'' then
            (case RemoveProxyTarget proto tunnelIP port pm of
               (Some e, pm') \<Rightarrow> (Some e, pm')
             | (None, pm') \<Rightarrow> updateTargets listen run script action tunnelIP proto ts pm')
          else updateTargets listen run script action tunnelIP proto ts pm)"

section \<open>Synchronising targets\<close>

definition desiredTargets :: "string list \<Rightarrow> (int, string) gomap" where
  "desiredTargets strs = foldl (\<lambda>d t. case split_on CHR '':'' t of
       [a, b, c] \<Rightarrow> (case scan_int a of None \<Rightarrow> d | Some port \<Rightarrow> mput port (b @ CHR '':'' # c) d)
     | _ \<Rightarrow> d) [] strs"

text \<open>\<open>rngC\<close> and \<open>rngD\<close> are the orders of iteration over the current and the desired targets of one protocol.\<close>

definition syncRemoveTargets ::
  "listen \<Rightarrow> run_script \<Rightarrow> string \<Rightarrow> string \<Rightarrow> string \<Rightarrow> (int, string) gomap \<Rightarrow> (int \<times> string) list \<Rightarrow> proxy_manager \<Rightarrow> proxy_manager" where
  "syncRemoveTargets listen run script ip proto desired cur pm =
     foldl (\<lambda>pm (port, addr). if mhas desired port then pm
        else snd (updateTargets listen run script ''remove'' ip proto [targetString port addr] pm)) pm cur"

definition syncAddTargets ::
  "listen \<Rightarrow> run_script \<Rightarrow> string \<Rightarrow> string \<Rightarrow> string \<Rightarrow> (int, string) gomap \<Rightarrow> (int \<times> string) list \<Rightarrow> proxy_manager \<Rightarrow> proxy_manager" where
  "syncAddTargets listen run script ip proto cur desired pm =
     foldl (\<lambda>pm (port, target).
        if map_of cur port = Some target then pm
        else let pm = (case map_of cur port of
                         None \<Rightarrow> pm
                       | Some currentTarget \<Rightarrow> snd (updateTargets listen run script ''remove'' ip proto [targetString port currentTarget] pm))
             in snd (updateTargets listen run script ''add'' ip proto [targetString port target] pm)) pm desired"

definition syncProxyTargets ::
  "listen \<Rightarrow> run_script \<Rightarrow> string \<Rightarrow> ((int \<times> string) list \<Rightarrow> (int \<times> string) list) \<Rightarrow>
   ((int \<times> string) list \<Rightarrow> (int \<times> string) list) \<Rightarrow> string \<Rightarrow> string \<Rightarrow> string list \<Rightarrow> (int, string) gomap \<Rightarrow> proxy_manager \<Rightarrow> proxy_manager" where
  "syncProxyTargets listen run script rngC rngD ip proto strs cur pm =
     (let desired = desiredTargets strs
      in syncAddTargets listen run script ip proto cur (rngD desired)
           (syncRemoveTargets listen run script ip proto desired (rngC cur) pm))"

text \<open>The two protocols one after the other, with the targets \<open>GetTargets\<close> returned before the first change.\<close>

definition handleSyncTargets ::
  "listen \<Rightarrow> run_script \<Rightarrow> string \<Rightarrow> ((int \<times> string) list \<Rightarrow> (int \<times> string) list) \<Rightarrow>
   ((int \<times> string) list \<Rightarrow> (int \<times> string) list) \<Rightarrow> string \<Rightarrow> string list \<Rightarrow> string list \<Rightarrow> proxy_manager \<Rightarrow> proxy_manager" where
  "handleSyncTargets listen run script rngC rngD ip tcp udp pm =
     (if ip = [] then pm
      else let curTCP = (case map_of (fst (GetTargets pm)) ip of None \<Rightarrow> [] | Some m \<Rightarrow> m);
               curUDP = (case map_of (snd (GetTargets pm)) ip of None \<Rightarrow> [] | Some m \<Rightarrow> m)
           in syncProxyTargets listen run script rngC rngD ip ''udp'' udp curUDP
                (syncProxyTargets listen run script rngC rngD ip ''tcp'' tcp curTCP pm))"

section \<open>Parsing is a round trip\<close>

lemma scan_int_itoa: "int n < 2 ^ 63 \<Longrightarrow> scan_int (itoa n) = Some (int n)"
proof -
  assume n: "int n < 2 ^ 63"
  have hd: "is_digit (hd (itoa n))" by (rule hd_itoa_digit)
  then have "\<not> is_space (hd (itoa n))" "hd (itoa n) \<noteq> CHR ''-''" "hd (itoa n) \<noteq> CHR ''+''"
    using sign_not_digit by (auto simp: is_digit_def is_space_def)
  moreover have tw: "takeWhile is_digit (itoa n) = itoa n" using itoa_digits [of n] by (simp add: takeWhile_eq_all_conv list_all_iff)
  moreover have "dropWhile (\<lambda>c. is_space c \<and> (of_char c :: nat) \<noteq> 10) (itoa n) = itoa n"
    using calculation(1) by (cases "itoa n") auto
  ultimately show ?thesis using n by (simp add: scan_int_def Let_def tw del: takeWhile_eq_all_conv)
qed

text \<open>A target the manager can hold without loss: its own text parses back to it.\<close>

definition target_ok :: "int \<Rightarrow> string \<Rightarrow> bool" where
  "target_ok port addr \<longleftrightarrow> parseTargetString (targetString port addr) = Inr (port, addr)"

definition plain :: "string \<Rightarrow> bool" where
  "plain s \<longleftrightarrow> CHR ''['' \<notin> set s \<and> CHR '']'' \<notin> set s"

lemma target_ok_join:
  assumes "0 < port" "port \<le> 65535" "host \<noteq> []" "tp \<noteq> []" "plain host" "plain tp" "CHR '':'' \<notin> set tp"
  shows "target_ok port (join_host_port host tp)"
proof -
  have port: "itoa_int port = itoa (nat port)" "int (nat port) = port" using assms(1) by (simp_all add: itoa_int_def)
  have nc: "CHR '':'' \<notin> set (itoa (nat port))" using not_digit_notin_itoa sign_not_digit(3) by blast
  then have "takeWhile (\<lambda>c. c \<noteq> CHR '':'') (itoa (nat port) @ CHR '':'' # r) = itoa (nat port)"
      "dropWhile (\<lambda>c. c \<noteq> CHR '':'') (itoa (nat port) @ CHR '':'' # r) = CHR '':'' # r" for r
    by (subst takeWhile_append2 dropWhile_append2; auto)+
  moreover have "scan_int (itoa (nat port)) = Some port" using scan_int_itoa [of "nat port"] port(2) assms(2) by simp
  ultimately show ?thesis
    using assms split_join_host_port [of host tp]
    by (simp add: target_ok_def targetString_def parseTargetString_def port(1) plain_def)
qed

lemma cut_last_parts: "cut_last c s = Some (h, p) \<Longrightarrow> s = h @ c # p \<and> c \<notin> set p"
proof -
  assume a: "cut_last c s = Some (h, p)"
  then have "c \<in> set s" by (auto simp: cut_last_def split: if_splits)
  then obtain h' p' where s: "s = h' @ c # p'" "c \<notin> set p'" using split_list_last [of c s] by blast
  then show ?thesis using cut_last_append [of c p' h'] a by simp
qed

lemma split_host_port_plain:
  assumes "split_host_port s = Some (h, p)"
  shows "plain h" "plain p" "CHR '':'' \<notin> set p"
proof -
  obtain g where g: "cut_last CHR '':'' s = Some (g, p)"
    using assms by (auto simp: split_host_port_def Let_def split: option.splits if_splits)
  have s: "s = g @ CHR '':'' # p" "CHR '':'' \<notin> set p" using cut_last_parts [OF g] by auto
  show "CHR '':'' \<notin> set p" by (rule s(2))
  have "plain h \<and> plain p"
  proof (cases "s \<noteq> [] \<and> hd s = CHR ''[''")
    case True
    then have h: "h = takeWhile (\<lambda>x. x \<noteq> CHR '']'') (tl s)" "CHR ''['' \<notin> set (tl s)" "CHR '']'' \<notin> set p"
      using assms g by (auto simp: split_host_port_def Let_def split: if_splits)
    have "set p \<subseteq> set (tl s)" using s(1) True by (cases g) auto
    then show ?thesis using h by (auto simp: plain_def dest: set_takeWhileD)
  next
    case False
    then have "h = g" "CHR ''['' \<notin> set s" "CHR '']'' \<notin> set s"
      using assms g by (auto simp: split_host_port_def split: if_splits)
    then show ?thesis using s(1) by (auto simp: plain_def)
  qed
  then show "plain h" "plain p" by auto
qed

lemma parseTargetString_ok: "parseTargetString s = Inr (port, addr) \<Longrightarrow> 0 < port \<and> port \<le> 65535 \<and> target_ok port addr"
proof -
  assume a: "parseTargetString s = Inr (port, addr)"
  obtain h tp where h: "split_host_port (tl (dropWhile (\<lambda>c. c \<noteq> CHR '':'') s)) = Some (h, tp)" "h \<noteq> []" "tp \<noteq> []"
      "addr = join_host_port h tp" and port: "0 < port" "port \<le> 65535"
    using a by (auto simp: parseTargetString_def Let_def split: if_splits option.splits)
  then show ?thesis using target_ok_join [OF port h(2,3)] split_host_port_plain [OF h(1)] by simp
qed

section \<open>Updates keep the manager consistent\<close>

definition targets_inv :: "string \<Rightarrow> proxy_manager \<Rightarrow> bool" where
  "targets_inv ip pm \<longleftrightarrow> manager_ok ip pm \<and>
     (\<forall>q\<in>{''tcp'', ''udp''}. \<forall>port addr. map_of (portsOf ip q pm) port = Some addr \<longrightarrow> target_ok port addr)"

text \<open>What one target string does without an up-down script.\<close>

lemma update_remove:
  assumes inv: "targets_inv ip pm" and proto: "proto \<in> {''tcp'', ''udp''}" and pm': "pm' = snd (RemoveProxyTarget proto ip port pm)"
  shows "targets_inv ip pm' \<and> pm_running pm' = pm_running pm \<and>
    (\<forall>q\<in>{''tcp'', ''udp''}. map_of (portsOf ip q pm') = (if q = proto then (map_of (portsOf ip q pm))(port := None) else map_of (portsOf ip q pm)))"
proof -
  note r = RemoveProxyTarget_ok [of ip pm proto port, folded pm']
  have "map_of (portsOf ip q pm') = (if q = proto then (map_of (portsOf ip q pm))(port := None) else map_of (portsOf ip q pm))"
    if "q \<in> {''tcp'', ''udp''}" for q
    using r inv proto that by (auto simp: targets_inv_def fun_eq_iff)
  moreover have "manager_ok ip pm'" "pm_running pm' = pm_running pm" using r inv proto by (auto simp: targets_inv_def)
  ultimately show ?thesis using inv by (auto simp: targets_inv_def split: if_splits)
qed

lemma update_add:
  assumes listen: "free_ports listen" and inv: "targets_inv ip pm" and proto: "proto \<in> {''tcp'', ''udp''}" and ok: "target_ok port addr"
    and pm': "pm' = snd (AddProxyTarget listen proto ip port addr (snd (RemoveProxyTarget proto ip port pm)))"
  shows "targets_inv ip pm' \<and> pm_running pm' = pm_running pm \<and>
    (\<forall>q\<in>{''tcp'', ''udp''}. map_of (portsOf ip q pm') = (if q = proto then (map_of (portsOf ip q pm))(port \<mapsto> addr) else map_of (portsOf ip q pm)))"
proof -
  let ?r = "snd (RemoveProxyTarget proto ip port pm)"
  have r: "targets_inv ip ?r" "pm_running ?r = pm_running pm"
    "\<And>q. q \<in> {''tcp'', ''udp''} \<Longrightarrow> map_of (portsOf ip q ?r) = (if q = proto then (map_of (portsOf ip q pm))(port := None) else map_of (portsOf ip q pm))"
    using update_remove [OF inv proto refl] by blast+
  have "map_of (portsOf ip proto ?r) port = None" "manager_ok ip ?r" using r(1) r(3) [OF proto] by (simp_all add: targets_inv_def)
  note a = AddProxyTarget_ok [OF listen this(2) proto this(1), of addr, folded pm']
  have ports: "map_of (portsOf ip q pm') = (if q = proto then (map_of (portsOf ip q pm))(port \<mapsto> addr) else map_of (portsOf ip q pm))"
    if "q \<in> {''tcp'', ''udp''}" for q
    using a r(3) [OF that] that by (auto simp: map_of_mput fun_eq_iff)
  have "target_ok p b" if "q \<in> {''tcp'', ''udp''}" "map_of (portsOf ip q pm') p = Some b" for q p b
    using that ports [OF that(1)] inv ok by (auto simp: targets_inv_def split: if_splits)
  then have "targets_inv ip pm'" using a unfolding targets_inv_def by blast
  moreover have "pm_running pm' = pm_running pm" using a r(2) by simp
  ultimately show ?thesis using ports by blast
qed

lemma updateTargets_remove_one:
  "target_ok port addr \<Longrightarrow> snd (updateTargets listen run script ''remove'' ip proto [targetString port addr] pm) = snd (RemoveProxyTarget proto ip port pm)"
  by (simp add: target_ok_def split: prod.split option.split)

lemma updateTargets_add_one:
  "target_ok port addr \<Longrightarrow> snd (updateTargets listen run [] ''add'' ip proto [targetString port addr] pm)
     = snd (AddProxyTarget listen proto ip port addr (snd (RemoveProxyTarget proto ip port pm)))"
  by (simp add: target_ok_def processTarget_def)

lemma updateTargets_inv:
  assumes listen: "free_ports listen" and proto: "proto \<in> {''tcp'', ''udp''}"
  shows "targets_inv ip pm \<Longrightarrow> targets_inv ip (snd (updateTargets listen run [] action ip proto ts pm)) \<and>
    pm_running (snd (updateTargets listen run [] action ip proto ts pm)) = pm_running pm"
proof (induction ts arbitrary: pm)
  case (Cons t ts)
  show ?case
  proof (cases "parseTargetString t")
    case (Inr pa)
    obtain port addr where pa: "pa = (port, addr)" by fastforce
    have ok: "target_ok port addr" using parseTargetString_ok Inr pa by blast
    have rm: "targets_inv ip (snd (RemoveProxyTarget proto ip port pm))" "pm_running (snd (RemoveProxyTarget proto ip port pm)) = pm_running pm"
      using update_remove [OF Cons.prems proto refl] by auto
    have add: "targets_inv ip (snd (AddProxyTarget listen proto ip port addr (snd (RemoveProxyTarget proto ip port pm))))"
      "pm_running (snd (AddProxyTarget listen proto ip port addr (snd (RemoveProxyTarget proto ip port pm)))) = pm_running pm"
      using update_add [OF listen Cons.prems proto ok refl] by auto
    show ?thesis using Inr pa Cons.IH [OF rm(1)] Cons.IH [OF add(1)] Cons.IH [OF Cons.prems] rm add
      by (auto simp: processTarget_def split: prod.split option.split)
  qed (use Cons in simp)
qed simp

section \<open>Synchronisation is exact\<close>

lemma syncRemoveTargets_spec:
  assumes proto: "proto \<in> {''tcp'', ''udp''}"
  shows "targets_inv ip pm \<Longrightarrow> list_all (\<lambda>(port, addr). target_ok port addr) cur \<Longrightarrow>
    targets_inv ip (syncRemoveTargets listen run [] ip proto desired cur pm) \<and>
    pm_running (syncRemoveTargets listen run [] ip proto desired cur pm) = pm_running pm \<and>
    (\<forall>q\<in>{''tcp'', ''udp''}. map_of (portsOf ip q (syncRemoveTargets listen run [] ip proto desired cur pm)) =
      (\<lambda>port. if q = proto \<and> port \<in> fst ` set cur \<and> map_of desired port = None then None else map_of (portsOf ip q pm) port))"
proof (induction cur arbitrary: pm)
  case Nil
  then show ?case by (simp add: syncRemoveTargets_def)
next
  case (Cons c cur)
  obtain port addr where c: "c = (port, addr)" by fastforce
  have ok: "target_ok port addr" "list_all (\<lambda>(port, addr). target_ok port addr) cur" using Cons.prems(2) by (auto simp: c)
  define p1 where "p1 = (if mhas desired port then pm else snd (RemoveProxyTarget proto ip port pm))"
  have step: "syncRemoveTargets listen run [] ip proto desired (c # cur) pm = syncRemoveTargets listen run [] ip proto desired cur p1"
    using updateTargets_remove_one [OF ok(1)] by (simp add: syncRemoveTargets_def c p1_def)
  have p1: "targets_inv ip p1" "pm_running p1 = pm_running pm"
    "\<And>q. q \<in> {''tcp'', ''udp''} \<Longrightarrow> map_of (portsOf ip q p1) = (if q = proto \<and> map_of desired port = None then (map_of (portsOf ip q pm))(port := None) else map_of (portsOf ip q pm))"
    using update_remove [OF Cons.prems(1) proto refl, of port] Cons.prems(1) by (auto simp: p1_def)
  note IH = Cons.IH [OF p1(1) ok(2)]
  have "map_of (portsOf ip q (syncRemoveTargets listen run [] ip proto desired cur p1)) =
      (\<lambda>p. if q = proto \<and> p \<in> fst ` set (c # cur) \<and> map_of desired p = None then None else map_of (portsOf ip q pm) p)"
    if "q \<in> {''tcp'', ''udp''}" for q
    using IH [THEN conjunct2, THEN conjunct2, rule_format, OF that] p1(3) [OF that] by (auto simp: c fun_eq_iff)
  then show ?case unfolding step using IH p1(2) by blast
qed

lemma syncAddTargets_spec:
  assumes listen: "free_ports listen" and proto: "proto \<in> {''tcp'', ''udp''}"
    and cur: "\<forall>port addr. map_of cur port = Some addr \<longrightarrow> target_ok port addr"
  shows "targets_inv ip pm \<Longrightarrow> distinct (mkeys ds) \<Longrightarrow> list_all (\<lambda>(port, addr). target_ok port addr) ds \<Longrightarrow>
    \<forall>port\<in>fst ` set ds. map_of (portsOf ip proto pm) port = map_of cur port \<Longrightarrow>
    targets_inv ip (syncAddTargets listen run [] ip proto cur ds pm) \<and>
    pm_running (syncAddTargets listen run [] ip proto cur ds pm) = pm_running pm \<and>
    (\<forall>q\<in>{''tcp'', ''udp''}. map_of (portsOf ip q (syncAddTargets listen run [] ip proto cur ds pm)) =
      (if q = proto then map_of (portsOf ip q pm) ++ map_of ds else map_of (portsOf ip q pm)))"
proof (induction ds arbitrary: pm)
  case Nil
  then show ?case by (simp add: syncAddTargets_def)
next
  case (Cons d ds)
  obtain port target where d: "d = (port, target)" by fastforce
  have ok: "target_ok port target" "list_all (\<lambda>(port, addr). target_ok port addr) ds" "port \<notin> fst ` set ds" "distinct (mkeys ds)"
    using Cons.prems(2,3) by (auto simp: d)
  define p0 where "p0 = (case map_of cur port of None \<Rightarrow> pm | Some _ \<Rightarrow> snd (RemoveProxyTarget proto ip port pm))"
  define p1 where "p1 = (if map_of cur port = Some target then pm
    else snd (AddProxyTarget listen proto ip port target (snd (RemoveProxyTarget proto ip port p0))))"
  have step: "syncAddTargets listen run [] ip proto cur (d # ds) pm = syncAddTargets listen run [] ip proto cur ds p1"
    using updateTargets_add_one [OF ok(1)] updateTargets_remove_one cur
    by (auto simp: syncAddTargets_def d p0_def p1_def split: option.split)
  have p0: "targets_inv ip p0" "pm_running p0 = pm_running pm"
    "\<And>q x. q \<in> {''tcp'', ''udp''} \<Longrightarrow> x \<noteq> port \<or> q \<noteq> proto \<Longrightarrow> map_of (portsOf ip q p0) x = map_of (portsOf ip q pm) x"
    using update_remove [OF Cons.prems(1) proto refl, of port] Cons.prems(1) by (auto simp: p0_def split: option.split)
  have p1: "targets_inv ip p1" "pm_running p1 = pm_running pm"
    using update_add [OF listen p0(1) proto ok(1) refl] p0(2) Cons.prems(1) by (auto simp: p1_def)
  have ports: "map_of (portsOf ip q p1) = (if q = proto then (map_of (portsOf ip q pm))(port \<mapsto> target) else map_of (portsOf ip q pm))"
    if q: "q \<in> {''tcp'', ''udp''}" for q
  proof (cases "map_of cur port = Some target")
    case True
    then have "map_of (portsOf ip proto pm) port = Some target" using Cons.prems(4) by (simp add: d)
    then show ?thesis using True by (auto simp: p1_def fun_eq_iff)
  next
    case False
    then show ?thesis
      using update_add [OF listen p0(1) proto ok(1) refl, THEN conjunct2, THEN conjunct2, rule_format, OF q] p0(3) [OF q]
      by (auto simp: p1_def fun_eq_iff)
  qed
  have "\<forall>p\<in>fst ` set ds. map_of (portsOf ip proto p1) p = map_of cur p"
    using Cons.prems(4) ok(3) ports [OF proto] by (auto simp: d)
  note IH = Cons.IH [OF p1(1) ok(4,2) this]
  have "map_of (portsOf ip q (syncAddTargets listen run [] ip proto cur ds p1)) =
      (if q = proto then map_of (portsOf ip q pm) ++ map_of (d # ds) else map_of (portsOf ip q pm))"
    if q: "q \<in> {''tcp'', ''udp''}" for q
  proof -
    have "map_of ds port = None" using ok(3) by (simp add: map_of_eq_None_iff)
    then show ?thesis
      using IH [THEN conjunct2, THEN conjunct2, rule_format, OF q] ports [OF q]
      by (auto simp: d fun_eq_iff map_add_def split: option.split)
  qed
  then show ?case unfolding step using IH p1(2) by simp
qed

lemma desiredTargets_distinct: "distinct (mkeys (desiredTargets strs))"
  unfolding desiredTargets_def by (rule foldl_inv) (auto split: list.split option.split)

lemma syncProxyTargets_exact:
  assumes listen: "free_ports listen" and proto: "proto \<in> {''tcp'', ''udp''}" and inv: "targets_inv ip pm"
    and rng: "\<And>xs. mset (rngC xs) = mset xs" "\<And>xs. mset (rngD xs) = mset xs"
    and cur: "cur = portsOf ip proto pm" and ok: "list_all (\<lambda>(port, addr). target_ok port addr) (desiredTargets strs)"
    and pm': "pm' = syncProxyTargets listen run [] rngC rngD ip proto strs cur pm"
  shows "targets_inv ip pm' \<and> pm_running pm' = pm_running pm \<and>
    (\<forall>q\<in>{''tcp'', ''udp''}. map_of (portsOf ip q pm') = (if q = proto then map_of (desiredTargets strs) else map_of (portsOf ip q pm)))"
proof -
  let ?d = "desiredTargets strs"
  let ?r = "syncRemoveTargets listen run [] ip proto ?d (rngC cur) pm"
  have dc: "distinct (mkeys cur)" using inv proto by (auto simp: cur targets_inv_def manager_ok_iff proto_ok_def)
  have okc: "\<forall>port addr. map_of cur port = Some addr \<longrightarrow> target_ok port addr" using inv proto by (auto simp: cur targets_inv_def)
  have setC: "set (rngC cur) = set cur" "set (rngD ?d) = set ?d" using rng by (metis mset_eq_setD)+
  have "list_all (\<lambda>(port, addr). target_ok port addr) (rngC cur)"
    using okc dc by (auto simp: list_all_iff setC dest: map_of_is_SomeI)
  note r = syncRemoveTargets_spec [OF proto inv this, of listen run ?d]
  have "map_of (portsOf ip proto ?r) p = (if p \<in> fst ` set (rngC cur) \<and> map_of ?d p = None then None else map_of cur p)" for p
    using r [THEN conjunct2, THEN conjunct2, rule_format, OF proto] by (simp add: cur)
  note rp = this [unfolded setC(1)]
  have keep: "map_of (portsOf ip proto ?r) p = map_of cur p" if "map_of ?d p \<noteq> None" for p using rp [of p] that by auto
  have drop: "map_of (portsOf ip proto ?r) p = None" if "map_of ?d p = None" for p
    using rp [of p] that map_of_eq_None_iff [of cur p] by (cases "p \<in> fst ` set cur") simp_all
  have dd: "distinct (mkeys (rngD ?d))" using desiredTargets_distinct [of strs] rng(2) by (metis mset_eq_imp_distinct_iff mset_map)
  have md: "map_of (rngD ?d) = map_of ?d"
    using dd desiredTargets_distinct [of strs] setC(2) by (simp add: map_of_inject_set)
  have okd: "list_all (\<lambda>(port, addr). target_ok port addr) (rngD ?d)" using ok by (simp add: list_all_iff setC)
  have "\<forall>port\<in>fst ` set (rngD ?d). map_of (portsOf ip proto ?r) port = map_of cur port"
    using keep by (auto simp: setC map_of_eq_None_iff image_iff)
  note add = syncAddTargets_spec [OF listen proto okc r [THEN conjunct1] dd okd this, of run, unfolded md]
  have "pm' = syncAddTargets listen run [] ip proto cur (rngD ?d) ?r" by (simp add: pm' syncProxyTargets_def Let_def)
  note a = add [folded this]
  have "map_of (portsOf ip proto ?r) ++ map_of ?d = map_of ?d"
    using drop by (auto simp: fun_eq_iff map_add_def split: option.split)
  moreover have "map_of (portsOf ip q ?r) = map_of (portsOf ip q pm)" if "q \<in> {''tcp'', ''udp''}" "q \<noteq> proto" for q
    using r [THEN conjunct2, THEN conjunct2, rule_format, OF that(1)] that(2) by auto
  ultimately have "map_of (portsOf ip q pm') = (if q = proto then map_of ?d else map_of (portsOf ip q pm))" if "q \<in> {''tcp'', ''udp''}" for q
    using a [THEN conjunct2, THEN conjunct2, rule_format, OF that] that by simp
  then show ?thesis using a r by simp
qed

section \<open>All calls\<close>

datatype target_call =
    UpdateCall string string "string list" | StartCall | StopCall
  | SyncCall "(int \<times> string) list \<Rightarrow> (int \<times> string) list" "(int \<times> string) list \<Rightarrow> (int \<times> string) list" "string list" "string list"

definition targetCall :: "listen \<Rightarrow> run_script \<Rightarrow> string \<Rightarrow> proxy_manager \<Rightarrow> target_call \<Rightarrow> proxy_manager" where
  "targetCall listen run ip pm c = (case c of
     UpdateCall action proto ts \<Rightarrow> snd (updateTargets listen run [] action ip proto ts pm)
   | StartCall \<Rightarrow> snd (Start listen pm)
   | StopCall \<Rightarrow> StopProxy pm
   | SyncCall rngC rngD tcp udp \<Rightarrow> handleSyncTargets listen run [] rngC rngD ip tcp udp pm)"

definition targetAllowed :: "proxy_manager \<Rightarrow> target_call \<Rightarrow> bool" where
  "targetAllowed pm c = (case c of UpdateCall action proto ts \<Rightarrow> proto \<in> {''tcp'', ''udp''} | _ \<Rightarrow> True)"

lemma syncProxyTargets_inv:
  assumes listen: "free_ports listen" and proto: "proto \<in> {''tcp'', ''udp''}" and inv: "targets_inv ip pm"
  shows "targets_inv ip (syncProxyTargets listen run [] rngC rngD ip proto strs cur pm)"
proof -
  note up = updateTargets_inv [OF listen proto, THEN conjunct1]
  have "targets_inv ip (syncRemoveTargets listen run [] ip proto desired cs p)" if "targets_inv ip p" for desired cs p
    unfolding syncRemoveTargets_def using that by (rule foldl_inv) (auto intro: up simp del: updateTargets.simps)
  moreover have "targets_inv ip (syncAddTargets listen run [] ip proto cs desired p)" if "targets_inv ip p" for desired cs p
    unfolding syncAddTargets_def using that by (rule foldl_inv) (auto intro!: up simp: Let_def simp del: updateTargets.simps split: option.split)
  ultimately show ?thesis using inv by (simp add: syncProxyTargets_def Let_def)
qed

lemma targetCall_inv:
  assumes listen: "free_ports listen" and inv: "targets_inv ip pm" and allowed: "targetAllowed pm c"
  shows "targets_inv ip (targetCall listen run ip pm c)"
proof (cases c)
  case (UpdateCall action proto ts)
  then show ?thesis using updateTargets_inv [OF listen _ inv] allowed by (simp add: targetCall_def targetAllowed_def)
next
  case StartCall
  then show ?thesis using Start_ok [OF listen, of ip pm] inv by (auto simp: targetCall_def targets_inv_def)
next
  case StopCall
  then show ?thesis using StopProxy_ok [of ip pm] inv by (auto simp: targetCall_def targets_inv_def)
next
  case (SyncCall rngC rngD tcp udp)
  then show ?thesis using syncProxyTargets_inv [OF listen] inv by (auto simp: targetCall_def handleSyncTargets_def Let_def)
qed

lemma new_targets_inv: "targets_inv ip (NewProxyManager True)"
  by (simp add: targets_inv_def manager_ok_def hasNet_def proto_ok_def portsOf_def targetsOf_def listenersOf_def
      NewProxyManager_def NewProxyManagerWithoutTNet_def)

locale target_network =
  fixes listen :: listen
    and run :: run_script
    and ip :: string
  assumes ports_free: "free_ports listen"
begin

lemma call_inv: "targets_inv ip pm \<Longrightarrow> targetAllowed pm c \<Longrightarrow> targets_inv ip (targetCall listen run ip pm c)"
  by (rule targetCall_inv [OF ports_free])

end

sublocale target_network \<subseteq> calls: guarded_system "targetCall listen run ip" targetAllowed "targets_inv ip"
  by unfold_locales (rule call_inv)

lemma exListen_free: "free_ports exListen"
  by (simp add: free_ports_def exListen_def)

interpretation exNetwork: target_network exListen run ip for run ip
  by unfold_locales (rule exListen_free)

context target_network
begin

lemma run_new:
  "run_ok (targetCall listen run ip) targetAllowed (NewProxyManager True) cs \<Longrightarrow>
   targets_inv ip (foldl (targetCall listen run ip) (NewProxyManager True) cs)"
  using new_targets_inv by (rule calls.run_inv)

end

text \<open>Working on one protocol leaves the other alone.\<close>

lemma update_other:
  assumes "q \<in> {''tcp'', ''udp''}" "proto \<in> {''tcp'', ''udp''}" "q \<noteq> proto"
  shows "targetsOf q (snd (updateTargets listen run script action ip proto ts pm)) = targetsOf q pm"
proof (induction ts arbitrary: pm)
  case (Cons t ts)
  have rm: "targetsOf q (snd (RemoveProxyTarget proto ip port p)) = targetsOf q p" for port p
    using RemoveProxyTarget_effect(3) [OF assms(2,1) refl, of ip port p] assms(3) by (simp split: option.splits)
  have add: "targetsOf q (snd (AddProxyTarget listen proto ip port a p)) = targetsOf q p" for port a p
    using assms by (auto simp: AddProxyTarget_def startTarget_def targetsOf_def Let_def split: option.split)
  show ?case using Cons rm add by (auto simp: Let_def split: sum.split prod.split option.split) (metis rm snd_conv)+
qed simp

lemma syncProxyTargets_other:
  assumes "q \<in> {''tcp'', ''udp''}" "proto \<in> {''tcp'', ''udp''}" "q \<noteq> proto"
  shows "portsOf ip q (syncProxyTargets listen run script rngC rngD ip proto strs cur pm) = portsOf ip q pm"
proof -
  note up = update_other [OF assms]
  have "targetsOf q (syncRemoveTargets listen run script ip proto desired cs p) = targetsOf q p" for desired cs p
    unfolding syncRemoveTargets_def by (rule foldl_inv) (auto simp: up simp del: updateTargets.simps)
  moreover have "targetsOf q (syncAddTargets listen run script ip proto cs desired p) = targetsOf q p" for desired cs p
    unfolding syncAddTargets_def by (rule foldl_inv) (auto simp: up Let_def simp del: updateTargets.simps split: option.split)
  ultimately show ?thesis by (simp add: syncProxyTargets_def Let_def portsOf_def)
qed

section \<open>Examples\<close>

lemma itoa_80: "itoa_int 80 = ''80''" "itoa 80 = ''80''"
proof -
  have "char_of (56 :: nat) = CHR ''8''" "char_of (48 :: nat) = CHR ''0''" by code_simp+
  then show "itoa 80 = ''80''" by (simp add: itoa.simps digit_def)
  then show "itoa_int 80 = ''80''" by (simp add: itoa_int_def)
qed

lemma ex_target_ok: "target_ok 80 ''web:8080''" "target_ok 80 ''[::1]:8080''"
  using target_ok_join [of 80 "''web''" "''8080''"] target_ok_join [of 80 "''::1''" "''8080''"]
  by (simp_all add: plain_def join_host_port_def)

lemma ex_parse:
  "parseTargetString ''80:web:8080'' = Inr (80, ''web:8080'')" "parseTargetString ''80:[::1]:8080'' = Inr (80, ''[::1]:8080'')"
  using ex_target_ok by (simp_all add: target_ok_def targetString_def itoa_80)

lemma ex_desired: "desiredTargets [''80:web:8080''] = [(80, ''web:8080'')]" "desiredTargets [''80:[::1]:8080''] = []" "desiredTargets [] = []"
  using scan_int_itoa [of 80] by (simp_all add: desiredTargets_def itoa_80)

definition exScript :: run_script where
  "exScript argv = Inr []"

definition exRunning :: "string \<Rightarrow> proxy_manager" where
  "exRunning t = foldl (targetCall exListen exScript ''100.64.0.1'') (NewProxyManager True) [StartCall, UpdateCall ''add'' ''tcp'' [t]]"

lemma exRunning_state:
  "exRunning ''80:web:8080'' = (NewProxyManager True)\<lparr>pm_running := True, pm_nextSock := 1,
     pm_tcpTargets := [(''100.64.0.1'', [(80, ''web:8080'')])], pm_listeners := [\<lparr>ml_sock = 0, ml_port = 80, ml_target = ''web:8080''\<rparr>]\<rparr>"
  "exRunning ''80:[::1]:8080'' = (NewProxyManager True)\<lparr>pm_running := True, pm_nextSock := 1,
     pm_tcpTargets := [(''100.64.0.1'', [(80, ''[::1]:8080'')])], pm_listeners := [\<lparr>ml_sock = 0, ml_port = 80, ml_target = ''[::1]:8080''\<rparr>]\<rparr>"
  by (simp_all add: exRunning_def targetCall_def ex_parse processTarget_def listen_simps)

section \<open>Properties\<close>





text \<open>
  Synchronisation drops IPv6 targets: a target with a bracketed IPv6 host, which the other messages accept, is split at
  every colon, does not count as desired, and is removed although the server lists it.
\<close>

theorem sync_drops_ipv6:
  assumes rng: "\<And>xs. mset (rngC xs) = mset xs" "\<And>xs. mset (rngD xs) = mset xs"
  shows "pm_listeners (exRunning ''80:[::1]:8080'') \<noteq> [] \<and>
   pm_listeners (handleSyncTargets exListen exScript [] rngC rngD ''100.64.0.1'' [''80:[::1]:8080''] [] (exRunning ''80:[::1]:8080'')) = []"
proof -
  have one: "rngC [x] = [x]" for x using rng(1) [of "[x]"] by simp
  have nil: "rngC [] = []" "rngD [] = []" using rng [of "[]"] by simp_all
  have str: "targetString 80 ''[::1]:8080'' = ''80:[::1]:8080''" by (simp add: targetString_def itoa_80)
  show ?thesis
    by (simp add: exRunning_state handleSyncTargets_def GetTargets_def syncProxyTargets_def syncRemoveTargets_def syncAddTargets_def
        ex_desired one nil str ex_parse RemoveProxyTarget_def closeOpt_def NewProxyManager_def NewProxyManagerWithoutTNet_def)
qed

theorem sync_drops_ipv6_witness:
  "pm_listeners (handleSyncTargets exListen exScript [] rev rev ''100.64.0.1'' [''80:[::1]:8080''] [] (exRunning ''80:[::1]:8080'')) = []"
  using sync_drops_ipv6 [OF mset_rev mset_rev] by blast

end
