(* ===== verification/Go_Encoding.thy ===== *)
theory Go_Encoding
  imports Packet_Headers
begin

text \<open>
  The text encodings the program uses from Go's library: \<open>encoding/hex\<close>, \<open>base64.StdEncoding\<close>, and the JSON values that
  \<open>encoding/json\<close> writes for the program's structures.
\<close>

section \<open>Hexadecimal\<close>

text \<open>\<open>hex.EncodeToString\<close> and \<open>hex.DecodeString\<close>.\<close>

definition hex_encode :: "bytes \<Rightarrow> string" where
  "hex_encode bs = concat (map (\<lambda>b. [hex_digit (unat b div 16), hex_digit (unat b mod 16)]) bs)"

fun hex_decode :: "string \<Rightarrow> bytes option" where
  "hex_decode [] = Some []"
| "hex_decode [c] = None"
| "hex_decode (c # d # s) =
     (if is_hex c \<and> is_hex d
      then map_option (\<lambda>bs. word_of_nat (hex_val c * 16 + hex_val d) # bs) (hex_decode s) else None)"

lemma of_char_hex_digit: "d < 16 \<Longrightarrow> (of_char (hex_digit d) :: nat) = (if d < 10 then 48 + d else 87 + d)"
  by (simp add: hex_digit_def)

lemma is_hex_digit [simp]: "d < 16 \<Longrightarrow> is_hex (hex_digit d)"
  by (simp add: is_hex_def is_digit_def of_char_hex_digit)

lemma hex_val_digit [simp]: "d < 16 \<Longrightarrow> hex_val (hex_digit d) = d"
  by (simp add: hex_val_def is_digit_def of_char_hex_digit)

lemma unat_byte_less [simp]: "unat (b :: byte) < 256"
  using unsigned_less [of b] by simp

lemma unat_byte_le [simp]: "unat (b :: byte) \<le> 255"
  using unat_byte_less [of b] by linarith

lemma hex_decode_encode: "hex_decode (hex_encode bs) = Some bs"
  by (induction bs) (simp_all add: hex_encode_def less_mult_imp_div_less)

definition lower_hex :: "char \<Rightarrow> bool" where
  "lower_hex c \<longleftrightarrow> is_hex c \<and> \<not> (65 \<le> (of_char c :: nat) \<and> (of_char c :: nat) \<le> 70)"

lemma hex_val_less: "is_hex c \<Longrightarrow> hex_val c < 16"
  by (auto simp: is_hex_def hex_val_def is_digit_def)

lemma hex_digit_val: "lower_hex c \<Longrightarrow> hex_digit (hex_val c) = c"
proof -
  assume c: "lower_hex c"
  then have "(of_char (hex_digit (hex_val c)) :: nat) = of_char c"
    by (simp add: of_char_hex_digit hex_val_less lower_hex_def)
      (auto simp: hex_val_def is_hex_def is_digit_def lower_hex_def)
  then show ?thesis by (simp only: of_char_eq_iff)
qed

lemma hex_encode_decode: "hex_decode s = Some bs \<Longrightarrow> list_all lower_hex s \<Longrightarrow> hex_encode bs = s"
proof (induction s arbitrary: bs rule: hex_decode.induct)
  case (3 c d s)
  then obtain bs' where bs: "hex_decode s = Some bs'" "bs = word_of_nat (hex_val c * 16 + hex_val d) # bs'"
    and h: "is_hex c" "is_hex d" by (auto split: if_splits)
  have "hex_val c * 16 + hex_val d < 256" using hex_val_less [OF h(1)] hex_val_less [OF h(2)] by simp
  then have "unat (word_of_nat (hex_val c * 16 + hex_val d) :: byte) = hex_val c * 16 + hex_val d"
    by (simp only: unsigned_of_nat take_bit_eq_mod) simp
  then show ?case using 3 bs h hex_val_less [OF h(2)] by (simp add: hex_encode_def hex_digit_val)
qed (simp_all add: hex_encode_def)

section \<open>Base 64\<close>

definition b64_char :: "nat \<Rightarrow> char" where
  "b64_char n = (if n < 26 then char_of (65 + n) else if n < 52 then char_of (71 + n)
     else if n < 62 then char_of (n - 4) else if n = 62 then CHR ''+'' else CHR ''/'')"

definition b64_val :: "char \<Rightarrow> nat option" where
  "b64_val c = (let n = (of_char c :: nat) in
     if 65 \<le> n \<and> n \<le> 90 then Some (n - 65) else if 97 \<le> n \<and> n \<le> 122 then Some (n - 71)
     else if 48 \<le> n \<and> n \<le> 57 then Some (n + 4)
     else if c = CHR ''+'' then Some 62 else if c = CHR ''/'' then Some 63 else None)"

text \<open>\<open>base64.StdEncoding.EncodeToString\<close>.\<close>

fun b64_encode :: "bytes \<Rightarrow> string" where
  "b64_encode [] = []"
| "b64_encode [a] = (let n = unat a in [b64_char (n div 4), b64_char (n mod 4 * 16), CHR ''='', CHR ''=''])"
| "b64_encode [a, b] = (let n = unat a * 256 + unat b in
     [b64_char (n div 1024), b64_char (n div 16 mod 64), b64_char (n mod 16 * 4), CHR ''=''])"
| "b64_encode (a # b # c # s) = (let n = unat a * 65536 + unat b * 256 + unat c in
     b64_char (n div 262144) # b64_char (n div 4096 mod 64) # b64_char (n div 64 mod 64) # b64_char (n mod 64) # b64_encode s)"

text \<open>
  \<open>base64.StdEncoding.DecodeString\<close>: line breaks are skipped, the padding is required and ends the text, the bits the padding leaves
  over are not looked at.
\<close>

fun b64_quanta :: "string \<Rightarrow> bytes option" where
  "b64_quanta [] = Some []"
| "b64_quanta (a # b # c # d # s) =
     (case (b64_val a, b64_val b) of
        (Some x, Some y) \<Rightarrow>
          if c = CHR ''='' then
            (if d = CHR ''='' \<and> s = [] then Some [word_of_nat (x * 4 + y div 16)] else None)
          else (case b64_val c of
             None \<Rightarrow> None
           | Some z \<Rightarrow>
               if d = CHR ''='' then
                 (if s = [] then Some [word_of_nat (x * 4 + y div 16), word_of_nat (y mod 16 * 16 + z div 4)] else None)
               else (case b64_val d of
                  None \<Rightarrow> None
                | Some w \<Rightarrow> map_option (\<lambda>bs. word_of_nat (x * 4 + y div 16) # word_of_nat (y mod 16 * 16 + z div 4) #
                                 word_of_nat (z mod 4 * 64 + w) # bs) (b64_quanta s)))
      | _ \<Rightarrow> None)"
| "b64_quanta s = None"

definition b64_decode :: "string \<Rightarrow> bytes option" where
  "b64_decode s = b64_quanta (filter (\<lambda>c. (of_char c :: nat) \<noteq> 10 \<and> (of_char c :: nat) \<noteq> 13) s)"

lemma of_char_b64: "n < 64 \<Longrightarrow> (of_char (b64_char n) :: nat) =
    (if n < 26 then 65 + n else if n < 52 then 71 + n else if n < 62 then n - 4 else if n = 62 then 43 else 47)"
  by (simp add: b64_char_def)

lemma b64_val_char [simp]: "n < 64 \<Longrightarrow> b64_val (b64_char n) = Some n"
proof -
  assume n: "n < 64"
  consider "n < 26" | "26 \<le> n \<and> n < 52" | "52 \<le> n \<and> n < 62" | "n = 62" | "n = 63" using n by linarith
  then show ?thesis
  proof cases
    case 3
    then obtain k where k: "n = k + 52" "k < 10" using le_Suc_ex [of 52 n] by auto
    then have "(of_char (b64_char n) :: nat) = k + 48" by (simp add: of_char_b64)
    then show ?thesis using k by (simp add: b64_val_def)
  qed (simp_all add: b64_val_def of_char_b64, simp_all add: b64_char_def)
qed

lemma b64_char_not [simp]: "n < 64 \<Longrightarrow> b64_char n \<noteq> CHR ''=''"
  using of_char_b64 [of n] by (auto split: if_splits)

lemma mod64_split: "m mod 64 div 16 = m div 16 mod (4::nat)" "m mod 64 mod 16 = m mod (16::nat)"
    "m mod 64 div 4 = m div 4 mod (16::nat)" "m mod 64 mod 4 = m mod (4::nat)"
proof -
  have m: "m mod 64 = 16 * (m div 16 mod 4) + m mod 16" using mod_mult2_eq [of m 16 4] by simp
  show "m mod 64 div 16 = m div 16 mod 4" "m mod 64 mod 16 = m mod 16" unfolding m by simp_all
  have m': "m mod 64 = 4 * (m div 4 mod 16) + m mod 4" using mod_mult2_eq [of m 4 16] by simp
  show "m mod 64 div 4 = m div 4 mod 16" "m mod 64 mod 4 = m mod 4" unfolding m' by simp_all
qed

lemma radix2: "b < 256 \<Longrightarrow> (a * 256 + b) div 256 = (a::nat)" "b < 256 \<Longrightarrow> (a * 256 + b) mod 256 = b"
  by simp_all

lemma quantum2:
  assumes "b < (256::nat)"
  shows "(a * 256 + b) div 1024 * 4 + (a * 256 + b) div 16 mod 64 div 16 = a"
    and "(a * 256 + b) div 16 mod 64 mod 16 * 16 + (a * 256 + b) mod 16 = b"
proof -
  let ?n = "a * 256 + b"
  have "?n div 1024 = ?n div 256 div 4" "?n div 16 div 16 = ?n div 256" by (simp_all add: div_mult2_eq [symmetric])
  then show "?n div 1024 * 4 + ?n div 16 mod 64 div 16 = a"
    using radix2(1) [OF assms, of a] by (simp only: mod64_split) simp
  have "?n mod 256 = 16 * (?n div 16 mod 16) + ?n mod 16" using mod_mult2_eq [of ?n 16 16] by simp
  then show "?n div 16 mod 64 mod 16 * 16 + ?n mod 16 = b"
    using radix2(2) [OF assms, of a] by (simp only: mod64_split)
qed

lemma quantum3:
  assumes "b < (256::nat)" "c < 256"
  shows "(a * 65536 + b * 256 + c) div 262144 * 4 + (a * 65536 + b * 256 + c) div 4096 mod 64 div 16 = a"
    and "(a * 65536 + b * 256 + c) div 4096 mod 64 mod 16 * 16 + (a * 65536 + b * 256 + c) div 64 mod 64 div 4 = b"
    and "(a * 65536 + b * 256 + c) div 64 mod 64 mod 4 * 64 + (a * 65536 + b * 256 + c) mod 64 = c"
proof -
  define n where "n = a * 65536 + b * 256 + c"
  have n: "n = (a * 256 + b) * 256 + c" by (simp add: n_def)
  have hi: "n div 256 = a * 256 + b" "n mod 256 = c" unfolding n using assms(2) by (simp_all only: radix2)
  have "n div 262144 = n div 256 div 1024" "n div 4096 = n div 256 div 16" by (simp_all add: div_mult2_eq [symmetric])
  then have "n div 262144 * 4 + n div 4096 mod 64 div 16 = a" using quantum2(1) [OF assms(1), of a] by (simp only: hi)
  then show "(a * 65536 + b * 256 + c) div 262144 * 4 + (a * 65536 + b * 256 + c) div 4096 mod 64 div 16 = a"
    by (simp only: n_def)
  have "n div 64 mod 64 div 4 = n div 256 mod 16" by (simp only: mod64_split) (simp add: div_mult2_eq [symmetric])
  moreover have "n div 4096 = n div 256 div 16" by (simp add: div_mult2_eq [symmetric])
  ultimately have "n div 4096 mod 64 mod 16 * 16 + n div 64 mod 64 div 4 = b"
    using quantum2(2) [OF assms(1), of a] by (simp only: hi)
  then show "(a * 65536 + b * 256 + c) div 4096 mod 64 mod 16 * 16 + (a * 65536 + b * 256 + c) div 64 mod 64 div 4 = b"
    by (simp only: n_def)
  have "n mod 256 = 64 * (n div 64 mod 4) + n mod 64" using mod_mult2_eq [of n 64 4] by simp
  then have "n div 64 mod 64 mod 4 * 64 + n mod 64 = c" unfolding hi by (simp only: mod64_split)
  then show "(a * 65536 + b * 256 + c) div 64 mod 64 mod 4 * 64 + (a * 65536 + b * 256 + c) mod 64 = c"
    by (simp only: n_def)
qed

lemma word_of_nat_unat: "m = unat b \<Longrightarrow> word_of_nat m = (b :: 'a::len word)"
  by simp

lemma b64_quanta_encode: "b64_quanta (b64_encode bs) = Some bs"
proof (induction bs rule: b64_encode.induct)
  case (2 a)
  have "unat a div 4 * 4 + unat a mod 4 * 16 div 16 = unat a" by simp
  from word_of_nat_unat [OF this] show ?case
    by (simp add: Let_def less_mult_imp_div_less del: of_nat_add of_nat_mult)
next
  case (3 a b)
  let ?n = "unat a * 256 + unat b"
  have n: "?n < 65536" using unat_byte_less [of a] unat_byte_less [of b] by linarith
  have b4: "?n mod 16 * 4 div 4 = ?n mod 16" by simp
  note w = word_of_nat_unat [OF quantum2(1), OF unat_byte_less] word_of_nat_unat [OF quantum2(2), OF unat_byte_less]
  have d: "?n div 1024 < 64" using n by (simp add: less_mult_imp_div_less)
  have m: "?n mod 16 * 4 < 64" by (simp add: mod_less_divisor less_mult_imp_div_less)
  show ?case unfolding b64_encode.simps Let_def b64_quanta.simps b64_val_char [OF d] b64_val_char [OF m] b4
      b64_val_char [OF mod_less_divisor [of 64 "?n div 16"], OF zero_less_numeral]
    by (simp add: b64_char_not [OF m] w del: of_nat_add of_nat_mult)
next
  case (4 a b c s)
  let ?n = "unat a * 65536 + unat b * 256 + unat c"
  have n: "?n < 16777216" using unat_byte_less [of a] unat_byte_less [of b] unat_byte_less [of c] by linarith
  note w = word_of_nat_unat [OF quantum3(1), OF unat_byte_less unat_byte_less]
    word_of_nat_unat [OF quantum3(2), OF unat_byte_less unat_byte_less]
    word_of_nat_unat [OF quantum3(3), OF unat_byte_less unat_byte_less]
  have d: "?n div 262144 < 64" using n by (simp add: less_mult_imp_div_less)
  have m: "k mod 64 < (64 :: nat)" for k by simp
  show ?case unfolding b64_encode.simps Let_def b64_quanta.simps b64_val_char [OF d] b64_val_char [OF m]
    using 4 by (simp add: b64_char_not [OF m] w del: of_nat_add of_nat_mult)
qed simp

lemma b64_char_no_break: "n < 64 \<Longrightarrow> (of_char (b64_char n) :: nat) \<noteq> 10 \<and> (of_char (b64_char n) :: nat) \<noteq> 13"
  using of_char_b64 [of n] by (simp split: if_splits) linarith

lemma b64_encode_no_break: "list_all (\<lambda>c. (of_char c :: nat) \<noteq> 10 \<and> (of_char c :: nat) \<noteq> 13) (b64_encode bs)"
proof (induction bs rule: b64_encode.induct)
  case (3 a b)
  have "unat a * 256 + unat b < 65536" using unat_byte_less [of a] unat_byte_less [of b] by linarith
  then show ?case by (simp add: Let_def less_mult_imp_div_less b64_char_no_break)
next
  case (4 a b c s)
  have "unat a * 65536 + unat b * 256 + unat c < 16777216"
    using unat_byte_less [of a] unat_byte_less [of b] unat_byte_less [of c] by linarith
  then show ?case using 4 by (simp add: Let_def less_mult_imp_div_less b64_char_no_break)
qed (simp_all add: Let_def less_mult_imp_div_less b64_char_no_break)

lemma b64_decode_encode: "b64_decode (b64_encode bs) = Some bs"
proof -
  have "filter (\<lambda>c. (of_char c :: nat) \<noteq> 10 \<and> (of_char c :: nat) \<noteq> 13) (b64_encode bs) = b64_encode bs"
    using b64_encode_no_break [of bs] by (simp add: list_all_iff filter_id_conv)
  then show ?thesis by (simp add: b64_decode_def b64_quanta_encode)
qed

section \<open>JSON\<close>

datatype json = JNull | JBool bool | JNum int | JStr string | JArr "json list" | JObj "(string \<times> json) list"

text \<open>The quoting of an ASCII string by \<open>json.Marshal\<close>.\<close>

definition json_escape :: "char \<Rightarrow> string" where
  "json_escape c = (let n = (of_char c :: nat) in
     if n = 34 then [char_of (92::nat), char_of (34::nat)]
     else if n = 92 then [char_of (92::nat), char_of (92::nat)]
     else if n = 8 then [char_of (92::nat), CHR ''b''] else if n = 12 then [char_of (92::nat), CHR ''f'']
     else if n = 10 then [char_of (92::nat), CHR ''n''] else if n = 13 then [char_of (92::nat), CHR ''r'']
     else if n = 9 then [char_of (92::nat), CHR ''t'']
     else if n < 32 \<or> n = 60 \<or> n = 62 \<or> n = 38
       then char_of (92::nat) # ''u00'' @ [hex_digit (n div 16), hex_digit (n mod 16)]
     else [c])"

definition json_quote :: "string \<Rightarrow> string" where
  "json_quote s = char_of (34::nat) # concat (map json_escape s) @ [char_of (34::nat)]"

fun json_text :: "json \<Rightarrow> string" where
  "json_text JNull = ''null''"
| "json_text (JBool b) = (if b then ''true'' else ''false'')"
| "json_text (JNum i) = itoa_int i"
| "json_text (JStr s) = json_quote s"
| "json_text (JArr xs) = CHR ''['' # join_with CHR '','' (map json_text xs) @ '']''"
| "json_text (JObj fs) = CHR ''{'' # join_with CHR '','' (map (\<lambda>(k, v). json_quote k @ CHR '':'' # json_text v) fs) @ ''}''"

text \<open>The bytes of a text, as \<open>[]byte(s)\<close> gives them.\<close>

definition text_bytes :: "string \<Rightarrow> bytes" where
  "text_bytes s = map (\<lambda>c. word_of_nat (of_char c)) s"

section \<open>Decoding JSON into structures\<close>

text \<open>
  \<open>json.Unmarshal\<close> into a structure: keys match their field without regard to case, the last occurrence wins, null and a missing
  key leave the zero value, a value of the wrong type is an error.
\<close>

definition json_field :: "(string \<times> json) list \<Rightarrow> string \<Rightarrow> json option" where
  "json_field fs k = map_of (rev (map (\<lambda>(k, v). (to_lower k, v)) (filter (\<lambda>(k, v). v \<noteq> JNull) fs))) (to_lower k)"

definition dec_string :: "json option \<Rightarrow> string option" where
  "dec_string j = (case j of None \<Rightarrow> Some [] | Some (JStr s) \<Rightarrow> Some s | Some JNull \<Rightarrow> Some [] | _ \<Rightarrow> None)"

definition dec_bool :: "json option \<Rightarrow> bool option" where
  "dec_bool j = (case j of None \<Rightarrow> Some False | Some (JBool b) \<Rightarrow> Some b | Some JNull \<Rightarrow> Some False | _ \<Rightarrow> None)"

definition dec_int :: "json option \<Rightarrow> int option" where
  "dec_int j = (case j of None \<Rightarrow> Some 0 | Some JNull \<Rightarrow> Some 0
     | Some (JNum i) \<Rightarrow> if - (2 ^ 63) \<le> i \<and> i < 2 ^ 63 then Some i else None | _ \<Rightarrow> None)"

definition dec_uint16 :: "json option \<Rightarrow> 16 word option" where
  "dec_uint16 j = (case j of None \<Rightarrow> Some 0 | Some JNull \<Rightarrow> Some 0
     | Some (JNum i) \<Rightarrow> if 0 \<le> i \<and> i < 65536 then Some (word_of_int i) else None | _ \<Rightarrow> None)"

primrec all_some :: "'a option list \<Rightarrow> 'a list option" where
  "all_some [] = Some []"
| "all_some (x # xs) = (case x of None \<Rightarrow> None | Some y \<Rightarrow> map_option (\<lambda>ys. y # ys) (all_some xs))"

definition dec_list :: "(json option \<Rightarrow> 'a option) \<Rightarrow> json option \<Rightarrow> 'a list option" where
  "dec_list dec j = (case j of None \<Rightarrow> Some [] | Some JNull \<Rightarrow> Some []
     | Some (JArr xs) \<Rightarrow> all_some (map (\<lambda>x. dec (Some x)) xs) | _ \<Rightarrow> None)"

text \<open>The members of an object; null counts as an object without members.\<close>

definition dec_object :: "json option \<Rightarrow> (string \<times> json) list option" where
  "dec_object j = (case j of None \<Rightarrow> Some [] | Some JNull \<Rightarrow> Some [] | Some (JObj fs) \<Rightarrow> Some fs | _ \<Rightarrow> None)"

lemma all_some_Some: "all_some xs = Some ys \<longleftrightarrow> xs = map Some ys"
  by (induction xs arbitrary: ys) (auto split: option.splits)

end
