(* ===== verification/Newt_Util.thy ===== *)
theory Newt_Util
  imports Go_Encoding "HOL-Library.Multiset"
begin

unbundle bit_operations_syntax

text \<open>
  The helpers of \<open>util/util.go\<close> and the levels of \<open>logger/level.go\<close>: resolving endpoint names, choosing a UDP port, the two texts of a
  WireGuard key, and reading ports off raw packets.  DNS is an argument: \<open>lookup\<close> is the system resolver, \<open>lookupVia\<close> asks a
  given server.  Whether a UDP port can be bound is the argument \<open>free\<close>, the random numbers of the shuffle are \<open>rnd\<close>.
\<close>

section \<open>Log levels\<close>

datatype LogLevel = DEBUG | INFO | WARN | ERROR | FATAL

definition LevelString :: "LogLevel \<Rightarrow> string" where
  "LevelString l = (case l of DEBUG \<Rightarrow> ''DEBUG'' | INFO \<Rightarrow> ''INFO'' | WARN \<Rightarrow> ''WARN'' | ERROR \<Rightarrow> ''ERROR'' | FATAL \<Rightarrow> ''FATAL'')"

definition to_upper :: "string \<Rightarrow> string" where
  "to_upper s = map upper_char s"

definition ParseLogLevel :: "string \<Rightarrow> LogLevel" where
  "ParseLogLevel level =
     (let u = to_upper level in
      if u = ''DEBUG'' then DEBUG else if u = ''INFO'' then INFO else if u = ''WARN'' then WARN
      else if u = ''ERROR'' then ERROR else if u = ''FATAL'' then FATAL else INFO)"

text \<open>The levels of the WireGuard device, by name.\<close>

datatype wg_level = LogLevelSilent | LogLevelError | LogLevelVerbose

definition MapToWireGuardLogLevel :: "LogLevel \<Rightarrow> wg_level" where
  "MapToWireGuardLogLevel l = (case l of
     DEBUG \<Rightarrow> LogLevelVerbose | WARN \<Rightarrow> LogLevelError | ERROR \<Rightarrow> LogLevelSilent | FATAL \<Rightarrow> LogLevelSilent | _ \<Rightarrow> LogLevelSilent)"

lemma ParseLogLevel_LevelString: "ParseLogLevel (LevelString l) = l"
  by (cases l) (simp_all add: ParseLogLevel_def LevelString_def to_upper_def upper_char_def Let_def)

section \<open>Resolving an endpoint\<close>

text \<open>\<open>net.ParseIP\<close>: no zone; an IPv4-mapped address is its IPv4 address.\<close>

definition ParseIP :: "string \<Rightarrow> addr option" where
  "ParseIP s = (case parse_addr s of Some (IP6 w z) \<Rightarrow> if z = [] then Some (unmap (IP6 w [])) else None | r \<Rightarrow> r)"

definition is_ip4 :: "addr \<Rightarrow> bool" where
  "is_ip4 a = (case unmap a of IP4 _ \<Rightarrow> True | _ \<Rightarrow> False)"

type_synonym lookup = "string \<Rightarrow> string + addr list"

text \<open>The text cleaned and split as both functions begin.\<close>

definition cleanDomain :: "string \<Rightarrow> string \<times> string" where
  "cleanDomain domain =
     (let d = trim_suffix (trim_prefix (trim_prefix (trim_space domain) ''http://'') ''https://'') ''/''
      in case split_host_port d of None \<Rightarrow> (d, []) | Some (h, p) \<Rightarrow> (h, p))"

definition withPort :: "string \<Rightarrow> string \<Rightarrow> string" where
  "withPort ipAddr port = (if port \<noteq> [] then join_host_port ipAddr port else ipAddr)"

definition pickAddress :: "string \<Rightarrow> string \<Rightarrow> addr list \<Rightarrow> string + string" where
  "pickAddress host port ips =
     (if ips = [] then Inl (''no IP addresses found for domain '' @ host)
      else let ipAddr = (case List.find is_ip4 ips of Some a \<Rightarrow> addr_string (unmap a) | None \<Rightarrow> addr_string (unmap (hd ips)))
           in Inr (withPort ipAddr port))"

definition ResolveDomain :: "lookup \<Rightarrow> string \<Rightarrow> string + string" where
  "ResolveDomain lookup domain =
     (let (host, port) = cleanDomain domain;
          cleanHost = trim_prefix (trim_suffix host '']'') ''[''
      in case ParseIP cleanHost of
           Some ip \<Rightarrow> Inr (withPort (addr_string ip) port)
         | None \<Rightarrow> (case lookup host of
               Inl e \<Rightarrow> Inl (''DNS lookup failed: '' @ e)
             | Inr ips \<Rightarrow> pickAddress host port ips))"

text \<open>A server without a port is asked at port 53.\<close>

definition dnsServer :: "string \<Rightarrow> string" where
  "dnsServer server = (if split_host_port server = None then join_host_port server ''53'' else server)"

fun askServers :: "(string \<Rightarrow> lookup) \<Rightarrow> string \<Rightarrow> string list \<Rightarrow> string + addr list" where
  "askServers lookupVia host [] = Inr []"
| "askServers lookupVia host (server # servers) =
     (case lookupVia (dnsServer server) host of
        Inr ips \<Rightarrow> Inr ips
      | Inl e \<Rightarrow> if servers = [] then Inl e else askServers lookupVia host servers)"

definition ResolveDomainUpstream :: "lookup \<Rightarrow> (string \<Rightarrow> lookup) \<Rightarrow> string \<Rightarrow> string list \<Rightarrow> string + string" where
  "ResolveDomainUpstream lookup lookupVia domain publicDNS =
     (let (host, port) = cleanDomain domain;
          cleanHost = trim_prefix (trim_suffix host '']'') ''[''
      in case ParseIP cleanHost of
           Some ip \<Rightarrow> Inr (withPort (addr_string ip) port)
         | None \<Rightarrow>
             if publicDNS \<noteq> [] then
               (case askServers lookupVia host publicDNS of
                  Inl e \<Rightarrow> Inl (''DNS lookup failed using all upstream servers: '' @ e)
                | Inr ips \<Rightarrow> pickAddress host port ips)
             else (case lookup host of
                  Inl e \<Rightarrow> Inl (''DNS lookup failed: '' @ e)
                | Inr ips \<Rightarrow> pickAddress host port ips))"

text \<open>Without upstream servers the two functions agree.\<close>

lemma ResolveDomainUpstream_none: "ResolveDomainUpstream lookup lookupVia domain [] = ResolveDomain lookup domain"
  by (simp add: ResolveDomainUpstream_def ResolveDomain_def split: prod.split option.split sum.split)

lemma askServers_first_answer:
  "servers \<noteq> [] \<Longrightarrow> askServers lookupVia host servers =
    (case List.find (\<lambda>s. \<exists>ips. lookupVia (dnsServer s) host = Inr ips) servers of
       Some s \<Rightarrow> lookupVia (dnsServer s) host
     | None \<Rightarrow> lookupVia (dnsServer (last servers)) host)"
  by (induction servers) (auto split: sum.split option.split)

text \<open>\<open>net.ResolveUDPAddr\<close> on a host and a decimal port: a literal address, or a lookup that prefers IPv4.\<close>

definition resolveUDPAddr :: "lookup \<Rightarrow> string \<Rightarrow> (addr \<times> 16 word) option" where
  "resolveUDPAddr lookup s =
     (case split_host_port s of
        None \<Rightarrow> None
      | Some (h, p) \<Rightarrow>
          (case atoi p of
             None \<Rightarrow> None
           | Some n \<Rightarrow>
               if n < 0 \<or> 65535 < n then None
               else if h = [] then Some (NoAddr, word_of_int n)
               else case parse_addr h of
                 Some a \<Rightarrow> Some (a, word_of_int n)
               | None \<Rightarrow> (case lookup h of
                   Inl e \<Rightarrow> None
                 | Inr ips \<Rightarrow> if ips = [] then None
                     else Some ((case List.find is_ip4 ips of Some a \<Rightarrow> a | None \<Rightarrow> hd ips), word_of_int n))))"

section \<open>Choosing a UDP port\<close>

definition swap :: "nat \<Rightarrow> nat \<Rightarrow> 'a list \<Rightarrow> 'a list" where
  "swap i j xs = xs[i := xs ! j, j := xs ! i]"

text \<open>The Fisher-Yates loop from \<open>i\<close> down to 1; \<open>mathrand.IntN(i + 1)\<close> is the number \<open>rnd i\<close> brought into range.\<close>

fun shuffle :: "(nat \<Rightarrow> nat) \<Rightarrow> nat \<Rightarrow> 'a list \<Rightarrow> 'a list" where
  "shuffle rnd 0 xs = xs"
| "shuffle rnd (Suc i) xs = shuffle rnd i (swap (Suc i) (rnd (Suc i) mod (Suc i + 1)) xs)"

definition FindAvailableUDPPort :: "(16 word \<Rightarrow> bool) \<Rightarrow> (nat \<Rightarrow> nat) \<Rightarrow> 16 word \<Rightarrow> 16 word \<Rightarrow> string + 16 word" where
  "FindAvailableUDPPort free rnd minPort maxPort =
     (if maxPort < minPort then Inl ''invalid port range''
      else let adjustedMaxPort = maxPort - 1 in
        if adjustedMaxPort < minPort then Inl ''insufficient port range to find consecutive ports''
        else let n = unat (adjustedMaxPort - minPort + 1);
                 portRange = shuffle rnd (n - 1) (map (\<lambda>i. minPort + word_of_nat i) [0..<n])
             in case List.find free portRange of
                  Some port \<Rightarrow> Inr port
                | None \<Rightarrow> Inl ''no available consecutive UDP ports found in range'')"

lemma mset_swap: "i < length xs \<Longrightarrow> j < length xs \<Longrightarrow> mset (swap i j xs) = mset xs"
  by (simp add: swap_def mset_swap)

lemma mset_shuffle: "i < length xs \<Longrightarrow> mset (shuffle rnd i xs) = mset xs"
proof (induction i arbitrary: xs)
  case (Suc i)
  let ?j = "rnd (Suc i) mod (Suc i + 1)"
  have j: "?j < length xs" using Suc.prems mod_less_divisor [of "Suc i + 1" "rnd (Suc i)"] by linarith
  have "i < length (swap (Suc i) ?j xs)" using Suc.prems by (simp add: swap_def)
  then show ?case using Suc.IH [of "swap (Suc i) ?j xs"] Newt_Util.mset_swap [OF Suc.prems j] by simp
qed simp

lemma set_shuffle: "set (shuffle rnd (length xs - 1) xs) = set xs"
proof (cases xs)
  case (Cons x ys)
  then have "mset (shuffle rnd (length xs - 1) xs) = mset xs" by (intro mset_shuffle) simp
  then show ?thesis by (rule mset_eq_setD)
qed simp

lemma port_range_set:
  fixes minPort maxPort :: "16 word"
  assumes "minPort \<le> maxPort" "\<not> maxPort - 1 < minPort"
  shows "(\<lambda>i. minPort + word_of_nat i) ` {0..<unat (maxPort - 1 - minPort + 1)} = {p. minPort \<le> p \<and> p < maxPort}"
proof -
  have e: "maxPort - 1 - minPort + 1 = maxPort - minPort" by simp
  have u: "unat (maxPort - minPort) = unat maxPort - unat minPort" using assms(1) by (simp add: unat_sub)
  have hi: "unat maxPort < 65536" using unsigned_less [of maxPort] by simp
  have w: "unat (minPort + word_of_nat i) = unat minPort + i" if "i < unat maxPort - unat minPort" for i
  proof -
    have i: "i < 65536" using that hi by linarith
    then have "unat (word_of_nat i :: 16 word) = i" by (simp add: unsigned_of_nat take_bit_eq_mod)
    moreover have "unat minPort + i < 2 ^ 16" using that hi by simp
    ultimately show ?thesis by (subst unat_add_lem [THEN iffD1]) simp_all
  qed
  show ?thesis unfolding e u
  proof (intro set_eqI iffI)
    fix p assume "p \<in> (\<lambda>i. minPort + word_of_nat i) ` {0..<unat maxPort - unat minPort}"
    then obtain i where i: "i < unat maxPort - unat minPort" "p = minPort + word_of_nat i" by auto
    then have "unat p = unat minPort + i" using w by simp
    then show "p \<in> {p. minPort \<le> p \<and> p < maxPort}" using i(1) by (simp add: word_le_nat_alt word_less_nat_alt)
  next
    fix p assume "p \<in> {p. minPort \<le> p \<and> p < maxPort}"
    then have p: "unat minPort \<le> unat p" "unat p < unat maxPort" by (simp_all add: word_le_nat_alt word_less_nat_alt)
    then have "p = minPort + word_of_nat (unat p - unat minPort)" by (simp add: of_nat_diff)
    moreover have "unat p - unat minPort < unat maxPort - unat minPort" using p by linarith
    ultimately show "p \<in> (\<lambda>i. minPort + word_of_nat i) ` {0..<unat maxPort - unat minPort}" by auto
  qed
qed

lemma port_range_empty:
  fixes minPort maxPort :: "16 word"
  assumes "maxPort < minPort \<or> maxPort - 1 < minPort"
  shows "{p. minPort \<le> p \<and> p < maxPort} = {}"
proof -
  have "\<not> p < maxPort" if "minPort \<le> p" for p
  proof
    assume p: "p < maxPort"
    then have "unat (maxPort - 1) = unat maxPort - 1" by (metis unat_minus_one word_less_nat_alt less_nat_zero_code unat_0)
    then show False using assms that p by (auto simp: word_le_nat_alt word_less_nat_alt)
  qed
  then show ?thesis by auto
qed

text \<open>
  The port search is complete and stays in range: it returns a port exactly if some port of the range below the last one
  can be bound, the port it returns is such a port, and this holds for every outcome of the shuffle.  In particular the last port
  is never returned, as its successor may be outside the range, and the 16-bit arithmetic never leaves the range.
\<close>

theorem FindAvailableUDPPort_in_range:
  "((\<exists>port. FindAvailableUDPPort free rnd minPort maxPort = Inr port) \<longleftrightarrow> (\<exists>p. minPort \<le> p \<and> p < maxPort \<and> free p)) \<and>
   (\<forall>port. FindAvailableUDPPort free rnd minPort maxPort = Inr port \<longrightarrow> minPort \<le> port \<and> port < maxPort \<and> free port)"
proof (cases "maxPort < minPort \<or> maxPort - 1 < minPort")
  case True
  then have "\<exists>e. FindAvailableUDPPort free rnd minPort maxPort = Inl e"
    by (auto simp: FindAvailableUDPPort_def Let_def)
  then show ?thesis using port_range_empty [OF True] by auto
next
  case False
  define n where "n = unat (maxPort - 1 - minPort + 1)"
  define ports where "ports = shuffle rnd (n - 1) (map (\<lambda>i. minPort + word_of_nat i) [0..<n])"
  have "set ports = {p. minPort \<le> p \<and> p < maxPort}"
    using set_shuffle [of rnd "map (\<lambda>i. minPort + word_of_nat i) [0..<n]"] port_range_set [of minPort maxPort] False
    by (simp add: ports_def n_def not_less)
  moreover have "FindAvailableUDPPort free rnd minPort maxPort = (case List.find free ports of
      Some port \<Rightarrow> Inr port | None \<Rightarrow> Inl ''no available consecutive UDP ports found in range'')"
    using False by (simp add: FindAvailableUDPPort_def Let_def ports_def n_def)
  ultimately show ?thesis
    by (cases "List.find free ports") (auto simp: find_None_iff find_Some_iff)
qed

theorem FindAvailableUDPPort_in_range_witness:
  "FindAvailableUDPPort (\<lambda>p. p = 49153) (\<lambda>i. 0) 49152 49155 = Inr 49153 \<and> (49152 :: 16 word) \<le> 49153 \<and> (49153 :: 16 word) < 49155"
proof -
  have "\<exists>port. FindAvailableUDPPort (\<lambda>p. p = 49153) (\<lambda>i. 0) 49152 49155 = Inr port"
    using FindAvailableUDPPort_in_range [of "\<lambda>p. p = 49153" "\<lambda>i. 0" 49152 49155, THEN conjunct1, THEN iffD2] by simp
  then obtain port where p: "FindAvailableUDPPort (\<lambda>p. p = 49153) (\<lambda>i. 0) 49152 49155 = Inr port" by blast
  then have "port = 49153"
    using FindAvailableUDPPort_in_range [of "\<lambda>p. p = 49153" "\<lambda>i. 0" 49152 49155, THEN conjunct2] by simp
  then show ?thesis using p by simp
qed

section \<open>Keys\<close>

text \<open>\<open>None\<close>: the logger ends the process.\<close>

definition FixKey :: "string \<Rightarrow> string option" where
  "FixKey key = map_option hex_encode (b64_decode (trim_space key))"

definition UnfixKey :: "string \<Rightarrow> string option" where
  "UnfixKey hexKey = map_option b64_encode (hex_decode hexKey)"

section \<open>Raw packets\<close>

definition GetProtocol :: "bytes \<Rightarrow> byte option" where
  "GetProtocol packet =
     (if length packet < 20 then None
      else let version = drop_bit 4 (packet ! 0) in
        if version = 4 then Some (packet ! 9)
        else if version = 6 then (if length packet < 40 then None else Some (packet ! 6))
        else None)"

definition GetDestPort :: "bytes \<Rightarrow> 16 word option" where
  "GetDestPort packet =
     (if length packet < 20 then None
      else let version = drop_bit 4 (packet ! 0) in
        if version = 4 then
          (let headerLen = unat (packet ! 0 AND 15) * 4 in
           if length packet < headerLen + 4 then None else Some (be16 packet (headerLen + 2)))
        else if version = 6 then
          (if length packet < 40 + 4 then None else Some (be16 packet (40 + 2)))
        else None)"

text \<open>On an IPv4 packet the fast path reads the destination port that the header accessors read.\<close>

lemma GetDestPort_header:
  assumes "GetDestPort packet = Some port" "drop_bit 4 (packet ! 0) = 4"
  shows "port = h_DestinationPort rfc_hdr (drop (h_HeaderLength rfc_hdr packet) packet)"
  using assms by (auto simp: GetDestPort_def rfc_hdr_def rfc_headerLength_def be16_def Let_def ac_simps split: if_splits)

text \<open>The key texts: what a decoded key encodes to, and back.\<close>

lemma dropWhile_all_not: "list_all (\<lambda>c. \<not> P c) s \<Longrightarrow> dropWhile P s = s"
  by (cases s) auto

lemma trim_space_id: "list_all (\<lambda>c. \<not> is_space c) s \<Longrightarrow> trim_space s = s"
  by (simp add: trim_space_def dropWhile_all_not)

lemma b64_char_not_space: "n < 64 \<Longrightarrow> \<not> is_space (b64_char n)"
  using of_char_b64 [of n] by (auto simp: is_space_def split: if_splits)

lemma b64_encode_no_space: "list_all (\<lambda>c. \<not> is_space c) (b64_encode bs)"
proof (induction bs rule: b64_encode.induct)
  case (3 a b)
  have "unat a * 256 + unat b < 65536" using unat_byte_less [of a] unat_byte_less [of b] by linarith
  then show ?case by (simp add: Let_def less_mult_imp_div_less b64_char_not_space) (simp add: is_space_def)
next
  case (4 a b c s)
  have "unat a * 65536 + unat b * 256 + unat c < 16777216"
    using unat_byte_less [of a] unat_byte_less [of b] unat_byte_less [of c] by linarith
  then show ?case using 4 by (simp add: Let_def less_mult_imp_div_less b64_char_not_space)
qed (simp_all add: Let_def less_mult_imp_div_less b64_char_not_space, simp_all add: is_space_def)

lemma key_texts:
  "FixKey (b64_encode k) = Some (hex_encode k)" "UnfixKey (hex_encode k) = Some (b64_encode k)"
  by (simp_all add: FixKey_def UnfixKey_def trim_space_id b64_encode_no_space b64_decode_encode hex_decode_encode)

text \<open>
  The two texts of a WireGuard key translate into each other: \<open>FixKey\<close> on the base 64 text of any key gives a text that
  \<open>UnfixKey\<close> turns back into it, and \<open>FixKey\<close> undoes \<open>UnfixKey\<close> on every lower-case hexadecimal text.
\<close>

theorem key_roundtrip:
  "Option.bind (FixKey (b64_encode k)) UnfixKey = Some (b64_encode k) \<and>
   (list_all lower_hex h \<and> even (length h) \<longrightarrow> Option.bind (UnfixKey h) FixKey = Some h)"
proof -
  have "\<exists>bs. hex_decode h = Some bs" if "list_all lower_hex h" "even (length h)"
    using that by (induction h rule: hex_decode.induct) (auto simp: lower_hex_def)
  then have "Option.bind (UnfixKey h) FixKey = Some h" if "list_all lower_hex h" "even (length h)"
    using that hex_encode_decode [of h] by (auto simp: UnfixKey_def key_texts)
  then show ?thesis by (simp add: key_texts)
qed

theorem key_roundtrip_witness:
  "Option.bind (UnfixKey ''00ff10'') FixKey = Some ''00ff10'' \<and> UnfixKey ''00ff10'' = Some ''AP8Q''"
proof -
  have "list_all lower_hex ''00ff10''" by (simp add: lower_hex_def is_hex_def is_digit_def)
  then have "Option.bind (UnfixKey ''00ff10'') FixKey = Some ''00ff10''"
    using key_roundtrip [of "[]" "''00ff10''"] by simp
  then show ?thesis
    by (simp add: UnfixKey_def is_hex_def is_digit_def hex_val_def b64_char_def Let_def char_of_def bit_0)
qed

end
