(* ===== verification/Hole_Punch.thy ===== *)
theory Hole_Punch
  imports Newt_Util Shared_Bind
begin

text \<open>
  The hole-punch manager (\<open>holepunch/holepunch.go\<close>).

  Channels are numbers: the world records which are closed and which hold a signal.  The goroutine of
  \<open>runMultipleExitNodes\<close> is a program counter (\<open>hp_pc\<close>) that names the points between which other code can run: the
  sections under the mutex, the reads of the channel fields when \<open>select\<close> evaluates its cases, and the wait itself.  DNS, the
  random numbers, the cryptographic packages and the errors of a write are arguments, bundled in \<open>hp_env\<close>; the order in which a
  \<open>range\<close> loop visits the exit nodes is \<open>he_order\<close>.
\<close>

declare map_of_eq_Some_iff [simp del] Some_eq_map_of_iff [simp del]

section \<open>Data\<close>

record ExitNode =
  en_Endpoint :: string
  en_RelayPort :: "16 word"
  en_PublicKey :: string
  en_SiteIds :: "int list"

record hp_manager =
  hp_running :: bool
  hp_stopChan :: "nat option"
  hp_ID :: string
  hp_token :: string
  hp_publicKey :: string
  hp_clientType :: string
  hp_exitNodes :: "(string, ExitNode) gomap"
  hp_updateChan :: "nat option"
  hp_publicDNS :: "string list"
  hp_interval :: int
  hp_intervalMin :: int
  hp_intervalMax :: int
  hp_defaultMin :: int
  hp_defaultMax :: int

definition defaultSendHolepunchIntervalMax :: int where
  "defaultSendHolepunchIntervalMax = 60 * second"

definition defaultSendHolepunchIntervalMin :: int where
  "defaultSendHolepunchIntervalMin = 1 * second"

definition NewManager :: "string \<Rightarrow> string \<Rightarrow> string \<Rightarrow> string list \<Rightarrow> hp_manager" where
  "NewManager ident clientType publicKey publicDNS =
     \<lparr>hp_running = False, hp_stopChan = None, hp_ID = ident, hp_token = [], hp_publicKey = publicKey,
      hp_clientType = clientType, hp_exitNodes = [], hp_updateChan = None, hp_publicDNS = publicDNS,
      hp_interval = defaultSendHolepunchIntervalMin, hp_intervalMin = defaultSendHolepunchIntervalMin,
      hp_intervalMax = defaultSendHolepunchIntervalMax, hp_defaultMin = defaultSendHolepunchIntervalMin,
      hp_defaultMax = defaultSendHolepunchIntervalMax\<rparr>"

text \<open>A resolved exit node: address, public key, endpoint name.\<close>

type_synonym resolvedExitNode = "addr_port \<times> string \<times> string"

text \<open>What the goroutine sends for: the first round, after an update, at a tick.\<close>

datatype hp_phase = PInit | PUpdate | PTick

datatype hp_pc =
    HpStart
  | HpResolving hp_phase "ExitNode list"
  | HpReset "resolvedExitNode list"
  | HpResetTicker "resolvedExitNode list"
  | HpSending hp_phase "resolvedExitNode list" "resolvedExitNode list"
  | HpInitInterval "resolvedExitNode list"
  | HpNewTicker "resolvedExitNode list"
  | HpBackoff "resolvedExitNode list"
  | HpLoop "resolvedExitNode list"
  | HpSelect "nat option" "nat option" "resolvedExitNode list"
  | HpExit
  | HpDone
  | HpPanic

record hp_world =
  hw_mgr :: hp_manager
  hw_bind :: shared_bind
  hw_closed :: "nat list"
  hw_signal :: "nat list"
  hw_next :: nat
  hw_routines :: "hp_pc list"

section \<open>The outside\<close>

text \<open>
  The packages \<open>wgtypes\<close>, \<open>curve25519\<close>, \<open>chacha20poly1305\<close> and the nonce of one message, as \<open>encryptPayload\<close> calls them.
\<close>

record hp_crypto =
  cr_GeneratePrivateKey :: "string + bytes"
  cr_PublicKey :: "bytes \<Rightarrow> bytes"
  cr_KeyString :: "bytes \<Rightarrow> string"
  cr_ParseKey :: "string \<Rightarrow> string + bytes"
  cr_X25519 :: "bytes \<Rightarrow> bytes \<Rightarrow> string + bytes"
  cr_New :: "bytes \<Rightarrow> string + nat"
  cr_nonce :: "nat \<Rightarrow> string + bytes"
  cr_Seal :: "bytes \<Rightarrow> bytes \<Rightarrow> bytes \<Rightarrow> bytes"

record hp_env =
  he_lookup :: lookup
  he_lookupVia :: "string \<Rightarrow> lookup"
  he_order :: "ExitNode list \<Rightarrow> ExitNode list"
  he_crypto :: hp_crypto
  he_werr :: write_error

section \<open>Sending\<close>

definition encryptPayload :: "hp_crypto \<Rightarrow> bytes \<Rightarrow> string \<Rightarrow> string + json" where
  "encryptPayload cr payload serverPublicKey =
     (case cr_GeneratePrivateKey cr of
        Inl e \<Rightarrow> Inl (''failed to generate ephemeral private key: '' @ e)
      | Inr ephemeralPrivateKey \<Rightarrow>
     (case cr_ParseKey cr serverPublicKey of
        Inl e \<Rightarrow> Inl (''failed to parse server public key: '' @ e)
      | Inr serverPubKey \<Rightarrow>
     (case cr_X25519 cr ephemeralPrivateKey serverPubKey of
        Inl e \<Rightarrow> Inl (''failed to perform X25519 key exchange: '' @ e)
      | Inr sharedSecret \<Rightarrow>
     (case cr_New cr sharedSecret of
        Inl e \<Rightarrow> Inl (''failed to create AEAD cipher: '' @ e)
      | Inr nonceSize \<Rightarrow>
     (case cr_nonce cr nonceSize of
        Inl e \<Rightarrow> Inl (''failed to generate nonce: '' @ e)
      | Inr nonce \<Rightarrow> Inr (JObj
          [(''ephemeralPublicKey'', JStr (cr_KeyString cr (cr_PublicKey cr ephemeralPrivateKey))),
           (''nonce'', JStr (b64_encode nonce)),
           (''ciphertext'', JStr (b64_encode (cr_Seal cr sharedSecret nonce payload)))]))))))"

definition holePunchPayload :: "hp_manager \<Rightarrow> json" where
  "holePunchPayload m = JObj
     [(if hp_clientType m = ''newt'' then ''newtId'' else ''olmId'', JStr (hp_ID m)),
      (''token'', JStr (hp_token m)), (''publicKey'', JStr (hp_publicKey m))]"

definition sendHolePunch :: "hp_env \<Rightarrow> hp_manager \<Rightarrow> addr_port \<Rightarrow> string \<Rightarrow> shared_bind \<Rightarrow> string option \<times> shared_bind" where
  "sendHolePunch env m remoteAddr serverPubKey b =
     (if serverPubKey = [] \<or> hp_token m = [] then (Some ''server public key or OLM token is empty'', b)
      else case encryptPayload (he_crypto env) (text_bytes (json_text (holePunchPayload m))) serverPubKey of
        Inl e \<Rightarrow> (Some (''failed to encrypt payload: '' @ e), b)
      | Inr encryptedPayload \<Rightarrow>
          (case WriteToUDP (he_werr env) (text_bytes (json_text encryptedPayload)) remoteAddr b of
             (Inl e, b') \<Rightarrow> (Some ''failed to write to UDP'', b')
           | (Inr n, b') \<Rightarrow> (None, b')))"

definition resolveHost :: "hp_env \<Rightarrow> string list \<Rightarrow> string \<Rightarrow> string + string" where
  "resolveHost env publicDNS endpoint =
     (if publicDNS \<noteq> [] then ResolveDomainUpstream (he_lookup env) (he_lookupVia env) endpoint publicDNS
      else ResolveDomain (he_lookup env) endpoint)"

definition resolveExitNode :: "hp_env \<Rightarrow> string list \<Rightarrow> ExitNode \<Rightarrow> resolvedExitNode option" where
  "resolveExitNode env publicDNS node =
     (case resolveHost env publicDNS (en_Endpoint node) of
        Inl e \<Rightarrow> None
      | Inr host \<Rightarrow>
          (case resolveUDPAddr (he_lookup env) (join_host_port host (itoa (unat (en_RelayPort node)))) of
             None \<Rightarrow> None
           | Some remoteAddr \<Rightarrow> Some (remoteAddr, en_PublicKey node, en_Endpoint node)))"

definition currentExitNodes :: "hp_env \<Rightarrow> hp_manager \<Rightarrow> ExitNode list" where
  "currentExitNodes env m = he_order env (map snd (hp_exitNodes m))"

definition resolveNodes :: "hp_env \<Rightarrow> string list \<Rightarrow> ExitNode list \<Rightarrow> resolvedExitNode list" where
  "resolveNodes env publicDNS nodes = List.map_filter (resolveExitNode env publicDNS) nodes"

section \<open>The methods\<close>

definition SetToken :: "string \<Rightarrow> hp_world \<Rightarrow> hp_world" where
  "SetToken token w = w\<lparr>hw_mgr := (hw_mgr w)\<lparr>hp_token := token\<rparr>\<rparr>"

definition HPSetPublicDNS :: "string list \<Rightarrow> hp_world \<Rightarrow> hp_world" where
  "HPSetPublicDNS servers w = w\<lparr>hw_mgr := (hw_mgr w)\<lparr>hp_publicDNS := servers\<rparr>\<rparr>"

text \<open>Closing a channel twice and sending on a closed one panic; the update channel has room for one signal.\<close>

definition closeChan :: "nat \<Rightarrow> hp_world \<Rightarrow> hp_world go_result" where
  "closeChan c w = (if c \<in> set (hw_closed w) then Panic else Ret (w\<lparr>hw_closed := c # hw_closed w\<rparr>))"

definition closeField :: "nat option \<Rightarrow> hp_world \<Rightarrow> hp_world go_result" where
  "closeField f w = (case f of None \<Rightarrow> Ret w | Some c \<Rightarrow> closeChan c w)"

definition signalUpdate :: "hp_world \<Rightarrow> hp_world go_result" where
  "signalUpdate w = (case hp_updateChan (hw_mgr w) of
     None \<Rightarrow> Ret w
   | Some c \<Rightarrow>
       if \<not> hp_running (hw_mgr w) then Ret w
       else if c \<in> set (hw_closed w) then Panic
       else Ret (w\<lparr>hw_signal := List.insert c (hw_signal w)\<rparr>))"

definition HPStop :: "hp_world \<Rightarrow> hp_world go_result" where
  "HPStop w =
     (let m = hw_mgr w in
      if \<not> hp_running m then Ret w
      else go_bind (closeField (hp_stopChan m) w) (\<lambda>w.
           go_bind (closeField (hp_updateChan m) w) (\<lambda>w.
           Ret (w\<lparr>hw_mgr := m\<lparr>hp_stopChan := None, hp_updateChan := None, hp_running := False\<rparr>\<rparr>))))"

definition AddExitNode :: "ExitNode \<Rightarrow> hp_world \<Rightarrow> (bool \<times> hp_world) go_result" where
  "AddExitNode node w =
     (let m = hw_mgr w in
      if mhas (hp_exitNodes m) (en_Endpoint node) then Ret (False, w)
      else go_bind (signalUpdate (w\<lparr>hw_mgr := m\<lparr>hp_exitNodes := mput (en_Endpoint node) node (hp_exitNodes m)\<rparr>\<rparr>))
             (\<lambda>w. Ret (True, w)))"

definition RemoveExitNode :: "string \<Rightarrow> hp_world \<Rightarrow> (bool \<times> hp_world) go_result" where
  "RemoveExitNode endpoint w =
     (let m = hw_mgr w in
      if \<not> mhas (hp_exitNodes m) endpoint then Ret (False, w)
      else go_bind (signalUpdate (w\<lparr>hw_mgr := m\<lparr>hp_exitNodes := mdel endpoint (hp_exitNodes m)\<rparr>\<rparr>))
             (\<lambda>w. Ret (True, w)))"

text \<open>One turn of the loop over the exit nodes: the map so far and the number of nodes removed.\<close>

definition dropPeer :: "int \<Rightarrow> nat \<times> (string, ExitNode) gomap \<Rightarrow> string \<times> ExitNode \<Rightarrow> nat \<times> (string, ExitNode) gomap" where
  "dropPeer peerID = (\<lambda>(removed, nodes) (endpoint, node).
     (let newSiteIds = filter (\<lambda>i. i \<noteq> peerID) (en_SiteIds node) in
      if length newSiteIds \<noteq> length (en_SiteIds node) then
        (if newSiteIds = [] then (Suc removed, mdel endpoint nodes)
         else (removed, mput endpoint (node\<lparr>en_SiteIds := newSiteIds\<rparr>) nodes))
      else (removed, nodes)))"

definition RemoveExitNodesByPeer :: "int \<Rightarrow> hp_world \<Rightarrow> (nat \<times> hp_world) go_result" where
  "RemoveExitNodesByPeer peerID w =
     (let m = hw_mgr w;
          (removed, nodes) = foldl (dropPeer peerID) (0, hp_exitNodes m) (hp_exitNodes m);
          w = w\<lparr>hw_mgr := m\<lparr>hp_exitNodes := nodes\<rparr>\<rparr>
      in if 0 < removed then go_bind (signalUpdate w) (\<lambda>w. Ret (removed, w)) else Ret (removed, w))"

definition GetExitNodes :: "hp_world \<Rightarrow> ExitNode list" where
  "GetExitNodes w = map snd (hp_exitNodes (hw_mgr w))"

definition SetServerHolepunchInterval :: "int \<Rightarrow> int \<Rightarrow> hp_world \<Rightarrow> hp_world go_result" where
  "SetServerHolepunchInterval mn mx w =
     signalUpdate (w\<lparr>hw_mgr := (hw_mgr w)\<lparr>hp_intervalMin := mn, hp_intervalMax := mx, hp_interval := mn\<rparr>\<rparr>)"

definition ResetServerHolepunchInterval :: "hp_world \<Rightarrow> hp_world go_result" where
  "ResetServerHolepunchInterval w =
     (let m = hw_mgr w in
      signalUpdate (w\<lparr>hw_mgr := m\<lparr>hp_intervalMin := hp_defaultMin m, hp_intervalMax := hp_defaultMax m,
                                hp_interval := hp_defaultMin m\<rparr>\<rparr>))"

primrec triggerLoop :: "hp_env \<Rightarrow> hp_manager \<Rightarrow> ExitNode list \<Rightarrow> nat \<Rightarrow> shared_bind \<Rightarrow> nat \<times> shared_bind" where
  "triggerLoop env m [] successCount b = (successCount, b)"
| "triggerLoop env m (node # nodes) successCount b =
     (case resolveExitNode env (hp_publicDNS m) node of
        None \<Rightarrow> triggerLoop env m nodes successCount b
      | Some (remoteAddr, key, name) \<Rightarrow>
          (case sendHolePunch env m remoteAddr key b of
             (Some e, b') \<Rightarrow> triggerLoop env m nodes successCount b'
           | (None, b') \<Rightarrow> triggerLoop env m nodes (Suc successCount) b'))"

definition TriggerHolePunch :: "hp_env \<Rightarrow> hp_world \<Rightarrow> string option \<times> hp_world" where
  "TriggerHolePunch env w =
     (let m = hw_mgr w in
      if hp_exitNodes m = [] then (Some ''no exit nodes configured'', w)
      else let (successCount, b) = triggerLoop env m (currentExitNodes env m) 0 (hw_bind w); w = w\<lparr>hw_bind := b\<rparr>
           in if successCount = 0 then (Some ''failed to send hole punch to any exit node'', w) else (None, w))"

text \<open>Two new channels and the goroutine, as both start methods make them.\<close>

definition launch :: "hp_manager \<Rightarrow> hp_world \<Rightarrow> hp_world" where
  "launch m w = w\<lparr>hw_mgr := m\<lparr>hp_running := True, hp_stopChan := Some (hw_next w), hp_updateChan := Some (Suc (hw_next w))\<rparr>,
                  hw_next := Suc (Suc (hw_next w)), hw_routines := hw_routines w @ [HpStart]\<rparr>"

definition StartMultipleExitNodes :: "ExitNode list \<Rightarrow> hp_world \<Rightarrow> string option \<times> hp_world" where
  "StartMultipleExitNodes nodes w =
     (if hp_running (hw_mgr w) then (Some ''hole punch already running'', w)
      else (None, launch ((hw_mgr w)\<lparr>hp_exitNodes := foldl (\<lambda>ns n. mput (en_Endpoint n) n ns) [] nodes\<rparr>) w))"

definition HPStart :: "hp_world \<Rightarrow> string option \<times> hp_world" where
  "HPStart w =
     (if hp_running (hw_mgr w) then (Some ''hole punch already running'', w) else (None, launch (hw_mgr w) w))"

section \<open>The goroutine\<close>

text \<open>The ready case that \<open>select\<close> takes.\<close>

datatype hp_choice = SelStop | SelUpdate | SelTick

text \<open>The interval of the next tick: doubled, up to the maximum.\<close>

definition nextInterval :: "int \<Rightarrow> int \<Rightarrow> int" where
  "nextInterval interval mx = (let newInterval = wrap64 (interval * 2) in if newInterval > mx then mx else newInterval)"

definition setInterval :: "int \<Rightarrow> hp_world \<Rightarrow> hp_world" where
  "setInterval v w = w\<lparr>hw_mgr := (hw_mgr w)\<lparr>hp_interval := v\<rparr>\<rparr>"

definition afterSending :: "hp_phase \<Rightarrow> resolvedExitNode list \<Rightarrow> hp_pc" where
  "afterSending ph rs = (case ph of PInit \<Rightarrow> HpInitInterval rs | PUpdate \<Rightarrow> HpLoop rs | PTick \<Rightarrow> HpBackoff rs)"

text \<open>
  The wait in \<open>select\<close> on the channels read before: a nil channel is never ready, a closed one always is.
\<close>

definition hpSelect ::
  "hp_env \<Rightarrow> hp_choice \<Rightarrow> nat option \<Rightarrow> nat option \<Rightarrow> resolvedExitNode list \<Rightarrow> hp_world \<Rightarrow> (hp_pc \<times> hp_world) option" where
  "hpSelect env choice stopC updateC rs w = (case choice of
     SelStop \<Rightarrow> (case stopC of Some c \<Rightarrow> if c \<in> set (hw_closed w) then Some (HpExit, w) else None | None \<Rightarrow> None)
   | SelUpdate \<Rightarrow> (case updateC of
         Some c \<Rightarrow>
           if c \<in> set (hw_signal w) \<or> c \<in> set (hw_closed w)
           then Some (HpResolving PUpdate (currentExitNodes env (hw_mgr w)), w\<lparr>hw_signal := removeAll c (hw_signal w)\<rparr>)
           else None
       | None \<Rightarrow> None)
   | SelTick \<Rightarrow> Some (if rs = [] then HpLoop rs else HpSending PTick rs rs, w))"

text \<open>
  \<open>runMultipleExitNodes\<close> from one program point to the next.  \<open>time.NewTicker\<close> and \<open>ticker.Reset\<close> panic on an interval that is not
  positive.
\<close>

definition runMultipleExitNodes :: "hp_env \<Rightarrow> hp_choice \<Rightarrow> hp_pc \<Rightarrow> hp_world \<Rightarrow> (hp_pc \<times> hp_world) option" where
  "runMultipleExitNodes env choice pc w =
     (let m = hw_mgr w in case pc of
        HpStart \<Rightarrow> Some (HpResolving PInit (currentExitNodes env m), w)
      | HpResolving ph nodes \<Rightarrow>
          (let rs = resolveNodes env (hp_publicDNS m) nodes
           in Some (if ph = PUpdate then HpReset rs else HpSending ph rs rs, w))
      | HpReset rs \<Rightarrow> Some (HpResetTicker rs, setInterval (hp_intervalMin m) w)
      | HpResetTicker rs \<Rightarrow> Some (if hp_interval m \<le> 0 then HpPanic else HpSending PUpdate rs rs, w)
      | HpSending ph todo rs \<Rightarrow>
          (case todo of
             [] \<Rightarrow> Some (afterSending ph rs, w)
           | (remoteAddr, key, name) # rest \<Rightarrow>
               Some (HpSending ph rest rs, w\<lparr>hw_bind := snd (sendHolePunch env m remoteAddr key (hw_bind w))\<rparr>))
      | HpInitInterval rs \<Rightarrow> Some (HpNewTicker rs, setInterval (hp_intervalMin m) w)
      | HpNewTicker rs \<Rightarrow> Some (if hp_interval m \<le> 0 then HpPanic else HpLoop rs, w)
      | HpBackoff rs \<Rightarrow>
          (let newInterval = nextInterval (hp_interval m) (hp_intervalMax m) in
           if newInterval \<noteq> hp_interval m
           then Some (if newInterval \<le> 0 then HpPanic else HpLoop rs, setInterval newInterval w)
           else Some (HpLoop rs, w))
      | HpLoop rs \<Rightarrow> Some (HpSelect (hp_stopChan m) (hp_updateChan m) rs, w)
      | HpSelect stopC updateC rs \<Rightarrow> hpSelect env choice stopC updateC rs w
      | HpExit \<Rightarrow> Some (HpDone, w\<lparr>hw_mgr := m\<lparr>hp_running := False\<rparr>\<rparr>)
      | HpDone \<Rightarrow> None
      | HpPanic \<Rightarrow> None)"

section \<open>Interleavings\<close>

datatype hp_call =
    CallSetToken string | CallSetPublicDNS "string list" | CallStop | CallAdd ExitNode | CallRemove string | CallRemovePeer int
  | CallSetInterval int int | CallResetInterval | CallTrigger hp_env | CallStartMultiple "ExitNode list" | CallStart

definition hpCall :: "hp_call \<Rightarrow> hp_world \<Rightarrow> hp_world go_result" where
  "hpCall c w = (case c of
     CallSetToken t \<Rightarrow> Ret (SetToken t w)
   | CallSetPublicDNS ss \<Rightarrow> Ret (HPSetPublicDNS ss w)
   | CallStop \<Rightarrow> HPStop w
   | CallAdd n \<Rightarrow> go_bind (AddExitNode n w) (\<lambda>(r, w). Ret w)
   | CallRemove e \<Rightarrow> go_bind (RemoveExitNode e w) (\<lambda>(r, w). Ret w)
   | CallRemovePeer p \<Rightarrow> go_bind (RemoveExitNodesByPeer p w) (\<lambda>(r, w). Ret w)
   | CallSetInterval mn mx \<Rightarrow> SetServerHolepunchInterval mn mx w
   | CallResetInterval \<Rightarrow> ResetServerHolepunchInterval w
   | CallTrigger env \<Rightarrow> Ret (snd (TriggerHolePunch env w))
   | CallStartMultiple ns \<Rightarrow> Ret (snd (StartMultipleExitNodes ns w))
   | CallStart \<Rightarrow> Ret (snd (HPStart w)))"

text \<open>Callers give a positive minimum, not above the maximum, and a maximum whose double fits 64 bits.\<close>

definition callOk :: "hp_call \<Rightarrow> bool" where
  "callOk c = (case c of CallSetInterval mn mx \<Rightarrow> 0 < mn \<and> mn \<le> mx \<and> mx < 2 ^ 62 | _ \<Rightarrow> True)"

datatype hp_label = LCall hp_call | LGo nat hp_env hp_choice

inductive hp_step :: "hp_label \<Rightarrow> hp_world \<Rightarrow> hp_world \<Rightarrow> bool" where
  hp_step_call: "callOk c \<Longrightarrow> hpCall c w = Ret w' \<Longrightarrow> hp_step (LCall c) w w'"
| hp_step_go: "g < length (hw_routines w) \<Longrightarrow> runMultipleExitNodes env choice (hw_routines w ! g) w = Some (pc, w')
    \<Longrightarrow> hp_step (LGo g env choice) w (w'\<lparr>hw_routines := (hw_routines w')[g := pc]\<rparr>)"

definition newWorld :: "string \<Rightarrow> string \<Rightarrow> string \<Rightarrow> string list \<Rightarrow> shared_bind \<Rightarrow> hp_world" where
  "newWorld ident clientType publicKey publicDNS b =
     \<lparr>hw_mgr = NewManager ident clientType publicKey publicDNS, hw_bind = b, hw_closed = [], hw_signal = [], hw_next = 0,
      hw_routines = []\<rparr>"

inductive hp_reach :: "hp_world \<Rightarrow> bool" where
  hp_reach_new: "hp_reach (newWorld ident clientType publicKey publicDNS b)"
| hp_reach_step: "hp_reach w \<Longrightarrow> hp_step l w w' \<Longrightarrow> hp_reach w'"

section \<open>The invariant of the manager\<close>

text \<open>
  The interval is the minimum doubled some number of times and cut at the maximum; the channels of the fields are open and different; a
  running manager has both; no goroutine has panicked.
\<close>

definition interval_ok :: "hp_manager \<Rightarrow> bool" where
  "interval_ok m \<longleftrightarrow> 0 < hp_intervalMin m \<and> hp_intervalMin m \<le> hp_intervalMax m \<and> hp_intervalMax m < 2 ^ 62 \<and>
     0 < hp_defaultMin m \<and> hp_defaultMin m \<le> hp_defaultMax m \<and> hp_defaultMax m < 2 ^ 62 \<and>
     (\<exists>k. hp_interval m = min (hp_intervalMax m) (hp_intervalMin m * 2 ^ k))"

definition chans_ok :: "hp_world \<Rightarrow> bool" where
  "chans_ok w \<longleftrightarrow>
     (\<forall>c\<in>set (hw_closed w). c < hw_next w) \<and>
     (\<forall>c. hp_stopChan (hw_mgr w) = Some c \<longrightarrow> c < hw_next w \<and> c \<notin> set (hw_closed w)) \<and>
     (\<forall>c. hp_updateChan (hw_mgr w) = Some c \<longrightarrow> c < hw_next w \<and> c \<notin> set (hw_closed w) \<and> hp_stopChan (hw_mgr w) \<noteq> Some c) \<and>
     (hp_running (hw_mgr w) \<longrightarrow> hp_stopChan (hw_mgr w) \<noteq> None \<and> hp_updateChan (hw_mgr w) \<noteq> None)"

definition hp_inv :: "hp_world \<Rightarrow> bool" where
  "hp_inv w \<longleftrightarrow> interval_ok (hw_mgr w) \<and> chans_ok w \<and> HpPanic \<notin> set (hw_routines w)"

lemma interval_bounds:
  "interval_ok m \<Longrightarrow> hp_intervalMin m \<le> hp_interval m \<and> hp_interval m \<le> hp_intervalMax m \<and> 0 < hp_interval m"
proof -
  assume m: "interval_ok m"
  then obtain k where k: "hp_interval m = min (hp_intervalMax m) (hp_intervalMin m * 2 ^ k)" by (auto simp: interval_ok_def)
  have "hp_intervalMin m * 1 \<le> hp_intervalMin m * 2 ^ k"
    using m by (intro mult_left_mono) (auto simp: interval_ok_def)
  then show ?thesis using m k by (auto simp: interval_ok_def)
qed

lemma nextInterval_doubles:
  assumes "0 < mn" "mn \<le> mx" "mx < 2 ^ 62" "iv = min mx (mn * 2 ^ k)"
  shows "nextInterval iv mx = min mx (mn * 2 ^ Suc k)"
proof -
  have "0 < mn * 2 ^ k" using assms(1) by simp
  then have iv: "0 < iv" "iv \<le> mx" using assms by auto
  then have "wrap64 (iv * 2) = iv * 2" using assms(3) by (intro wrap64_id) auto
  then show ?thesis using assms(4) iv by (auto simp: nextInterval_def Let_def min_def)
qed

lemma interval_ok_min: "interval_ok m \<Longrightarrow> interval_ok (m\<lparr>hp_interval := hp_intervalMin m\<rparr>)"
  unfolding interval_ok_def by (auto intro!: exI [of _ 0])

lemma interval_ok_next:
  assumes "interval_ok m"
  shows "interval_ok (m\<lparr>hp_interval := nextInterval (hp_interval m) (hp_intervalMax m)\<rparr>)"
proof -
  obtain k where "hp_interval m = min (hp_intervalMax m) (hp_intervalMin m * 2 ^ k)" using assms by (auto simp: interval_ok_def)
  with assms have "nextInterval (hp_interval m) (hp_intervalMax m) = min (hp_intervalMax m) (hp_intervalMin m * 2 ^ Suc k)"
    by (intro nextInterval_doubles) (auto simp: interval_ok_def)
  then have "\<exists>k. nextInterval (hp_interval m) (hp_intervalMax m) = min (hp_intervalMax m) (hp_intervalMin m * 2 ^ k)" by blast
  then show ?thesis using assms by (simp add: interval_ok_def)
qed

lemma interval_ok_congs [simp]:
  "interval_ok (m\<lparr>hp_token := t\<rparr>) = interval_ok m" "interval_ok (m\<lparr>hp_publicDNS := d\<rparr>) = interval_ok m"
  "interval_ok (m\<lparr>hp_exitNodes := ns\<rparr>) = interval_ok m" "interval_ok (m\<lparr>hp_running := r\<rparr>) = interval_ok m"
  "interval_ok (m\<lparr>hp_stopChan := c\<rparr>) = interval_ok m" "interval_ok (m\<lparr>hp_updateChan := c\<rparr>) = interval_ok m"
  by (simp_all add: interval_ok_def)

lemma hp_inv_new: "hp_inv (newWorld ident clientType publicKey publicDNS b)"
  by (auto simp: hp_inv_def newWorld_def interval_ok_def chans_ok_def NewManager_def defaultSendHolepunchIntervalMin_def
      defaultSendHolepunchIntervalMax_def intro: exI [of _ 0])

lemma signalUpdate_inv: "hp_inv w \<Longrightarrow> \<exists>w'. signalUpdate w = Ret w' \<and> hp_inv w'"
  by (auto simp: signalUpdate_def hp_inv_def chans_ok_def split: option.split)

lemma hp_inv_mgr:
  assumes "hp_inv w" "interval_ok m" "hp_stopChan m = hp_stopChan (hw_mgr w)" "hp_updateChan m = hp_updateChan (hw_mgr w)"
    and "hp_running m \<longrightarrow> hp_running (hw_mgr w)"
  shows "hp_inv (w\<lparr>hw_mgr := m\<rparr>)"
  using assms by (simp add: hp_inv_def chans_ok_def)

lemma hp_inv_bind [simp]: "hp_inv (w\<lparr>hw_bind := b\<rparr>) = hp_inv w"
  by (simp add: hp_inv_def chans_ok_def)

lemma hp_inv_signal [simp]: "hp_inv (w\<lparr>hw_signal := b\<rparr>) = hp_inv w"
  by (simp add: hp_inv_def chans_ok_def)

lemma hp_inv_interval: "hp_inv w \<Longrightarrow> interval_ok (hw_mgr w)"
  by (simp add: hp_inv_def)

lemma launch_inv: "hp_inv w \<Longrightarrow> interval_ok m \<Longrightarrow> hp_inv (launch m w)"
  by (auto simp: hp_inv_def launch_def chans_ok_def)

lemma HPStop_running:
  assumes "hp_inv w" "hp_running (hw_mgr w)"
  shows "\<exists>s u. hp_stopChan (hw_mgr w) = Some s \<and> hp_updateChan (hw_mgr w) = Some u \<and>
    HPStop w = Ret (w\<lparr>hw_mgr := (hw_mgr w)\<lparr>hp_stopChan := None, hp_updateChan := None, hp_running := False\<rparr>,
                     hw_closed := u # s # hw_closed w\<rparr>)"
proof -
  obtain s u where "hp_stopChan (hw_mgr w) = Some s" "hp_updateChan (hw_mgr w) = Some u"
    using assms by (auto simp: hp_inv_def chans_ok_def)
  moreover have "s \<notin> set (hw_closed w)" "u \<notin> set (hw_closed w)" "u \<noteq> s"
    using assms calculation by (auto simp: hp_inv_def chans_ok_def)
  ultimately show ?thesis using assms(2) by (simp add: HPStop_def closeField_def closeChan_def)
qed

lemma HPStop_inv: "hp_inv w \<Longrightarrow> \<exists>w'. HPStop w = Ret w' \<and> hp_inv w'"
proof (cases "hp_running (hw_mgr w)")
  case True
  assume w: "hp_inv w"
  obtain s u where "hp_stopChan (hw_mgr w) = Some s" "hp_updateChan (hw_mgr w) = Some u"
    and st: "HPStop w = Ret (w\<lparr>hw_mgr := (hw_mgr w)\<lparr>hp_stopChan := None, hp_updateChan := None, hp_running := False\<rparr>,
                     hw_closed := u # s # hw_closed w\<rparr>)"
    using HPStop_running [OF w True] by blast
  then have "s < hw_next w" "u < hw_next w" using w by (auto simp: hp_inv_def chans_ok_def)
  then show ?thesis using w unfolding st by (simp add: hp_inv_def chans_ok_def)
qed (simp add: HPStop_def)

lemma go_bind_inv:
  "\<exists>w'. m = Ret w' \<and> hp_inv w' \<Longrightarrow> \<exists>w'. go_bind (go_bind m (\<lambda>w. Ret (r, w))) (\<lambda>(r, w). Ret w) = Ret w' \<and> hp_inv w'"
  by auto

lemma hp_inv_nodes: "hp_inv w \<Longrightarrow> hp_inv (w\<lparr>hw_mgr := (hw_mgr w)\<lparr>hp_exitNodes := ns\<rparr>\<rparr>)"
  by (rule hp_inv_mgr) (auto dest: hp_inv_interval)

lemma interval_ok_set:
  "0 < mn \<Longrightarrow> mn \<le> mx \<Longrightarrow> mx < 2 ^ 62 \<Longrightarrow> interval_ok m \<Longrightarrow>
   interval_ok (m\<lparr>hp_intervalMin := mn, hp_intervalMax := mx, hp_interval := mn\<rparr>)"
  unfolding interval_ok_def by (auto intro!: exI [of _ 0])

lemma interval_ok_default:
  "interval_ok m \<Longrightarrow> 0 < hp_defaultMin m \<and> hp_defaultMin m \<le> hp_defaultMax m \<and> hp_defaultMax m < 2 ^ 62"
  by (simp add: interval_ok_def)

lemma hpCall_inv:
  assumes w: "hp_inv w" and "callOk c"
  shows "\<exists>w'. hpCall c w = Ret w' \<and> hp_inv w'"
proof (cases c)
  case (CallSetToken t)
  then show ?thesis using hp_inv_mgr [OF w] hp_inv_interval [OF w] by (simp add: hpCall_def SetToken_def)
next
  case (CallSetPublicDNS ss)
  then show ?thesis using hp_inv_mgr [OF w] hp_inv_interval [OF w] by (simp add: hpCall_def HPSetPublicDNS_def)
next
  case CallStop
  then show ?thesis using HPStop_inv [OF w] by (simp add: hpCall_def)
next
  case (CallAdd n)
  then show ?thesis using w signalUpdate_inv [OF hp_inv_nodes [OF w]]
    by (cases "mhas (hp_exitNodes (hw_mgr w)) (en_Endpoint n)") (auto simp: hpCall_def AddExitNode_def Let_def intro!: go_bind_inv)
next
  case (CallRemove e)
  then show ?thesis using w signalUpdate_inv [OF hp_inv_nodes [OF w]]
    by (cases "mhas (hp_exitNodes (hw_mgr w)) e") (auto simp: hpCall_def RemoveExitNode_def Let_def intro!: go_bind_inv)
next
  case (CallRemovePeer p)
  obtain r ns where f: "foldl (dropPeer p) (0, hp_exitNodes (hw_mgr w)) (hp_exitNodes (hw_mgr w)) = (r, ns)" by fastforce
  show ?thesis
  proof (cases "0 < r")
    case True
    then show ?thesis using CallRemovePeer go_bind_inv [OF signalUpdate_inv [OF hp_inv_nodes [OF w, of ns]], of r]
      by (simp add: hpCall_def RemoveExitNodesByPeer_def f Let_def)
  next
    case False
    then show ?thesis using CallRemovePeer hp_inv_nodes [OF w, of ns] by (simp add: hpCall_def RemoveExitNodesByPeer_def f Let_def)
  qed
next
  case (CallSetInterval mn mx)
  then have "hp_inv (w\<lparr>hw_mgr := (hw_mgr w)\<lparr>hp_intervalMin := mn, hp_intervalMax := mx, hp_interval := mn\<rparr>\<rparr>)"
    using assms(2) by (intro hp_inv_mgr [OF w] interval_ok_set hp_inv_interval [OF w]) (simp_all add: callOk_def)
  then show ?thesis using CallSetInterval signalUpdate_inv by (simp add: hpCall_def SetServerHolepunchInterval_def)
next
  case CallResetInterval
  let ?m = "hw_mgr w"
  have "hp_inv (w\<lparr>hw_mgr := ?m\<lparr>hp_intervalMin := hp_defaultMin ?m, hp_intervalMax := hp_defaultMax ?m, hp_interval := hp_defaultMin ?m\<rparr>\<rparr>)"
    using interval_ok_default [OF hp_inv_interval [OF w]]
    by (intro hp_inv_mgr [OF w] interval_ok_set hp_inv_interval [OF w]) simp_all
  then show ?thesis using CallResetInterval signalUpdate_inv by (simp add: hpCall_def ResetServerHolepunchInterval_def Let_def)
next
  case (CallTrigger env)
  then show ?thesis using w by (simp add: hpCall_def TriggerHolePunch_def Let_def split: prod.split)
next
  case (CallStartMultiple ns)
  then show ?thesis using w launch_inv [OF w] hp_inv_interval [OF w] by (simp add: hpCall_def StartMultipleExitNodes_def)
next
  case CallStart
  then show ?thesis using w launch_inv [OF w] hp_inv_interval [OF w] by (simp add: hpCall_def HPStart_def)
qed

lemma hp_inv_setInterval: "hp_inv w \<Longrightarrow> interval_ok ((hw_mgr w)\<lparr>hp_interval := v\<rparr>) \<Longrightarrow> hp_inv (setInterval v w)"
  unfolding setInterval_def by (rule hp_inv_mgr) simp_all

lemma runMultipleExitNodes_inv:
  assumes w: "hp_inv w" and run: "runMultipleExitNodes env choice pc w = Some (pc', w')"
  shows "hp_inv w' \<and> pc' \<noteq> HpPanic \<and> hw_routines w' = hw_routines w"
proof -
  have pos: "0 < hp_interval (hw_mgr w)" using interval_bounds [OF hp_inv_interval [OF w]] by simp
  have nxt: "0 < nextInterval (hp_interval (hw_mgr w)) (hp_intervalMax (hw_mgr w))"
    using interval_bounds [OF interval_ok_next [OF hp_inv_interval [OF w]]] by simp
  have "hp_inv (setInterval (hp_intervalMin (hw_mgr w)) w)"
      "hp_inv (setInterval (nextInterval (hp_interval (hw_mgr w)) (hp_intervalMax (hw_mgr w))) w)"
    using hp_inv_setInterval [OF w] interval_ok_min interval_ok_next hp_inv_interval [OF w] by blast+
  moreover have "hp_inv (w\<lparr>hw_mgr := (hw_mgr w)\<lparr>hp_running := False\<rparr>\<rparr>)"
    using hp_inv_mgr [OF w, of "(hw_mgr w)\<lparr>hp_running := False\<rparr>"] hp_inv_interval [OF w] by simp
  moreover have "hw_routines (setInterval v w) = hw_routines w" for v by (simp add: setInterval_def)
  ultimately show ?thesis using run w pos nxt
    by (cases pc) (auto simp: runMultipleExitNodes_def hpSelect_def afterSending_def Let_def not_less
        split: if_splits list.splits option.splits hp_choice.splits hp_phase.splits)
qed

lemma hp_step_inv: "hp_step l w w' \<Longrightarrow> hp_inv w \<Longrightarrow> hp_inv w'"
proof (induction rule: hp_step.induct)
  case (hp_step_call c w w')
  then show ?case using hpCall_inv [of w c] by auto
next
  case (hp_step_go g w env choice pc w')
  have "hp_inv w' \<and> pc \<noteq> HpPanic" using runMultipleExitNodes_inv [OF hp_step_go(3) hp_step_go(2)] by blast
  then show ?case using set_update_subset_insert [of "hw_routines w'" g pc] by (auto simp: hp_inv_def chans_ok_def)
qed

lemma hp_reach_inv: "hp_reach w \<Longrightarrow> hp_inv w"
  by (induction rule: hp_reach.induct) (auto intro: hp_inv_new hp_step_inv)

section \<open>Removing a peer\<close>

text \<open>What becomes of one exit node when a peer goes away.\<close>

definition withoutPeer :: "int \<Rightarrow> ExitNode \<Rightarrow> ExitNode option" where
  "withoutPeer peerID node =
     (if peerID \<notin> set (en_SiteIds node) then Some node
      else if set (en_SiteIds node) = {peerID} then None
      else Some (node\<lparr>en_SiteIds := filter (\<lambda>i. i \<noteq> peerID) (en_SiteIds node)\<rparr>))"

lemma length_filter_neq: "length (filter (\<lambda>i. i \<noteq> p) xs) = length xs \<longleftrightarrow> p \<notin> set xs"
proof (cases "p \<in> set xs")
  case True
  then show ?thesis using length_filter_less [of p xs "\<lambda>i. i \<noteq> p"] by simp
next
  case False
  then have "filter (\<lambda>i. i \<noteq> p) xs = xs" by (auto simp: filter_id_conv)
  then show ?thesis using False by simp
qed

lemma filter_neq_Nil: "p \<in> set xs \<Longrightarrow> filter (\<lambda>i. i \<noteq> p) xs = [] \<longleftrightarrow> set xs = {p}"
  by (auto simp: filter_empty_conv)

lemma dropPeer_lookup:
  assumes "map_of nodes e = Some n"
  shows "map_of (snd (dropPeer p (r, nodes) (e, n))) x = (if x = e then withoutPeer p n else map_of nodes x)"
proof (cases "p \<in> set (en_SiteIds n)")
  case True
  then show ?thesis
    by (cases "set (en_SiteIds n) = {p}") (simp_all add: dropPeer_def withoutPeer_def Let_def length_filter_neq filter_neq_Nil)
next
  case False
  then show ?thesis using assms by (simp add: dropPeer_def withoutPeer_def Let_def length_filter_neq)
qed

lemma dropPeer_loop:
  "distinct (mkeys todo) \<Longrightarrow> (\<forall>(e, n)\<in>set todo. map_of nodes e = Some n) \<Longrightarrow>
   map_of (snd (foldl (dropPeer p) (r, nodes) todo)) x =
     (case map_of todo x of Some n \<Rightarrow> withoutPeer p n | None \<Rightarrow> map_of nodes x)"
proof (induction todo arbitrary: r nodes)
  case (Cons en todo)
  obtain e n where en: "en = (e, n)" by force
  obtain r' nodes' where d: "dropPeer p (r, nodes) (e, n) = (r', nodes')" by fastforce
  have look: "map_of nodes' x = (if x = e then withoutPeer p n else map_of nodes x)" for x
    using dropPeer_lookup [of nodes e n p r x] Cons.prems(2) d en by simp
  have fresh: "map_of todo e = None" using Cons.prems(1) en by (simp add: map_of_eq_None_iff)
  have "map_of nodes' e' = Some n'" if "(e', n') \<in> set todo" for e' n'
  proof -
    have "e' \<noteq> e" using that Cons.prems(1) en by force
    moreover have "map_of nodes e' = Some n'" using bspec [OF Cons.prems(2), of "(e', n')"] that by simp
    ultimately show ?thesis by (simp add: look)
  qed
  then have "map_of (snd (foldl (dropPeer p) (r', nodes') todo)) x =
      (case map_of todo x of Some n \<Rightarrow> withoutPeer p n | None \<Rightarrow> map_of nodes' x)"
    using Cons.prems(1) by (intro Cons.IH) auto
  then show ?case using fresh by (simp add: en d look split: option.split)
qed simp

text \<open>
  Removing a peer leaves, for every endpoint, the node without that peer, and no node when it was the last one.
\<close>

lemma RemoveExitNodesByPeer_nodes:
  assumes "distinct (mkeys (hp_exitNodes (hw_mgr w)))" "RemoveExitNodesByPeer p w = Ret (r, w')"
  shows "map_of (hp_exitNodes (hw_mgr w')) e = Option.bind (map_of (hp_exitNodes (hw_mgr w)) e) (withoutPeer p)"
proof -
  let ?ns = "hp_exitNodes (hw_mgr w)"
  obtain k ns where f: "foldl (dropPeer p) (0, ?ns) ?ns = (k, ns)" by fastforce
  have "\<forall>(e, n)\<in>set ?ns. map_of ?ns e = Some n" using assms(1) by auto
  then have "map_of ns e = (case map_of ?ns e of Some n \<Rightarrow> withoutPeer p n | None \<Rightarrow> map_of ?ns e)"
    using dropPeer_loop [OF assms(1), of ?ns p 0 e] f by simp
  moreover have "hp_exitNodes (hw_mgr w') = ns"
    using assms(2) f by (auto simp: RemoveExitNodesByPeer_def signalUpdate_def go_bind_eq_Ret Let_def split: if_splits option.splits)
  ultimately show ?thesis by (auto split: option.split)
qed

section \<open>A stop that comes too early\<close>

text \<open>Points of the goroutine outside the wait and the end.\<close>

definition busy :: "hp_pc \<Rightarrow> bool" where
  "busy pc = (case pc of HpSelect s u rs \<Rightarrow> False | HpExit \<Rightarrow> False | HpDone \<Rightarrow> False | HpPanic \<Rightarrow> False | _ \<Rightarrow> True)"

definition deaf :: "hp_pc \<Rightarrow> bool" where
  "deaf pc \<longleftrightarrow> busy pc \<or> (\<exists>rs. pc = HpSelect None None rs)"

definition starts :: "hp_label \<Rightarrow> bool" where
  "starts l = (case l of LCall (CallStartMultiple ns) \<Rightarrow> True | LCall CallStart \<Rightarrow> True | _ \<Rightarrow> False)"

definition quiet :: "hp_world \<Rightarrow> hp_world \<Rightarrow> bool" where
  "quiet w w' \<longleftrightarrow> (\<exists>l. hp_step l w w' \<and> \<not> starts l)"

definition mute :: "nat \<Rightarrow> hp_world \<Rightarrow> bool" where
  "mute g w \<longleftrightarrow> hp_inv w \<and> hp_stopChan (hw_mgr w) = None \<and> hp_updateChan (hw_mgr w) = None \<and>
     g < length (hw_routines w) \<and> deaf (hw_routines w ! g)"

definition same_chans :: "hp_world \<Rightarrow> hp_world \<Rightarrow> bool" where
  "same_chans w w' \<longleftrightarrow> hp_stopChan (hw_mgr w') = hp_stopChan (hw_mgr w) \<and> hp_updateChan (hw_mgr w') = hp_updateChan (hw_mgr w) \<and>
     hw_routines w' = hw_routines w"

lemma signalUpdate_chans: "signalUpdate w = Ret w' \<Longrightarrow> same_chans w w'"
  by (auto simp: signalUpdate_def same_chans_def split: option.splits if_splits)

lemma same_chans_mgr:
  "same_chans (w\<lparr>hw_mgr := m\<rparr>) w' \<Longrightarrow> hp_stopChan m = hp_stopChan (hw_mgr w) \<Longrightarrow> hp_updateChan m = hp_updateChan (hw_mgr w) \<Longrightarrow>
   same_chans w w'"
  by (simp add: same_chans_def)

lemma same_chans_refl: "same_chans w w"
  by (simp add: same_chans_def)

lemma HPStop_unset:
  "hp_stopChan (hw_mgr w) = None \<Longrightarrow> hp_updateChan (hw_mgr w) = None \<Longrightarrow> HPStop w = Ret w' \<Longrightarrow> same_chans w w'"
  by (auto simp: HPStop_def closeField_def same_chans_def Let_def split: if_splits)

lemma hpCall_chans:
  assumes "hp_stopChan (hw_mgr w) = None" "hp_updateChan (hw_mgr w) = None" "hpCall c w = Ret w'" "\<not> starts (LCall c)"
  shows "same_chans w w'"
  using assms(3,4) HPStop_unset [OF assms(1,2)] same_chans_refl [of w]
  by (cases c)
    (auto simp: hpCall_def starts_def SetToken_def HPSetPublicDNS_def AddExitNode_def RemoveExitNode_def RemoveExitNodesByPeer_def
      SetServerHolepunchInterval_def ResetServerHolepunchInterval_def TriggerHolePunch_def go_bind_eq_Ret Let_def
      split: if_splits prod.splits dest!: signalUpdate_chans simp: same_chans_def)

lemma run_deaf:
  assumes "hp_inv w" "hp_stopChan (hw_mgr w) = None" "hp_updateChan (hw_mgr w) = None"
    and "runMultipleExitNodes env choice pc w = Some (pc', w')"
  shows "hp_stopChan (hw_mgr w') = None \<and> hp_updateChan (hw_mgr w') = None \<and> (deaf pc \<longrightarrow> deaf pc')"
  using assms runMultipleExitNodes_inv [OF assms(1,4)]
  by (cases pc)
    (auto simp: runMultipleExitNodes_def hpSelect_def afterSending_def deaf_def busy_def setInterval_def Let_def
      split: if_splits list.splits option.splits hp_choice.splits hp_phase.splits)

lemma quiet_mute:
  assumes "quiet w w'" "mute g w"
  shows "mute g w'"
proof -
  from assms(1) obtain l where l: "hp_step l w w'" "\<not> starts l" by (auto simp: quiet_def)
  have inv: "hp_inv w'" using hp_step_inv [OF l(1)] assms(2) by (simp add: mute_def)
  from l(1) show ?thesis
  proof cases
    case (hp_step_call c)
    then have "same_chans w w'" using hpCall_chans [of w c w'] assms(2) l(2) by (simp add: mute_def)
    then show ?thesis using assms(2) inv by (simp add: mute_def same_chans_def)
  next
    case (hp_step_go h env choice pc w1)
    then have "hp_stopChan (hw_mgr w1) = None \<and> hp_updateChan (hw_mgr w1) = None \<and> (deaf (hw_routines w ! h) \<longrightarrow> deaf pc)"
      using run_deaf [of w env choice "hw_routines w ! h" pc w1] assms(2) by (simp add: mute_def)
    moreover have "hw_routines w1 = hw_routines w"
      using runMultipleExitNodes_inv [OF _ hp_step_go(4)] assms(2) by (simp add: mute_def)
    ultimately show ?thesis using assms(2) inv hp_step_go by (auto simp: mute_def nth_list_update)
  qed
qed

lemma quiet_steps_mute: "quiet\<^sup>*\<^sup>* w w' \<Longrightarrow> mute g w \<Longrightarrow> mute g w'"
  by (induction rule: rtranclp_induct) (auto intro: quiet_mute)

lemma deaf_can_step: "deaf pc \<Longrightarrow> \<exists>r. runMultipleExitNodes env SelTick pc w = Some r"
  by (cases pc) (auto simp: deaf_def busy_def runMultipleExitNodes_def hpSelect_def Let_def split: list.split)

lemma deaf_not_done: "deaf pc \<Longrightarrow> pc \<noteq> HpExit \<and> pc \<noteq> HpDone"
  by (auto simp: deaf_def busy_def)

section \<open>Runs\<close>

text \<open>A run given by its labels, so that concrete runs evaluate.\<close>

definition hpExec :: "hp_label \<Rightarrow> hp_world \<Rightarrow> hp_world option" where
  "hpExec l w = (case l of
     LCall c \<Rightarrow> if callOk c then (case hpCall c w of Ret w' \<Rightarrow> Some w' | Panic \<Rightarrow> None) else None
   | LGo g env choice \<Rightarrow>
       if g < length (hw_routines w)
       then map_option (\<lambda>(pc, w'). w'\<lparr>hw_routines := (hw_routines w')[g := pc]\<rparr>) (runMultipleExitNodes env choice (hw_routines w ! g) w)
       else None)"

primrec hpRun :: "hp_label list \<Rightarrow> hp_world \<Rightarrow> hp_world option" where
  "hpRun [] w = Some w"
| "hpRun (l # ls) w = (case hpExec l w of Some w' \<Rightarrow> hpRun ls w' | None \<Rightarrow> None)"

lemma hpExec_step: "hpExec l w = Some w' \<Longrightarrow> hp_step l w w'"
  by (auto simp: hpExec_def hp_step.simps split: hp_label.splits if_splits go_result.splits)

lemma hpRun_reach: "hpRun ls w = Some w' \<Longrightarrow> hp_reach w \<Longrightarrow> hp_reach w'"
  by (induction ls arbitrary: w) (auto split: option.splits intro: hp_reach_step hpExec_step)

lemma hpRun_quiet: "hpRun ls w = Some w' \<Longrightarrow> list_all (\<lambda>l. \<not> starts l) ls \<Longrightarrow> quiet\<^sup>*\<^sup>* w w'"
proof (induction ls arbitrary: w)
  case (Cons l ls)
  then obtain w1 where "hpExec l w = Some w1" "hpRun ls w1 = Some w'" by (auto split: option.splits)
  moreover have "quiet w w1" using calculation(1) Cons.prems(2) hpExec_step by (auto simp: quiet_def)
  ultimately show ?case using Cons by (auto intro: converse_rtranclp_into_rtranclp)
qed simp

text \<open>An outside without DNS and cryptography, for concrete runs.\<close>

definition exEnv :: hp_env where
  "exEnv = \<lparr>he_lookup = (\<lambda>h. Inl ''no such host''), he_lookupVia = (\<lambda>s h. Inl ''no such host''), he_order = (\<lambda>ns. ns),
     he_crypto = \<lparr>cr_GeneratePrivateKey = Inl ''no entropy'', cr_PublicKey = (\<lambda>k. k), cr_KeyString = (\<lambda>k. []),
       cr_ParseKey = (\<lambda>s. Inl ''bad key''), cr_X25519 = (\<lambda>a b. Inl ''bad point''), cr_New = (\<lambda>k. Inl ''bad length''),
       cr_nonce = (\<lambda>n. Inl ''no entropy''), cr_Seal = (\<lambda>k n p. p)\<rparr>,
     he_werr = (\<lambda>w d a. None)\<rparr>"

definition exWorld :: hp_world where
  "exWorld = newWorld ''id'' ''newt'' ''key'' [] exBind"

definition exStarted :: hp_world where
  "exStarted = launch (hw_mgr exWorld) exWorld"

lemma exWorld_reach: "hp_reach exWorld"
  unfolding exWorld_def by (rule hp_reach_new)

lemmas hp_eval = hpExec_def hpCall_def callOk_def HPStart_def HPStop_def closeField_def closeChan_def runMultipleExitNodes_def
  hpSelect_def afterSending_def setInterval_def exEnv_def currentExitNodes_def resolveNodes_def launch_def exWorld_def newWorld_def
  NewManager_def defaultSendHolepunchIntervalMin_def Let_def

lemma exStarted_reach: "hp_reach exStarted"
  by (rule hpRun_reach [OF _ exWorld_reach, of "[LCall CallStart]"]) (simp add: hp_eval exStarted_def)

text \<open>From its start to the wait, without exit nodes.\<close>

abbreviation toWait :: "nat \<Rightarrow> hp_label list" where
  "toWait g \<equiv> replicate 6 (LGo g exEnv SelTick)"

text \<open>
  C27. In every interleaving of API calls and goroutines the hole-punch interval is the configured minimum doubled some number of times and
  cut at the maximum, so it lies between the two and is positive; no ticker is ever made with an interval that is not positive, no
  goroutine panics, and no call sends on or closes a closed channel.
\<close>

theorem holepunch_interval_bounds:
  assumes "hp_reach w"
  shows "(\<exists>k. hp_interval (hw_mgr w) = min (hp_intervalMax (hw_mgr w)) (hp_intervalMin (hw_mgr w) * 2 ^ k)) \<and>
    0 < hp_intervalMin (hw_mgr w) \<and> hp_intervalMin (hw_mgr w) \<le> hp_interval (hw_mgr w) \<and>
    hp_interval (hw_mgr w) \<le> hp_intervalMax (hw_mgr w) \<and> HpPanic \<notin> set (hw_routines w) \<and>
    (\<forall>c. callOk c \<longrightarrow> hpCall c w \<noteq> Panic)"
proof -
  note inv = hp_reach_inv [OF assms]
  have "hpCall c w \<noteq> Panic" if "callOk c" for c using hpCall_inv [OF inv that] by auto
  moreover have "HpPanic \<notin> set (hw_routines w)" using inv by (simp add: hp_inv_def)
  ultimately show ?thesis using interval_bounds [OF hp_inv_interval [OF inv]] hp_inv_interval [OF inv]
    by (auto simp: interval_ok_def)
qed

theorem holepunch_interval_bounds_witness:
  "hp_reach exStarted \<and> HpPanic \<notin> set (hw_routines exStarted) \<and> hpCall CallStop exStarted \<noteq> Panic"
  using holepunch_interval_bounds [OF exStarted_reach] exStarted_reach by (auto simp: callOk_def)

text \<open>
  A stop that comes while the goroutine is resolving or sending is lost: \<open>Stop\<close> sets the channel fields to nil, the goroutine reads the
  fields again at its next \<open>select\<close> and waits on nil channels.  Whatever happens then, short of a new start, the goroutine never
  ends, and it can always take another step, so it goes on sending at every tick.
\<close>

theorem early_stop_lost:
  assumes "hp_reach w" "hp_running (hw_mgr w)" "g < length (hw_routines w)" "busy (hw_routines w ! g)"
    and "HPStop w = Ret w1" "quiet\<^sup>*\<^sup>* w1 w2"
  shows "\<not> hp_running (hw_mgr w1) \<and> hw_routines w2 ! g \<noteq> HpExit \<and> hw_routines w2 ! g \<noteq> HpDone \<and>
    (\<exists>r. runMultipleExitNodes env SelTick (hw_routines w2 ! g) w2 = Some r)"
proof -
  note inv = hp_reach_inv [OF assms(1)]
  have "hp_inv w1" using HPStop_inv [OF inv] assms(5) by auto
  moreover have "same_chans (w1\<lparr>hw_mgr := (hw_mgr w)\<lparr>hp_stopChan := None, hp_updateChan := None\<rparr>\<rparr>) w1"
    and "hw_routines w1 = hw_routines w" and stopped: "\<not> hp_running (hw_mgr w1)"
    using HPStop_running [OF inv assms(2)] assms(5) by (auto simp: same_chans_def)
  ultimately have "mute g w1" using assms(3,4) by (simp add: mute_def same_chans_def deaf_def)
  then have "deaf (hw_routines w2 ! g)" using quiet_steps_mute [OF assms(6)] by (simp add: mute_def)
  then show ?thesis using deaf_not_done deaf_can_step stopped by blast
qed

theorem early_stop_lost_witness:
  "\<exists>w1 w2. HPStop exStarted = Ret w1 \<and> \<not> hp_running (hw_mgr w1) \<and> hpRun (toWait 0) w1 = Some w2 \<and>
     hw_routines w2 = [HpSelect None None []] \<and> (\<exists>r. runMultipleExitNodes exEnv SelTick (hw_routines w2 ! 0) w2 = Some r)"
proof -
  obtain w1 where w1: "HPStop exStarted = Ret w1" "w1 = exStarted\<lparr>hw_closed := [1, 0],
      hw_mgr := (hw_mgr exStarted)\<lparr>hp_stopChan := None, hp_updateChan := None, hp_running := False\<rparr>\<rparr>"
    by (simp add: exStarted_def hp_eval)
  define w2 where "w2 = w1\<lparr>hw_routines := [HpSelect None None []]\<rparr>"
  have run: "hpRun (toWait 0) w1 = Some w2"
    by (simp add: w1(2) w2_def exStarted_def hp_eval numeral_eq_Suc)
  have "quiet\<^sup>*\<^sup>* w1 w2" by (rule hpRun_quiet [OF run]) (simp add: starts_def list_all_iff)
  then have "\<not> hp_running (hw_mgr w1) \<and> (\<exists>r. runMultipleExitNodes exEnv SelTick (hw_routines w2 ! 0) w2 = Some r)"
    using early_stop_lost [OF exStarted_reach, of 0 w1 w2 exEnv] w1(1) by (simp add: exStarted_def launch_def exWorld_def newWorld_def busy_def)
  then show ?thesis using w1(1) run w2_def by auto
qed

text \<open>
  A restart can leave a goroutine that \<open>Stop\<close> never reaches: when the manager is started again before the deferred function of a stopped
  goroutine has run, that function marks the manager as not running.  \<open>Stop\<close> then returns without closing anything, and \<open>Start\<close> adds
  one more goroutine beside the live one.
\<close>

theorem restart_unstoppable:
  assumes "hp_reach w" "hp_running (hw_mgr w)" "g < length (hw_routines w)" "hw_routines w ! g = HpExit"
  shows "\<exists>w'. hp_step (LGo g env choice) w w' \<and> HPStop w' = Ret w' \<and>
    (\<forall>h. h \<noteq> g \<longrightarrow> hw_routines w' ! h = hw_routines w ! h) \<and>
    (\<exists>w''. HPStart w' = (None, w'') \<and> hw_routines w'' = hw_routines w' @ [HpStart])"
proof -
  let ?w = "w\<lparr>hw_mgr := (hw_mgr w)\<lparr>hp_running := False\<rparr>\<rparr>"
  let ?w' = "?w\<lparr>hw_routines := (hw_routines ?w)[g := HpDone]\<rparr>"
  have "runMultipleExitNodes env choice (hw_routines w ! g) w = Some (HpDone, ?w)"
    using assms(4) by (simp add: runMultipleExitNodes_def Let_def)
  then have "hp_step (LGo g env choice) w ?w'" using assms(3) by (rule hp_step_go [rotated])
  then show ?thesis by (intro exI [of _ ?w']) (simp add: HPStop_def HPStart_def launch_def)
qed

definition exRestarted :: hp_world where
  "exRestarted = the (hpRun (LCall CallStart # toWait 0 @ [LCall CallStop, LGo 0 exEnv SelStop, LCall CallStart]) exWorld)"

lemma exRestarted_eq:
  "hpRun (LCall CallStart # toWait 0 @ [LCall CallStop, LGo 0 exEnv SelStop, LCall CallStart]) exWorld = Some exRestarted \<and>
   hp_running (hw_mgr exRestarted) \<and> hw_routines exRestarted = [HpExit, HpStart]"
  unfolding exRestarted_def by (simp add: hp_eval numeral_eq_Suc)

theorem restart_unstoppable_witness:
  "\<exists>w'. hp_step (LGo 0 exEnv SelTick) exRestarted w' \<and> HPStop w' = Ret w' \<and> hw_routines w' ! 1 = HpStart"
proof -
  have "hp_reach exRestarted" using hpRun_reach exRestarted_eq exWorld_reach by blast
  then obtain w' where "hp_step (LGo 0 exEnv SelTick) exRestarted w'" "HPStop w' = Ret w'"
      "\<forall>h. h \<noteq> 0 \<longrightarrow> hw_routines w' ! h = hw_routines exRestarted ! h"
    using restart_unstoppable [of exRestarted 0 exEnv SelTick] exRestarted_eq by auto
  then show ?thesis using exRestarted_eq by (intro exI [of _ w']) simp
qed

end
