(* ===== verification/Client_Service.thy ===== *)
theory Client_Service
  imports Complex_Main Nat_Proxy Hole_Punch
begin

text \<open>
  The WireGuard service for clients (\<open>clients/clients.go\<close>, \<open>clients/ip.go\<close>, and the rule methods of \<open>Net\<close> in
  \<open>netstack2/tun.go\<close>): certificates, proxy targets, peers, bandwidth readings, the relay into the shared bind, and the life cycle.

  The WireGuard device is outside the repository: the definitions take its operations as the record \<open>wg_api\<close> over a state of type
  \<open>'d\<close>, and the key functions of \<open>wgtypes\<close> as part of \<open>hp_env\<close>.  A network stack with its proxy handler is the modelled
  \<open>proxyHandler\<close>; the shared bind and the hole-punch manager are the modelled ones, inside \<open>ws_hp\<close>.
\<close>

declare map_of_eq_Some_iff [simp del] Some_eq_map_of_iff [simp del]

section \<open>Data\<close>

record client_target =
  ct_SourcePrefix :: string
  ct_SourcePrefixes :: "string list"
  ct_DestPrefix :: string
  ct_RewriteTo :: string
  ct_DisableIcmp :: bool
  ct_PortRange :: "port_range list"
  ct_ResourceId :: int
  ct_Protocol :: string
  ct_HTTPTargets :: "http_target list"
  ct_TLSCert :: string
  ct_TLSKey :: string
  ct_TLSCertID :: string

record CertData =
  cd_ID :: string
  cd_Cert :: string
  cd_Key :: string

record CertPair =
  cp_Cert :: string
  cp_Key :: string

record Peer =
  pe_PublicKey :: string
  pe_AllowedIPs :: "string list"
  pe_Endpoint :: string

record WgConfig =
  wc_IpAddress :: string
  wc_Peers :: "Peer list"
  wc_Targets :: "client_target list"
  wc_Certs :: "CertData list"
  wc_ChainId :: string

record PeerReading =
  rd_BytesReceived :: int
  rd_BytesTransmitted :: int
  rd_LastChecked :: instant

text \<open>The amounts of a report, in megabytes.\<close>

record PeerBandwidth =
  pb_PublicKey :: string
  pb_BytesIn :: rat
  pb_BytesOut :: rat

text \<open>
  Of the fields with callbacks and handles only their being set matters.  \<open>ws_relay\<close> is the stop channel of the relay being set,
  \<open>ws_bandwidthChecks\<close> counts the goroutines of \<open>periodicBandwidthCheck\<close>, \<open>ws_closedListeners\<close> the listeners closed so far.
\<close>

record ('d, 'st) WireGuardService =
  ws_config :: WgConfig
  ws_key :: bytes
  ws_newtId :: string
  ws_lastReadings :: "(string, PeerReading) gomap"
  ws_Port :: "16 word"
  ws_token :: string
  ws_stopGetConfig :: bool
  ws_pendingConfigChainId :: string
  ws_tnet :: "'st proxyHandler option"
  ws_device :: "'d option"
  ws_othertnet :: bool
  ws_TunnelIP :: string
  ws_sharedBind :: bool
  ws_hp :: hp_world
  ws_useNativeInterface :: bool
  ws_sshServer :: bool
  ws_credStore :: bool
  ws_relay :: bool
  ws_netstackListener :: "nat option"
  ws_wgTesterServer :: bool
  ws_blocked :: bool
  ws_certs :: "(string, CertPair) gomap option"
  ws_bandwidthChecks :: nat
  ws_closedListeners :: "nat list"

section \<open>Messages\<close>

definition dec_port_range :: "json option \<Rightarrow> port_range option" where
  "dec_port_range j = Option.bind (dec_object j) (\<lambda>fs.
     case (dec_uint16 (json_field fs ''min''), dec_uint16 (json_field fs ''max''), dec_string (json_field fs ''protocol'')) of
       (Some mn, Some mx, Some pr) \<Rightarrow> Some \<lparr>pr_Min = mn, pr_Max = mx, pr_Protocol = pr\<rparr>
     | _ \<Rightarrow> None)"

definition dec_http_target :: "json option \<Rightarrow> http_target option" where
  "dec_http_target j = Option.bind (dec_object j) (\<lambda>fs.
     case (dec_string (json_field fs ''destAddr''), dec_uint16 (json_field fs ''destPort''), dec_string (json_field fs ''scheme'')) of
       (Some a, Some p, Some sc) \<Rightarrow> Some \<lparr>ht_DestAddr = a, ht_DestPort = p, ht_Scheme = sc\<rparr>
     | _ \<Rightarrow> None)"

definition dec_target :: "json option \<Rightarrow> client_target option" where
  "dec_target j = Option.bind (dec_object j) (\<lambda>fs.
     let str = (\<lambda>k. dec_string (json_field fs k)) in
     Option.bind (str ''sourcePrefix'') (\<lambda>sp. Option.bind (dec_list dec_string (json_field fs ''sourcePrefixes'')) (\<lambda>sps.
     Option.bind (str ''destPrefix'') (\<lambda>dp. Option.bind (str ''rewriteTo'') (\<lambda>rw.
     Option.bind (dec_bool (json_field fs ''disableIcmp'')) (\<lambda>di.
     Option.bind (dec_list dec_port_range (json_field fs ''portRange'')) (\<lambda>prs.
     Option.bind (dec_int (json_field fs ''resourceId'')) (\<lambda>rid. Option.bind (str ''protocol'') (\<lambda>pr.
     Option.bind (dec_list dec_http_target (json_field fs ''httpTargets'')) (\<lambda>hts.
     Option.bind (str ''tlsCert'') (\<lambda>tc. Option.bind (str ''tlsKey'') (\<lambda>tk. Option.bind (str ''tlsCertId'') (\<lambda>ti.
     Some \<lparr>ct_SourcePrefix = sp, ct_SourcePrefixes = sps, ct_DestPrefix = dp, ct_RewriteTo = rw, ct_DisableIcmp = di,
       ct_PortRange = prs, ct_ResourceId = rid, ct_Protocol = pr, ct_HTTPTargets = hts, ct_TLSCert = tc, ct_TLSKey = tk,
       ct_TLSCertID = ti\<rparr>)))))))))))))"

definition dec_cert :: "json option \<Rightarrow> CertData option" where
  "dec_cert j = Option.bind (dec_object j) (\<lambda>fs.
     case (dec_string (json_field fs ''id''), dec_string (json_field fs ''cert''), dec_string (json_field fs ''key'')) of
       (Some i, Some c, Some k) \<Rightarrow> Some \<lparr>cd_ID = i, cd_Cert = c, cd_Key = k\<rparr>
     | _ \<Rightarrow> None)"

definition dec_peer :: "json option \<Rightarrow> Peer option" where
  "dec_peer j = Option.bind (dec_object j) (\<lambda>fs.
     case (dec_string (json_field fs ''publicKey''), dec_list dec_string (json_field fs ''allowedIps''), dec_string (json_field fs ''endpoint'')) of
       (Some k, Some ips, Some e) \<Rightarrow> Some \<lparr>pe_PublicKey = k, pe_AllowedIPs = ips, pe_Endpoint = e\<rparr>
     | _ \<Rightarrow> None)"

definition dec_config :: "json option \<Rightarrow> WgConfig option" where
  "dec_config j = Option.bind (dec_object j) (\<lambda>fs.
     Option.bind (dec_string (json_field fs ''ipAddress'')) (\<lambda>ip. Option.bind (dec_list dec_peer (json_field fs ''peers'')) (\<lambda>ps.
     Option.bind (dec_list dec_target (json_field fs ''targets'')) (\<lambda>ts. Option.bind (dec_list dec_cert (json_field fs ''certs'')) (\<lambda>cs.
     Option.bind (dec_string (json_field fs ''chainId'')) (\<lambda>ci.
     Some \<lparr>wc_IpAddress = ip, wc_Peers = ps, wc_Targets = ts, wc_Certs = cs, wc_ChainId = ci\<rparr>))))))"

section \<open>Certificates\<close>

definition certPair :: "CertData \<Rightarrow> CertPair" where
  "certPair c = \<lparr>cp_Cert = cd_Cert c, cp_Key = cd_Key c\<rparr>"

definition putCerts :: "CertData list \<Rightarrow> (string, CertPair) gomap \<Rightarrow> (string, CertPair) gomap" where
  "putCerts certs m = foldl (\<lambda>m c. mput (cd_ID c) (certPair c) m) m certs"

definition SetCerts :: "CertData list \<Rightarrow> ('d, 'st) WireGuardService \<Rightarrow> ('d, 'st) WireGuardService" where
  "SetCerts certs s = s\<lparr>ws_certs := Some (putCerts certs [])\<rparr>"

text \<open>Reading and deleting in a nil map find nothing.\<close>

definition certTable :: "('d, 'st) WireGuardService \<Rightarrow> (string, CertPair) gomap" where
  "certTable s = (case ws_certs s of None \<Rightarrow> [] | Some m \<Rightarrow> m)"

definition resolveTLS :: "('d, 'st) WireGuardService \<Rightarrow> client_target \<Rightarrow> string \<times> string" where
  "resolveTLS s target =
     (if ct_TLSCertID target = [] then (ct_TLSCert target, ct_TLSKey target)
      else case map_of (certTable s) (ct_TLSCertID target) of
        None \<Rightarrow> (ct_TLSCert target, ct_TLSKey target)
      | Some pair \<Rightarrow> (cp_Cert pair, cp_Key pair))"

definition AddCerts :: "CertData list \<Rightarrow> ('d, 'st) WireGuardService \<Rightarrow> ('d, 'st) WireGuardService" where
  "AddCerts certs s = (if certs = [] then s else s\<lparr>ws_certs := Some (putCerts certs (certTable s))\<rparr>)"

definition RemoveCerts :: "string list \<Rightarrow> ('d, 'st) WireGuardService \<Rightarrow> ('d, 'st) WireGuardService" where
  "RemoveCerts ids s =
     (if ids = [] then s else s\<lparr>ws_certs := map_option (\<lambda>m. foldl (\<lambda>m i. mdel i m) m ids) (ws_certs s)\<rparr>)"

definition handleAddCerts :: "json \<Rightarrow> ('d, 'st) WireGuardService \<Rightarrow> ('d, 'st) WireGuardService" where
  "handleAddCerts data s = (case dec_list dec_cert (Some data) of None \<Rightarrow> s | Some certs \<Rightarrow> AddCerts certs s)"

definition handleRemoveCerts :: "json \<Rightarrow> ('d, 'st) WireGuardService \<Rightarrow> ('d, 'st) WireGuardService" where
  "handleRemoveCerts data s =
     (case Option.bind (dec_object (Some data)) (\<lambda>fs. dec_list dec_string (json_field fs ''ids'')) of
        None \<Rightarrow> s | Some ids \<Rightarrow> RemoveCerts ids s)"

text \<open>What the table says after an upsert or a removal, from the contract of a keyed registry.\<close>

lemma certs_after_add:
  "map_of (certTable (AddCerts certs s)) i =
     (case filter (\<lambda>c. cd_ID c = i) certs of [] \<Rightarrow> map_of (certTable s) i | cs \<Rightarrow> Some (certPair (last cs)))"
proof -
  have "map_of (putCerts certs m) i = (case filter (\<lambda>c. cd_ID c = i) certs of [] \<Rightarrow> map_of m i | cs \<Rightarrow> Some (certPair (last cs)))" for m
    unfolding putCerts_def by (induction certs arbitrary: m) (auto split: list.split)
  moreover have "certTable (AddCerts certs s) = (if certs = [] then certTable s else putCerts certs (certTable s))"
    by (simp add: AddCerts_def certTable_def)
  ultimately show ?thesis by simp
qed

lemma certs_after_remove:
  "map_of (certTable (RemoveCerts ids s)) i = (if i \<in> set ids then None else map_of (certTable s) i)"
  by (cases "ws_certs s") (auto simp: RemoveCerts_def certTable_def gomap.find_drop_loop)

section \<open>Targets\<close>

definition resolveSourcePrefixes :: "client_target \<Rightarrow> string list" where
  "resolveSourcePrefixes target =
     (if ct_SourcePrefixes target \<noteq> [] then ct_SourcePrefixes target
      else if ct_SourcePrefix target \<noteq> [] then [ct_SourcePrefix target] else [])"

definition targetRule :: "('d, 'st) WireGuardService \<Rightarrow> client_target \<Rightarrow> prefix \<Rightarrow> prefix \<Rightarrow> subnet_rule" where
  "targetRule s target sourcePrefix destPrefix =
     (let (tlsCert, tlsKey) = resolveTLS s target in
      \<lparr>sr_SourcePrefix = sourcePrefix, sr_DestPrefix = destPrefix, sr_DisableIcmp = ct_DisableIcmp target,
       sr_RewriteTo = ct_RewriteTo target, sr_PortRanges = ct_PortRange target, sr_ResourceId = ct_ResourceId target,
       sr_Protocol = ct_Protocol target, sr_HTTPTargets = ct_HTTPTargets target, sr_TLSCert = tlsCert, sr_TLSKey = tlsKey\<rparr>)"

text \<open>The pairs of prefixes of a target; a prefix that does not parse is skipped.\<close>

definition targetPairs :: "client_target \<Rightarrow> (prefix \<times> prefix) list" where
  "targetPairs target =
     (case parse_prefix (ct_DestPrefix target) of
        None \<Rightarrow> []
      | Some d \<Rightarrow> List.map_filter (\<lambda>sp. map_option (\<lambda>sp. (sp, d)) (parse_prefix sp)) (resolveSourcePrefixes target))"

definition syncRules :: "('d, 'st) WireGuardService \<Rightarrow> client_target list \<Rightarrow> subnet_rule list" where
  "syncRules s targets = concat (map (\<lambda>t. map (\<lambda>(sp, d). targetRule s t sp d) (targetPairs t)) targets)"

definition AddProxySubnetRule ::
  "('dt, 'st) src_bart \<Rightarrow> 'dt dst_bart \<Rightarrow> subnet_rule \<Rightarrow> 'st proxyHandler \<Rightarrow> 'st proxyHandler" where
  "AddProxySubnetRule S D rule tnet = AddSubnetRule S D rule tnet"

definition RemoveProxySubnetRule ::
  "('dt, 'st) src_bart \<Rightarrow> 'dt dst_bart \<Rightarrow> prefix \<Rightarrow> prefix \<Rightarrow> 'st proxyHandler \<Rightarrow> 'st proxyHandler" where
  "RemoveProxySubnetRule S D sourcePrefix destPrefix tnet = RemoveSubnetRule S D sourcePrefix destPrefix tnet"

definition ReplaceProxySubnetRules ::
  "('dt, 'st) src_bart \<Rightarrow> 'dt dst_bart \<Rightarrow> subnet_rule list \<Rightarrow> 'st proxyHandler \<Rightarrow> 'st proxyHandler" where
  "ReplaceProxySubnetRules S D rules tnet = ReplaceAllSubnetRules S D rules tnet"

definition GetProxySubnetRules :: "('dt, 'st) src_bart \<Rightarrow> 'st proxyHandler \<Rightarrow> subnet_rule list" where
  "GetProxySubnetRules S tnet = HandlerGetAllRules S tnet"

definition syncTargets ::
  "('dt, 'st) src_bart \<Rightarrow> 'dt dst_bart \<Rightarrow> client_target list \<Rightarrow> ('d, 'st) WireGuardService \<Rightarrow> ('d, 'st) WireGuardService" where
  "syncTargets S D desiredTargets s = (case ws_tnet s of
     None \<Rightarrow> s
   | Some tnet \<Rightarrow> s\<lparr>ws_tnet := Some (ReplaceProxySubnetRules S D (syncRules s desiredTargets) tnet)\<rparr>)"

text \<open>\<open>ensureTargets\<close> stops at the first prefix that does not parse, keeping what it has added.\<close>

primrec ensureSources ::
  "('dt, 'st) src_bart \<Rightarrow> 'dt dst_bart \<Rightarrow> ('d, 'st) WireGuardService \<Rightarrow> client_target \<Rightarrow> prefix \<Rightarrow> string list \<Rightarrow> 'st proxyHandler \<Rightarrow>
   string option \<times> 'st proxyHandler" where
  "ensureSources S D s t d [] tnet = (None, tnet)"
| "ensureSources S D s t d (sp # sps) tnet =
     (case parse_prefix sp of
        None \<Rightarrow> (Some (''invalid CIDR '' @ sp), tnet)
      | Some sourcePrefix \<Rightarrow> ensureSources S D s t d sps (AddProxySubnetRule S D (targetRule s t sourcePrefix d) tnet))"

primrec ensureLoop ::
  "('dt, 'st) src_bart \<Rightarrow> 'dt dst_bart \<Rightarrow> ('d, 'st) WireGuardService \<Rightarrow> client_target list \<Rightarrow> 'st proxyHandler \<Rightarrow>
   string option \<times> 'st proxyHandler" where
  "ensureLoop S D s [] tnet = (None, tnet)"
| "ensureLoop S D s (t # ts) tnet =
     (case parse_prefix (ct_DestPrefix t) of
        None \<Rightarrow> (Some (''invalid CIDR '' @ ct_DestPrefix t), tnet)
      | Some d \<Rightarrow>
          (case ensureSources S D s t d (resolveSourcePrefixes t) tnet of
             (Some e, tnet') \<Rightarrow> (Some e, tnet')
           | (None, tnet') \<Rightarrow> ensureLoop S D s ts tnet'))"

definition ensureTargets ::
  "('dt, 'st) src_bart \<Rightarrow> 'dt dst_bart \<Rightarrow> client_target list \<Rightarrow> ('d, 'st) WireGuardService \<Rightarrow>
   string option \<times> ('d, 'st) WireGuardService" where
  "ensureTargets S D targets s = (case ws_tnet s of
     None \<Rightarrow> (None, s)
   | Some tnet \<Rightarrow> (let (e, tnet') = ensureLoop S D s targets tnet in (e, s\<lparr>ws_tnet := Some tnet'\<rparr>)))"

definition addTargets ::
  "('dt, 'st) src_bart \<Rightarrow> 'dt dst_bart \<Rightarrow> ('d, 'st) WireGuardService \<Rightarrow> client_target list \<Rightarrow> 'st proxyHandler \<Rightarrow> 'st proxyHandler" where
  "addTargets S D s targets tnet = foldl (\<lambda>tnet t.
     foldl (\<lambda>tnet (sp, d). AddProxySubnetRule S D (targetRule s t sp d) tnet) tnet (targetPairs t)) tnet targets"

definition removeTargets ::
  "('dt, 'st) src_bart \<Rightarrow> 'dt dst_bart \<Rightarrow> client_target list \<Rightarrow> 'st proxyHandler \<Rightarrow> 'st proxyHandler" where
  "removeTargets S D targets tnet = foldl (\<lambda>tnet t.
     foldl (\<lambda>tnet (sp, d). RemoveProxySubnetRule S D sp d tnet) tnet (targetPairs t)) tnet targets"

definition handleAddTarget ::
  "('dt, 'st) src_bart \<Rightarrow> 'dt dst_bart \<Rightarrow> json \<Rightarrow> ('d, 'st) WireGuardService \<Rightarrow> ('d, 'st) WireGuardService" where
  "handleAddTarget S D data s = (case ws_tnet s of
     None \<Rightarrow> s
   | Some tnet \<Rightarrow> (case dec_list dec_target (Some data) of
         None \<Rightarrow> s
       | Some targets \<Rightarrow> s\<lparr>ws_tnet := Some (addTargets S D s targets tnet)\<rparr>))"

definition handleRemoveTarget ::
  "('dt, 'st) src_bart \<Rightarrow> 'dt dst_bart \<Rightarrow> json \<Rightarrow> ('d, 'st) WireGuardService \<Rightarrow> ('d, 'st) WireGuardService" where
  "handleRemoveTarget S D data s = (case ws_tnet s of
     None \<Rightarrow> s
   | Some tnet \<Rightarrow> (case dec_list dec_target (Some data) of
         None \<Rightarrow> s
       | Some targets \<Rightarrow> s\<lparr>ws_tnet := Some (removeTargets S D targets tnet)\<rparr>))"

definition decodeUpdate :: "json \<Rightarrow> (client_target list \<times> client_target list) option" where
  "decodeUpdate data = Option.bind (dec_object (Some data)) (\<lambda>fs.
     case (dec_list dec_target (json_field fs ''oldTargets''), dec_list dec_target (json_field fs ''newTargets'')) of
       (Some olds, Some news) \<Rightarrow> Some (olds, news) | _ \<Rightarrow> None)"

definition handleUpdateTarget ::
  "('dt, 'st) src_bart \<Rightarrow> 'dt dst_bart \<Rightarrow> json \<Rightarrow> ('d, 'st) WireGuardService \<Rightarrow> ('d, 'st) WireGuardService" where
  "handleUpdateTarget S D data s = (case ws_tnet s of
     None \<Rightarrow> s
   | Some tnet \<Rightarrow>
       (case decodeUpdate data of
          None \<Rightarrow> s
        | Some (olds, news) \<Rightarrow> s\<lparr>ws_tnet := Some (addTargets S D s news (removeTargets S D olds tnet))\<rparr>))"

section \<open>Peers\<close>

text \<open>The operations of the WireGuard device; bringing it up and closing it also call the shared bind.\<close>

record 'd wg_api =
  wa_NewDevice :: 'd
  wa_IpcGet :: "'d \<Rightarrow> string + string"
  wa_IpcSet :: "string \<Rightarrow> 'd \<Rightarrow> string option \<times> 'd"
  wa_Up :: "'d \<Rightarrow> shared_bind \<Rightarrow> string option \<times> 'd \<times> shared_bind"
  wa_Close :: "'d \<Rightarrow> shared_bind \<Rightarrow> shared_bind"

abbreviation nl :: char where
  "nl \<equiv> CHR 0x0A"

text \<open>The public keys a device reports, in its own hexadecimal text.\<close>

definition publicKeyField :: string where
  "publicKeyField = ''public_key=''"

definition devicePeerKeys :: "string \<Rightarrow> string list" where
  "devicePeerKeys config =
     map (\<lambda>line. trim_prefix line publicKeyField) (filter (\<lambda>line. has_prefix line publicKeyField) (split_on nl config))"

definition removeConfig :: "string \<Rightarrow> string" where
  "removeConfig key = publicKeyField @ key @ nl # ''remove=true''"

definition peerConfig :: "string \<Rightarrow> Peer \<Rightarrow> string" where
  "peerConfig hexKey peer =
     publicKeyField @ hexKey @ concat (map (\<lambda>ip. nl # ''allowed_ip='' @ ip) (pe_AllowedIPs peer)) @
     (if pe_Endpoint peer \<noteq> [] then nl # ''endpoint='' @ pe_Endpoint peer else []) @ nl # ''persistent_keepalive_interval=25''"

text \<open>\<open>Panic\<close> also stands for the end of the process by a fatal log message, here when the text of a key is not base 64.\<close>

definition hexKey :: "hp_crypto \<Rightarrow> bytes \<Rightarrow> string go_result" where
  "hexKey cr k = (case FixKey (cr_KeyString cr k) of None \<Rightarrow> Panic | Some h \<Rightarrow> Ret h)"

definition addPeerToDevice :: "'d wg_api \<Rightarrow> hp_crypto \<Rightarrow> Peer \<Rightarrow> 'd \<Rightarrow> (string option \<times> 'd) go_result" where
  "addPeerToDevice api cr peer dev =
     (case cr_ParseKey cr (pe_PublicKey peer) of
        Inl e \<Rightarrow> Ret (Some (''failed to parse public key: '' @ e), dev)
      | Inr k \<Rightarrow> go_bind (hexKey cr k) (\<lambda>h.
          case wa_IpcSet api (peerConfig h peer) dev of
            (Some e, dev') \<Rightarrow> Ret (Some (''failed to configure peer: '' @ e), dev')
          | (None, dev') \<Rightarrow> Ret (None, dev')))"

definition removePeer :: "'d wg_api \<Rightarrow> hp_crypto \<Rightarrow> string \<Rightarrow> 'd \<Rightarrow> (string option \<times> 'd) go_result" where
  "removePeer api cr publicKey dev =
     (case cr_ParseKey cr publicKey of
        Inl e \<Rightarrow> Ret (Some (''failed to parse public key: '' @ e), dev)
      | Inr k \<Rightarrow> go_bind (hexKey cr k) (\<lambda>h.
          case wa_IpcSet api (removeConfig h) dev of
            (Some e, dev') \<Rightarrow> Ret (Some (''failed to remove peer: '' @ e), dev')
          | (None, dev') \<Rightarrow> Ret (None, dev')))"

definition removeKeys :: "'d wg_api \<Rightarrow> string list \<Rightarrow> 'd \<Rightarrow> 'd" where
  "removeKeys api keys dev = foldl (\<lambda>dev key. snd (wa_IpcSet api (removeConfig key) dev)) dev keys"

primrec addPeers :: "'d wg_api \<Rightarrow> hp_crypto \<Rightarrow> Peer list \<Rightarrow> 'd \<Rightarrow> (string option \<times> 'd) go_result" where
  "addPeers api cr [] dev = Ret (None, dev)"
| "addPeers api cr (peer # peers) dev = go_bind (addPeerToDevice api cr peer dev) (\<lambda>(e, dev).
     case e of Some e \<Rightarrow> Ret (Some (''failed to add peer: '' @ e), dev) | None \<Rightarrow> addPeers api cr peers dev)"

definition ensureWireguardPeers ::
  "'d wg_api \<Rightarrow> hp_crypto \<Rightarrow> Peer list \<Rightarrow> ('d, 'st) WireGuardService \<Rightarrow> (string option \<times> ('d, 'st) WireGuardService) go_result" where
  "ensureWireguardPeers api cr peers s = (case ws_device s of
     None \<Rightarrow> Ret (Some ''WireGuard device is not initialized'', s)
   | Some dev \<Rightarrow> (case wa_IpcGet api dev of
         Inl e \<Rightarrow> Ret (Some (''failed to get current device config: '' @ e), s)
       | Inr config \<Rightarrow> go_bind (addPeers api cr peers (removeKeys api (devicePeerKeys config) dev))
           (\<lambda>(e, dev). Ret (e, s\<lparr>ws_device := Some dev\<rparr>))))"

text \<open>The desired peers by their normalized key; a key that does not parse is skipped.\<close>

primrec desiredPeerMap :: "hp_crypto \<Rightarrow> Peer list \<Rightarrow> (string, Peer) gomap \<Rightarrow> (string, Peer) gomap go_result" where
  "desiredPeerMap cr [] m = Ret m"
| "desiredPeerMap cr (peer # peers) m = (case cr_ParseKey cr (pe_PublicKey peer) of
     Inl e \<Rightarrow> desiredPeerMap cr peers m
   | Inr k \<Rightarrow> go_bind (hexKey cr k) (\<lambda>h. desiredPeerMap cr peers (mput h peer m)))"

primrec addMissing :: "'d wg_api \<Rightarrow> hp_crypto \<Rightarrow> string list \<Rightarrow> (string \<times> Peer) list \<Rightarrow> 'd \<Rightarrow> 'd go_result" where
  "addMissing api cr current [] dev = Ret dev"
| "addMissing api cr current (kp # kps) dev =
     (if fst kp \<in> set current then addMissing api cr current kps dev
      else go_bind (addPeerToDevice api cr (snd kp) dev) (\<lambda>(e, dev). addMissing api cr current kps dev))"

text \<open>\<open>rngC\<close> and \<open>rngD\<close> are the orders of iteration over the current keys and the desired peers.\<close>

definition syncPeers ::
  "'d wg_api \<Rightarrow> hp_crypto \<Rightarrow> (string list \<Rightarrow> string list) \<Rightarrow> ((string \<times> Peer) list \<Rightarrow> (string \<times> Peer) list) \<Rightarrow> Peer list \<Rightarrow>
   ('d, 'st) WireGuardService \<Rightarrow> (string option \<times> ('d, 'st) WireGuardService) go_result" where
  "syncPeers api cr rngC rngD desiredPeers s = (case ws_device s of
     None \<Rightarrow> Ret (Some ''WireGuard device is not initialized'', s)
   | Some dev \<Rightarrow> (case wa_IpcGet api dev of
         Inl e \<Rightarrow> Ret (Some (''failed to get current device config: '' @ e), s)
       | Inr config \<Rightarrow>
           (let current = remdups (devicePeerKeys config) in
            go_bind (desiredPeerMap cr desiredPeers []) (\<lambda>desired.
            go_bind (addMissing api cr current (rngD desired)
                       (removeKeys api (filter (\<lambda>k. \<not> mhas desired k) (rngC current)) dev)) (\<lambda>dev.
            Ret (None, s\<lparr>ws_device := Some dev\<rparr>))))))"

definition SyncClients ::
  "('dt, 'st) src_bart \<Rightarrow> 'dt dst_bart \<Rightarrow> 'd wg_api \<Rightarrow> hp_crypto \<Rightarrow> (string list \<Rightarrow> string list) \<Rightarrow>
   ((string \<times> Peer) list \<Rightarrow> (string \<times> Peer) list) \<Rightarrow> Peer list \<Rightarrow> client_target list \<Rightarrow> ('d, 'st) WireGuardService \<Rightarrow>
   ('d, 'st) WireGuardService go_result" where
  "SyncClients S D api cr rngC rngD peers targets s =
     go_bind (syncPeers api cr rngC rngD peers s) (\<lambda>(e, s). Ret (syncTargets S D targets s))"

text \<open>\<open>s.holePunchManager.TriggerHolePunch()\<close>, whose result is not looked at.\<close>

definition triggerPunch :: "hp_env \<Rightarrow> ('d, 'st) WireGuardService \<Rightarrow> ('d, 'st) WireGuardService" where
  "triggerPunch env s = s\<lparr>ws_hp := snd (TriggerHolePunch env (ws_hp s))\<rparr>"

definition handleAddPeer ::
  "'d wg_api \<Rightarrow> hp_env \<Rightarrow> json \<Rightarrow> ('d, 'st) WireGuardService \<Rightarrow> ('d, 'st) WireGuardService go_result" where
  "handleAddPeer api env data s = (case dec_peer (Some data) of
     None \<Rightarrow> Ret s
   | Some peer \<Rightarrow> (case ws_device s of
         None \<Rightarrow> Ret s
       | Some dev \<Rightarrow> go_bind (addPeerToDevice api (he_crypto env) peer dev)
           (\<lambda>(e, dev). Ret ((triggerPunch env s)\<lparr>ws_device := Some dev\<rparr>))))"

definition handleRemovePeer ::
  "'d wg_api \<Rightarrow> hp_crypto \<Rightarrow> json \<Rightarrow> ('d, 'st) WireGuardService \<Rightarrow> ('d, 'st) WireGuardService go_result" where
  "handleRemovePeer api cr data s =
     (case Option.bind (dec_object (Some data)) (\<lambda>fs. dec_string (json_field fs ''publicKey'')) of
        None \<Rightarrow> Ret s
      | Some publicKey \<Rightarrow> (case ws_device s of
            None \<Rightarrow> Ret s
          | Some dev \<Rightarrow> go_bind (removePeer api cr publicKey dev) (\<lambda>(e, dev). Ret (s\<lparr>ws_device := Some dev\<rparr>))))"

definition updateConfig :: "string \<Rightarrow> Peer \<Rightarrow> bool \<Rightarrow> string" where
  "updateConfig h request endpointSpecified =
     publicKeyField @ h @ nl # ''update_only=true'' @
     (if pe_AllowedIPs request \<noteq> []
      then nl # ''replace_allowed_ips=true'' @ concat (map (\<lambda>ip. nl # ''allowed_ip='' @ ip) (pe_AllowedIPs request)) else []) @
     (if endpointSpecified
      then (if pe_Endpoint request \<noteq> [] then nl # ''endpoint='' @ pe_Endpoint request else nl # ''endpoint=0.0.0.0:0'') else []) @
     nl # ''persistent_keepalive_interval=25''"

text \<open>The key of the endpoint is looked up with its exact case, in a message that must be an object.\<close>

definition handleUpdatePeer ::
  "'d wg_api \<Rightarrow> hp_env \<Rightarrow> json \<Rightarrow> ('d, 'st) WireGuardService \<Rightarrow> ('d, 'st) WireGuardService go_result" where
  "handleUpdatePeer api env data s = (case dec_peer (Some data) of
     None \<Rightarrow> Ret s
   | Some request \<Rightarrow>
       (let s = triggerPunch env s; cr = he_crypto env in
        case cr_ParseKey cr (pe_PublicKey request) of
          Inl e \<Rightarrow> Ret s
        | Inr k \<Rightarrow> (case ws_device s of
              None \<Rightarrow> Ret s
            | Some dev \<Rightarrow> go_bind (hexKey cr k) (\<lambda>h. case data of
                  JObj fs \<Rightarrow> Ret (s\<lparr>ws_device := Some (snd (wa_IpcSet api
                       (updateConfig h request (''endpoint'' \<in> set (map fst fs))) dev))\<rparr>)
                | _ \<Rightarrow> Panic))))"

section \<open>Bandwidth\<close>

text \<open>\<open>strconv.ParseInt(s, 10, 64)\<close> with the error ignored: zero on bad text, the nearest bound on overflow.\<close>

definition parse_int64 :: "string \<Rightarrow> int" where
  "parse_int64 s =
     (let neg = (s \<noteq> [] \<and> hd s = CHR ''-'');
          body = (if s \<noteq> [] \<and> (hd s = CHR ''-'' \<or> hd s = CHR ''+'') then tl s else s);
          v = (if neg then - int (digits_val body) else int (digits_val body))
      in if body = [] \<or> \<not> list_all is_digit body then 0 else max (- (2 ^ 63)) (min (2 ^ 63 - 1) v))"

definition bytesDiff :: "int \<Rightarrow> int \<Rightarrow> int" where
  "bytesDiff current prev = (let diff = wrap64 (current - prev) in if diff < 0 then current else diff)"

definition processPeerBandwidth ::
  "string \<Rightarrow> int \<Rightarrow> int \<Rightarrow> instant \<Rightarrow> (string, PeerReading) gomap \<Rightarrow> PeerBandwidth option \<times> (string, PeerReading) gomap" where
  "processPeerBandwidth publicKey rxBytes txBytes now readings =
     (let currentReading = \<lparr>rd_BytesReceived = rxBytes, rd_BytesTransmitted = txBytes, rd_LastChecked = now\<rparr>;
          readings' = mput publicKey currentReading readings
      in case map_of readings publicKey of
           None \<Rightarrow> (None, readings')
         | Some lastReading \<Rightarrow>
             if now - rd_LastChecked lastReading > 0 then
               (let bytesInDiff = bytesDiff rxBytes (rd_BytesReceived lastReading);
                    bytesOutDiff = bytesDiff txBytes (rd_BytesTransmitted lastReading)
                in (if bytesInDiff > 0 \<or> bytesOutDiff > 0
                    then Some \<lparr>pb_PublicKey = publicKey, pb_BytesIn = of_int bytesInDiff / 1048576,
                               pb_BytesOut = of_int bytesOutDiff / 1048576\<rparr>
                    else None, readings'))
             else (None, readings'))"

definition flushPeer ::
  "instant \<Rightarrow> string \<times> int \<times> int \<Rightarrow> PeerBandwidth list \<times> (string, PeerReading) gomap \<Rightarrow> PeerBandwidth list \<times> (string, PeerReading) gomap" where
  "flushPeer now = (\<lambda>(key, rx, tx) (bws, readings).
     if key \<noteq> [] then (case processPeerBandwidth key rx tx now readings of
        (Some b, readings') \<Rightarrow> (bws @ [b], readings')
      | (None, readings') \<Rightarrow> (bws, readings'))
     else (bws, readings))"

primrec scanStats ::
  "instant \<Rightarrow> string list \<Rightarrow> string \<times> int \<times> int \<Rightarrow> PeerBandwidth list \<times> (string, PeerReading) gomap \<Rightarrow>
   PeerBandwidth list \<times> (string, PeerReading) gomap" where
  "scanStats now [] cur acc = flushPeer now cur acc"
| "scanStats now (line # lines) cur acc =
     (if has_prefix line publicKeyField then scanStats now lines (trim_prefix line publicKeyField, 0, 0) (flushPeer now cur acc)
      else if has_prefix line ''rx_bytes=''
        then scanStats now lines (fst cur, parse_int64 (trim_prefix line ''rx_bytes=''), snd (snd cur)) acc
      else if has_prefix line ''tx_bytes=''
        then scanStats now lines (fst cur, fst (snd cur), parse_int64 (trim_prefix line ''tx_bytes='')) acc
      else scanStats now lines cur acc)"

primrec unfixKeys :: "PeerBandwidth list \<Rightarrow> PeerBandwidth list go_result" where
  "unfixKeys [] = Ret []"
| "unfixKeys (b # bs) = (case UnfixKey (pb_PublicKey b) of
     None \<Rightarrow> Panic
   | Some k \<Rightarrow> go_bind (unfixKeys bs) (\<lambda>bs. Ret (b\<lparr>pb_PublicKey := k\<rparr> # bs)))"

definition calculatePeerBandwidth ::
  "'d wg_api \<Rightarrow> instant \<Rightarrow> ('d, 'st) WireGuardService \<Rightarrow> ((string + PeerBandwidth list) \<times> ('d, 'st) WireGuardService) go_result" where
  "calculatePeerBandwidth api now s = (case ws_device s of
     None \<Rightarrow> Ret (Inr [], s)
   | Some dev \<Rightarrow> (case wa_IpcGet api dev of
         Inl e \<Rightarrow> Ret (Inl (''failed to get device statistics: '' @ e), s)
       | Inr stats \<Rightarrow>
           (let (bws, readings) = scanStats now (split_on nl stats) ([], 0, 0) ([], ws_lastReadings s);
                readings = filter (\<lambda>(k, r). k \<in> set (devicePeerKeys stats)) readings
            in go_bind (unfixKeys bws) (\<lambda>bws. Ret (Inr bws, s\<lparr>ws_lastReadings := readings\<rparr>)))))"

text \<open>\<open>send\<close> is the error of sending the report over the websocket.\<close>

definition reportPeerBandwidth ::
  "'d wg_api \<Rightarrow> (PeerBandwidth list \<Rightarrow> string option) \<Rightarrow> instant \<Rightarrow> ('d, 'st) WireGuardService \<Rightarrow>
   (string option \<times> ('d, 'st) WireGuardService) go_result" where
  "reportPeerBandwidth api send now s = go_bind (calculatePeerBandwidth api now s) (\<lambda>(r, s). case r of
     Inl e \<Rightarrow> Ret (Some (''failed to calculate peer bandwidth: '' @ e), s)
   | Inr bws \<Rightarrow> (case send bws of
        Some e \<Rightarrow> Ret (Some (''failed to send bandwidth data: '' @ e), s)
      | None \<Rightarrow> Ret (None, s)))"

text \<open>\<open>filterReadOnlyFields\<close>.\<close>

definition readOnlyFields :: "string list" where
  "readOnlyFields = [''last_handshake_time_sec'', ''last_handshake_time_nsec'', ''rx_bytes'', ''tx_bytes'', ''protocol_version'']"

definition filterReadOnlyFields :: "string \<Rightarrow> string" where
  "filterReadOnlyFields config =
     join_with nl (filter (\<lambda>line. line \<noteq> [] \<and> \<not> list_ex (\<lambda>field. has_prefix line (field @ ''='')) readOnlyFields) (split_on nl config))"

section \<open>Blocking, hole punching and the relay\<close>

definition ServiceSetToken :: "string \<Rightarrow> ('d, 'st) WireGuardService \<Rightarrow> ('d, 'st) WireGuardService" where
  "ServiceSetToken token s = s\<lparr>ws_token := token, ws_hp := SetToken token (ws_hp s)\<rparr>"

definition IsReady :: "('d, 'st) WireGuardService \<Rightarrow> bool" where
  "IsReady s \<longleftrightarrow> ws_device s \<noteq> None \<and> ws_tnet s \<noteq> None"

definition ServiceSetBlocked :: "bool \<Rightarrow> ('d, 'st) WireGuardService \<Rightarrow> ('d, 'st) WireGuardService" where
  "ServiceSetBlocked v s = s\<lparr>ws_blocked := v, ws_tnet := map_option (SetBlocked v) (ws_tnet s)\<rparr>"

definition StartHolepunch :: "string \<Rightarrow> string \<Rightarrow> 16 word \<Rightarrow> ('d, 'st) WireGuardService \<Rightarrow> ('d, 'st) WireGuardService" where
  "StartHolepunch publicKey endpoint relayPort s =
     (let relayPort = (if relayPort = 0 then 21820 else relayPort) in
      s\<lparr>ws_hp := snd (StartMultipleExitNodes
        [\<lparr>en_Endpoint = endpoint, en_RelayPort = relayPort, en_PublicKey = publicKey, en_SiteIds = []\<rparr>] (ws_hp s))\<rparr>)"

text \<open>An operation of the shared bind, inside the hole-punch world that holds it.\<close>

definition onBind :: "(shared_bind \<Rightarrow> shared_bind) \<Rightarrow> ('d, 'st) WireGuardService \<Rightarrow> ('d, 'st) WireGuardService" where
  "onBind f s = s\<lparr>ws_hp := (ws_hp s)\<lparr>hw_bind := f (hw_bind (ws_hp s))\<rparr>\<rparr>"

text \<open>
  What the relay goroutine meets in one turn of its loop: the stop channel closed, a read that timed out, failed or delivered a datagram from a
  UDP address (with the choice of \<open>select\<close> inside \<open>InjectPacket\<close>) or from another kind of address.
\<close>

datatype relay_event = RelayStop | RelayTimeout | RelayError | RelayData bool bytes addr_port | RelayOther

primrec runDirectUDPRelay :: "relay_event list \<Rightarrow> shared_bind \<Rightarrow> shared_bind" where
  "runDirectUDPRelay [] b = b"
| "runDirectUDPRelay (ev # evs) b = (case ev of
     RelayStop \<Rightarrow> b
   | RelayData pick data src \<Rightarrow> runDirectUDPRelay evs (snd (InjectPacket pick data (unmapAddrPort src) b))
   | _ \<Rightarrow> runDirectUDPRelay evs b)"

text \<open>Stopping waits for the relay goroutine, which has done \<open>evs\<close> by then.\<close>

definition StopDirectUDPRelay :: "relay_event list \<Rightarrow> ('d, 'st) WireGuardService \<Rightarrow> ('d, 'st) WireGuardService" where
  "StopDirectUDPRelay evs s =
     (let s = (if ws_relay s then (onBind (runDirectUDPRelay evs) s)\<lparr>ws_relay := False\<rparr> else s);
          s = (if ws_sharedBind s then onBind ClearNetstackConn s else s)
      in case ws_netstackListener s of
           None \<Rightarrow> s
         | Some l \<Rightarrow> s\<lparr>ws_netstackListener := None, ws_closedListeners := ws_closedListeners s @ [l]\<rparr>)"

text \<open>\<open>listen\<close> is the result of listening on the main tunnel: an error, or the new connection.\<close>

definition StartDirectUDPRelay ::
  "(addr \<Rightarrow> 16 word \<Rightarrow> string + nat) \<Rightarrow> relay_event list \<Rightarrow> string \<Rightarrow> ('d, 'st) WireGuardService \<Rightarrow>
   string option \<times> ('d, 'st) WireGuardService" where
  "StartDirectUDPRelay listen evs tunnelIP s =
     (if \<not> ws_othertnet s then (Some ''main tunnel netstack (othertnet) not set'', s)
      else if \<not> ws_sharedBind s then (Some ''shared bind not initialized'', s)
      else let s = (StopDirectUDPRelay evs s)\<lparr>ws_relay := True\<rparr> in
        case ParseIP tunnelIP of
          None \<Rightarrow> (Some (''invalid tunnel IP: '' @ tunnelIP), s)
        | Some ip \<Rightarrow> (case listen ip (ws_Port s) of
              Inl e \<Rightarrow> (Some (''failed to listen on main tunnel netstack: '' @ e), s)
            | Inr l \<Rightarrow> (None, onBind (SetNetstackConn (Some l)) (s\<lparr>ws_netstackListener := Some l\<rparr>))))"

section \<open>Configuration\<close>

definition prefix_string :: "prefix \<Rightarrow> string" where
  "prefix_string p = addr_string (pfx_addr p) @ CHR ''/'' # itoa (pfx_bits p)"

definition normalizeInterfaceAddress :: "string \<Rightarrow> string + string \<times> addr" where
  "normalizeInterfaceAddress raw = (case parse_prefix raw of
     Some p \<Rightarrow> Inr (prefix_string p, pfx_addr p)
   | None \<Rightarrow> (case parse_addr raw of
         None \<Rightarrow> Inl (''invalid IP address format: '' @ raw)
       | Some a \<Rightarrow> Inr (prefix_string (prefix_from a (bit_len a)), a)))"

text \<open>
  What the operating system and the network stack answer while an interface is made: errors of the calls, and whether the SSH listener opens.
\<close>

record if_env =
  ie_darwin :: bool
  ie_FindUnusedUTUN :: "string + string"
  ie_CreateTUN :: "string option"
  ie_UapiListen :: "string option"
  ie_ConfigureInterface :: "string option"
  ie_stack :: "string option"
  ie_ssh :: bool

text \<open>\<open>CreateNetTUNWithOptions\<close>: the handler and the errors of the stack; the clients enable all three proxies.\<close>

definition CreateNetTUNWithOptions ::
  "('dt, 'st) src_bart \<Rightarrow> string option \<Rightarrow> proxyHandlerOptions \<Rightarrow> string + 'st proxyHandler option" where
  "CreateNetTUNWithOptions S err options = (case err of Some e \<Rightarrow> Inl e | None \<Rightarrow> Inr (NewProxyHandler S options))"

definition allProxies :: proxyHandlerOptions where
  "allProxies = \<lparr>po_EnableTCP = True, po_EnableUDP = True, po_EnableICMP = True\<rparr>"

text \<open>The private key is set and the device brought up, on both kinds of interface.\<close>

definition bringUp ::
  "'d wg_api \<Rightarrow> hp_crypto \<Rightarrow> 'd \<Rightarrow> ('d, 'st) WireGuardService \<Rightarrow> (string option \<times> ('d, 'st) WireGuardService) go_result" where
  "bringUp api cr dev s = go_bind (hexKey cr (ws_key s)) (\<lambda>h.
     case wa_IpcSet api (''private_key='' @ h) dev of
       (Some e, dev) \<Rightarrow> Ret (Some (''failed to configure WireGuard device: '' @ e), s\<lparr>ws_device := Some dev\<rparr>)
     | (None, dev) \<Rightarrow> (case wa_Up api dev (hw_bind (ws_hp s)) of
           (Some e, dev, b) \<Rightarrow> Ret (Some (''failed to bring up WireGuard device: '' @ e), onBind (\<lambda>_. b) (s\<lparr>ws_device := Some dev\<rparr>))
         | (None, dev, b) \<Rightarrow> Ret (None, onBind (\<lambda>_. b) (s\<lparr>ws_device := Some dev\<rparr>))))"

definition ensureNativeInterface ::
  "'d wg_api \<Rightarrow> hp_crypto \<Rightarrow> if_env \<Rightarrow> addr \<Rightarrow> ('d, 'st) WireGuardService \<Rightarrow> (string option \<times> ('d, 'st) WireGuardService) go_result" where
  "ensureNativeInterface api cr ie tunnelIP s =
     (case (if ie_darwin ie then ie_FindUnusedUTUN ie else Inr []) of
        Inl e \<Rightarrow> Ret (Some (''failed to find unused utun: '' @ e), s)
      | Inr name \<Rightarrow> (case ie_CreateTUN ie of
          Some e \<Rightarrow> Ret (Some (''failed to create native TUN device: '' @ e), s)
        | None \<Rightarrow>
            (let s = s\<lparr>ws_TunnelIP := addr_string tunnelIP, ws_tnet := None, ws_device := Some (wa_NewDevice api)\<rparr> in
             if ie_UapiListen ie \<noteq> None then Panic
             else go_bind (bringUp api cr (wa_NewDevice api) s) (\<lambda>(e, s).
               case e of
                 Some e \<Rightarrow> Ret (Some e, s)
               | None \<Rightarrow> (case ie_ConfigureInterface ie of
                     Some e \<Rightarrow> Ret (Some (''failed to configure interface: '' @ e), s)
                   | None \<Rightarrow> Ret (None, s\<lparr>ws_wgTesterServer := True\<rparr>))))))"

definition ensureNetstackInterface ::
  "('dt, 'st) src_bart \<Rightarrow> 'd wg_api \<Rightarrow> hp_crypto \<Rightarrow> if_env \<Rightarrow> addr \<Rightarrow> ('d, 'st) WireGuardService \<Rightarrow>
   (string option \<times> ('d, 'st) WireGuardService) go_result" where
  "ensureNetstackInterface S api cr ie tunnelIP s =
     (case CreateNetTUNWithOptions S (ie_stack ie) allProxies of
        Inl e \<Rightarrow> Ret (Some (''failed to create TUN device: '' @ e), s\<lparr>ws_tnet := None\<rparr>)
      | Inr tnet \<Rightarrow>
          (let s = s\<lparr>ws_tnet := tnet, ws_TunnelIP := addr_string tunnelIP\<rparr> in
           go_bind (bringUp api cr (wa_NewDevice api) s) (\<lambda>(e, s).
             case e of
               Some e \<Rightarrow> Ret (Some e, s)
             | None \<Rightarrow>
                 (let s = s\<lparr>ws_wgTesterServer := True\<rparr>;
                      s = (if ws_credStore s \<and> ie_ssh ie then s\<lparr>ws_sshServer := True\<rparr> else s)
                  in Ret (None, if ws_blocked s then s\<lparr>ws_tnet := map_option (SetBlocked True) (ws_tnet s)\<rparr> else s)))))"

definition ensureWireguardInterface ::
  "('dt, 'st) src_bart \<Rightarrow> 'd wg_api \<Rightarrow> hp_crypto \<Rightarrow> if_env \<Rightarrow> WgConfig \<Rightarrow> ('d, 'st) WireGuardService \<Rightarrow>
   (string option \<times> ('d, 'st) WireGuardService) go_result" where
  "ensureWireguardInterface S api cr ie wgconfig s = (case normalizeInterfaceAddress (wc_IpAddress wgconfig) of
     Inl e \<Rightarrow> Ret (Some e, s)
   | Inr (interfaceAddress, tunnelIP) \<Rightarrow>
       if ws_useNativeInterface s then ensureNativeInterface api cr ie tunnelIP s
       else ensureNetstackInterface S api cr ie tunnelIP s)"

definition LoadRemoteConfig :: "string \<Rightarrow> ('d, 'st) WireGuardService \<Rightarrow> ('d, 'st) WireGuardService" where
  "LoadRemoteConfig chainId s =
     s\<lparr>ws_pendingConfigChainId := chainId, ws_stopGetConfig := True, ws_bandwidthChecks := Suc (ws_bandwidthChecks s)\<rparr>"

definition staleConfig :: "WgConfig \<Rightarrow> ('d, 'st) WireGuardService \<Rightarrow> bool" where
  "staleConfig config s \<longleftrightarrow> wc_ChainId config \<noteq> [] \<and> wc_ChainId config \<noteq> ws_pendingConfigChainId s"

definition handleConfig ::
  "('dt, 'st) src_bart \<Rightarrow> 'dt dst_bart \<Rightarrow> 'd wg_api \<Rightarrow> hp_crypto \<Rightarrow> if_env \<Rightarrow> json \<Rightarrow> ('d, 'st) WireGuardService \<Rightarrow>
   ('d, 'st) WireGuardService go_result" where
  "handleConfig S D api cr ie data s = (case dec_config (Some data) of
     None \<Rightarrow> Ret s
   | Some config \<Rightarrow>
       if staleConfig config s then Ret s
       else
         (let s = (if wc_ChainId config \<noteq> [] then s\<lparr>ws_pendingConfigChainId := []\<rparr> else s);
              s = (SetCerts (wc_Certs config) (s\<lparr>ws_config := config\<rparr>))\<lparr>ws_stopGetConfig := False\<rparr>
          in go_bind (ensureWireguardInterface S api cr ie config s) (\<lambda>(e, s).
               if e \<noteq> None then Ret s
               else go_bind (ensureWireguardPeers api cr (wc_Peers config) s) (\<lambda>(e, s).
                 Ret (snd (ensureTargets S D (wc_Targets config) s))))))"

section \<open>Making and closing the service\<close>

text \<open>
  \<open>listen\<close> is the UDP socket for a port.  \<open>netip.MustParseAddr\<close> panics on a DNS server that is not an address.
\<close>

definition NewWireGuardService ::
  "hp_crypto \<Rightarrow> (16 word \<Rightarrow> bool) \<Rightarrow> (nat \<Rightarrow> nat) \<Rightarrow> (16 word \<Rightarrow> string + nat) \<Rightarrow> 16 word \<Rightarrow> string \<Rightarrow> string \<Rightarrow> bool \<Rightarrow> bool \<Rightarrow>
   (string + ('d, 'st) WireGuardService) go_result" where
  "NewWireGuardService cr free rnd listen port newtId dns useNative credStore =
     (case cr_GeneratePrivateKey cr of
        Inl e \<Rightarrow> Ret (Inl (''failed to generate private key: '' @ e))
      | Inr key \<Rightarrow>
     (case (if port = 0 then FindAvailableUDPPort free rnd 49152 65535 else Inr port) of
        Inl e \<Rightarrow> Ret (Inl (''error finding available port: '' @ e))
      | Inr port \<Rightarrow>
     (case listen port of
        Inl e \<Rightarrow> Ret (Inl (''failed to create UDP socket: '' @ e))
      | Inr c \<Rightarrow>
     (case NewBind (Some (c, port)) of
        Inl e \<Rightarrow> Ret (Inl (''failed to create shared bind: '' @ e))
      | Inr b \<Rightarrow>
          if parse_addr dns = None then Panic
          else Ret (Inr
            \<lparr>ws_config = \<lparr>wc_IpAddress = [], wc_Peers = [], wc_Targets = [], wc_Certs = [], wc_ChainId = []\<rparr>, ws_key = key,
             ws_newtId = newtId, ws_lastReadings = [], ws_Port = port, ws_token = [], ws_stopGetConfig = False,
             ws_pendingConfigChainId = [], ws_tnet = None, ws_device = None, ws_othertnet = False, ws_TunnelIP = [],
             ws_sharedBind = True,
             ws_hp = newWorld newtId ''newt'' (cr_KeyString cr (cr_PublicKey cr key)) [] (AddRef b),
             ws_useNativeInterface = useNative, ws_sshServer = False, ws_credStore = credStore, ws_relay = False,
             ws_netstackListener = None, ws_wgTesterServer = False, ws_blocked = False, ws_certs = None,
             ws_bandwidthChecks = 0, ws_closedListeners = []\<rparr>)))))"

text \<open>\<open>cerr\<close> is the error of closing the socket; the access log is flushed by its own close.\<close>

definition CloseService ::
  "'d wg_api \<Rightarrow> relay_event list \<Rightarrow> bind_error option \<Rightarrow> ('d, 'st) WireGuardService \<Rightarrow> ('d, 'st) WireGuardService go_result" where
  "CloseService api evs cerr s =
     (let s = StopDirectUDPRelay evs (s\<lparr>ws_stopGetConfig := False, ws_sshServer := False\<rparr>) in
      go_bind (HPStop (ws_hp s)) (\<lambda>hp.
        (let s = s\<lparr>ws_hp := hp\<rparr>;
             s = (case ws_device s of None \<Rightarrow> s | Some dev \<Rightarrow> (onBind (wa_Close api dev) s)\<lparr>ws_device := None\<rparr>);
             s = s\<lparr>ws_tnet := None\<rparr>;
             s = (if ws_sharedBind s then (onBind (\<lambda>b. snd (Release cerr b)) s)\<lparr>ws_sharedBind := False\<rparr> else s)
         in Ret (s\<lparr>ws_wgTesterServer := False\<rparr>))))"

section \<open>Targets as calls of the rule table\<close>

lemma parse_addr_not_NoAddr: "parse_addr t \<noteq> Some NoAddr"
  by (auto simp: parse_addr_def parse_ip6_def Let_def split: option.splits if_splits)

lemma parse_prefix_valid: "parse_prefix t = Some p \<Longrightarrow> valid_prefix p"
  by (auto simp: parse_addr_not_NoAddr parse_prefix_def prefix_from_def valid_prefix_def bit_len_def split: option.splits prod.splits if_splits addr.splits)

lemma targetPairs_valid: "(sp, d) \<in> set (targetPairs t) \<Longrightarrow> valid_prefix sp \<and> valid_prefix d"
  by (auto simp: targetPairs_def map_filter_def parse_prefix_valid split: option.splits)

lemma targetRule_key [simp]: "rule_key (targetRule s t sp d) = (masked sp, masked d)"
  by (simp add: targetRule_def rule_key_def split: prod.split)

lemma targetRule_valid: "valid_prefix sp \<Longrightarrow> valid_prefix d \<Longrightarrow> rule_valid (targetRule s t sp d)"
  by (simp add: targetRule_def rule_valid_def split: prod.split)

lemma syncRules_valid: "list_all rule_valid (syncRules s ts)"
  by (auto simp: syncRules_def list_all_iff intro: targetRule_valid dest: targetPairs_valid)

lemma syncRules_simps [simp]:
  "syncRules s [] = []" "syncRules s (t # ts) = map (\<lambda>(sp, d). targetRule s t sp d) (targetPairs t) @ syncRules s ts"
  "syncRules s (ts @ us) = syncRules s ts @ syncRules s us"
  by (simp_all add: syncRules_def)

lemma add_calls:
  "ph_enabled tnet \<Longrightarrow> foldl (\<lambda>tnet r. AddProxySubnetRule S D r tnet) tnet rs =
     tnet\<lparr>ph_subnetLookup := foldl (table_step S D) (ph_subnetLookup tnet) (map AddCall rs)\<rparr>"
  by (induction rs arbitrary: tnet) (simp_all add: AddProxySubnetRule_def AddSubnetRule_def)

lemma remove_calls:
  "ph_enabled tnet \<Longrightarrow> foldl (\<lambda>tnet (sp, d). RemoveProxySubnetRule S D sp d tnet) tnet ps =
     tnet\<lparr>ph_subnetLookup := foldl (table_step S D) (ph_subnetLookup tnet) (map (\<lambda>(sp, d). RemoveCall sp d) ps)\<rparr>"
  by (induction ps arbitrary: tnet) (auto simp: RemoveProxySubnetRule_def RemoveSubnetRule_def)

lemma addTargets_rules: "addTargets S D s ts tnet = foldl (\<lambda>tnet r. AddProxySubnetRule S D r tnet) tnet (syncRules s ts)"
  unfolding addTargets_def
  by (induction ts arbitrary: tnet) (simp_all add: foldl_map case_prod_beta')

definition pairsOf :: "client_target list \<Rightarrow> (prefix \<times> prefix) list" where
  "pairsOf ts = concat (map targetPairs ts)"

lemma removeTargets_pairs: "removeTargets S D ts tnet = foldl (\<lambda>tnet (sp, d). RemoveProxySubnetRule S D sp d tnet) tnet (pairsOf ts)"
  unfolding removeTargets_def pairsOf_def by (induction ts arbitrary: tnet) simp_all

lemma ensureSources_ok:
  "\<forall>sp\<in>set sps. parse_prefix sp \<noteq> None \<Longrightarrow>
   ensureSources S D s t d sps tnet = (None, foldl (\<lambda>tnet r. AddProxySubnetRule S D r tnet) tnet
     (map (\<lambda>(sp, d). targetRule s t sp d) (List.map_filter (\<lambda>sp. map_option (\<lambda>sp. (sp, d)) (parse_prefix sp)) sps)))"
  by (induction sps arbitrary: tnet) (auto simp: map_filter_def)

definition targetParses :: "client_target \<Rightarrow> bool" where
  "targetParses t \<longleftrightarrow> parse_prefix (ct_DestPrefix t) \<noteq> None \<and> (\<forall>sp\<in>set (resolveSourcePrefixes t). parse_prefix sp \<noteq> None)"

lemma ensureLoop_ok:
  "list_all targetParses ts \<Longrightarrow>
   ensureLoop S D s ts tnet = (None, foldl (\<lambda>tnet r. AddProxySubnetRule S D r tnet) tnet (syncRules s ts))"
  by (induction ts arbitrary: tnet) (auto simp: targetParses_def targetPairs_def ensureSources_ok)

text \<open>The rules as a map: the last rule of a pair wins.\<close>

definition rulesMap :: "subnet_rule list \<Rightarrow> rule_map" where
  "rulesMap rs = foldl (\<lambda>m r. m(rule_key r \<mapsto> r)) Map.empty rs"

lemma rules_foldl:
  "foldl (\<lambda>m r. m(rule_key r \<mapsto> r)) m rs k = (case filter (\<lambda>r. rule_key r = k) rs of [] \<Rightarrow> m k | ws \<Rightarrow> Some (last ws))"
  by (induction rs arbitrary: m) (auto split: list.split)

lemma map_step_adds: "foldl map_step m (map AddCall rs) = foldl (\<lambda>m r. m(rule_key r \<mapsto> r)) m rs"
  by (induction rs arbitrary: m) simp_all

lemma map_step_removes:
  "foldl map_step m (map (\<lambda>(sp, d). RemoveCall sp d) ps) k = (if k \<in> (\<lambda>(sp, d). (masked sp, masked d)) ` set ps then None else m k)"
  by (induction ps arbitrary: m) auto

lemma calls_valid_adds: "list_all call_valid (map AddCall (syncRules s ts))"
  using syncRules_valid [of s ts] by (simp add: list_all_iff)

lemma calls_valid_removes: "list_all call_valid (map (\<lambda>(sp, d). RemoveCall sp d) (pairsOf ts))"
  by (auto simp: list_all_iff pairsOf_def dest: targetPairs_valid)

lemma rule_keys_syncRules: "rule_key ` set (syncRules s ts) = (\<lambda>(sp, d). (masked sp, masked d)) ` set (pairsOf ts)"
  by (induction ts) (auto simp: pairsOf_def image_Un image_image case_prod_beta')

lemma filter_syncRules:
  assumes "k \<notin> (\<lambda>(sp, d). (masked sp, masked d)) ` set (pairsOf (filter (\<lambda>t. \<not> P t) ts))"
  shows "filter (\<lambda>r. rule_key r = k) (syncRules s (filter P ts)) = filter (\<lambda>r. rule_key r = k) (syncRules s ts)"
  using assms
proof (induction ts)
  case (Cons t ts)
  then show ?case
    by (cases "P t") (auto simp: pairsOf_def image_Un case_prod_beta' filter_empty_conv)
qed simp

section \<open>Facts about peers\<close>

text \<open>
  The documented behaviour of the device's configuration protocol that the code relies on: \<open>get\<close> prints one \<open>public_key\<close> line per
  peer, a set with \<open>remove=true\<close> drops the peer, and the section of a peer whose addresses are well formed (\<open>validPeer\<close>) creates it if
  needed.  \<open>peersOf\<close> are the peers of a device.
\<close>

definition uapi :: "'d wg_api \<Rightarrow> ('d \<Rightarrow> string set) \<Rightarrow> (Peer \<Rightarrow> bool) \<Rightarrow> bool" where
  "uapi api peersOf validPeer \<longleftrightarrow>
     (\<forall>dev. \<exists>config. wa_IpcGet api dev = Inr config \<and> set (devicePeerKeys config) = peersOf dev) \<and>
     (\<forall>key dev. nl \<notin> set key \<longrightarrow> peersOf (snd (wa_IpcSet api (removeConfig key) dev)) = peersOf dev - {key}) \<and>
     (\<forall>h peer dev. nl \<notin> set h \<longrightarrow> validPeer peer \<longrightarrow>
        (\<exists>dev'. wa_IpcSet api (peerConfig h peer) dev = (None, dev') \<and> peersOf dev' = insert h (peersOf dev)))"

lemma uapiD:
  assumes "uapi api peersOf validPeer"
  shows "\<exists>config. wa_IpcGet api dev = Inr config \<and> set (devicePeerKeys config) = peersOf dev"
    and "nl \<notin> set key \<Longrightarrow> peersOf (snd (wa_IpcSet api (removeConfig key) dev)) = peersOf dev - {key}"
    and "nl \<notin> set h \<Longrightarrow> validPeer peer \<Longrightarrow>
      \<exists>dev'. wa_IpcSet api (peerConfig h peer) dev = (None, dev') \<and> peersOf dev' = insert h (peersOf dev)"
  using assms [unfolded uapi_def, THEN conjunct1, THEN spec] assms [unfolded uapi_def, THEN conjunct2, THEN conjunct1, rule_format]
    assms [unfolded uapi_def, THEN conjunct2, THEN conjunct2, rule_format, of h peer dev]
  by (simp_all del: split_paired_Ex)

lemma hex_digit_not_nl: "d < 16 \<Longrightarrow> hex_digit d \<noteq> nl"
  using of_char_hex_digit [of d] by (auto split: if_splits)

lemma hex_encode_no_nl: "nl \<notin> set (hex_encode bs)"
  by (auto simp: hex_encode_def hex_digit_not_nl [symmetric] less_mult_imp_div_less)

lemma FixKey_no_nl: "FixKey t = Some h \<Longrightarrow> nl \<notin> set h"
  by (auto simp: FixKey_def hex_encode_no_nl)

lemma trim_prefix_set: "set (trim_prefix l p) \<subseteq> set l"
  by (auto simp: trim_prefix_def dest: in_set_dropD)

lemma devicePeerKeys_no_nl: "k \<in> set (devicePeerKeys config) \<Longrightarrow> nl \<notin> set k"
  using trim_prefix_set split_on_parts by (fastforce simp: devicePeerKeys_def)

definition normalizedKey :: "hp_crypto \<Rightarrow> string \<Rightarrow> string option" where
  "normalizedKey cr pk = (case cr_ParseKey cr pk of Inl e \<Rightarrow> None | Inr k \<Rightarrow> FixKey (cr_KeyString cr k))"

text \<open>A parsed key prints as base 64.\<close>

definition keysPrint :: "hp_crypto \<Rightarrow> bool" where
  "keysPrint cr \<longleftrightarrow> (\<forall>k. \<exists>bs. cr_KeyString cr k = b64_encode bs)"

lemma hexKey_Ret: "keysPrint cr \<Longrightarrow> \<exists>h. hexKey cr k = Ret h \<and> FixKey (cr_KeyString cr k) = Some h"
  unfolding keysPrint_def hexKey_def by (metis key_texts(1) option.simps(5))

lemma removeKeys_peers:
  "uapi api peersOf validPeer \<Longrightarrow> \<forall>k\<in>set keys. nl \<notin> set k \<Longrightarrow> peersOf (removeKeys api keys dev) = peersOf dev - set keys"
  unfolding removeKeys_def
  by (induction keys arbitrary: dev) (auto simp: uapiD(2))

lemma addPeerToDevice_peers:
  assumes "uapi api peersOf validPeer" "keysPrint cr" "validPeer peer" "normalizedKey cr (pe_PublicKey peer) = Some h"
  shows "\<exists>dev'. addPeerToDevice api cr peer dev = Ret (None, dev') \<and> peersOf dev' = insert h (peersOf dev)"
proof -
  obtain k where k: "cr_ParseKey cr (pe_PublicKey peer) = Inr k" "FixKey (cr_KeyString cr k) = Some h"
    using assms(4) by (auto simp: normalizedKey_def split: sum.splits)
  obtain dev' where d: "wa_IpcSet api (peerConfig h peer) dev = (None, dev')" "peersOf dev' = insert h (peersOf dev)"
    using uapiD(3) [OF assms(1) FixKey_no_nl [OF k(2)] assms(3)] by metis
  have "hexKey cr k = Ret h" using k(2) by (simp add: hexKey_def)
  then show ?thesis using k d by (simp add: addPeerToDevice_def)
qed

lemma desiredPeerMap_keys:
  assumes "keysPrint cr"
  shows "(\<forall>(h, peer)\<in>set m. ok peer \<and> normalizedKey cr (pe_PublicKey peer) = Some h) \<Longrightarrow> \<forall>peer\<in>set peers. ok peer \<Longrightarrow>
    \<exists>m'. desiredPeerMap cr peers m = Ret m' \<and> (\<forall>(h, peer)\<in>set m'. ok peer \<and> normalizedKey cr (pe_PublicKey peer) = Some h) \<and>
      fst ` set m' = fst ` set m \<union> {h. \<exists>peer\<in>set peers. normalizedKey cr (pe_PublicKey peer) = Some h}"
proof (induction peers arbitrary: m)
  case (Cons peer peers)
  show ?case
  proof (cases "cr_ParseKey cr (pe_PublicKey peer)")
    case (Inl e)
    then show ?thesis using Cons by (auto simp: normalizedKey_def)
  next
    case (Inr k)
    obtain h where h: "hexKey cr k = Ret h" "FixKey (cr_KeyString cr k) = Some h" using hexKey_Ret [OF assms] by blast
    then have n: "normalizedKey cr (pe_PublicKey peer) = Some h" using Inr by (simp add: normalizedKey_def)
    have "\<forall>(h, peer)\<in>set (mput h peer m). ok peer \<and> normalizedKey cr (pe_PublicKey peer) = Some h"
      using Cons.prems n set_mput_sub [of h peer m] by auto
    from Cons.IH [OF this] Cons.prems(2) obtain m' where m': "desiredPeerMap cr peers (mput h peer m) = Ret m'"
        "\<forall>(h, peer)\<in>set m'. ok peer \<and> normalizedKey cr (pe_PublicKey peer) = Some h"
        "fst ` set m' = insert h (fst ` set m) \<union> {h. \<exists>peer\<in>set peers. normalizedKey cr (pe_PublicKey peer) = Some h}"
      unfolding fst_set_mput by auto
    have "desiredPeerMap cr (peer # peers) m = Ret m'" using Inr h m'(1) by simp
    moreover have "fst ` set m' = fst ` set m \<union> {h. \<exists>peer\<in>set (peer # peers). normalizedKey cr (pe_PublicKey peer) = Some h}"
      unfolding m'(3) using n by auto
    ultimately show ?thesis using m'(2) by blast
  qed
qed simp

lemma addMissing_peers:
  assumes "uapi api peersOf validPeer" "keysPrint cr"
  shows "(\<forall>(h, peer)\<in>set kps. validPeer peer \<and> normalizedKey cr (pe_PublicKey peer) = Some h) \<Longrightarrow>
    \<exists>dev'. addMissing api cr current kps dev = Ret dev' \<and> peersOf dev' = peersOf dev \<union> (fst ` set kps - set current)"
proof (induction kps arbitrary: dev)
  case (Cons kp kps)
  show ?case
  proof (cases "fst kp \<in> set current")
    case True
    then show ?thesis using Cons by auto
  next
    case False
    obtain dev' where "addPeerToDevice api cr (snd kp) dev = Ret (None, dev')" "peersOf dev' = insert (fst kp) (peersOf dev)"
      using addPeerToDevice_peers [OF assms, of "snd kp" "fst kp" dev] Cons.prems by (auto simp: case_prod_beta')
    then show ?thesis using Cons.IH [of dev'] Cons.prems False by auto
  qed
qed simp

text \<open>A device that keeps only the keys of its peers, and a service to run examples on.\<close>

definition exDevice :: "string list wg_api" where
  "exDevice = \<lparr>wa_NewDevice = [],
     wa_IpcGet = (\<lambda>ks. Inr (concat (map (\<lambda>k. publicKeyField @ k @ [nl]) (filter (\<lambda>k. nl \<notin> set k) ks)))),
     wa_IpcSet = (\<lambda>cfg ks. case split_on nl cfg of
         l # l' # ls \<Rightarrow> (None, if l' = ''remove=true'' then removeAll (trim_prefix l publicKeyField) ks
                              else List.insert (trim_prefix l publicKeyField) ks)
       | _ \<Rightarrow> (Some ''bad configuration'', ks)),
     wa_Up = (\<lambda>ks b. (None, ks, b)), wa_Close = (\<lambda>ks b. snd (CloseBind None b))\<rparr>"

definition exPeersOf :: "string list \<Rightarrow> string set" where
  "exPeersOf ks = {k \<in> set ks. nl \<notin> set k}"

definition exKeys :: hp_crypto where
  "exKeys = (he_crypto exEnv)\<lparr>cr_GeneratePrivateKey := Inr [1], cr_ParseKey := (\<lambda>t. Inr (text_bytes t)), cr_KeyString := b64_encode\<rparr>"

lemma keysPrint_ex: "keysPrint exKeys"
  by (auto simp: keysPrint_def exKeys_def)

lemma trim_prefix_append: "trim_prefix (p @ k) p = k"
  by (simp add: trim_prefix_def has_prefix_def)

lemma publicKeyField_text: "nl \<notin> set publicKeyField" "publicKeyField \<noteq> []"
  by (simp_all add: publicKeyField_def)

lemma devicePeerKeys_ex:
  "(\<forall>k\<in>set ks. nl \<notin> set k) \<Longrightarrow> devicePeerKeys (concat (map (\<lambda>k. publicKeyField @ k @ [nl]) ks)) = ks"
proof (induction ks)
  case (Cons k ks)
  have "split_on nl ((publicKeyField @ k) @ nl # r) = (publicKeyField @ k) # split_on nl r" for r
    using Cons.prems publicKeyField_text by (intro split_on_append) simp
  then show ?case using Cons
    by (simp add: devicePeerKeys_def has_prefix_def trim_prefix_def)
qed (simp add: devicePeerKeys_def has_prefix_def publicKeyField_text(2) [symmetric])

lemma uapi_ex: "uapi exDevice exPeersOf (\<lambda>peer. True)"
proof -
  have get: "\<exists>config. wa_IpcGet exDevice dev = Inr config \<and> set (devicePeerKeys config) = exPeersOf dev" for dev
    using devicePeerKeys_ex [of "filter (\<lambda>k. nl \<notin> set k) dev"] by (auto simp: exDevice_def exPeersOf_def)
  have line: "split_on nl (publicKeyField @ key @ nl # rest) = (publicKeyField @ key) # split_on nl rest" if "nl \<notin> set key" for key rest
    using split_on_append [of nl "publicKeyField @ key" rest] that publicKeyField_text by simp
  have set_ex: "wa_IpcSet exDevice cfg dev = (None, if l' = ''remove=true'' then removeAll (trim_prefix l publicKeyField) dev
      else List.insert (trim_prefix l publicKeyField) dev)" if "split_on nl cfg = l # l' # ls" for cfg l l' ls dev
    using that by (simp add: exDevice_def)
  have rem: "wa_IpcSet exDevice (removeConfig key) dev = (None, removeAll key dev)" if "nl \<notin> set key" for key dev
    using set_ex [of "removeConfig key" "publicKeyField @ key" "''remove=true''" "[]" dev] that
    unfolding removeConfig_def line [OF that] trim_prefix_append by simp
  have add: "wa_IpcSet exDevice (peerConfig h peer) dev = (None, List.insert h dev)" if h: "nl \<notin> set h" for h peer dev
  proof -
    obtain c rest where r: "peerConfig h peer = publicKeyField @ h @ nl # c # rest" "c \<noteq> CHR ''r''" "c \<noteq> nl"
      by (cases "pe_AllowedIPs peer"; cases "pe_Endpoint peer = []") (auto simp: peerConfig_def)
    obtain l ls where l: "split_on nl (c # rest) = (c # l) # ls" using r(3) by simp
    have "c # l \<noteq> ''remove=true''" using r(2) by simp
    then show ?thesis using set_ex [of "peerConfig h peer" "publicKeyField @ h" "c # l" ls dev] l
      unfolding r(1) line [OF h] trim_prefix_append by auto
  qed
  show ?thesis unfolding uapi_def using get by (auto simp: rem add exPeersOf_def)
qed

definition exService :: "('d, 'st) WireGuardService" where
  "exService = \<lparr>ws_config = \<lparr>wc_IpAddress = [], wc_Peers = [], wc_Targets = [], wc_Certs = [], wc_ChainId = []\<rparr>, ws_key = [1],
     ws_newtId = ''id'', ws_lastReadings = [], ws_Port = 51820, ws_token = [], ws_stopGetConfig = False,
     ws_pendingConfigChainId = [], ws_tnet = None, ws_device = None, ws_othertnet = False, ws_TunnelIP = [], ws_sharedBind = True,
     ws_hp = newWorld ''id'' ''newt'' [] [] (AddRef exBind), ws_useNativeInterface = False, ws_sshServer = False, ws_credStore = False,
     ws_relay = False, ws_netstackListener = None, ws_wgTesterServer = False, ws_blocked = False, ws_certs = None,
     ws_bandwidthChecks = 0, ws_closedListeners = []\<rparr>"



section \<open>Incremental updates and full synchronisation\<close>

definition targetKeys :: "client_target list \<Rightarrow> (prefix \<times> prefix) set" where
  "targetKeys ts = (\<lambda>(sp, d). (masked sp, masked d)) ` set (pairsOf ts)"

lemma targetKeys_set: "set ts = set us \<Longrightarrow> targetKeys ts = targetKeys us"
  by (simp add: targetKeys_def pairsOf_def)

lemma rulesMap_filter: "rulesMap rs k = (case filter (\<lambda>r. rule_key r = k) rs of [] \<Rightarrow> None | ws \<Rightarrow> Some (last ws))"
  by (simp add: rulesMap_def rules_foldl)

lemma rules_foldl_append: "rulesMap (rs @ us) = foldl (\<lambda>m r. m(rule_key r \<mapsto> r)) (rulesMap rs) us"
  by (simp add: rulesMap_def)

text \<open>Dropping targets whose pairs no other target has is erasing their pairs.\<close>

lemma rulesMap_drop:
  assumes "targetKeys (filter P ts) \<inter> targetKeys (filter (\<lambda>t. \<not> P t) ts) = {}"
  shows "rulesMap (syncRules s (filter P ts)) k = (if k \<in> targetKeys (filter (\<lambda>t. \<not> P t) ts) then None else rulesMap (syncRules s ts) k)"
proof (cases "k \<in> targetKeys (filter (\<lambda>t. \<not> P t) ts)")
  case True
  moreover have "rule_key ` set (syncRules s (filter P ts)) = targetKeys (filter P ts)"
    by (simp only: rule_keys_syncRules targetKeys_def)
  ultimately have "k \<notin> rule_key ` set (syncRules s (filter P ts))" using assms by blast
  then have "filter (\<lambda>r. rule_key r = k) (syncRules s (filter P ts)) = []" by (auto simp: filter_empty_conv)
  then show ?thesis using True by (simp add: rulesMap_filter)
next
  case False
  then have "filter (\<lambda>r. rule_key r = k) (syncRules s (filter P ts)) = filter (\<lambda>r. rule_key r = k) (syncRules s ts)"
    by (intro filter_syncRules) (simp add: targetKeys_def)
  then show ?thesis using False by (simp add: rulesMap_filter)
qed

lemma syncRules_cong: "ws_certs s = ws_certs s' \<Longrightarrow> syncRules s ts = syncRules s' ts"
proof -
  assume "ws_certs s = ws_certs s'"
  then have "certTable s = certTable s'" by (simp add: certTable_def)
  then have "targetRule s = targetRule s'" by (simp add: fun_eq_iff targetRule_def resolveTLS_def)
  then show ?thesis by (simp only: syncRules_def)
qed

context two_level_table
begin

lemma sync_table:
  assumes "ph_enabled tnet"
  shows "table_abs S D (ph_subnetLookup (ReplaceProxySubnetRules S D (syncRules s ts) tnet)) = rulesMap (syncRules s ts) \<and>
    table_inv S D (ph_subnetLookup (ReplaceProxySubnetRules S D (syncRules s ts) tnet))"
proof -
  have v: "list_all call_valid (map AddCall (syncRules s ts))" by (rule calls_valid_adds)
  let ?e = "(ph_subnetLookup tnet)\<lparr>sl_sourceTrie := bt_empty S\<rparr>"
  have r: "ReplaceAll S D rs (ph_subnetLookup tnet) = foldl (table_step S D) ?e (map AddCall rs)" for rs
    unfolding ReplaceAll_def foldl_map table_step.simps AddSubnet_def ..
  show ?thesis using assms abs_run [OF v, of ?e] inv_run [OF v inv_empty] abs_empty
    by (simp add: ReplaceProxySubnetRules_def ReplaceAllSubnetRules_def r rulesMap_def map_step_adds)
qed

lemma update_table:
  assumes "ph_enabled tnet" "table_inv S D (ph_subnetLookup tnet)"
  shows "table_abs S D (ph_subnetLookup (addTargets S D s news (removeTargets S D olds tnet))) =
      foldl (\<lambda>m r. m(rule_key r \<mapsto> r)) (\<lambda>k. if k \<in> targetKeys olds then None else table_abs S D (ph_subnetLookup tnet) k) (syncRules s news) \<and>
    table_inv S D (ph_subnetLookup (addTargets S D s news (removeTargets S D olds tnet)))"
proof -
  define sl1 where "sl1 = foldl (table_step S D) (ph_subnetLookup tnet) (map (\<lambda>(sp, d). RemoveCall sp d) (pairsOf olds))"
  have rm: "removeTargets S D olds tnet = tnet\<lparr>ph_subnetLookup := sl1\<rparr>"
    unfolding removeTargets_pairs sl1_def by (rule remove_calls [OF assms(1)])
  have ad: "addTargets S D s news (removeTargets S D olds tnet) =
      tnet\<lparr>ph_subnetLookup := foldl (table_step S D) sl1 (map AddCall (syncRules s news))\<rparr>"
    unfolding addTargets_rules rm using add_calls [of "tnet\<lparr>ph_subnetLookup := sl1\<rparr>"] assms(1) by simp
  have "table_abs S D sl1 = (\<lambda>k. if k \<in> targetKeys olds then None else table_abs S D (ph_subnetLookup tnet) k)"
    unfolding sl1_def abs_run [OF calls_valid_removes] by (simp add: fun_eq_iff map_step_removes targetKeys_def)
  moreover have "table_inv S D sl1" unfolding sl1_def by (rule inv_run [OF calls_valid_removes assms(2)])
  ultimately show ?thesis unfolding ad
    by (simp add: abs_run [OF calls_valid_adds] inv_run [OF calls_valid_adds] map_step_adds)
qed

end

text \<open>
  C7. An incremental update has the effect of a full synchronisation.  After a synchronisation with the targets \<open>ts\<close>, an update message that
  replaces the targets \<open>olds\<close> among them by \<open>news\<close> leaves the proxy matching every packet as a synchronisation with the remaining and the new
  targets would, provided no remaining target has a pair of prefixes in common with a replaced one.
\<close>

theorem update_equals_sync:
  assumes "prefix_table S" "prefix_table D" "ws_tnet s = Some tnet" "ph_enabled tnet"
    and "decodeUpdate data = Some (olds, news)" "set olds \<subseteq> set ts"
    and "targetKeys (filter (\<lambda>t. t \<notin> set olds) ts) \<inter> targetKeys olds = {}"
    and "srcIP \<noteq> NoAddr" "dstIP \<noteq> NoAddr"
  shows "\<exists>t1 t2. ws_tnet (handleUpdateTarget S D data (syncTargets S D ts s)) = Some t1 \<and>
    ws_tnet (syncTargets S D (filter (\<lambda>t. t \<notin> set olds) ts @ news) s) = Some t2 \<and>
    Match S D (ph_subnetLookup t1) srcIP dstIP port prot = Match S D (ph_subnetLookup t2) srcIP dstIP port prot"
proof -
  note t = two_level_table.intro [OF assms(1,2)]
  define t0 where "t0 = ReplaceProxySubnetRules S D (syncRules s ts) tnet"
  define rest where "rest = filter (\<lambda>t. t \<notin> set olds) ts"
  define t1 where "t1 = addTargets S D (syncTargets S D ts s) news (removeTargets S D olds t0)"
  define t2 where "t2 = ReplaceProxySubnetRules S D (syncRules s (rest @ news)) tnet"
  have t0: "ph_enabled t0" "table_abs S D (ph_subnetLookup t0) = rulesMap (syncRules s ts)" "table_inv S D (ph_subnetLookup t0)"
    using two_level_table.sync_table [OF t assms(4), of s ts] assms(4)
    by (simp_all add: t0_def ReplaceProxySubnetRules_def ReplaceAllSubnetRules_def)
  have keys: "targetKeys (filter (\<lambda>t. t \<in> set olds) ts) = targetKeys olds"
    by (rule targetKeys_set) (use assms(6) in auto)
  have "(\<lambda>k. if k \<in> targetKeys olds then None else rulesMap (syncRules s ts) k) = rulesMap (syncRules s rest)"
    using rulesMap_drop [of "\<lambda>t. t \<notin> set olds" ts s, unfolded not_not keys, OF assms(7)] by (simp add: fun_eq_iff rest_def)
  moreover have "syncRules (syncTargets S D ts s) news = syncRules s news"
    by (rule syncRules_cong) (simp add: syncTargets_def split: option.split)
  ultimately have "table_abs S D (ph_subnetLookup t1) = rulesMap (syncRules s (rest @ news))" "table_inv S D (ph_subnetLookup t1)"
    using two_level_table.update_table [OF t t0(1,3), of "syncTargets S D ts s" news olds, unfolded t0(2)]
    by (simp_all add: t1_def rules_foldl_append)
  moreover have "table_abs S D (ph_subnetLookup t2) = rulesMap (syncRules s (rest @ news))" "table_inv S D (ph_subnetLookup t2)"
    using two_level_table.sync_table [OF t assms(4), of s "rest @ news"] unfolding t2_def by blast+
  ultimately have "Match S D (ph_subnetLookup t1) srcIP dstIP port prot = Match S D (ph_subnetLookup t2) srcIP dstIP port prot"
    using two_level_table.Match_cong [OF t _ _ _ assms(8,9)] by metis
  moreover have "ws_tnet (handleUpdateTarget S D data (syncTargets S D ts s)) = Some t1"
    using assms(3,5) by (simp add: handleUpdateTarget_def syncTargets_def t1_def t0_def)
  moreover have "ws_tnet (syncTargets S D (rest @ news) s) = Some t2"
    using assms(3) by (simp add: syncTargets_def t2_def)
  ultimately show ?thesis unfolding rest_def by blast
qed

definition exTarget :: "string \<Rightarrow> client_target" where
  "exTarget d = \<lparr>ct_SourcePrefix = ''10.0.0.0/8'', ct_SourcePrefixes = [], ct_DestPrefix = d, ct_RewriteTo = [], ct_DisableIcmp = False,
     ct_PortRange = [], ct_ResourceId = 0, ct_Protocol = [], ct_HTTPTargets = [], ct_TLSCert = [], ct_TLSKey = [], ct_TLSCertID = []\<rparr>"

definition exUpdate :: json where
  "exUpdate = JObj [(''oldTargets'', JArr [JObj [(''sourcePrefix'', JStr ''10.0.0.0/8''), (''destPrefix'', JStr ''10.1.0.0/16'')]]),
     (''newTargets'', JArr [JObj [(''sourcePrefix'', JStr ''10.0.0.0/8''), (''destPrefix'', JStr ''10.2.0.0/16'')]])]"

lemma exUpdate_decoded: "decodeUpdate exUpdate = Some ([exTarget ''10.1.0.0/16''], [exTarget ''10.2.0.0/16''])"
  by (simp add: decodeUpdate_def exUpdate_def exTarget_def dec_object_def json_field_def to_lower_def lower_char_def dec_list_def dec_target_def
      dec_string_def dec_bool_def dec_int_def Let_def)

definition exServing :: "(nat, (prefix \<times> (prefix \<times> subnet_rule list) list destTrie) list) WireGuardService" where
  "exServing = exService\<lparr>ws_tnet := NewProxyHandler ref_bart allProxies\<rparr>"

theorem update_equals_sync_witness:
  "\<exists>t1 t2. ws_tnet (handleUpdateTarget ref_bart ref_bart exUpdate (syncTargets ref_bart ref_bart [exTarget ''10.1.0.0/16''] exServing)) = Some t1 \<and>
    ws_tnet (syncTargets ref_bart ref_bart [exTarget ''10.2.0.0/16''] exServing) = Some t2 \<and>
    Match ref_bart ref_bart (ph_subnetLookup t1) (IP4 0x0a000001) (IP4 0x0a020001) 80 TCPProtocolNumber =
    Match ref_bart ref_bart (ph_subnetLookup t2) (IP4 0x0a000001) (IP4 0x0a020001) 80 TCPProtocolNumber"
proof -
  obtain tnet where "ws_tnet exServing = Some tnet" "ph_enabled tnet"
    by (simp add: exServing_def NewProxyHandler_def allProxies_def)
  from update_equals_sync [OF ref.prefix_table_axioms ref.prefix_table_axioms this exUpdate_decoded, of "[exTarget ''10.1.0.0/16'']"
      "IP4 0x0a000001" "IP4 0x0a020001" 80 TCPProtocolNumber]
  show ?thesis by (simp add: targetKeys_def pairsOf_def)
qed

section \<open>One configuration per request\<close>

text \<open>The requests and the answers the service sees, and the chain identifiers of the answers it applies.\<close>

datatype config_event = Requested string | Answered if_env json

definition appliedChain :: "json \<Rightarrow> ('d, 'st) WireGuardService \<Rightarrow> string list" where
  "appliedChain data s = (case dec_config (Some data) of
     None \<Rightarrow> [] | Some config \<Rightarrow> if staleConfig config s then [] else [wc_ChainId config])"

fun configRun ::
  "('dt, 'st) src_bart \<Rightarrow> 'dt dst_bart \<Rightarrow> 'd wg_api \<Rightarrow> hp_crypto \<Rightarrow> config_event list \<Rightarrow> ('d, 'st) WireGuardService \<Rightarrow>
   (string list \<times> ('d, 'st) WireGuardService) go_result" where
  "configRun S D api cr [] s = Ret ([], s)"
| "configRun S D api cr (Requested c # evs) s = configRun S D api cr evs (LoadRemoteConfig c s)"
| "configRun S D api cr (Answered ie data # evs) s =
     go_bind (handleConfig S D api cr ie data s) (\<lambda>s'. go_bind (configRun S D api cr evs s') (\<lambda>(cs, s''). Ret (appliedChain data s @ cs, s'')))"

abbreviation samePending :: "('d, 'st) WireGuardService \<Rightarrow> 'e \<times> ('d, 'st) WireGuardService \<Rightarrow> bool" where
  "samePending s r \<equiv> ws_pendingConfigChainId (snd r) = ws_pendingConfigChainId s"

lemma bringUp_pending: "ret_all (samePending s) (bringUp api cr dev s)"
  unfolding bringUp_def
  by (rule ret_all_bind [of "\<lambda>_. True"]) (auto simp: ret_all_def onBind_def split: prod.split option.split)

lemma bringUp_then:
  assumes "ws_pendingConfigChainId s1 = ws_pendingConfigChainId s"
    and "\<And>e s2. ws_pendingConfigChainId s2 = ws_pendingConfigChainId s \<Longrightarrow> ret_all (samePending s) (f (e, s2))"
  shows "ret_all (samePending s) (go_bind (bringUp api cr dev s1) f)"
  by (rule ret_all_bind [OF bringUp_pending]) (use assms in auto)

lemma ensureInterface_pending: "ret_all (samePending s) (ensureWireguardInterface S api cr ie config s)"
proof -
  have "ret_all (samePending s) (ensureNativeInterface api cr ie a s)" for a
    unfolding ensureNativeInterface_def Let_def
    by (simp split: sum.split option.split) (intro conjI allI impI bringUp_then, simp_all split: option.split)
  moreover have "ret_all (samePending s) (ensureNetstackInterface S api cr ie a s)" for a
    unfolding ensureNetstackInterface_def Let_def
    by (simp split: sum.split) (intro conjI allI impI bringUp_then, simp_all split: option.split)
  ultimately show ?thesis unfolding ensureWireguardInterface_def by (simp split: sum.split prod.split)
qed

lemma ensurePeers_pending:
  "ensureWireguardPeers api cr peers s = Ret (e, s') \<Longrightarrow> ws_pendingConfigChainId s' = ws_pendingConfigChainId s"
  by (auto simp: ensureWireguardPeers_def go_bind_eq_Ret split: prod.splits option.splits sum.splits)

lemma ensureTargets_pending: "ws_pendingConfigChainId (snd (ensureTargets S D ts s)) = ws_pendingConfigChainId s"
  by (simp add: ensureTargets_def split: prod.split option.split)

lemma handleConfig_pending:
  assumes "handleConfig S D api cr ie data s = Ret s'"
  shows "ws_pendingConfigChainId s' =
    (if \<exists>c\<in>set (appliedChain data s). c \<noteq> [] then [] else ws_pendingConfigChainId s)"
proof (cases "dec_config (Some data)")
  case None
  then show ?thesis using assms by (simp add: handleConfig_def appliedChain_def)
next
  case (Some config)
  show ?thesis
  proof (cases "staleConfig config s")
    case True
    then show ?thesis using assms Some by (simp add: handleConfig_def appliedChain_def)
  next
    case False
    define s1 where "s1 = (SetCerts (wc_Certs config) ((if wc_ChainId config \<noteq> [] then s\<lparr>ws_pendingConfigChainId := []\<rparr> else s)
        \<lparr>ws_config := config\<rparr>))\<lparr>ws_stopGetConfig := False\<rparr>"
    have s1: "ws_pendingConfigChainId s1 = (if wc_ChainId config \<noteq> [] then [] else ws_pendingConfigChainId s)"
      by (simp add: s1_def SetCerts_def)
    from assms obtain e s2 where s2: "ensureWireguardInterface S api cr ie config s1 = Ret (e, s2)"
        "(if e \<noteq> None then Ret s2 else go_bind (ensureWireguardPeers api cr (wc_Peers config) s2)
           (\<lambda>(e, s). Ret (snd (ensureTargets S D (wc_Targets config) s)))) = Ret s'"
      using Some False by (auto simp: handleConfig_def Let_def go_bind_eq_Ret s1_def)
    then have "ws_pendingConfigChainId s' = ws_pendingConfigChainId s2"
      by (auto simp: go_bind_eq_Ret ensureTargets_pending split: if_splits dest!: ensurePeers_pending)
    also have "\<dots> = ws_pendingConfigChainId s1" using ret_allD [OF ensureInterface_pending s2(1)] by simp
    finally show ?thesis using s1 Some False by (simp add: appliedChain_def)
  qed
qed

definition requests :: "config_event list \<Rightarrow> string list" where
  "requests evs = List.map_filter (\<lambda>ev. case ev of Requested c \<Rightarrow> Some c | Answered ie d \<Rightarrow> None) evs"

lemma requests_simps [simp]:
  "requests [] = []" "requests (Requested c # evs) = c # requests evs" "requests (Answered ie d # evs) = requests evs"
  by (simp_all add: requests_def)

lemma appliedChain_pending: "c \<in> set (appliedChain data s) \<Longrightarrow> c \<noteq> [] \<Longrightarrow> c = ws_pendingConfigChainId s"
  by (auto simp: appliedChain_def staleConfig_def split: option.splits if_splits)

lemma configRun_counts:
  assumes "c \<noteq> []"
  shows "configRun S D api cr evs s = Ret (cs, s') \<Longrightarrow>
    count_list cs c \<le> count_list (requests evs) c + (if ws_pendingConfigChainId s = c then 1 else 0)"
proof (induction evs arbitrary: s cs s')
  case (Cons ev evs)
  show ?case
  proof (cases ev)
    case (Requested r)
    then show ?thesis using Cons.IH [of "LoadRemoteConfig r s" cs s'] Cons.prems by (auto simp: LoadRemoteConfig_def split: if_splits)
  next
    case (Answered ie data)
    then obtain s1 cs1 where s1: "handleConfig S D api cr ie data s = Ret s1" "configRun S D api cr evs s1 = Ret (cs1, s')"
        "cs = appliedChain data s @ cs1"
      using Cons.prems by (auto simp: go_bind_eq_Ret)
    have one: "count_list (appliedChain data s) c \<le> 1"
      by (auto simp: appliedChain_def split: option.splits)
    show ?thesis
    proof (cases "c \<in> set (appliedChain data s)")
      case True
      then have "ws_pendingConfigChainId s = c" "ws_pendingConfigChainId s1 = []"
        using appliedChain_pending [OF True assms] handleConfig_pending [OF s1(1)] assms by auto
      then show ?thesis using Cons.IH [OF s1(2)] one s1(3) Answered assms by simp
    next
      case False
      then have "count_list (appliedChain data s) c = 0" by (simp add: count_list_0_iff)
      moreover have "ws_pendingConfigChainId s1 = c \<Longrightarrow> ws_pendingConfigChainId s = c"
        using handleConfig_pending [OF s1(1)] assms by (auto split: if_splits)
      ultimately show ?thesis using Cons.IH [OF s1(2)] s1(3) Answered by (auto split: if_splits)
    qed
  qed
qed simp


definition exIfEnv :: if_env where
  "exIfEnv = \<lparr>ie_darwin = False, ie_FindUnusedUTUN = Inl [], ie_CreateTUN = None, ie_UapiListen = None, ie_ConfigureInterface = None,
     ie_stack = None, ie_ssh = False\<rparr>"

definition exAnswer :: "string \<Rightarrow> json" where
  "exAnswer c = JObj [(''ipAddress'', JStr ''x''), (''chainId'', JStr c)]"

lemma exAnswer_decoded: "dec_config (Some (exAnswer c)) = Some \<lparr>wc_IpAddress = ''x'', wc_Peers = [], wc_Targets = [], wc_Certs = [], wc_ChainId = c\<rparr>"
  by (simp add: exAnswer_def dec_config_def dec_object_def json_field_def to_lower_def lower_char_def dec_list_def dec_string_def)

lemma normalize_x: "normalizeInterfaceAddress ''x'' = Inl ''invalid IP address format: x''"
  by (simp add: normalizeInterfaceAddress_def parse_prefix_def cut_last_def parse_addr_def)


section \<open>Bandwidth reports\<close>

text \<open>A reading of the counters of one peer, and the reports of a sequence of readings.\<close>

record sample =
  sa_key :: string
  sa_rx :: int
  sa_tx :: int
  sa_now :: instant

primrec reports :: "sample list \<Rightarrow> (string, PeerReading) gomap \<Rightarrow> PeerBandwidth list" where
  "reports [] readings = []"
| "reports (x # xs) readings = (case processPeerBandwidth (sa_key x) (sa_rx x) (sa_tx x) (sa_now x) readings of
     (b, readings') \<Rightarrow> (case b of None \<Rightarrow> reports xs readings' | Some b \<Rightarrow> b # reports xs readings'))"

definition reported :: "(PeerBandwidth \<Rightarrow> rat) \<Rightarrow> string \<Rightarrow> PeerBandwidth list \<Rightarrow> rat" where
  "reported amount k bs = sum_list (map amount (filter (\<lambda>b. pb_PublicKey b = k) bs))"

definition counter :: "int \<Rightarrow> bool" where
  "counter c \<longleftrightarrow> 0 \<le> c \<and> c < 2 ^ 63"

lemma bytesDiff_mono: "counter c \<Longrightarrow> counter p \<Longrightarrow> p \<le> c \<Longrightarrow> bytesDiff c p = c - p"
  by (simp add: bytesDiff_def counter_def wrap64_id Let_def)

lemma bytesDiff_nonneg: "0 \<le> c \<Longrightarrow> 0 \<le> bytesDiff c p"
  by (simp add: bytesDiff_def Let_def)

lemma process_other:
  assumes "processPeerBandwidth k' rx tx now readings = (b, readings')" "k' \<noteq> k"
  shows "map_of readings' k = map_of readings k" "reported amount k (case b of None \<Rightarrow> [] | Some b \<Rightarrow> [b]) = 0"
  using assms by (auto simp: processPeerBandwidth_def reported_def Let_def split: option.splits if_splits)

lemma reports_unfold:
  "processPeerBandwidth (sa_key x) (sa_rx x) (sa_tx x) (sa_now x) readings = (b, readings') \<Longrightarrow>
   reports (x # xs) readings = (case b of None \<Rightarrow> [] | Some b \<Rightarrow> [b]) @ reports xs readings'"
  by (simp split: option.split)

lemma reported_append: "reported amount k (bs @ cs) = reported amount k bs + reported amount k cs"
  by (simp add: reported_def)

text \<open>From a known reading on, the reports of a peer add up to the growth of its counters.\<close>

lemma reports_telescope:
  assumes "map_of readings k = Some r"
    and "sorted (rd_BytesReceived r # map sa_rx (filter (\<lambda>x. sa_key x = k) xs))"
    and "sorted (rd_BytesTransmitted r # map sa_tx (filter (\<lambda>x. sa_key x = k) xs))"
    and "sorted_wrt (<) (rd_LastChecked r # map sa_now (filter (\<lambda>x. sa_key x = k) xs))"
    and "\<forall>x\<in>set (filter (\<lambda>x. sa_key x = k) xs). counter (sa_rx x) \<and> counter (sa_tx x)"
    and "counter (rd_BytesReceived r)" "counter (rd_BytesTransmitted r)"
  shows "reported pb_BytesIn k (reports xs readings) =
      of_int (last (rd_BytesReceived r # map sa_rx (filter (\<lambda>x. sa_key x = k) xs)) - rd_BytesReceived r) / 1048576 \<and>
    reported pb_BytesOut k (reports xs readings) =
      of_int (last (rd_BytesTransmitted r # map sa_tx (filter (\<lambda>x. sa_key x = k) xs)) - rd_BytesTransmitted r) / 1048576"
  using assms
proof (induction xs arbitrary: readings r)
  case (Cons x xs)
  obtain b readings' where p: "processPeerBandwidth (sa_key x) (sa_rx x) (sa_tx x) (sa_now x) readings = (b, readings')" by fastforce
  show ?case
  proof (cases "sa_key x = k")
    case False
    then show ?thesis using Cons.IH [of readings' r] Cons.prems process_other [OF p False]
      unfolding reports_unfold [OF p] reported_append by simp
  next
    case True
    define r' where "r' = \<lparr>rd_BytesReceived = sa_rx x, rd_BytesTransmitted = sa_tx x, rd_LastChecked = sa_now x\<rparr>"
    have c: "counter (sa_rx x)" "counter (sa_tx x)" "rd_BytesReceived r \<le> sa_rx x" "rd_BytesTransmitted r \<le> sa_tx x"
        "rd_LastChecked r < sa_now x"
      using Cons.prems True by auto
    then have d: "bytesDiff (sa_rx x) (rd_BytesReceived r) = sa_rx x - rd_BytesReceived r"
        "bytesDiff (sa_tx x) (rd_BytesTransmitted r) = sa_tx x - rd_BytesTransmitted r"
      using Cons.prems by (simp_all add: bytesDiff_mono)
    have "map_of readings' k = Some r'" and
      now: "reported pb_BytesIn k (case b of None \<Rightarrow> [] | Some b \<Rightarrow> [b]) = of_int (sa_rx x - rd_BytesReceived r) / 1048576"
        "reported pb_BytesOut k (case b of None \<Rightarrow> [] | Some b \<Rightarrow> [b]) = of_int (sa_tx x - rd_BytesTransmitted r) / 1048576"
      using p c d Cons.prems(1) True
      by (auto simp: processPeerBandwidth_def reported_def r'_def Let_def split: if_splits)
    moreover have "rd_BytesReceived r' = sa_rx x" "rd_BytesTransmitted r' = sa_tx x" "rd_LastChecked r' = sa_now x" by (simp_all add: r'_def)
    ultimately have "reported pb_BytesIn k (reports xs readings') =
        of_int (last (sa_rx x # map sa_rx (filter (\<lambda>x. sa_key x = k) xs)) - sa_rx x) / 1048576 \<and>
      reported pb_BytesOut k (reports xs readings') =
        of_int (last (sa_tx x # map sa_tx (filter (\<lambda>x. sa_key x = k) xs)) - sa_tx x) / 1048576"
      using Cons.IH [of readings' r'] Cons.prems True by auto
    then show ?thesis using now True unfolding reports_unfold [OF p] reported_append
      by (simp add: add_divide_distrib [symmetric] diff_divide_distrib [symmetric])
  qed
qed (simp add: reported_def)



section \<open>Closing a service that was never configured\<close>

text \<open>
  A service that is closed before its first configuration keeps its UDP socket: it holds two references to the shared bind, one of which the
  WireGuard device would give back, and \<open>Close\<close> gives back the other one only, so the bind stays open with one reference nobody holds.
\<close>

theorem close_before_config_leaks:
  assumes "NewWireGuardService cr free rnd listen port newtId dns useNative credStore = Ret (Inr s)"
  shows "\<exists>s'. CloseService api evs cerr s = Ret s' \<and> \<not> ws_sharedBind s' \<and> \<not> sb_closed (hw_bind (ws_hp s')) \<and>
    sb_refCount (hw_bind (ws_hp s')) = 1 \<and> sb_udpConn (hw_bind (ws_hp s')) \<noteq> None \<and> sb_closedSockets (hw_bind (ws_hp s')) = []"
proof -
  obtain c p where "sb_refCount (hw_bind (ws_hp s)) = 2" "sb_udpConn (hw_bind (ws_hp s)) = Some c" "\<not> sb_closed (hw_bind (ws_hp s))"
      "sb_closedSockets (hw_bind (ws_hp s)) = []" "\<not> hp_running (hw_mgr (ws_hp s))"
      "ws_device s = None" "ws_sharedBind s" "\<not> ws_relay s" "ws_netstackListener s = None"
    using assms by (auto simp: NewWireGuardService_def NewBind_def AddRef_def newWorld_def NewManager_def split: sum.splits if_splits)
  then show ?thesis
    by (simp add: CloseService_def StopDirectUDPRelay_def onBind_def HPStop_def Release_def ClearNetstackConn_def Let_def)
qed

theorem close_before_config_leaks_witness:
  "\<exists>s s'. NewWireGuardService exKeys (\<lambda>p. True) (\<lambda>i. 0) (\<lambda>p. Inr 7) 51820 ''id'' (ip4_string 0x01010101) False False =
      Ret (Inr (s :: (string list, nat) WireGuardService)) \<and> CloseService exDevice [] None s = Ret s' \<and> \<not> sb_closed (hw_bind (ws_hp s'))"
proof -
  obtain s :: "(string list, nat) WireGuardService" where
    "NewWireGuardService exKeys (\<lambda>p. True) (\<lambda>i. 0) (\<lambda>p. Inr 7) 51820 ''id'' (ip4_string 0x01010101) False False = Ret (Inr s)"
    by (simp add: NewWireGuardService_def exKeys_def NewBind_def parse_addr_ip4_string)
  then show ?thesis using close_before_config_leaks [of exKeys "\<lambda>p. True" "\<lambda>i. 0" "\<lambda>p. Inr 7" 51820 "''id''" "ip4_string 0x01010101" False False s exDevice "[]" None] by blast
qed

text \<open>A hole punch that is running keeps its exit nodes: a second \<open>StartHolepunch\<close>, to whatever endpoint, changes nothing.\<close>

lemma StartHolepunch_running: "hp_running (hw_mgr (ws_hp s)) \<Longrightarrow> StartHolepunch publicKey endpoint relayPort s = s"
  by (simp add: StartHolepunch_def StartMultipleExitNodes_def)

end
