(* ===== verification/Websocket_Config.thy ===== *)
theory Websocket_Config
  imports Newt_Util
begin

text \<open>
  The credentials of the websocket client: the structures of \<open>websocket/types.go\<close> and of \<open>Client\<close>, the configuration file and the
  provisioning of \<open>websocket/config.go\<close>, the TLS set-up and the token request of \<open>websocket/client.go\<close>.

  The outside is an argument (\<open>ws_env\<close>): environment variables, the operating system, \<open>net/url\<close>, the HTTP exchange, the certificate
  packages, and the text side of \<open>encoding/json\<close>; the structure side of the decoding is \<open>Go_Encoding\<close>.  Files are a map from paths
  to texts in the state.  Telemetry calls, callbacks and the retry log are recorded as events.
\<close>

declare map_of_eq_Some_iff [simp del] Some_eq_map_of_iff [simp del]

section \<open>Data\<close>

record ws_config =
  wc_ID :: string
  wc_Secret :: string
  wc_Endpoint :: string
  wc_TlsClientCert :: string
  wc_ProvisioningKey :: string
  wc_Name :: string
  wc_Blocked :: bool

record TokenResponse =
  tr_Token :: string
  tr_ServerVersion :: string
  tr_Success :: bool
  tr_Message :: string

record ProvisioningResponse =
  pr_NewtID :: string
  pr_Secret :: string
  pr_Success :: bool
  pr_Message :: string

record WSMessage =
  wm_Type :: string
  wm_Data :: json
  wm_ConfigVersion :: int

record TLSConfig =
  tls_ClientCertFile :: string
  tls_ClientKeyFile :: string
  tls_CAFiles :: "string list"
  tls_PKCS12File :: string

text \<open>A handler is a number; calling it is an event.\<close>

record ws_client =
  cl_conn :: "nat option"
  cl_config :: ws_config
  cl_baseURL :: string
  cl_handlers :: "(string, nat) gomap"
  cl_done :: bool
  cl_reconnectInterval :: int
  cl_isConnected :: bool
  cl_pingInterval :: int
  cl_pongWait :: int
  cl_onConnect :: bool
  cl_onTokenUpdate :: bool
  cl_clientType :: string
  cl_configFilePath :: string
  cl_tlsConfig :: TLSConfig
  cl_configNeedsSave :: bool
  cl_serverVersion :: string
  cl_configVersion :: int
  cl_processingMessage :: bool
  cl_justProvisioned :: bool
  cl_consecutiveFailures :: "32 word"

text \<open>The \<open>tls.Config\<close> of a request: certificates, the pool of root certificates, and whether verification is skipped.\<close>

record tls_config =
  tc_Certificates :: "string list"
  tc_RootCAs :: "string list option"
  tc_InsecureSkipVerify :: bool

definition emptyTLS :: tls_config where
  "emptyTLS = \<lparr>tc_Certificates = [], tc_RootCAs = None, tc_InsecureSkipVerify = False\<rparr>"

datatype ws_event =
    EConnAttempt string string
  | EConnError string string
  | EReconnect string
  | EWSReconnect string
  | EWSConnectLatency string string
  | EWSConnectionState bool
  | EWSMessage string string
  | EWSSessionDuration string
  | EWSDisconnect string string
  | EWSKeepaliveFailure string
  | EHttp string string
  | EOnToken string
  | EOnConnect
  | EHandler nat WSMessage
  | ELog LogLevel

text \<open>
  One websocket connection of the world: what was written to it, whether it was closed, its read deadline, and the channel
  \<open>connClosed\<close> made for it.
\<close>

record ws_conn =
  cn_out :: "WSMessage list"
  cn_closed :: bool
  cn_readDeadline :: instant
  cn_connClosed :: bool

text \<open>The dialer is the package variable \<open>websocket.DefaultDialer\<close>: its TLS configuration outlives a connection.\<close>

record ws_state =
  ws_cl :: ws_client
  ws_files :: "(string, string) gomap"
  ws_dialerTLS :: "tls_config option"
  ws_conns :: "ws_conn list"
  ws_events :: "ws_event list"

text \<open>A parsed URL: scheme, host and the text of \<open>String\<close>.\<close>

record url =
  url_Scheme :: string
  url_Host :: string
  url_String :: string

record ws_env =
  we_GOOS :: string
  we_Getenv :: "string \<Rightarrow> string"
  we_joinPath :: "string list \<Rightarrow> string"
  we_readErr :: "string \<Rightarrow> string option"
  we_writeErr :: "string \<Rightarrow> string option"
  we_parseJSON :: "string \<Rightarrow> string + json"
  we_MarshalIndent :: "(string \<times> json) list \<Rightarrow> string"
  we_ParseURL :: "string \<Rightarrow> string + url"
  we_withQuery :: "url \<Rightarrow> (string \<times> string) list \<Rightarrow> string"
  we_newRequestErr :: "string \<Rightarrow> string option"
  we_Do :: "tls_config option \<Rightarrow> string \<Rightarrow> string \<Rightarrow> string + (nat \<times> string)"
  we_LoadX509KeyPair :: "string \<Rightarrow> string \<Rightarrow> string + string"
  we_certsFromPEM :: "string \<Rightarrow> string list option"
  we_ParseCertificate :: "string \<Rightarrow> string + string"
  we_DecodeChain :: "string \<Rightarrow> string + (string \<times> string list)"
  we_SystemCertPool :: "string + string list"

definition upd_client :: "(ws_client \<Rightarrow> ws_client) \<Rightarrow> ws_state \<Rightarrow> ws_state" where
  "upd_client f w = w\<lparr>ws_cl := f (ws_cl w)\<rparr>"

definition emit :: "ws_event list \<Rightarrow> ws_state \<Rightarrow> ws_state" where
  "emit es w = w\<lparr>ws_events := ws_events w @ es\<rparr>"

lemma emit_simps [simp]:
  "ws_cl (emit es w) = ws_cl w" "ws_files (emit es w) = ws_files w" "ws_dialerTLS (emit es w) = ws_dialerTLS w"
  "ws_conns (emit es w) = ws_conns w" "ws_events (emit es w) = ws_events w @ es"
  by (simp_all add: emit_def)

lemma upd_client_simps [simp]:
  "ws_cl (upd_client f w) = f (ws_cl w)" "ws_files (upd_client f w) = ws_files w"
  "ws_dialerTLS (upd_client f w) = ws_dialerTLS w" "ws_conns (upd_client f w) = ws_conns w"
  "ws_events (upd_client f w) = ws_events w"
  by (simp_all add: upd_client_def)

section \<open>The configuration file\<close>

text \<open>\<open>os.ReadFile\<close>: an error of the system, a missing file, or the text.\<close>

datatype read_result = ReadErr string | ReadNotExist | ReadText string

definition ReadFile :: "ws_env \<Rightarrow> ws_state \<Rightarrow> string \<Rightarrow> read_result" where
  "ReadFile env w path = (case we_readErr env path of
     Some e \<Rightarrow> ReadErr e
   | None \<Rightarrow> (case map_of (ws_files w) path of None \<Rightarrow> ReadNotExist | Some t \<Rightarrow> ReadText t))"

definition WriteFile :: "ws_env \<Rightarrow> string \<Rightarrow> string \<Rightarrow> ws_state \<Rightarrow> string option \<times> ws_state" where
  "WriteFile env path t w = (case we_writeErr env path of
     Some e \<Rightarrow> (Some e, w)
   | None \<Rightarrow> (None, w\<lparr>ws_files := mput path t (ws_files w)\<rparr>))"

definition getConfigPath :: "ws_env \<Rightarrow> string \<Rightarrow> string \<Rightarrow> string" where
  "getConfigPath env clientType overridePath =
     (if overridePath \<noteq> [] then overridePath
      else let configFile = we_Getenv env ''CONFIG_FILE'' in
        if configFile = [] then
          (let configDir =
             (if we_GOOS env = ''darwin''
                then we_joinPath env [we_Getenv env ''HOME'', ''Library'', ''Application Support'', clientType @ ''-client'']
              else if we_GOOS env = ''windows''
                then we_joinPath env [we_joinPath env [we_Getenv env ''PROGRAMDATA'', ''olm''], clientType @ ''-client'']
              else we_joinPath env [we_Getenv env ''HOME'', ''.config'', clientType @ ''-client''])
           in we_joinPath env [configDir, ''config.json''])
        else configFile)"

definition configPath :: "ws_env \<Rightarrow> ws_client \<Rightarrow> string" where
  "configPath env c = getConfigPath env (cl_clientType c) (cl_configFilePath c)"

lemma configPath_upd [simp]:
  "configPath env (c\<lparr>cl_config := x\<rparr>) = configPath env c"
  "configPath env (c\<lparr>cl_configNeedsSave := b\<rparr>) = configPath env c"
  "configPath env (c\<lparr>cl_justProvisioned := b\<rparr>) = configPath env c"
  by (simp_all add: configPath_def)

definition loadConfig :: "ws_env \<Rightarrow> ws_state \<Rightarrow> string option \<times> ws_state" where
  "loadConfig env w = (case ReadFile env w (configPath env (ws_cl w)) of
     ReadNotExist \<Rightarrow> (None, upd_client (\<lambda>c. c\<lparr>cl_configNeedsSave := True\<rparr>) w)
   | ReadErr e \<Rightarrow> (Some e, w)
   | ReadText t \<Rightarrow>
       (None, if trim_space t = [] then upd_client (\<lambda>c. c\<lparr>cl_configNeedsSave := True\<rparr>) w else w))"

text \<open>
  \<open>json.Unmarshal\<close> into a map: the last occurrence of a key wins, null makes the map nil (None).
\<close>

definition unmarshalMap :: "ws_env \<Rightarrow> string \<Rightarrow> string + (string, json) gomap option" where
  "unmarshalMap env t = (case we_parseJSON env t of
     Inl e \<Rightarrow> Inl e
   | Inr JNull \<Rightarrow> Inr None
   | Inr (JObj fs) \<Rightarrow> Inr (Some (foldl (\<lambda>m (k, v). mput k v m) [] fs))
   | Inr _ \<Rightarrow> Inl ''json: cannot unmarshal into Go value of type map'')"

text \<open>The settings already in the file.\<close>

definition existingSettings :: "ws_env \<Rightarrow> ws_state \<Rightarrow> string \<Rightarrow> (string, json) gomap option" where
  "existingSettings env w path = (case ReadFile env w path of
     ReadText t \<Rightarrow>
       if trim_space t \<noteq> [] then (case unmarshalMap env t of Inl e \<Rightarrow> Some [] | Inr m \<Rightarrow> m) else Some []
   | _ \<Rightarrow> Some [])"

definition setOrDelete :: "string \<Rightarrow> string \<Rightarrow> (string, json) gomap \<Rightarrow> (string, json) gomap" where
  "setOrDelete key v m = (if v \<noteq> [] then mput key (JStr v) m else mdel key m)"

definition mergeSettings :: "ws_config \<Rightarrow> (string, json) gomap \<Rightarrow> (string, json) gomap" where
  "mergeSettings cfg m =
     setOrDelete ''name'' (wc_Name cfg)
       (setOrDelete ''provisioningKey'' (wc_ProvisioningKey cfg)
         (setOrDelete ''tlsClientCert'' (wc_TlsClientCert cfg)
           (mput ''endpoint'' (JStr (wc_Endpoint cfg))
             (mput ''secret'' (JStr (wc_Secret cfg))
               (mput ''id'' (JStr (wc_ID cfg)) m)))))"

text \<open>Writing into a nil map panics.\<close>

definition saveConfig :: "ws_env \<Rightarrow> ws_state \<Rightarrow> (string option \<times> ws_state) go_result" where
  "saveConfig env w =
     (let c = ws_cl w; path = configPath env c in
      if \<not> cl_configNeedsSave c then Ret (None, w)
      else case existingSettings env w path of
        None \<Rightarrow> Panic
      | Some existing \<Rightarrow>
          (case WriteFile env path (we_MarshalIndent env (mergeSettings (cl_config c) existing)) w of
             (Some e, w') \<Rightarrow> Ret (Some e, w')
           | (None, w') \<Rightarrow> Ret (None, upd_client (\<lambda>c. c\<lparr>cl_configNeedsSave := False\<rparr>) w')))"

section \<open>TLS\<close>

definition loadClientCertificate :: "ws_env \<Rightarrow> ws_state \<Rightarrow> string \<Rightarrow> string + tls_config" where
  "loadClientCertificate env w p12Path = (case ReadFile env w p12Path of
     ReadErr e \<Rightarrow> Inl (''failed to read PKCS12 file: '' @ e)
   | ReadNotExist \<Rightarrow> Inl ''failed to read PKCS12 file: no such file or directory''
   | ReadText p12Data \<Rightarrow>
       (case we_DecodeChain env p12Data of
          Inl e \<Rightarrow> Inl (''failed to decode PKCS12: '' @ e)
        | Inr (cert, caCerts) \<Rightarrow>
            (case we_SystemCertPool env of
               Inl e \<Rightarrow> Inl (''failed to load system cert pool: '' @ e)
             | Inr rootCAs \<Rightarrow>
                 Inr \<lparr>tc_Certificates = [cert], tc_RootCAs = Some (rootCAs @ caCerts), tc_InsecureSkipVerify = False\<rparr>)))"

primrec loadCAFiles :: "ws_env \<Rightarrow> ws_state \<Rightarrow> string list \<Rightarrow> string list \<Rightarrow> string + string list" where
  "loadCAFiles env w [] caCertPool = Inr caCertPool"
| "loadCAFiles env w (caFile # caFiles) caCertPool = (case ReadFile env w caFile of
     ReadErr e \<Rightarrow> Inl (''failed to read CA file '' @ caFile @ '': '' @ e)
   | ReadNotExist \<Rightarrow> Inl (''failed to read CA file '' @ caFile @ '': no such file or directory'')
   | ReadText caCert \<Rightarrow>
       (case we_certsFromPEM env caCert of
          Some certs \<Rightarrow> loadCAFiles env w caFiles (caCertPool @ certs)
        | None \<Rightarrow>
            (case we_ParseCertificate env caCert of
               Inl e \<Rightarrow> Inl (''failed to parse CA certificate from '' @ caFile @ '': '' @ e)
             | Inr cert \<Rightarrow> loadCAFiles env w caFiles (caCertPool @ [cert]))))"

definition setupPKCS12TLS :: "ws_env \<Rightarrow> ws_state \<Rightarrow> string + tls_config" where
  "setupPKCS12TLS env w = loadClientCertificate env w (tls_PKCS12File (cl_tlsConfig (ws_cl w)))"

definition setupTLS :: "ws_env \<Rightarrow> ws_state \<Rightarrow> string + tls_config option" where
  "setupTLS env w =
     (let c = ws_cl w; t = cl_tlsConfig c in
      if tls_ClientCertFile t \<noteq> [] \<and> tls_ClientKeyFile t \<noteq> [] then
        (case we_LoadX509KeyPair env (tls_ClientCertFile t) (tls_ClientKeyFile t) of
           Inl e \<Rightarrow> Inl (''failed to load client certificate pair: '' @ e)
         | Inr cert \<Rightarrow>
             if tls_CAFiles t \<noteq> [] then
               (case loadCAFiles env w (tls_CAFiles t) [] of
                  Inl e \<Rightarrow> Inl e
                | Inr caCertPool \<Rightarrow> Inr (Some (emptyTLS\<lparr>tc_Certificates := [cert], tc_RootCAs := Some caCertPool\<rparr>)))
             else Inr (Some (emptyTLS\<lparr>tc_Certificates := [cert]\<rparr>)))
      else if tls_PKCS12File t \<noteq> [] then map_sum id Some (setupPKCS12TLS env w)
      else if wc_TlsClientCert (cl_config c) \<noteq> [] then
        map_sum id Some (loadClientCertificate env w (wc_TlsClientCert (cl_config c)))
      else Inr None)"

definition emptyConfig :: ws_config where
  "emptyConfig = \<lparr>wc_ID = [], wc_Secret = [], wc_Endpoint = [], wc_TlsClientCert = [], wc_ProvisioningKey = [], wc_Name = [],
                  wc_Blocked = False\<rparr>"

text \<open>Some TLS option is set: the condition under which the requests and the dialer call \<open>setupTLS\<close>.\<close>

definition wantsTLS :: "TLSConfig \<Rightarrow> bool" where
  "wantsTLS t \<longleftrightarrow> tls_ClientCertFile t \<noteq> [] \<or> tls_ClientKeyFile t \<noteq> [] \<or> 0 < length (tls_CAFiles t) \<or> tls_PKCS12File t \<noteq> []"

definition skipVerify :: "ws_env \<Rightarrow> tls_config option \<Rightarrow> tls_config option" where
  "skipVerify env t =
     (if we_Getenv env ''SKIP_TLS_VERIFY'' = ''true''
      then Some ((case t of None \<Rightarrow> emptyTLS | Some t \<Rightarrow> t)\<lparr>tc_InsecureSkipVerify := True\<rparr>) else t)"

definition requestTLS :: "ws_env \<Rightarrow> ws_state \<Rightarrow> string + tls_config option" where
  "requestTLS env w = (case (if wantsTLS (cl_tlsConfig (ws_cl w)) then setupTLS env w else Inr None) of
     Inl e \<Rightarrow> Inl e | Inr t \<Rightarrow> Inr (skipVerify env t))"

section \<open>Provisioning\<close>

text \<open>
  The regular expression of \<open>interpolateString\<close>: two opening braces, one or more characters other than a closing brace, two closing
  braces.  The value is the text between the braces and the rest of the input.
\<close>

definition braceMatch :: "string \<Rightarrow> (string \<times> string) option" where
  "braceMatch s =
     (let inner = takeWhile (\<lambda>c. c \<noteq> CHR ''}'') (drop 2 s); rest = dropWhile (\<lambda>c. c \<noteq> CHR ''}'') (drop 2 s)
      in if has_prefix s ''{{'' \<and> inner \<noteq> [] \<and> has_prefix rest ''}}'' then Some (inner, drop 2 rest) else None)"

definition replaceToken :: "(string \<Rightarrow> string) \<Rightarrow> string \<Rightarrow> string" where
  "replaceToken getenv inner =
     (let name = trim_space inner in
      if has_prefix name ''env.'' then getenv (trim_prefix name ''env.'') else ''{{'' @ inner @ ''}}'')"

lemma braceMatch_length: "braceMatch s = Some (inner, rest) \<Longrightarrow> length rest < length s"
  by (auto simp: braceMatch_def Let_def has_prefix_def split: if_splits)
    (metis diff_less_mono2 diff_less length_dropWhile_le length_drop length_greater_0_conv less_le_trans
      le_less_trans diff_le_self list.size(3) take_eq_Nil2 not_gr_zero list.distinct(1) zero_less_numeral)

function interpolateString :: "(string \<Rightarrow> string) \<Rightarrow> string \<Rightarrow> string" where
  "interpolateString getenv [] = []"
| "interpolateString getenv (c # s) = (case braceMatch (c # s) of
     Some (inner, rest) \<Rightarrow> replaceToken getenv inner @ interpolateString getenv rest
   | None \<Rightarrow> c # interpolateString getenv s)"
  by pat_completeness auto

termination
  by (relation "measure (\<lambda>(g, s). length s)") (auto dest: braceMatch_length)

definition decodeProvisioning :: "json \<Rightarrow> ProvisioningResponse option" where
  "decodeProvisioning j = (case dec_object (Some j) of None \<Rightarrow> None | Some fs \<Rightarrow>
     (case (dec_object (json_field fs ''data''), dec_bool (json_field fs ''success''), dec_string (json_field fs ''message'')) of
        (Some d, Some ok, Some msg) \<Rightarrow>
          (case (dec_string (json_field d ''newtId''), dec_string (json_field d ''secret'')) of
             (Some i, Some s) \<Rightarrow> Some \<lparr>pr_NewtID = i, pr_Secret = s, pr_Success = ok, pr_Message = msg\<rparr>
           | _ \<Rightarrow> None)
      | _ \<Rightarrow> None))"

definition provisionBody :: "ws_env \<Rightarrow> ws_config \<Rightarrow> string" where
  "provisionBody env cfg =
     (let name = interpolateString (we_Getenv env) (wc_Name cfg) in
      json_text (JObj ((if name \<noteq> [] then [(''name'', JStr name)] else []) @
                       [(''provisioningKey'', JStr (wc_ProvisioningKey cfg))])))"

text \<open>The fields written after a successful exchange, then the file.\<close>

definition storeCredentials :: "ws_env \<Rightarrow> string \<Rightarrow> string \<Rightarrow> ws_state \<Rightarrow> ws_state go_result" where
  "storeCredentials env newtID secret w =
     go_bind (saveConfig env (upd_client (\<lambda>c. c\<lparr>
         cl_config := (cl_config c)\<lparr>wc_ID := newtID, wc_Secret := secret, wc_ProvisioningKey := [], wc_Name := []\<rparr>,
         cl_configNeedsSave := True, cl_justProvisioned := True\<rparr>) w))
       (\<lambda>(e, w). Ret w)"

definition provisionReply :: "ws_env \<Rightarrow> nat \<Rightarrow> string \<Rightarrow> ws_state \<Rightarrow> (string option \<times> ws_state) go_result" where
  "provisionReply env status body w =
     (if status < 200 \<or> 300 \<le> status
      then Ret (Some (''provisioning endpoint returned status '' @ itoa status @ '': '' @ body), w)
      else case we_parseJSON env body of
        Inl e \<Rightarrow> Ret (Some (''failed to decode provisioning response: '' @ e), w)
      | Inr j \<Rightarrow>
          (case decodeProvisioning j of
             None \<Rightarrow> Ret (Some ''failed to decode provisioning response: cannot unmarshal'', w)
           | Some r \<Rightarrow>
               if \<not> pr_Success r then Ret (Some (''provisioning failed: '' @ pr_Message r), w)
               else if pr_NewtID r = [] \<or> pr_Secret r = []
               then Ret (Some ''provisioning response is missing newt ID or secret'', w)
               else go_bind (storeCredentials env (pr_NewtID r) (pr_Secret r) w) (\<lambda>w. Ret (None, w))))"

definition provisionIfNeeded :: "ws_env \<Rightarrow> ws_state \<Rightarrow> (string option \<times> ws_state) go_result" where
  "provisionIfNeeded env w =
     (let c = ws_cl w; cfg = cl_config c in
      if wc_ProvisioningKey cfg = [] then Ret (None, w)
      else if wc_ID cfg \<noteq> [] \<and> wc_Secret cfg \<noteq> [] then Ret (None, w)
      else case we_ParseURL env (cl_baseURL c) of
        Inl e \<Rightarrow> Ret (Some (''failed to parse base URL for provisioning: '' @ e), w)
      | Inr baseURL \<Rightarrow>
          (let target = trim_right CHR ''/'' (url_String baseURL) @ ''/api/v1/auth/newt/register'' in
           case we_newRequestErr env target of
             Some e \<Rightarrow> Ret (Some (''failed to create provisioning request: '' @ e), w)
           | None \<Rightarrow>
               (case requestTLS env w of
                  Inl e \<Rightarrow> Ret (Some (''failed to setup TLS for provisioning: '' @ e), w)
                | Inr tls \<Rightarrow>
                    (let w = emit [EHttp target (provisionBody env cfg)] w in
                     case we_Do env tls target (provisionBody env cfg) of
                       Inl e \<Rightarrow> Ret (Some (''provisioning request failed: '' @ e), w)
                     | Inr (status, body) \<Rightarrow> provisionReply env status body w))))"

definition EnsureProvisioned :: "ws_env \<Rightarrow> ws_state \<Rightarrow> (string option \<times> ws_state) go_result" where
  "EnsureProvisioned env w = provisionIfNeeded env w"

definition WasJustProvisioned :: "ws_state \<Rightarrow> bool \<times> ws_state" where
  "WasJustProvisioned w = (cl_justProvisioned (ws_cl w), upd_client (\<lambda>c. c\<lparr>cl_justProvisioned := False\<rparr>) w)"

section \<open>The token\<close>

definition classifyConnError :: "string option \<Rightarrow> string" where
  "classifyConnError err = (case err of None \<Rightarrow> [] | Some e \<Rightarrow>
     (let msg = to_lower e in
      if str_contains msg ''tls'' \<or> str_contains msg ''certificate'' then ''tls_handshake''
      else if str_contains msg ''timeout'' \<or> str_contains msg ''i/o timeout'' \<or> str_contains msg ''deadline exceeded''
        then ''dial_timeout''
      else if str_contains msg ''unauthorized'' \<or> str_contains msg ''forbidden'' then ''auth_failed''
      else ''io_error''))"

definition decodeToken :: "json \<Rightarrow> TokenResponse option" where
  "decodeToken j = (case dec_object (Some j) of None \<Rightarrow> None | Some fs \<Rightarrow>
     (case (dec_object (json_field fs ''data''), dec_bool (json_field fs ''success''), dec_string (json_field fs ''message'')) of
        (Some d, Some ok, Some msg) \<Rightarrow>
          (case (dec_string (json_field d ''token''), dec_string (json_field d ''serverVersion'')) of
             (Some t, Some v) \<Rightarrow> Some \<lparr>tr_Token = t, tr_ServerVersion = v, tr_Success = ok, tr_Message = msg\<rparr>
           | _ \<Rightarrow> None)
      | _ \<Rightarrow> None))"

text \<open>The request body; for another client type the map stays nil and is written as null.\<close>

definition tokenBody :: "ws_client \<Rightarrow> string" where
  "tokenBody c = json_text
     (if cl_clientType c = ''newt'' then JObj [(''newtId'', JStr (wc_ID (cl_config c))), (''secret'', JStr (wc_Secret (cl_config c)))]
      else if cl_clientType c = ''olm'' then JObj [(''olmId'', JStr (wc_ID (cl_config c))), (''secret'', JStr (wc_Secret (cl_config c)))]
      else JNull)"

definition tokenReply :: "ws_env \<Rightarrow> nat \<Rightarrow> string \<Rightarrow> ws_state \<Rightarrow> (string + string) \<times> ws_state" where
  "tokenReply env status body w =
     (if status \<noteq> 200 then
        (let denied = (status = 401 \<or> status = 403) in
         (Inl (''failed to get token with status code: '' @ itoa status @ '', body: '' @ body),
          emit ([EConnAttempt ''auth'' ''failure'', EConnError ''auth'' (if denied then ''auth_failed'' else ''io_error'')] @
                (if denied then [EReconnect ''auth_error''] else [])) w))
      else case we_parseJSON env body of
        Inl e \<Rightarrow> (Inl (''failed to decode token response: '' @ e), w)
      | Inr j \<Rightarrow>
          (case decodeToken j of
             None \<Rightarrow> (Inl ''failed to decode token response: cannot unmarshal'', w)
           | Some r \<Rightarrow>
               if \<not> tr_Success r then (Inl (''failed to get token: '' @ tr_Message r), w)
               else if tr_Token r = [] then (Inl ''received empty token from server'', w)
               else (Inr (tr_Token r),
                     emit [EConnAttempt ''auth'' ''success''] (upd_client (\<lambda>c. c\<lparr>cl_serverVersion := tr_ServerVersion r\<rparr>) w))))"

definition getToken :: "ws_env \<Rightarrow> ws_state \<Rightarrow> (string + string) \<times> ws_state" where
  "getToken env w =
     (let c = ws_cl w in case we_ParseURL env (cl_baseURL c) of
        Inl e \<Rightarrow> (Inl (''failed to parse base URL: '' @ e), w)
      | Inr baseURL \<Rightarrow>
          (case requestTLS env w of
             Inl e \<Rightarrow> (Inl (''failed to setup TLS configuration: '' @ e), w)
           | Inr tls \<Rightarrow>
               (let target = trim_right CHR ''/'' (url_String baseURL) @ ''/api/v1/auth/'' @ cl_clientType c @ ''/get-token'' in
                case we_newRequestErr env target of
                  Some e \<Rightarrow> (Inl (''failed to create request: '' @ e), w)
                | None \<Rightarrow>
                    (let w = emit [EHttp target (tokenBody c)] w in
                     case we_Do env tls target (tokenBody c) of
                       Inl e \<Rightarrow> (Inl (''failed to request new token: '' @ e),
                                 emit [EConnAttempt ''auth'' ''failure'', EConnError ''auth'' (classifyConnError (Some e))] w)
                     | Inr (status, body) \<Rightarrow> tokenReply env status body w))))"

section \<open>The constructor\<close>

datatype ClientOption = WithBaseURL string | WithConfigFile string | WithTLSConfig TLSConfig

definition applyOption :: "ws_client \<Rightarrow> ClientOption \<Rightarrow> ws_client" where
  "applyOption c opt = (case opt of
     WithBaseURL u \<Rightarrow> c\<lparr>cl_baseURL := u\<rparr>
   | WithConfigFile p \<Rightarrow> c\<lparr>cl_configFilePath := p\<rparr>
   | WithTLSConfig t \<Rightarrow>
       (let c = c\<lparr>cl_tlsConfig := t\<rparr> in
        if tls_PKCS12File t \<noteq> [] then c\<lparr>cl_config := (cl_config c)\<lparr>wc_TlsClientCert := tls_PKCS12File t\<rparr>\<rparr> else c))"

definition noTLS :: TLSConfig where
  "noTLS = \<lparr>tls_ClientCertFile = [], tls_ClientKeyFile = [], tls_CAFiles = [], tls_PKCS12File = []\<rparr>"

definition freshClient :: "string \<Rightarrow> string \<Rightarrow> string \<Rightarrow> string \<Rightarrow> int \<Rightarrow> ws_client" where
  "freshClient clientType ident secret endpoint pingInterval =
     (let pongWait = wrap64 (pingInterval * 2) in
      \<lparr>cl_conn = None, cl_config = emptyConfig\<lparr>wc_ID := ident, wc_Secret := secret, wc_Endpoint := endpoint\<rparr>,
       cl_baseURL = endpoint, cl_handlers = [], cl_done = False, cl_reconnectInterval = 3 * second, cl_isConnected = False,
       cl_pingInterval = pingInterval, cl_pongWait = (if pongWait < 20 * second then 20 * second else pongWait),
       cl_onConnect = False, cl_onTokenUpdate = False, cl_clientType = clientType, cl_configFilePath = [], cl_tlsConfig = noTLS,
       cl_configNeedsSave = False, cl_serverVersion = [], cl_configVersion = 0, cl_processingMessage = False,
       cl_justProvisioned = False, cl_consecutiveFailures = 0\<rparr>)"

text \<open>The world the constructor runs in has files and a dialer, and no connection yet.\<close>

definition startState :: "ws_client \<Rightarrow> (string, string) gomap \<Rightarrow> tls_config option \<Rightarrow> ws_state" where
  "startState c files dialer = \<lparr>ws_cl = c, ws_files = files, ws_dialerTLS = dialer, ws_conns = [], ws_events = []\<rparr>"

definition NewClient ::
  "ws_env \<Rightarrow> (string, string) gomap \<Rightarrow> tls_config option \<Rightarrow> string \<Rightarrow> string \<Rightarrow> string \<Rightarrow> string \<Rightarrow> int \<Rightarrow>
   ClientOption option list \<Rightarrow> string + ws_state" where
  "NewClient env files dialer clientType ident secret endpoint pingInterval opts =
     (let c = foldl (\<lambda>c opt. case opt of None \<Rightarrow> c | Some opt \<Rightarrow> applyOption c opt)
                (freshClient clientType ident secret endpoint pingInterval) opts
      in case loadConfig env (startState c files dialer) of
           (Some e, w) \<Rightarrow> Inl (''failed to load config: '' @ e)
         | (None, w) \<Rightarrow> Inr w)"

text \<open>\<open>BuildTLSConfig\<close>: the TLS set-up of a client with nothing but the four options.\<close>

definition BuildTLSConfig ::
  "ws_env \<Rightarrow> (string, string) gomap \<Rightarrow> string \<Rightarrow> string \<Rightarrow> string list \<Rightarrow> string \<Rightarrow> string + tls_config option" where
  "BuildTLSConfig env files certFile keyFile caFiles pkcs12File =
     setupTLS env (startState ((freshClient [] [] [] [] 0)\<lparr>cl_tlsConfig :=
       \<lparr>tls_ClientCertFile = certFile, tls_ClientKeyFile = keyFile, tls_CAFiles = caFiles, tls_PKCS12File = pkcs12File\<rparr>\<rparr>) files None)"

section \<open>The file after a save\<close>

lemma map_of_setOrDelete [gomap_simps]:
  "map_of (setOrDelete k v m) x = (if x = k then (if v \<noteq> [] then Some (JStr v) else None) else map_of m x)"
  by (simp add: setOrDelete_def)

definition ownKeys :: "string list" where
  "ownKeys = [''id'', ''secret'', ''endpoint'', ''tlsClientCert'', ''provisioningKey'', ''name'']"

definition optional :: "string \<Rightarrow> json option" where
  "optional v = (if v \<noteq> [] then Some (JStr v) else None)"

definition holdsCredentials :: "ws_config \<Rightarrow> (string, json) gomap \<Rightarrow> bool" where
  "holdsCredentials cfg m \<longleftrightarrow>
     map_of m ''id'' = Some (JStr (wc_ID cfg)) \<and> map_of m ''secret'' = Some (JStr (wc_Secret cfg)) \<and>
     map_of m ''endpoint'' = Some (JStr (wc_Endpoint cfg)) \<and> map_of m ''tlsClientCert'' = optional (wc_TlsClientCert cfg) \<and>
     map_of m ''provisioningKey'' = optional (wc_ProvisioningKey cfg) \<and> map_of m ''name'' = optional (wc_Name cfg)"

lemma mergeSettings_holds: "holdsCredentials cfg (mergeSettings cfg m)"
  by (simp add: holdsCredentials_def mergeSettings_def map_of_setOrDelete optional_def)

lemma holdsCredentials_no_key:
  "holdsCredentials cfg m \<Longrightarrow> wc_ProvisioningKey cfg = [] \<Longrightarrow> map_of m ''provisioningKey'' = None"
  by (simp add: holdsCredentials_def optional_def)

lemma mergeSettings_others: "x \<notin> set ownKeys \<Longrightarrow> map_of (mergeSettings cfg m) x = map_of m x"
  by (simp add: mergeSettings_def map_of_setOrDelete ownKeys_def)

lemma mergeSettings_distinct: "distinct (mkeys m) \<Longrightarrow> distinct (mkeys (mergeSettings cfg m))"
  by (simp add: mergeSettings_def setOrDelete_def)

lemma foldl_mput_distinct: "distinct (mkeys m) \<Longrightarrow> distinct (mkeys (foldl (\<lambda>m (k, v). mput k v m) m fs))"
  by (induction fs arbitrary: m) auto

lemma map_of_foldl_mput:
  "distinct (mkeys fs) \<Longrightarrow> map_of (foldl (\<lambda>m (k, v). mput k v m) m fs) x = (case map_of fs x of None \<Rightarrow> map_of m x | Some v \<Rightarrow> Some v)"
proof (induction fs arbitrary: m)
  case (Cons a fs)
  obtain k v where a: "a = (k, v)" by (cases a)
  then have "map_of fs k = None" using Cons.prems by (simp add: map_of_eq_None_iff)
  then show ?case using Cons.IH [of "mput k v m"] Cons.prems a by (simp split: option.split)
qed simp

lemma existingSettings_distinct: "existingSettings env w path = Some m \<Longrightarrow> distinct (mkeys m)"
  by (auto simp: existingSettings_def unmarshalMap_def foldl_mput_distinct
      split: read_result.splits if_splits sum.splits json.splits)

text \<open>Reading the settings of a text that \<open>json.MarshalIndent\<close> wrote.\<close>

definition writesReadable :: "ws_env \<Rightarrow> (string, json) gomap \<Rightarrow> bool" where
  "writesReadable env m \<longleftrightarrow>
     trim_space (we_MarshalIndent env m) \<noteq> [] \<and> we_parseJSON env (we_MarshalIndent env m) = Inr (JObj m)"

definition sameSettings :: "(string, json) gomap \<Rightarrow> (string, json) gomap \<Rightarrow> bool" where
  "sameSettings m m' \<longleftrightarrow> (\<forall>x. map_of m x = map_of m' x)"

lemma existingSettings_written:
  assumes "writesReadable env m" "distinct (mkeys m)" "we_readErr env path = None"
  shows "\<exists>m'. existingSettings env (w\<lparr>ws_files := mput path (we_MarshalIndent env m) fs\<rparr>) path = Some m' \<and> sameSettings m' m"
  using assms
  by (auto simp: existingSettings_def ReadFile_def unmarshalMap_def writesReadable_def sameSettings_def map_of_foldl_mput
      split: option.split)

lemma ReadFile_files: "ws_files w = ws_files w' \<Longrightarrow> ReadFile env w = ReadFile env w'"
  unfolding ReadFile_def by (simp only:)

lemma existingSettings_files: "ws_files w = ws_files w' \<Longrightarrow> existingSettings env w path = existingSettings env w' path"
  by (simp add: existingSettings_def ReadFile_files [of w w'])

lemma saveConfig_writes:
  assumes "cl_configNeedsSave (ws_cl w)" "existingSettings env w (configPath env (ws_cl w)) = Some old"
    "we_writeErr env (configPath env (ws_cl w)) = None"
  shows "saveConfig env w = Ret (None, upd_client (\<lambda>c. c\<lparr>cl_configNeedsSave := False\<rparr>)
           (w\<lparr>ws_files := mput (configPath env (ws_cl w)) (we_MarshalIndent env (mergeSettings (cl_config (ws_cl w)) old)) (ws_files w)\<rparr>))"
  using assms by (simp add: saveConfig_def Let_def WriteFile_def)

lemma needsSave_same [simp]: "c\<lparr>cl_configNeedsSave := cl_configNeedsSave c\<rparr> = c"
  by (cases c) simp

lemma saveConfig_client:
  "saveConfig env w = Ret (e, w') \<Longrightarrow>
     ws_cl w' = (ws_cl w)\<lparr>cl_configNeedsSave := cl_configNeedsSave (ws_cl w')\<rparr> \<and> ws_conns w' = ws_conns w \<and> ws_events w' = ws_events w \<and>
     ws_dialerTLS w' = ws_dialerTLS w"
  by (auto simp: saveConfig_def Let_def WriteFile_def split: if_splits option.splits prod.splits)


section \<open>Provisioning happens once\<close>

lemma storeCredentials_result:
  "storeCredentials env i s w = Ret w' \<Longrightarrow>
     wc_ID (cl_config (ws_cl w')) = i \<and> wc_Secret (cl_config (ws_cl w')) = s \<and> wc_ProvisioningKey (cl_config (ws_cl w')) = [] \<and>
     cl_justProvisioned (ws_cl w') \<and> ws_conns w' = ws_conns w \<and> ws_events w' = ws_events w"
proof -
  assume "storeCredentials env i s w = Ret w'"
  then obtain e where e: "saveConfig env (upd_client (\<lambda>c. c\<lparr>
         cl_config := (cl_config c)\<lparr>wc_ID := i, wc_Secret := s, wc_ProvisioningKey := [], wc_Name := []\<rparr>,
         cl_configNeedsSave := True, cl_justProvisioned := True\<rparr>) w) = Ret (e, w')"
    by (auto simp: storeCredentials_def go_bind_eq_Ret)
  define b where "b = cl_configNeedsSave (ws_cl w')"
  show ?thesis using saveConfig_client [OF e, folded b_def] by simp
qed

definition provisioned :: "ws_state \<Rightarrow> bool" where
  "provisioned w \<longleftrightarrow> wc_ProvisioningKey (cl_config (ws_cl w)) = [] \<or>
     (wc_ID (cl_config (ws_cl w)) \<noteq> [] \<and> wc_Secret (cl_config (ws_cl w)) \<noteq> [])"

lemma provisionIfNeeded_skip: "provisioned w \<Longrightarrow> provisionIfNeeded env w = Ret (None, w)"
  by (auto simp: provisionIfNeeded_def provisioned_def Let_def)

lemma provisionReply_done:
  "provisionReply env status body w = Ret (None, w') \<Longrightarrow>
     wc_ID (cl_config (ws_cl w')) \<noteq> [] \<and> wc_Secret (cl_config (ws_cl w')) \<noteq> [] \<and> wc_ProvisioningKey (cl_config (ws_cl w')) = [] \<and>
     cl_justProvisioned (ws_cl w') \<and> ws_events w' = ws_events w"
  by (auto simp: provisionReply_def go_bind_eq_Ret split: if_splits sum.splits option.splits dest!: storeCredentials_result)

lemma provisionReply_saved:
  assumes "provisionReply env status body w = Ret (None, w')" "\<not> cl_configNeedsSave (ws_cl w')"
  shows "\<exists>m. map_of (ws_files w') (configPath env (ws_cl w')) = Some (we_MarshalIndent env m) \<and>
           holdsCredentials (cl_config (ws_cl w')) m"
proof -
  from assms(1) obtain i s where "storeCredentials env i s w = Ret w'"
    by (auto simp: provisionReply_def go_bind_eq_Ret split: if_splits sum.splits option.splits)
  then obtain e v where e: "saveConfig env v = Ret (e, w')" and v: "cl_configNeedsSave (ws_cl v)"
    by (auto simp: storeCredentials_def go_bind_eq_Ret)
  from e v assms(2) obtain old where
    w': "w' = upd_client (\<lambda>c. c\<lparr>cl_configNeedsSave := False\<rparr>) (v\<lparr>ws_files :=
           mput (configPath env (ws_cl v)) (we_MarshalIndent env (mergeSettings (cl_config (ws_cl v)) old)) (ws_files v)\<rparr>)"
    by (auto simp: saveConfig_def Let_def WriteFile_def split: option.splits)
  show ?thesis unfolding w' by (simp add: configPath_def mergeSettings_holds exI [of _ "mergeSettings (cl_config (ws_cl v)) old"])
qed

lemma provisionIfNeeded_cases:
  assumes "provisionIfNeeded env w = Ret (None, w')"
  obtains "provisioned w" "w' = w"
  | status body ev where "\<not> provisioned w" "provisionReply env status body (emit [ev] w) = Ret (None, w')"
  using assms
  by (auto simp: provisionIfNeeded_def provisioned_def Let_def split: if_splits sum.splits option.splits prod.splits)


section \<open>A file that holds null\<close>

lemma existingSettings_null:
  assumes "we_readErr env path = None" "map_of (ws_files w) path = Some t" "trim_space t \<noteq> []" "we_parseJSON env t = Inr JNull"
  shows "existingSettings env w path = None"
  using assms by (simp add: existingSettings_def ReadFile_def unmarshalMap_def)

text \<open>
  A configuration file whose text is the JSON value null stops the program.  \<open>loadConfig\<close> accepts such a file, but decoding null
  makes the map of settings nil, so the save after a successful provisioning exchange writes into a nil map: \<open>provisionIfNeeded\<close>
  panics after the one-time key was used and before the credentials were stored.
\<close>

theorem null_config_panics:
  assumes "we_readErr env (configPath env (ws_cl w)) = None" "map_of (ws_files w) (configPath env (ws_cl w)) = Some t"
    "trim_space t \<noteq> []" "we_parseJSON env t = Inr JNull"
    and "200 \<le> status" "status < 300" "we_parseJSON env body = Inr j" "decodeProvisioning j = Some r"
    "pr_Success r" "pr_NewtID r \<noteq> []" "pr_Secret r \<noteq> []"
  shows "fst (loadConfig env w) = None \<and> provisionReply env status body w = Panic"
proof -
  let ?w = "upd_client (\<lambda>c. c\<lparr>cl_config := (cl_config c)\<lparr>wc_ID := pr_NewtID r, wc_Secret := pr_Secret r, wc_ProvisioningKey := [],
      wc_Name := []\<rparr>, cl_configNeedsSave := True, cl_justProvisioned := True\<rparr>) w"
  have "existingSettings env ?w (configPath env (ws_cl w)) = None"
    using assms(1-4) by (intro existingSettings_null [where t = t]) simp_all
  then have "saveConfig env ?w = Panic" by (simp add: saveConfig_def Let_def)
  then have "storeCredentials env (pr_NewtID r) (pr_Secret r) w = Panic" by (simp add: storeCredentials_def)
  then have "provisionReply env status body w = Panic" using assms(5-) by (simp add: provisionReply_def)
  moreover have "fst (loadConfig env w) = None" using assms(1-3) by (simp add: loadConfig_def ReadFile_def)
  ultimately show ?thesis by simp
qed

section \<open>An example\<close>

text \<open>A client with a provisioning key and a configuration file with one setting of the user.\<close>

definition exSettings :: "(string, json) gomap" where
  "exSettings = [(''mtu'', JNum 1280), (''provisioningKey'', JStr ''k'')]"

definition exReply :: json where
  "exReply = JObj [(''data'', JObj [(''newtId'', JStr ''n''), (''secret'', JStr ''s'')]), (''success'', JBool True)]"

definition exConfig :: ws_config where
  "exConfig = emptyConfig\<lparr>wc_Endpoint := ''e'', wc_ProvisioningKey := ''k''\<rparr>"

definition exStored :: ws_config where
  "exStored = emptyConfig\<lparr>wc_Endpoint := ''e'', wc_ID := ''n'', wc_Secret := ''s''\<rparr>"

text \<open>
  The JSON package of the example knows the texts that occur: the settings are written as F or G, the reply is R, null is N.
\<close>

definition exWsEnv :: ws_env where
  "exWsEnv = \<lparr>we_GOOS = ''linux'', we_Getenv = (\<lambda>v. []), we_joinPath = join_with CHR ''/'', we_readErr = (\<lambda>p. None),
     we_writeErr = (\<lambda>p. None),
     we_parseJSON = (\<lambda>t. if t = ''F'' then Inr (JObj exSettings) else if t = ''G'' then Inr (JObj (mergeSettings exStored exSettings))
       else if t = ''R'' then Inr exReply else if t = ''N'' then Inr JNull else Inl ''invalid''),
     we_MarshalIndent = (\<lambda>m. if m = mergeSettings exStored exSettings then ''G'' else ''F''),
     we_ParseURL = (\<lambda>u. Inr \<lparr>url_Scheme = ''https'', url_Host = u, url_String = u\<rparr>), we_withQuery = (\<lambda>u q. url_String u),
     we_newRequestErr = (\<lambda>u. None), we_Do = (\<lambda>t u b. Inr (200, ''R'')), we_LoadX509KeyPair = (\<lambda>c k. Inl []),
     we_certsFromPEM = (\<lambda>t. None), we_ParseCertificate = (\<lambda>t. Inl []), we_DecodeChain = (\<lambda>t. Inl []), we_SystemCertPool = Inl []\<rparr>"

definition exWsState :: "string \<Rightarrow> ws_config \<Rightarrow> ws_state" where
  "exWsState t cfg = startState ((freshClient ''newt'' [] [] ''e'' (5 * second))\<lparr>cl_config := cfg, cl_configFilePath := ''p'',
     cl_configNeedsSave := True\<rparr>) [(''p'', t)] None"

lemma exConfigPath [simp]: "configPath exWsEnv (ws_cl (exWsState t cfg)) = ''p''"
  by (simp add: configPath_def getConfigPath_def exWsState_def startState_def freshClient_def Let_def)

lemma exExisting [simp]: "existingSettings exWsEnv (exWsState ''F'' cfg) ''p'' = Some exSettings"
  by (simp add: existingSettings_def ReadFile_def exWsEnv_def exWsState_def startState_def unmarshalMap_def exSettings_def
      trim_space_def is_space_def)


text \<open>The exchange of the example.\<close>

lemma exDecode: "decodeProvisioning exReply = Some \<lparr>pr_NewtID = ''n'', pr_Secret = ''s'', pr_Success = True, pr_Message = []\<rparr>"
  by (simp add: decodeProvisioning_def exReply_def dec_object_def json_field_def dec_bool_def dec_string_def to_lower_def
      lower_char_def)

lemma exProvision: "provisionIfNeeded exWsEnv (exWsState t exConfig) =
    provisionReply exWsEnv 200 ''R'' (emit [EHttp ''e/api/v1/auth/newt/register'' (provisionBody exWsEnv exConfig)] (exWsState t exConfig))"
  by (simp add: provisionIfNeeded_def exWsState_def startState_def freshClient_def Let_def exConfig_def emptyConfig_def
      requestTLS_def wantsTLS_def noTLS_def skipVerify_def exWsEnv_def trim_right_def)

lemma exStore: "\<exists>w'. provisionReply exWsEnv 200 ''R'' (emit es (exWsState ''F'' exConfig)) = Ret (None, w')"
proof -
  have r: "we_parseJSON exWsEnv ''R'' = Inr exReply" by (simp add: exWsEnv_def)
  have f: "existingSettings exWsEnv (upd_client f (emit es (exWsState ''F'' exConfig))) ''p'' = Some exSettings" for f
    using exExisting [of exConfig] by (subst existingSettings_files [of _ "exWsState ''F'' exConfig"]) simp_all
  have "we_writeErr exWsEnv ''p'' = None" by (simp add: exWsEnv_def)
  then show ?thesis by (simp add: provisionReply_def r exDecode storeCredentials_def saveConfig_def Let_def f WriteFile_def)
qed


theorem null_config_panics_witness:
  "provisionIfNeeded exWsEnv (exWsState ''N'' exConfig) = Panic"
proof -
  define w where "w = emit [EHttp ''e/api/v1/auth/newt/register'' (provisionBody exWsEnv exConfig)] (exWsState ''N'' exConfig)"
  have "provisionReply exWsEnv 200 ''R'' w = Panic"
    using null_config_panics [of exWsEnv w "''N''" 200 "''R''" exReply] exDecode
    by (simp add: w_def) (simp add: exWsEnv_def exWsState_def startState_def trim_space_def is_space_def)
  then show ?thesis by (simp add: exProvision w_def)
qed

end
