(* ===== verification/Websocket_Client.thy ===== *)
theory Websocket_Client
  imports Websocket_Config
begin

text \<open>
  The connection of the websocket client (\<open>websocket/client.go\<close>): connecting with retry, the ping monitor, the read pump, sending,
  and closing.

  Every goroutine is a program counter (\<open>ws_pc\<close>): \<open>Cn\<close> is \<open>connectWithRetry\<close>, \<open>Rp\<close> the read pump with its deferred
  function and \<open>reconnect\<close>, \<open>Pm\<close> the ping monitor, \<open>Sm\<close> a caller of \<open>SendMessage\<close>, \<open>Cl\<close> a caller of \<open>Close\<close>.  A step runs
  one goroutine up to the next point where other goroutines can be seen: a mutex, a channel, a field read without a lock, or I/O.  What
  the network answers in a step is its argument (\<open>conn_env\<close>).
\<close>

declare map_of_eq_Some_iff [simp del] Some_eq_map_of_iff [simp del]

section \<open>The outside\<close>

text \<open>An error of a read: its text, the code if it is a close frame, and whether it is a time-out.\<close>

record ws_error =
  er_Error :: string
  er_closeCode :: "nat option"
  er_Timeout :: bool

record conn_env =
  ce_env :: ws_env
  ce_now :: instant
  ce_dial :: "tls_config option \<Rightarrow> string \<Rightarrow> string option"
  ce_write :: "string option"
  ce_read :: "ws_error + (bool \<times> string)"
  ce_gunzip :: "string \<Rightarrow> string + string"

definition upd_conn :: "nat \<Rightarrow> (ws_conn \<Rightarrow> ws_conn) \<Rightarrow> ws_state \<Rightarrow> ws_state" where
  "upd_conn cid f w = w\<lparr>ws_conns := (ws_conns w)[cid := f (ws_conns w ! cid)]\<rparr>"

lemma upd_conn_simps [simp]:
  "ws_cl (upd_conn cid f w) = ws_cl w" "ws_files (upd_conn cid f w) = ws_files w"
  "ws_events (upd_conn cid f w) = ws_events w"
  "ws_conns (upd_conn cid f w) = (ws_conns w)[cid := f (ws_conns w ! cid)]"
  by (simp_all add: upd_conn_def)

text \<open>Writing to a connection and closing it; a closed connection refuses the write.\<close>

definition connWrite :: "conn_env \<Rightarrow> nat \<Rightarrow> WSMessage \<Rightarrow> ws_state \<Rightarrow> string option \<times> ws_state" where
  "connWrite ce cid msg w =
     (if cn_closed (ws_conns w ! cid) then (Some ''use of closed network connection'', w)
      else case ce_write ce of
        Some e \<Rightarrow> (Some e, w)
      | None \<Rightarrow> (None, upd_conn cid (\<lambda>c. c\<lparr>cn_out := cn_out c @ [msg]\<rparr>) w))"

definition connClose :: "nat \<Rightarrow> ws_state \<Rightarrow> ws_state" where
  "connClose cid w = upd_conn cid (\<lambda>c. c\<lparr>cn_closed := True\<rparr>) w"

definition extendDeadline :: "conn_env \<Rightarrow> nat \<Rightarrow> ws_state \<Rightarrow> ws_state" where
  "extendDeadline ce cid w = upd_conn cid (\<lambda>c. c\<lparr>cn_readDeadline := ce_now ce + cl_pongWait (ws_cl w)\<rparr>) w"

definition setConnected :: "bool \<Rightarrow> ws_state \<Rightarrow> ws_state" where
  "setConnected status w = upd_client (\<lambda>c. c\<lparr>cl_isConnected := status\<rparr>) w"

section \<open>Connecting\<close>

text \<open>The dialer's TLS configuration, the URL with its query, the dial.\<close>

definition dialTLS :: "ws_env \<Rightarrow> ws_state \<Rightarrow> string + ws_state" where
  "dialTLS env w = (case (if wantsTLS (cl_tlsConfig (ws_cl w))
                          then map_sum id (\<lambda>t. w\<lparr>ws_dialerTLS := t\<rparr>) (setupTLS env w) else Inr w) of
     Inl e \<Rightarrow> Inl e | Inr w \<Rightarrow> Inr (w\<lparr>ws_dialerTLS := skipVerify env (ws_dialerTLS w)\<rparr>))"

definition reconnectReason :: "string \<Rightarrow> string" where
  "reconnectReason etype =
     (if etype = ''tls_handshake'' then ''handshake_error'' else if etype = ''dial_timeout'' then ''timeout'' else ''error'')"

definition newConn :: ws_conn where
  "newConn = \<lparr>cn_out = [], cn_closed = False, cn_readDeadline = 0, cn_connClosed = False\<rparr>"

definition openSocket :: "conn_env \<Rightarrow> string \<Rightarrow> ws_state \<Rightarrow> (string + nat) \<times> ws_state" where
  "openSocket ce token w =
     (let env = ce_env ce; c = ws_cl w in case we_ParseURL env (cl_baseURL c) of
        Inl e \<Rightarrow> (Inl (''failed to parse base URL: '' @ e), w)
      | Inr baseURL \<Rightarrow>
          (let wsProtocol = (if url_Scheme baseURL = ''http'' then ''ws'' else ''wss'') in
           case we_ParseURL env (wsProtocol @ ''://'' @ url_Host baseURL @ ''/api/v1/ws'') of
             Inl e \<Rightarrow> (Inl (''failed to parse WebSocket URL: '' @ e), w)
           | Inr u \<Rightarrow>
               (case dialTLS env w of
                  Inl e \<Rightarrow> (Inl (''failed to setup TLS configuration: '' @ e), w)
                | Inr w \<Rightarrow>
                    (case ce_dial ce (ws_dialerTLS w) (we_withQuery env u [(''token'', token), (''clientType'', cl_clientType c)]) of
                       Some e \<Rightarrow>
                         (let etype = classifyConnError (Some e) in
                          (Inl (''failed to connect to WebSocket: '' @ e),
                           emit [EConnAttempt ''websocket'' ''failure'', EConnError ''websocket'' etype,
                                 EWSConnectLatency ''failure'' etype, EReconnect (reconnectReason etype), EWSReconnect etype] w))
                     | None \<Rightarrow> (Inr (length (ws_conns w)), w\<lparr>ws_conns := ws_conns w @ [newConn]\<rparr>)))))"

text \<open>\<open>establishConnection\<close> up to the open socket.\<close>

definition dialServer :: "conn_env \<Rightarrow> ws_state \<Rightarrow> ((string + nat) \<times> ws_state) go_result" where
  "dialServer ce w =
     go_bind (provisionIfNeeded (ce_env ce) w) (\<lambda>(err, w). case err of
       Some e \<Rightarrow> Ret (Inl (''failed to provision newt credentials: '' @ e), w)
     | None \<Rightarrow>
         (case getToken (ce_env ce) w of
            (Inl e, w) \<Rightarrow>
              Ret (Inl (''failed to get token: '' @ e),
                   emit [EConnAttempt ''websocket'' ''failure'', EConnError ''websocket'' (classifyConnError (Some e))] w)
          | (Inr token, w) \<Rightarrow>
              Ret (openSocket ce token (if cl_onTokenUpdate (ws_cl w) then emit [EOnToken token] w else w))))"

text \<open>The fields of the new connection and its read deadline.\<close>

definition armConn :: "conn_env \<Rightarrow> nat \<Rightarrow> ws_state \<Rightarrow> ws_state" where
  "armConn ce cid w =
     extendDeadline ce cid
       (emit [EConnAttempt ''websocket'' ''success'', EWSConnectLatency ''success'' [], EWSConnectionState True]
         (setConnected True (upd_client (\<lambda>c. c\<lparr>cl_conn := Some cid\<rparr>) w)))"

definition notifyConnect :: "conn_env \<Rightarrow> ws_state \<Rightarrow> ws_state go_result" where
  "notifyConnect ce w =
     (if cl_onConnect (ws_cl w) then go_bind (saveConfig (ce_env ce) w) (\<lambda>(e, w). Ret (emit [EOnConnect] w)) else Ret w)"

text \<open>The pong handler, which runs inside a read.\<close>

definition pongHandler :: "conn_env \<Rightarrow> nat \<Rightarrow> ws_state \<Rightarrow> ws_state" where
  "pongHandler ce cid w = emit [EWSMessage ''in'' ''pong''] (extendDeadline ce cid w)"

definition consecutiveFailureThreshold :: int where
  "consecutiveFailureThreshold = 3"

text \<open>A failed attempt is counted in a 32-bit integer; it is logged as an error from the third in a row on.\<close>

definition countFailure :: "ws_state \<Rightarrow> ws_state" where
  "countFailure w =
     (let n = cl_consecutiveFailures (ws_cl w) + 1 in
      emit [ELog (if sint n \<ge> consecutiveFailureThreshold then ERROR else DEBUG)]
        (upd_client (\<lambda>c. c\<lparr>cl_consecutiveFailures := n\<rparr>) w))"

section \<open>Goroutines\<close>

datatype ws_pc =
    CnTop | CnDial | CnArm nat | CnNotify | CnStore | CnDone | CnCrash
  | RpTop nat | RpRead nat | RpHandle nat nat WSMessage | RpExit nat string string
  | RpDecide string | RpDown | RpNil | RpRespawn | RpDone | RpCrash
  | PmPing nat bool | PmWrite nat bool int | PmFail nat bool | PmTicker nat | PmSelect nat | PmDone | PmCrash
  | SmCheck string json | SmWrite string json | SmDone "string option" | SmCrash
  | ClStart | ClSignal | ClDown | ClCheck | ClWrite | ClShut | ClDone | ClCrash

text \<open>The case a ready \<open>select\<close> of the ping monitor takes.\<close>

datatype ws_choice = WSelDone | WSelClosed | WSelTick

type_synonym ws_step = "(ws_pc \<times> ws_pc list \<times> ws_state) option"

definition connectWithRetry :: "conn_env \<Rightarrow> ws_pc \<Rightarrow> ws_state \<Rightarrow> ws_step" where
  "connectWithRetry ce pc w = (case pc of
     CnTop \<Rightarrow> Some (if cl_done (ws_cl w) then CnDone else CnDial, [], w)
   | CnDial \<Rightarrow>
       (case dialServer ce w of
          Panic \<Rightarrow> Some (CnCrash, [], w)
        | Ret (Inl e, w) \<Rightarrow> Some (CnTop, [], countFailure w)
        | Ret (Inr cid, w) \<Rightarrow> Some (CnArm cid, [], w))
   | CnArm cid \<Rightarrow> Some (CnNotify, [PmPing cid True, RpTop cid], armConn ce cid w)
   | CnNotify \<Rightarrow> (case notifyConnect ce w of Panic \<Rightarrow> Some (CnCrash, [], w) | Ret w \<Rightarrow> Some (CnStore, [], w))
   | CnStore \<Rightarrow> Some (CnDone, [], upd_client (\<lambda>c. c\<lparr>cl_consecutiveFailures := 0\<rparr>) w)
   | _ \<Rightarrow> None)"

definition IsUnexpectedCloseError :: "ws_error \<Rightarrow> nat list \<Rightarrow> bool" where
  "IsUnexpectedCloseError err expected = (case er_closeCode err of None \<Rightarrow> False | Some code \<Rightarrow> code \<notin> set expected)"

definition IsCloseError :: "ws_error \<Rightarrow> nat list \<Rightarrow> bool" where
  "IsCloseError err codes = (case er_closeCode err of None \<Rightarrow> False | Some code \<Rightarrow> code \<in> set codes)"

text \<open>Result and reason of a disconnect; 1000 is a normal closure, 1001 going away, 1006 an abnormal closure.\<close>

definition classifyWSDisconnect :: "ws_error option \<Rightarrow> string \<times> string" where
  "classifyWSDisconnect err = (case err of None \<Rightarrow> (''success'', ''normal'') | Some e \<Rightarrow>
     if IsCloseError e [1000] then (''success'', ''normal'')
     else if er_Timeout e then (''error'', ''timeout'')
     else if IsUnexpectedCloseError e [1001, 1006] then (''error'', ''unexpected_close'')
     else let msg = to_lower (er_Error e) in
       if str_contains msg ''eof'' then (''error'', ''eof'')
       else if str_contains msg ''reset'' then (''error'', ''connection_reset'')
       else (''error'', ''read_error''))"

definition decodeMessage :: "json \<Rightarrow> WSMessage option" where
  "decodeMessage j = (case dec_object (Some j) of None \<Rightarrow> None | Some fs \<Rightarrow>
     (case (dec_string (json_field fs ''type''), dec_int (json_field fs ''configVersion'')) of
        (Some t, Some v) \<Rightarrow> Some \<lparr>wm_Type = t, wm_Data = (case json_field fs ''data'' of None \<Rightarrow> JNull | Some d \<Rightarrow> d), wm_ConfigVersion = v\<rparr>
      | _ \<Rightarrow> None))"

definition setConfigVersion :: "int \<Rightarrow> ws_state \<Rightarrow> ws_state" where
  "setConfigVersion v w = upd_client (\<lambda>c. c\<lparr>cl_configVersion := v\<rparr>) w"

text \<open>
  The text of a frame as a message: a binary frame is decompressed first; a frame that cannot be read is skipped.
\<close>

definition readFrame :: "conn_env \<Rightarrow> bool \<Rightarrow> string \<Rightarrow> WSMessage option" where
  "readFrame ce binary p = (case (if binary then ce_gunzip ce p else Inr p) of
     Inl e \<Rightarrow> None
   | Inr data \<Rightarrow> (case we_parseJSON (ce_env ce) data of Inl e \<Rightarrow> None | Inr j \<Rightarrow> decodeMessage j))"

text \<open>Reading from a closed connection fails.\<close>

definition ReadMessage :: "conn_env \<Rightarrow> nat \<Rightarrow> ws_state \<Rightarrow> ws_error + (bool \<times> string)" where
  "ReadMessage ce cid w =
     (if cn_closed (ws_conns w ! cid)
      then Inl \<lparr>er_Error = ''use of closed network connection'', er_closeCode = None, er_Timeout = False\<rparr> else ce_read ce)"

text \<open>One read of the pump of connection \<open>own\<close> on the connection in the field.\<close>

definition pumpRead :: "conn_env \<Rightarrow> nat \<Rightarrow> ws_state \<Rightarrow> ws_pc \<times> ws_state" where
  "pumpRead ce own w = (case cl_conn (ws_cl w) of
     None \<Rightarrow> (RpCrash, w)
   | Some cid \<Rightarrow>
       (case ReadMessage ce cid w of
          Inl e \<Rightarrow>
            (if cl_done (ws_cl w) then (RpExit own ''success'' ''shutdown'', w)
             else (let (result, reason) = classifyWSDisconnect (Some e) in (RpExit own result reason, w)))
        | Inr (binary, p) \<Rightarrow>
            (let w = emit [EWSMessage ''in'' (if binary then ''binary'' else ''text'')] (extendDeadline ce cid w) in
             case readFrame ce binary p of
               None \<Rightarrow> (RpTop own, w)
             | Some msg \<Rightarrow>
                 (let w = setConfigVersion (wm_ConfigVersion msg) w in
                  case map_of (cl_handlers (ws_cl w)) (wm_Type msg) of
                    None \<Rightarrow> (RpTop own, w)
                  | Some h \<Rightarrow> (RpHandle own h msg, upd_client (\<lambda>c. c\<lparr>cl_processingMessage := True\<rparr>) w)))))"

text \<open>The deferred function of the pump up to its \<open>select\<close>: closing \<open>connClosed\<close> a second time would panic.\<close>

definition pumpExit :: "nat \<Rightarrow> string \<Rightarrow> string \<Rightarrow> ws_state \<Rightarrow> ws_pc \<times> ws_state" where
  "pumpExit own result reason w =
     (if cn_connClosed (ws_conns w ! own) then (RpCrash, w)
      else let w = upd_conn own (\<lambda>c. c\<lparr>cn_connClosed := True\<rparr>) w;
               w = (case cl_conn (ws_cl w) of None \<Rightarrow> w | Some cid \<Rightarrow> connClose cid w)
           in (RpDecide reason, emit [EWSSessionDuration result, EWSDisconnect reason result] w))"

definition readPump :: "conn_env \<Rightarrow> ws_pc \<Rightarrow> ws_state \<Rightarrow> ws_step" where
  "readPump ce pc w = (case pc of
     RpTop own \<Rightarrow> Some (if cl_done (ws_cl w) then RpExit own ''success'' ''shutdown'' else RpRead own, [], w)
   | RpRead own \<Rightarrow> (let (pc, w) = pumpRead ce own w in Some (pc, [], w))
   | RpHandle own h msg \<Rightarrow>
       Some (RpTop own, [], upd_client (\<lambda>c. c\<lparr>cl_processingMessage := False\<rparr>) (emit [EHandler h msg] w))
   | RpExit own result reason \<Rightarrow> (let (pc, w) = pumpExit own result reason w in Some (pc, [], w))
   | RpDecide reason \<Rightarrow>
       Some (if cl_done (ws_cl w) then (RpDone, [], w) else (RpDown, [], emit [EWSReconnect reason] w))
   | _ \<Rightarrow> None)"

text \<open>\<open>reconnect\<close>, which the deferred function calls.\<close>

definition reconnect :: "ws_pc \<Rightarrow> ws_state \<Rightarrow> ws_step" where
  "reconnect pc w = (case pc of
     RpDown \<Rightarrow> Some (RpNil, [], emit [EWSConnectionState False] (setConnected False w))
   | RpNil \<Rightarrow>
       Some (RpRespawn, [], case cl_conn (ws_cl w) of
         None \<Rightarrow> w | Some cid \<Rightarrow> upd_client (\<lambda>c. c\<lparr>cl_conn := None\<rparr>) (connClose cid w))
   | RpRespawn \<Rightarrow> Some (RpDone, if cl_done (ws_cl w) then [] else [CnTop], w)
   | _ \<Rightarrow> None)"

section \<open>Pings, messages, closing\<close>

text \<open>After a ping the monitor makes its ticker (the first time) or waits again.\<close>

definition afterPing :: "nat \<Rightarrow> bool \<Rightarrow> ws_pc" where
  "afterPing own fresh = (if fresh then PmTicker own else PmSelect own)"

definition sendPing :: "conn_env \<Rightarrow> ws_pc \<Rightarrow> ws_state \<Rightarrow> ws_step" where
  "sendPing ce pc w = (case pc of
     PmPing own fresh \<Rightarrow>
       Some (if cl_conn (ws_cl w) = None \<or> cl_processingMessage (ws_cl w) then afterPing own fresh
             else PmWrite own fresh (cl_configVersion (ws_cl w)), [], w)
   | PmWrite own fresh v \<Rightarrow>
       (case cl_conn (ws_cl w) of
          None \<Rightarrow> Some (afterPing own fresh, [], w)
        | Some cid \<Rightarrow>
            (case connWrite ce cid \<lparr>wm_Type = ''newt/ping'', wm_Data = JObj [], wm_ConfigVersion = v\<rparr> w of
               (Some e, w) \<Rightarrow> Some (PmFail own fresh, [], w)
             | (None, w) \<Rightarrow> Some (afterPing own fresh, [], emit [EWSMessage ''out'' ''ping''] w)))
   | PmFail own fresh \<Rightarrow>
       Some (afterPing own fresh, [],
             if cl_done (ws_cl w) then w
             else let w = emit [EWSKeepaliveFailure ''ping_write'', EWSReconnect ''ping_write''] w
                  in case cl_conn (ws_cl w) of None \<Rightarrow> w | Some cid \<Rightarrow> connClose cid w)
   | _ \<Rightarrow> None)"

text \<open>\<open>time.NewTicker\<close> panics on an interval that is not positive.\<close>

definition pingMonitor :: "ws_choice \<Rightarrow> ws_pc \<Rightarrow> ws_state \<Rightarrow> ws_step" where
  "pingMonitor choice pc w = (case pc of
     PmTicker own \<Rightarrow> Some (if cl_pingInterval (ws_cl w) \<le> 0 then PmCrash else PmSelect own, [], w)
   | PmSelect own \<Rightarrow>
       (case choice of
          WSelDone \<Rightarrow> if cl_done (ws_cl w) then Some (PmDone, [], w) else None
        | WSelClosed \<Rightarrow> if cn_connClosed (ws_conns w ! own) then Some (PmDone, [], w) else None
        | WSelTick \<Rightarrow> Some (PmPing own False, [], w))
   | _ \<Rightarrow> None)"

text \<open>
  \<open>SendMessage\<close>: the field is tested first and read again under the write mutex, where a nil pointer would be dereferenced.
\<close>

definition sendStep :: "conn_env \<Rightarrow> ws_pc \<Rightarrow> ws_state \<Rightarrow> ws_step" where
  "sendStep ce pc w = (case pc of
     SmCheck ty data \<Rightarrow> Some (if cl_conn (ws_cl w) = None then SmDone (Some ''not connected'') else SmWrite ty data, [], w)
   | SmWrite ty data \<Rightarrow>
       (case cl_conn (ws_cl w) of
          None \<Rightarrow> Some (SmCrash, [], w)
        | Some cid \<Rightarrow>
            (case connWrite ce cid \<lparr>wm_Type = ty, wm_Data = data, wm_ConfigVersion = 0\<rparr> w of
               (Some e, w) \<Rightarrow> Some (SmDone (Some e), [], w)
             | (None, w) \<Rightarrow> Some (SmDone None, [], emit [EWSMessage ''out'' ''text''] w)))
   | _ \<Rightarrow> None)"

definition closeStep :: "ws_pc \<Rightarrow> ws_state \<Rightarrow> ws_step" where
  "closeStep pc w = (case pc of
     ClStart \<Rightarrow> Some (if cl_done (ws_cl w) then ClDone else ClSignal, [], w)
   | ClSignal \<Rightarrow>
       Some (if cl_done (ws_cl w) then (ClCrash, [], w) else (ClDown, [], upd_client (\<lambda>c. c\<lparr>cl_done := True\<rparr>) w))
   | ClDown \<Rightarrow> Some (ClCheck, [], emit [EWSConnectionState False] (setConnected False w))
   | ClCheck \<Rightarrow> Some (if cl_conn (ws_cl w) \<noteq> None then ClWrite else ClDone, [], w)
   | ClWrite \<Rightarrow> Some (if cl_conn (ws_cl w) = None then ClCrash else ClShut, [], w)
   | ClShut \<Rightarrow>
       Some (case cl_conn (ws_cl w) of None \<Rightarrow> (ClCrash, [], w) | Some cid \<Rightarrow> (ClDone, [], connClose cid w))
   | _ \<Rightarrow> None)"

definition routineStep :: "conn_env \<Rightarrow> ws_choice \<Rightarrow> ws_pc \<Rightarrow> ws_state \<Rightarrow> ws_step" where
  "routineStep ce choice pc w = (case connectWithRetry ce pc w of Some r \<Rightarrow> Some r
   | None \<Rightarrow> (case readPump ce pc w of Some r \<Rightarrow> Some r
   | None \<Rightarrow> (case reconnect pc w of Some r \<Rightarrow> Some r
   | None \<Rightarrow> (case sendPing ce pc w of Some r \<Rightarrow> Some r
   | None \<Rightarrow> (case pingMonitor choice pc w of Some r \<Rightarrow> Some r
   | None \<Rightarrow> (case sendStep ce pc w of Some r \<Rightarrow> Some r
   | None \<Rightarrow> closeStep pc w))))))"

section \<open>Runs\<close>

record ws_world =
  ww_state :: ws_state
  ww_routines :: "ws_pc list"

text \<open>One step of goroutine \<open>i\<close>.\<close>

definition wsGo :: "nat \<times> conn_env \<times> ws_choice \<Rightarrow> ws_world \<Rightarrow> ws_world option" where
  "wsGo = (\<lambda>(i, ce, choice) W.
     if i < length (ww_routines W) then
       (case routineStep ce choice (ww_routines W ! i) (ww_state W) of
          None \<Rightarrow> None
        | Some (pc, new, w) \<Rightarrow> Some \<lparr>ww_state = w, ww_routines = (ww_routines W)[i := pc] @ new\<rparr>)
     else None)"

primrec wsRun :: "(nat \<times> conn_env \<times> ws_choice) list \<Rightarrow> ws_world \<Rightarrow> ws_world option" where
  "wsRun [] W = Some W"
| "wsRun (l # ls) W = (case wsGo l W of None \<Rightarrow> None | Some W \<Rightarrow> wsRun ls W)"

text \<open>\<open>Connect\<close>, and the calls that may come from outside at any time.\<close>

definition spawn :: "ws_pc \<Rightarrow> ws_world \<Rightarrow> ws_world" where
  "spawn pc W = W\<lparr>ww_routines := ww_routines W @ [pc]\<rparr>"

definition Connect :: "ws_world \<Rightarrow> ws_world" where
  "Connect W = spawn CnTop W"

definition RegisterHandler :: "string \<Rightarrow> nat \<Rightarrow> ws_state \<Rightarrow> ws_state" where
  "RegisterHandler messageType h w = upd_client (\<lambda>c. c\<lparr>cl_handlers := mput messageType h (cl_handlers c)\<rparr>) w"

definition OnConnect :: "ws_state \<Rightarrow> ws_state" where
  "OnConnect w = upd_client (\<lambda>c. c\<lparr>cl_onConnect := True\<rparr>) w"

definition OnTokenUpdate :: "ws_state \<Rightarrow> ws_state" where
  "OnTokenUpdate w = upd_client (\<lambda>c. c\<lparr>cl_onTokenUpdate := True\<rparr>) w"

datatype ws_call = CSend string json | CClose | CRegister string nat | COnConnect | COnTokenUpdate | CPong conn_env nat | CWasJustProvisioned

definition wsCall :: "ws_call \<Rightarrow> ws_world \<Rightarrow> ws_world" where
  "wsCall call W = (case call of
     CSend ty data \<Rightarrow> spawn (SmCheck ty data) W
   | CClose \<Rightarrow> spawn ClStart W
   | CRegister ty h \<Rightarrow> W\<lparr>ww_state := RegisterHandler ty h (ww_state W)\<rparr>
   | COnConnect \<Rightarrow> W\<lparr>ww_state := OnConnect (ww_state W)\<rparr>
   | COnTokenUpdate \<Rightarrow> W\<lparr>ww_state := OnTokenUpdate (ww_state W)\<rparr>
   | CPong ce cid \<Rightarrow> W\<lparr>ww_state := pongHandler ce cid (ww_state W)\<rparr>
   | CWasJustProvisioned \<Rightarrow> W\<lparr>ww_state := snd (WasJustProvisioned (ww_state W))\<rparr>)"

text \<open>
  The worlds after one \<open>Connect\<close> on a new client, any calls, and any interleaving of the goroutines.
\<close>

inductive ws_reach :: "ws_world \<Rightarrow> bool" where
  ws_reach_connect: "NewClient env files dialer clientType ident secret endpoint pingInterval opts = Inr w \<Longrightarrow>
     ws_reach (Connect \<lparr>ww_state = w, ww_routines = []\<rparr>)"
| ws_reach_call: "ws_reach W \<Longrightarrow> ws_reach (wsCall call W)"
| ws_reach_go: "ws_reach W \<Longrightarrow> wsGo l W = Some W' \<Longrightarrow> ws_reach W'"

section \<open>One owner of the connection\<close>

lemma routineStep_simps [simp]:
  "routineStep ce ch CnTop w = connectWithRetry ce CnTop w" "routineStep ce ch CnDial w = connectWithRetry ce CnDial w"
  "routineStep ce ch (CnArm i) w = connectWithRetry ce (CnArm i) w" "routineStep ce ch CnNotify w = connectWithRetry ce CnNotify w"
  "routineStep ce ch CnStore w = connectWithRetry ce CnStore w"
  "routineStep ce ch (RpTop i) w = readPump ce (RpTop i) w" "routineStep ce ch (RpRead i) w = readPump ce (RpRead i) w"
  "routineStep ce ch (RpHandle i h m) w = readPump ce (RpHandle i h m) w"
  "routineStep ce ch (RpExit i s t) w = readPump ce (RpExit i s t) w" "routineStep ce ch (RpDecide s) w = readPump ce (RpDecide s) w"
  "routineStep ce ch RpDown w = reconnect RpDown w" "routineStep ce ch RpNil w = reconnect RpNil w"
  "routineStep ce ch RpRespawn w = reconnect RpRespawn w"
  "routineStep ce ch (PmPing i b) w = sendPing ce (PmPing i b) w" "routineStep ce ch (PmWrite i b v) w = sendPing ce (PmWrite i b v) w"
  "routineStep ce ch (PmFail i b) w = sendPing ce (PmFail i b) w" "routineStep ce ch (PmTicker i) w = pingMonitor ch (PmTicker i) w"
  "routineStep ce ch (PmSelect i) w = pingMonitor ch (PmSelect i) w"
  "routineStep ce ch (SmCheck t d) w = sendStep ce (SmCheck t d) w" "routineStep ce ch (SmWrite t d) w = sendStep ce (SmWrite t d) w"
  "routineStep ce ch ClStart w = closeStep ClStart w" "routineStep ce ch ClSignal w = closeStep ClSignal w"
  "routineStep ce ch ClDown w = closeStep ClDown w" "routineStep ce ch ClCheck w = closeStep ClCheck w"
  "routineStep ce ch ClWrite w = closeStep ClWrite w" "routineStep ce ch ClShut w = closeStep ClShut w"
  "routineStep ce ch CnDone w = None" "routineStep ce ch CnCrash w = None" "routineStep ce ch RpDone w = None"
  "routineStep ce ch RpCrash w = None" "routineStep ce ch PmDone w = None" "routineStep ce ch PmCrash w = None"
  "routineStep ce ch (SmDone r) w = None" "routineStep ce ch SmCrash w = None" "routineStep ce ch ClDone w = None"
  "routineStep ce ch ClCrash w = None"
  by (simp_all add: routineStep_def connectWithRetry_def readPump_def reconnect_def sendPing_def pingMonitor_def sendStep_def
      closeStep_def split: go_result.split prod.split sum.split option.split)

text \<open>
  The connector until it has started the pump, and the pump until it has started the next connector, own the connection.
\<close>

fun owner :: "ws_pc \<Rightarrow> bool" where
  "owner CnTop = True" | "owner CnDial = True" | "owner (CnArm i) = True" | "owner (RpTop i) = True" | "owner (RpRead i) = True"
| "owner (RpHandle i h m) = True" | "owner (RpExit i s t) = True" | "owner (RpDecide s) = True" | "owner RpDown = True"
| "owner RpNil = True" | "owner RpRespawn = True" | "owner _ = False"

text \<open>The connections whose channel \<open>connClosed\<close> is open.\<close>

definition openChans :: "ws_state \<Rightarrow> nat set" where
  "openChans w = {i. i < length (ws_conns w) \<and> \<not> cn_connClosed (ws_conns w ! i)}"

fun ownerOk :: "ws_pc \<Rightarrow> ws_state \<Rightarrow> bool" where
  "ownerOk (CnArm i) w = (openChans w = {i})"
| "ownerOk (RpTop i) w = (openChans w = {i} \<and> cl_conn (ws_cl w) = Some i)"
| "ownerOk (RpRead i) w = (openChans w = {i} \<and> cl_conn (ws_cl w) = Some i)"
| "ownerOk (RpHandle i h m) w = (openChans w = {i} \<and> cl_conn (ws_cl w) = Some i)"
| "ownerOk (RpExit i s t) w = (openChans w = {i} \<and> cl_conn (ws_cl w) = Some i)"
| "ownerOk _ w = (openChans w = {})"

definition ownersOk :: "ws_pc list \<Rightarrow> ws_state \<Rightarrow> bool" where
  "ownersOk os w = (case os of [] \<Rightarrow> openChans w = {} | [pc] \<Rightarrow> ownerOk pc w | _ \<Rightarrow> False)"

text \<open>What only the owner changes: the field \<open>conn\<close>, the connections and their channels.\<close>

definition frame :: "ws_state \<Rightarrow> ws_state \<Rightarrow> bool" where
  "frame w w' \<longleftrightarrow> cl_conn (ws_cl w') = cl_conn (ws_cl w) \<and> map cn_connClosed (ws_conns w') = map cn_connClosed (ws_conns w) \<and>
     (cl_done (ws_cl w) \<longrightarrow> cl_done (ws_cl w'))"

named_theorems frames "state changes that leave the connection to its owner"

lemma frame_refl [frames, simp]: "frame w w"
  by (simp add: frame_def)

lemma frame_trans [trans]: "frame w w' \<Longrightarrow> frame w' w'' \<Longrightarrow> frame w w''"
  by (simp add: frame_def)

lemma frame_emit [frames]: "frame w w' \<Longrightarrow> frame w (emit es w')"
  by (simp add: frame_def)

lemma frame_upd_client [frames]:
  "cl_conn (f (ws_cl w')) = cl_conn (ws_cl w') \<Longrightarrow> cl_done (ws_cl w') \<longrightarrow> cl_done (f (ws_cl w')) \<Longrightarrow> frame w w' \<Longrightarrow>
     frame w (upd_client f w')"
  by (simp add: frame_def)

lemma map_update_same: "(\<And>c. g (f c) = g c) \<Longrightarrow> map g (xs[i := f (xs ! i)]) = map g xs"
  by (cases "i < length xs") (simp_all add: map_update list_update_same_conv list_update_beyond)

lemma frame_upd_conn [frames]: "(\<And>c. cn_connClosed (f c) = cn_connClosed c) \<Longrightarrow> frame w w' \<Longrightarrow> frame w (upd_conn i f w')"
  by (simp add: frame_def map_update_same)

lemma frame_connClose [frames]: "frame w w' \<Longrightarrow> frame w (connClose i w')"
  by (simp add: connClose_def frames)

lemma frame_extend [frames]: "frame w w' \<Longrightarrow> frame w (extendDeadline ce i w')"
  by (simp add: extendDeadline_def frames)

lemma frame_setConnected [frames]: "frame w w' \<Longrightarrow> frame w (setConnected b w')"
  by (simp add: setConnected_def frames)

lemma frame_connWrite: "connWrite ce i msg w = (e, w') \<Longrightarrow> frame w w'"
  by (auto simp: connWrite_def frames split: if_splits option.splits)

lemma frame_saveConfig: "saveConfig env w = Ret (e, w') \<Longrightarrow> frame w w'"
proof -
  assume a: "saveConfig env w = Ret (e, w')"
  define b where "b = cl_configNeedsSave (ws_cl w')"
  show ?thesis using saveConfig_client [OF a, folded b_def] by (simp add: frame_def)
qed

lemma frame_notify: "notifyConnect ce w = Ret w' \<Longrightarrow> frame w w'"
  by (auto simp: notifyConnect_def go_bind_eq_Ret frames dest!: frame_saveConfig split: if_splits)

lemma frame_provision: "provisionIfNeeded env w = Ret (e, w') \<Longrightarrow> frame w w'"
proof -
  assume "provisionIfNeeded env w = Ret (e, w')"
  moreover have st: "storeCredentials env i s v = Ret w' \<Longrightarrow> frame v w'" for i s v
    by (auto simp: storeCredentials_def go_bind_eq_Ret dest!: frame_saveConfig) (simp add: frame_def)
  moreover have "provisionReply env status body v = Ret (e, w') \<Longrightarrow> frame v w'" for status body v
    by (auto simp: provisionReply_def go_bind_eq_Ret dest!: st split: if_splits sum.splits option.splits)
  ultimately show ?thesis
    by (auto simp: provisionIfNeeded_def Let_def frame_def split: if_splits sum.splits option.splits prod.splits)
qed

lemma frame_getToken: "getToken env w = (r, w') \<Longrightarrow> frame w w'"
  by (auto simp: getToken_def tokenReply_def Let_def frames split: if_splits sum.splits option.splits prod.splits)

lemma openChans_frame: "frame w w' \<Longrightarrow> openChans w' = openChans w"
proof -
  assume f: "frame w w'"
  then have "length (ws_conns w') = length (ws_conns w)" unfolding frame_def by (metis length_map)
  moreover have "cn_connClosed (ws_conns w' ! i) = cn_connClosed (ws_conns w ! i)" if "i < length (ws_conns w)" for i
    using f that calculation unfolding frame_def by (metis nth_map)
  ultimately show ?thesis by (auto simp: openChans_def)
qed

lemma frame_conn: "frame w w' \<Longrightarrow> cl_conn (ws_cl w') = cl_conn (ws_cl w)"
  by (simp add: frame_def)

lemma ownerOk_frame: "frame w w' \<Longrightarrow> ownerOk pc w \<Longrightarrow> ownerOk pc w'"
  by (cases pc) (simp_all add: openChans_frame frame_conn)

lemma ownersOk_frame: "frame w w' \<Longrightarrow> ownersOk os w \<Longrightarrow> ownersOk os w'"
  by (auto simp: ownersOk_def openChans_frame ownerOk_frame split: list.splits)

lemma owner_afterPing [simp]: "\<not> owner (afterPing i b)" "afterPing i b \<noteq> RpCrash"
  by (simp_all add: afterPing_def)

lemma sendPing_frame:
  assumes "sendPing ce pc w = Some (pc', new, w')"
  shows "\<not> owner pc' \<and> new = [] \<and> frame w w' \<and> pc' \<noteq> RpCrash"
proof (cases pc)
  case (PmPing i b)
  then show ?thesis using assms by (auto simp: sendPing_def split: if_splits)
next
  case (PmWrite i b v)
  show ?thesis
  proof (cases "cl_conn (ws_cl w)")
    case (Some cid)
    obtain e u where c: "connWrite ce cid \<lparr>wm_Type = ''newt/ping'', wm_Data = JObj [], wm_ConfigVersion = v\<rparr> w = (e, u)"
      by (metis surj_pair)
    have "frame w u" by (rule frame_connWrite [OF c])
    then show ?thesis using assms PmWrite Some c by (cases e) (auto simp: sendPing_def frame_emit)
  qed (use assms PmWrite in \<open>auto simp: sendPing_def\<close>)
next
  case (PmFail i b)
  then show ?thesis using assms
    by (cases "cl_conn (ws_cl w)") (auto simp: sendPing_def Let_def frame_connClose frame_emit split: if_splits)
qed (use assms in \<open>simp_all add: sendPing_def\<close>)

lemma sendStep_frame:
  assumes "sendStep ce pc w = Some (pc', new, w')"
  shows "\<not> owner pc' \<and> new = [] \<and> frame w w' \<and> pc' \<noteq> RpCrash"
proof (cases pc)
  case (SmCheck t d)
  then show ?thesis using assms by (auto simp: sendStep_def split: if_splits)
next
  case (SmWrite t d)
  show ?thesis
  proof (cases "cl_conn (ws_cl w)")
    case (Some cid)
    obtain e u where c: "connWrite ce cid \<lparr>wm_Type = t, wm_Data = d, wm_ConfigVersion = 0\<rparr> w = (e, u)" by (metis surj_pair)
    have "frame w u" by (rule frame_connWrite [OF c])
    then show ?thesis using assms SmWrite Some c by (cases e) (auto simp: sendStep_def frame_emit)
  qed (use assms SmWrite in \<open>auto simp: sendStep_def\<close>)
qed (use assms in \<open>simp_all add: sendStep_def\<close>)

lemma closeStep_frame:
  assumes "closeStep pc w = Some (pc', new, w')"
  shows "\<not> owner pc' \<and> new = [] \<and> frame w w' \<and> pc' \<noteq> RpCrash"
  using assms
  by (cases pc; cases "cl_conn (ws_cl w)")
    (auto simp: closeStep_def frame_emit frame_setConnected frame_connClose frame_upd_client split: if_splits)

lemma owner_step_frame:
  assumes "routineStep ce ch pc w = Some (pc', new, w')" "\<not> owner pc"
  shows "\<not> owner pc' \<and> new = [] \<and> frame w w' \<and> pc' \<noteq> RpCrash"
proof (cases pc)
  case CnNotify
  then show ?thesis using assms by (auto simp: connectWithRetry_def dest!: frame_notify split: go_result.splits)
next
  case CnStore
  then show ?thesis using assms by (auto simp: connectWithRetry_def frame_upd_client)
next
  case (PmTicker i)
  then show ?thesis using assms by (auto simp: pingMonitor_def split: if_splits)
next
  case (PmSelect i)
  then show ?thesis using assms by (auto simp: pingMonitor_def split: ws_choice.splits if_splits)
qed (use assms in \<open>simp_all add: sendPing_frame sendStep_frame closeStep_frame\<close>)

lemma frame_dialTLS: "dialTLS env w = Inr w' \<Longrightarrow> frame w w'"
  by (cases "setupTLS env w") (auto simp: dialTLS_def frame_def split: if_splits)

lemma dialServer_cases:
  assumes "dialServer ce w = Ret (r, w')"
  obtains e where "r = Inl e" "frame w w'"
  | v where "frame w v" "r = Inr (length (ws_conns v))" "w' = v\<lparr>ws_conns := ws_conns v @ [newConn]\<rparr>"
proof -
  have os: "(\<exists>e. r = Inl e) \<and> frame v w' \<or>
      (\<exists>u. frame v u \<and> r = Inr (length (ws_conns u)) \<and> w' = u\<lparr>ws_conns := ws_conns u @ [newConn]\<rparr>)"
    if "openSocket ce token v = (r, w')" for token v
    using that by (auto simp: openSocket_def Let_def frames frame_emit split: sum.splits option.splits prod.splits dest!: frame_dialTLS)
  obtain err u where u: "provisionIfNeeded (ce_env ce) w = Ret (err, u)" "frame w u"
    using assms frame_provision by (fastforce simp: dialServer_def go_bind_eq_Ret)
  show ?thesis
  proof (cases err)
    case (Some e)
    then show ?thesis using assms u that(1) by (auto simp: dialServer_def)
  next
    case None
    obtain q v where v: "getToken (ce_env ce) u = (q, v)" "frame u v" using frame_getToken by (metis surj_pair)
    show ?thesis
    proof (cases q)
      case (Inl e)
      then show ?thesis using assms u v None that(1) frame_trans [OF u(2) v(2)] by (auto simp: dialServer_def frames)
    next
      case (Inr token)
      define v' where "v' = (if cl_onTokenUpdate (ws_cl v) then emit [EOnToken token] v else v)"
      have f: "frame w v'" unfolding v'_def using frame_trans [OF u(2) v(2)] by (simp add: frames)
      have "openSocket ce token v' = (r, w')" using assms u(1) v(1) None Inr by (simp add: dialServer_def v'_def)
      from os [OF this] show ?thesis using frame_trans [OF f] that by blast
    qed
  qed
qed

lemma openChans_new: "openChans (v\<lparr>ws_conns := ws_conns v @ [newConn]\<rparr>) = insert (length (ws_conns v)) (openChans v)"
  by (auto simp: openChans_def newConn_def nth_append less_Suc_eq)

lemma owner_step_dial:
  assumes "connectWithRetry ce CnDial w = Some (pc', new, w')" "openChans w = {}"
  shows "ownersOk (filter owner (pc' # new)) w' \<and> pc' \<noteq> RpCrash \<and> RpCrash \<notin> set new"
proof (cases "dialServer ce w")
  case (Ret x)
  obtain r v where x: "x = (r, v)" by (cases x)
  from dialServer_cases [OF Ret [unfolded x]] show ?thesis
  proof cases
    case (1 e)
    then have "frame w (countFailure v)" by (simp add: countFailure_def Let_def frames)
    then show ?thesis using 1 assms Ret x by (auto simp: connectWithRetry_def ownersOk_def openChans_frame)
  next
    case (2 u)
    then show ?thesis using assms Ret x by (auto simp: connectWithRetry_def ownersOk_def openChans_new openChans_frame)
  qed
next
  case Panic
  then show ?thesis using assms by (auto simp: connectWithRetry_def ownersOk_def)
qed

lemma pumpRead_ok:
  assumes "pumpRead ce own w = (pc', w')" "openChans w = {own}" "cl_conn (ws_cl w) = Some own"
  shows "owner pc' \<and> ownerOk pc' w'"
proof -
  have "frame w w'" using assms
    by (auto simp: pumpRead_def Let_def setConfigVersion_def frames split: sum.splits option.splits prod.splits if_splits)
  then have "openChans w' = {own}" "cl_conn (ws_cl w') = Some own" using assms(2,3) by (simp_all add: openChans_frame frame_conn)
  moreover have "pc' = RpTop own \<or> (\<exists>s t. pc' = RpExit own s t) \<or> (\<exists>h m. pc' = RpHandle own h m)" using assms
    by (auto simp: pumpRead_def Let_def split: sum.splits option.splits prod.splits if_splits)
  ultimately show ?thesis by auto
qed

lemma openChans_close:
  "openChans (upd_conn i (\<lambda>c. c\<lparr>cn_connClosed := True\<rparr>) w) = openChans w - {i}"
proof -
  have "cn_connClosed ((ws_conns w)[i := (ws_conns w ! i)\<lparr>cn_connClosed := True\<rparr>] ! x) = (x = i \<or> cn_connClosed (ws_conns w ! x))"
    if "x < length (ws_conns w)" for x using that by (cases "x = i") simp_all
  then show ?thesis by (auto simp: openChans_def)
qed

lemma pumpExit_ok:
  assumes "pumpExit own result reason w = (pc', w')" "openChans w = {own}"
  shows "pc' = RpDecide reason \<and> openChans w' = {}"
proof -
  let ?w = "upd_conn own (\<lambda>c. c\<lparr>cn_connClosed := True\<rparr>) w"
  have n: "\<not> cn_connClosed (ws_conns w ! own)" using assms(2) by (auto simp: openChans_def)
  then have "pc' = RpDecide reason" "frame ?w w'" using assms(1)
    by (auto simp: pumpExit_def Let_def frames split: option.splits)
  then show ?thesis using assms(2) by (simp add: openChans_frame openChans_close)
qed

lemma owner_step_ok:
  assumes "routineStep ce ch pc w = Some (pc', new, w')" "owner pc" "ownerOk pc w"
  shows "ownersOk (filter owner (pc' # new)) w' \<and> pc' \<noteq> RpCrash \<and> RpCrash \<notin> set new"
proof (cases pc)
  case CnDial
  then show ?thesis using assms owner_step_dial by simp
next
  case (CnArm i)
  have "frame (upd_client (\<lambda>c. c\<lparr>cl_conn := Some i\<rparr>) w) (armConn ce i w)" by (simp add: armConn_def frames)
  then have "openChans (armConn ce i w) = openChans w" "cl_conn (ws_cl (armConn ce i w)) = Some i"
    by (simp_all add: openChans_frame frame_conn) (simp add: openChans_def)
  then show ?thesis using assms CnArm by (auto simp: connectWithRetry_def ownersOk_def)
next
  case (RpRead i)
  then show ?thesis using assms pumpRead_ok [of ce i w pc' w']
    by (auto simp: readPump_def ownersOk_def split: prod.splits)
next
  case (RpExit i s t)
  then show ?thesis using assms pumpExit_ok [of i s t w pc' w'] by (auto simp: readPump_def ownersOk_def split: prod.splits)
next
  case RpNil
  have "openChans (case cl_conn (ws_cl w) of None \<Rightarrow> w | Some cid \<Rightarrow> upd_client (\<lambda>c. c\<lparr>cl_conn := None\<rparr>) (connClose cid w)) = openChans w"
  proof (cases "cl_conn (ws_cl w)")
    case (Some cid)
    have "openChans (upd_client (\<lambda>c. c\<lparr>cl_conn := None\<rparr>) (connClose cid w)) = openChans (connClose cid w)" by (simp add: openChans_def)
    then show ?thesis using Some by (simp add: openChans_frame frames)
  qed simp
  then show ?thesis using assms RpNil by (auto simp: reconnect_def ownersOk_def)
next
  case (RpHandle i h m)
  then have "pc' = RpTop i" "new = []" "frame w w'" using assms(1) by (auto simp: readPump_def frames)
  then show ?thesis using assms RpHandle by (simp add: ownersOk_def openChans_frame frame_conn)
next
  case (RpDecide s)
  then have "pc' = RpDone \<or> pc' = RpDown" "new = []" "frame w w'" using assms(1) by (auto simp: readPump_def frames split: if_splits)
  then show ?thesis using assms RpDecide by (auto simp: ownersOk_def openChans_frame)
next
  case RpDown
  then have "pc' = RpNil" "new = []" "frame w w'" using assms(1) by (auto simp: reconnect_def frames)
  then show ?thesis using assms RpDown by (simp add: ownersOk_def openChans_frame)
qed (use assms in \<open>auto simp: connectWithRetry_def readPump_def reconnect_def ownersOk_def split: if_splits\<close>)

text \<open>The connection a ping monitor was started for.\<close>

fun monitors :: "ws_pc \<Rightarrow> nat list" where
  "monitors (PmPing i b) = [i]" | "monitors (PmWrite i b v) = [i]" | "monitors (PmFail i b) = [i]" | "monitors (PmTicker i) = [i]"
| "monitors (PmSelect i) = [i]" | "monitors _ = []"

definition monitored :: "ws_pc list \<Rightarrow> nat list" where
  "monitored rs = concat (map monitors rs)"

lemma monitored_simps [simp]:
  "monitored [] = []" "monitored (pc # rs) = monitors pc @ monitored rs" "monitored (rs @ qs) = monitored rs @ monitored qs"
  by (simp_all add: monitored_def)

definition ws_inv :: "ws_world \<Rightarrow> bool" where
  "ws_inv W \<longleftrightarrow> ownersOk (filter owner (ww_routines W)) (ww_state W) \<and> RpCrash \<notin> set (ww_routines W) \<and>
     distinct (monitored (ww_routines W)) \<and>
     (\<forall>i\<in>set (monitored (ww_routines W)). i < length (ws_conns (ww_state W)) \<and> CnArm i \<notin> set (ww_routines W))"

lemma monitors_afterPing [simp]: "monitors (afterPing i b) = [i]"
  by (simp add: afterPing_def)

lemma frame_length: "frame w w' \<Longrightarrow> length (ws_conns w') = length (ws_conns w)"
  unfolding frame_def by (metis length_map)

lemma monitor_step:
  assumes "routineStep ce ch pc w = Some (pc', new, w')" "\<not> owner pc"
  shows "monitors pc' = monitors pc \<or> monitors pc' = []"
proof (cases pc)
  case (PmPing i b)
  then show ?thesis using assms by (auto simp: sendPing_def split: if_splits)
next
  case (PmWrite i b v)
  then show ?thesis using assms by (auto simp: sendPing_def split: option.splits prod.splits)
next
  case (PmFail i b)
  then show ?thesis using assms by (auto simp: sendPing_def)
next
  case (PmTicker i)
  then show ?thesis using assms by (auto simp: pingMonitor_def split: if_splits)
next
  case (PmSelect i)
  then show ?thesis using assms by (auto simp: pingMonitor_def split: ws_choice.splits if_splits)
next
  case CnNotify
  then show ?thesis using assms by (auto simp: connectWithRetry_def split: go_result.splits)
next
  case (SmWrite t d)
  then show ?thesis using assms by (auto simp: sendStep_def split: option.splits prod.splits)
next
  case ClShut
  then show ?thesis using assms by (auto simp: closeStep_def split: option.splits)
qed (use assms in \<open>auto simp: connectWithRetry_def sendStep_def closeStep_def split: if_splits\<close>)

text \<open>What a step of the owner starts: a monitor only when the connection is armed; a new connection is the next number.\<close>

lemma owner_step_monitors:
  assumes "routineStep ce ch pc w = Some (pc', new, w')" "owner pc"
  shows "monitors pc = [] \<and> monitors pc' = [] \<and>
    (monitored new = [] \<or> (\<exists>i. pc = CnArm i \<and> monitored new = [i] \<and> pc' = CnNotify \<and> (\<forall>j. CnArm j \<notin> set new))) \<and>
    (\<forall>j. CnArm j = pc' \<or> CnArm j \<in> set new \<longrightarrow> j = length (ws_conns w)) \<and> length (ws_conns w) \<le> length (ws_conns w')"
proof (cases pc)
  case CnDial
  show ?thesis
  proof (cases "dialServer ce w")
    case (Ret x)
    obtain r v where x: "x = (r, v)" by (cases x)
    from dialServer_cases [OF Ret [unfolded x]] show ?thesis
    proof cases
      case (1 e)
      then have "frame w (countFailure v)" by (simp add: countFailure_def Let_def frames)
      from frame_length [OF this] show ?thesis using 1 assms Ret x CnDial by (auto simp: connectWithRetry_def)
    next
      case (2 u)
      then show ?thesis using assms Ret x CnDial frame_length [OF 2(1)] by (auto simp: connectWithRetry_def)
    qed
  qed (use assms CnDial in \<open>auto simp: connectWithRetry_def\<close>)
next
  case (CnArm i)
  then show ?thesis using assms by (auto simp: connectWithRetry_def armConn_def extendDeadline_def setConnected_def)
next
  case (RpRead i)
  have "monitors (fst (pumpRead ce i w)) = [] \<and> length (ws_conns (snd (pumpRead ce i w))) = length (ws_conns w) \<and>
      (\<forall>j. CnArm j \<noteq> fst (pumpRead ce i w))"
    by (auto simp: pumpRead_def Let_def extendDeadline_def setConfigVersion_def split: sum.splits option.splits prod.splits if_splits)
  then show ?thesis using assms RpRead by (auto simp: readPump_def split: prod.splits)
next
  case (RpExit i s t)
  have "monitors (fst (pumpExit i s t w)) = [] \<and> length (ws_conns (snd (pumpExit i s t w))) = length (ws_conns w) \<and>
      (\<forall>j. CnArm j \<noteq> fst (pumpExit i s t w))"
    by (auto simp: pumpExit_def Let_def connClose_def split: option.splits)
  then show ?thesis using assms RpExit by (auto simp: readPump_def split: prod.splits)
next
  case RpNil
  then show ?thesis using assms by (auto simp: reconnect_def connClose_def split: option.splits)
qed (use assms in \<open>auto simp: connectWithRetry_def readPump_def reconnect_def setConnected_def split: if_splits\<close>)

lemma update_split: "i < length xs \<Longrightarrow> \<exists>a b. xs = a @ xs ! i # b \<and> (\<forall>y. xs[i := y] = a @ y # b)"
  by (rule exI [of _ "take i xs"], rule exI [of _ "drop (Suc i) xs"]) (simp add: id_take_nth_drop [symmetric] upd_conv_take_nth_drop)

lemma filter_one_owner:
  assumes "filter P (a @ x # b) = ys" "P x" "length ys \<le> 1"
  shows "filter P a = [] \<and> filter P b = [] \<and> ys = [x]"
  using assms by (cases "filter P a"; cases "filter P b") auto

lemma ownersOk_length: "ownersOk os w \<Longrightarrow> length os \<le> 1"
  by (auto simp: ownersOk_def split: list.splits)

lemma ws_inv_go:
  assumes inv: "ws_inv W" and go: "wsGo l W = Some W'"
  shows "ws_inv W'"
proof -
  obtain i ce ch where l: "l = (i, ce, ch)" by (cases l)
  let ?rs = "ww_routines W" and ?w = "ww_state W"
  from go obtain pc' new w' where i: "i < length ?rs" and st: "routineStep ce ch (?rs ! i) ?w = Some (pc', new, w')"
    and W': "W' = \<lparr>ww_state = w', ww_routines = ?rs[i := pc'] @ new\<rparr>"
    by (auto simp: wsGo_def l split: if_splits option.splits)
  define pc where "pc = ?rs ! i"
  obtain a b where rs: "?rs = a @ pc # b" and upd: "?rs[i := pc'] = a @ pc' # b" using update_split [OF i] pc_def by blast
  note inv' = inv [unfolded ws_inv_def rs]
  note st' = st [folded pc_def]
  show ?thesis
  proof (cases "owner pc")
    case False
    note f = owner_step_frame [OF st' False]
    have "ownersOk (filter owner (a @ pc' # b)) w'"
      using ownersOk_frame [of ?w w'] f inv' False by auto
    then show ?thesis using f inv' monitor_step [OF st' False] frame_length [of ?w w']
      by (auto simp: ws_inv_def W' upd)
  next
    case True
    note one = filter_one_owner [OF refl True ownersOk_length [OF conjunct1 [OF inv']]]
    have "ownerOk pc ?w" using inv' one True by (auto simp: ownersOk_def)
    note ok = owner_step_ok [OF st' True this]
    have other: "CnArm j \<notin> set a" "CnArm j \<notin> set b" for j using one by (auto simp: filter_empty_conv)
    have "ownersOk (filter owner ((a @ pc' # b) @ new)) w'" using ok one by (simp split: if_splits)
    moreover note ms = owner_step_monitors [OF st' True]
    have pc: "monitors pc = []" "monitors pc' = []" and len: "length (ws_conns ?w) \<le> length (ws_conns w')"
      and arm: "\<forall>j. CnArm j = pc' \<or> CnArm j \<in> set new \<longrightarrow> j = length (ws_conns ?w)" using ms by blast+
    have old: "i < length (ws_conns ?w) \<and> CnArm i \<noteq> pc" if "i \<in> set (monitored a @ monitored b)" for i using inv' pc that by auto
    have "distinct (monitored a @ monitored b @ monitored new) \<and>
      (\<forall>i\<in>set (monitored a @ monitored b @ monitored new). i < length (ws_conns w') \<and> CnArm i \<notin> set (a @ pc' # b @ new))"
    proof (cases "monitored new = []")
      case True
      have "i < length (ws_conns w') \<and> CnArm i \<notin> set (a @ pc' # b @ new)" if "i \<in> set (monitored a @ monitored b)" for i
        using old [OF that] len arm other by fastforce
      then show ?thesis using True inv' pc by simp
    next
      case False
      then obtain j where j: "pc = CnArm j" "monitored new = [j]" "pc' = CnNotify" "\<forall>i. CnArm i \<notin> set new" using ms by blast
      then have "j \<in> openChans ?w" using inv' one by (auto simp: ownersOk_def)
      then have "j < length (ws_conns w')" using len by (simp add: openChans_def)
      moreover have "j \<notin> set (monitored a @ monitored b)" using old j(1) by blast
      moreover have "i < length (ws_conns w')" if "i \<in> set (monitored a @ monitored b)" for i using old [OF that] len by simp
      ultimately show ?thesis using inv' pc j other by auto
    qed
    ultimately show ?thesis using ok inv' pc by (auto simp: ws_inv_def W' upd)
  qed
qed

lemma ws_inv_frame:
  assumes "ws_inv W" "frame (ww_state W) w"
  shows "ws_inv (W\<lparr>ww_state := w\<rparr>)"
  using assms ownersOk_frame [OF assms(2)] frame_length [OF assms(2)] by (auto simp: ws_inv_def)

lemma ws_inv_spawn: "ws_inv W \<Longrightarrow> \<not> owner pc \<Longrightarrow> pc \<noteq> RpCrash \<Longrightarrow> monitors pc = [] \<Longrightarrow> ws_inv (spawn pc W)"
  by (auto simp: ws_inv_def spawn_def)

lemma ws_inv_call: "ws_inv W \<Longrightarrow> ws_inv (wsCall call W)"
  by (cases call) (simp_all add: wsCall_def ws_inv_spawn ws_inv_frame RegisterHandler_def OnConnect_def OnTokenUpdate_def
      pongHandler_def WasJustProvisioned_def frame_upd_client frame_emit frame_extend)

lemma ws_inv_start:
  assumes "NewClient env files dialer clientType ident secret endpoint pingInterval opts = Inr w"
  shows "ws_inv (Connect \<lparr>ww_state = w, ww_routines = []\<rparr>)"
proof -
  have "ws_conns w = []" using assms
    by (auto simp: NewClient_def loadConfig_def startState_def Let_def split: prod.splits option.splits read_result.splits if_splits)
  then show ?thesis by (simp add: ws_inv_def Connect_def spawn_def ownersOk_def openChans_def)
qed

lemma ws_reach_inv: "ws_reach W \<Longrightarrow> ws_inv W"
  by (induction rule: ws_reach.induct) (auto intro: ws_inv_start ws_inv_call ws_inv_go)

text \<open>The connection that a read pump reads, before its deferred function has closed the channel.\<close>

fun pumping :: "ws_pc \<Rightarrow> nat option" where
  "pumping (RpTop i) = Some i" | "pumping (RpRead i) = Some i" | "pumping (RpHandle i h m) = Some i"
| "pumping (RpExit i s t) = Some i" | "pumping _ = None"

lemma ownerOk_pumping: "ownerOk pc w \<Longrightarrow> pumping pc = Some i \<Longrightarrow> openChans w = {i} \<and> cl_conn (ws_cl w) = Some i"
  by (cases pc) auto

lemma ownerOk_open: "ownerOk pc w \<Longrightarrow> i \<in> openChans w \<Longrightarrow> pumping pc = Some i \<or> pc = CnArm i"
  by (cases pc) auto

lemma pumping_owner: "pumping pc = Some i \<Longrightarrow> owner pc"
  by (cases pc) auto

lemma ws_inv_pumping:
  assumes "ws_inv W" "pc \<in> set (ww_routines W)" "pumping pc = Some i"
  shows "cl_conn (ws_cl (ww_state W)) = Some i"
proof -
  have "pc \<in> set (filter owner (ww_routines W))" using assms(2,3) pumping_owner by simp
  moreover have "ownersOk (filter owner (ww_routines W)) (ww_state W)" using assms(1) by (simp add: ws_inv_def)
  ultimately have "ownerOk pc (ww_state W)"
    by (cases "filter owner (ww_routines W)") (auto simp only: ownersOk_def list.simps set_simps split: list.splits)
  then show ?thesis using ownerOk_pumping assms(3) by blast
qed

lemma ws_inv_monitored:
  assumes "ws_inv W" "i \<in> set (monitored (ww_routines W))" "\<not> cn_connClosed (ws_conns (ww_state W) ! i)"
  shows "\<exists>pc\<in>set (ww_routines W). pumping pc = Some i"
proof -
  have i: "i \<in> openChans (ww_state W)" "CnArm i \<notin> set (ww_routines W)"
    using assms by (auto simp: ws_inv_def openChans_def)
  obtain pc where pc: "filter owner (ww_routines W) = [pc]" "ownerOk pc (ww_state W)"
    using assms(1) i(1) by (auto simp: ws_inv_def ownersOk_def split: list.splits)
  then have "pc \<in> set (filter owner (ww_routines W))" by simp
  then have "pc \<in> set (ww_routines W)" by simp
  then show ?thesis using ownerOk_open [OF pc(2) i(1)] i(2) by auto
qed

text \<open>
  C10. The connection has one owner.  After one \<open>Connect\<close>, in every interleaving of the goroutines, the callers and the network, at most one
  goroutine is connecting or pumping, so a lost connection starts exactly one new connector.  A pump always finds its own connection
  in the field \<open>conn\<close>: it never dereferences nil and never closes \<open>connClosed\<close> twice.  Every connection has at most one ping
  monitor, and the monitor of every connection but the one being pumped has been told to stop.
\<close>

theorem connection_single_owner:
  assumes "ws_reach W"
  shows "length (filter owner (ww_routines W)) \<le> 1 \<and> RpCrash \<notin> set (ww_routines W) \<and>
    (\<forall>pc\<in>set (ww_routines W). \<forall>i. pumping pc = Some i \<longrightarrow> cl_conn (ws_cl (ww_state W)) = Some i) \<and>
    distinct (monitored (ww_routines W)) \<and>
    (\<forall>i\<in>set (monitored (ww_routines W)).
       cn_connClosed (ws_conns (ww_state W) ! i) \<or> (\<exists>pc\<in>set (ww_routines W). pumping pc = Some i))"
proof -
  note inv = ws_reach_inv [OF assms]
  have "length (filter owner (ww_routines W)) \<le> 1" using inv by (auto simp: ws_inv_def dest: ownersOk_length)
  moreover have "RpCrash \<notin> set (ww_routines W)" "distinct (monitored (ww_routines W))" using inv by (simp_all add: ws_inv_def)
  ultimately show ?thesis using ws_inv_pumping [OF inv] ws_inv_monitored [OF inv] by blast
qed

section \<open>Shutdown ends\<close>

text \<open>A bound on the steps a goroutine still takes once \<open>done\<close> is closed, ticks of the ping monitor aside.\<close>

fun rank :: "ws_pc \<Rightarrow> nat" where
  "rank CnTop = 1" | "rank CnDial = 15" | "rank (CnArm i) = 14" | "rank CnNotify = 2" | "rank CnStore = 1"
| "rank (RpTop i) = 6" | "rank (RpRead i) = 8" | "rank (RpHandle i h m) = 7" | "rank (RpExit i s t) = 5" | "rank (RpDecide s) = 4"
| "rank RpDown = 3" | "rank RpNil = 2" | "rank RpRespawn = 1"
| "rank (PmPing i b) = 5" | "rank (PmWrite i b v) = 4" | "rank (PmFail i b) = 3" | "rank (PmTicker i) = 2" | "rank (PmSelect i) = 1"
| "rank (SmCheck t d) = 2" | "rank (SmWrite t d) = 1"
| "rank ClStart = 6" | "rank ClSignal = 5" | "rank ClDown = 4" | "rank ClCheck = 3" | "rank ClWrite = 2" | "rank ClShut = 1"
| "rank _ = 0"

definition remaining :: "ws_world \<Rightarrow> nat" where
  "remaining W = sum_list (map rank (ww_routines W))"

text \<open>The ping monitor takes a tick rather than one of the closed channels.\<close>

definition isTick :: "ws_pc \<Rightarrow> ws_choice \<Rightarrow> bool" where
  "isTick pc choice \<longleftrightarrow> (\<exists>i. pc = PmSelect i) \<and> choice = WSelTick"

lemma rank_afterPing: "rank (afterPing i b) \<le> 2"
  by (simp add: afterPing_def)

lemma rank_step:
  assumes "routineStep ce ch pc w = Some (pc', new, w')" "cl_done (ws_cl w)"
  shows "rank pc' + sum_list (map rank new) < rank pc + (if isTick pc ch then 5 else 0)"
proof (cases pc)
  case CnDial
  then show ?thesis using assms by (auto simp: connectWithRetry_def isTick_def split: go_result.splits prod.splits sum.splits)
next
  case CnNotify
  then show ?thesis using assms by (auto simp: connectWithRetry_def isTick_def split: go_result.splits)
next
  case (RpRead i)
  have "rank (fst (pumpRead ce i w)) \<le> 7"
    by (auto simp: pumpRead_def Let_def split: sum.splits option.splits prod.splits if_splits)
  then show ?thesis using assms RpRead by (auto simp: readPump_def isTick_def split: prod.splits)
next
  case (RpExit i s t)
  have "rank (fst (pumpExit i s t w)) \<le> 4" by (simp add: pumpExit_def Let_def)
  then show ?thesis using assms RpExit by (auto simp: readPump_def isTick_def split: prod.splits)
next
  case (PmPing i b)
  then show ?thesis using assms rank_afterPing [of i b] by (auto simp: sendPing_def isTick_def split: if_splits)
next
  case (PmWrite i b v)
  then show ?thesis using assms rank_afterPing [of i b] by (auto simp: sendPing_def isTick_def split: option.splits prod.splits)
next
  case (PmFail i b)
  then show ?thesis using assms rank_afterPing [of i b] by (auto simp: sendPing_def isTick_def)
next
  case (PmSelect i)
  then show ?thesis using assms by (auto simp: pingMonitor_def isTick_def split: ws_choice.splits if_splits)
next
  case (SmWrite t d)
  then show ?thesis using assms by (auto simp: sendStep_def isTick_def split: option.splits prod.splits)
next
  case ClShut
  then show ?thesis using assms by (auto simp: closeStep_def isTick_def split: option.splits)
qed (use assms in \<open>auto simp: connectWithRetry_def readPump_def reconnect_def pingMonitor_def sendStep_def closeStep_def isTick_def
      split: if_splits\<close>)

lemma done_step: "wsGo l W = Some W' \<Longrightarrow> cl_done (ws_cl (ww_state W)) \<Longrightarrow> cl_done (ws_cl (ww_state W'))"
proof -
  assume go: "wsGo l W = Some W'" and d: "cl_done (ws_cl (ww_state W))"
  obtain i ce ch where l: "l = (i, ce, ch)" by (cases l)
  from go obtain pc' new w' where st: "routineStep ce ch (ww_routines W ! i) (ww_state W) = Some (pc', new, w')"
    and W': "ww_state W' = w'"
    by (auto simp: wsGo_def l split: if_splits option.splits)
  have "cl_done (ws_cl w')"
  proof (cases "owner (ww_routines W ! i)")
    case False
    then show ?thesis using owner_step_frame [OF st False] d by (simp add: frame_def)
  next
    case True
    then show ?thesis using st d
    proof (cases "ww_routines W ! i")
      case CnDial
      show ?thesis
      proof (cases "dialServer ce (ww_state W)")
        case (Ret x)
        obtain r v where x: "x = (r, v)" by (cases x)
        from dialServer_cases [OF Ret [unfolded x]] show ?thesis
          by cases (use st d CnDial Ret x in \<open>auto simp: connectWithRetry_def countFailure_def Let_def frame_def\<close>)
      qed (use st d CnDial in \<open>auto simp: connectWithRetry_def\<close>)
    next
      case (RpRead j)
      have "cl_done (ws_cl (snd (pumpRead ce j (ww_state W))))" using d
        by (auto simp: pumpRead_def Let_def extendDeadline_def setConfigVersion_def split: sum.splits option.splits prod.splits if_splits)
      then show ?thesis using st RpRead by (auto simp: readPump_def split: prod.splits)
    next
      case (RpExit j s t)
      have "cl_done (ws_cl (snd (pumpExit j s t (ww_state W))))" using d
        by (auto simp: pumpExit_def Let_def connClose_def split: option.splits)
      then show ?thesis using st RpExit by (auto simp: readPump_def split: prod.splits)
    qed (auto simp: connectWithRetry_def readPump_def reconnect_def armConn_def extendDeadline_def setConnected_def connClose_def
          split: if_splits option.splits)
  qed
  then show ?thesis using W' by simp
qed

definition ticks :: "(nat \<times> conn_env \<times> ws_choice) list \<Rightarrow> nat" where
  "ticks ls = length (filter (\<lambda>(i, ce, choice). choice = WSelTick) ls)"

lemma remaining_step:
  assumes "wsGo l W = Some W'" "cl_done (ws_cl (ww_state W))"
  shows "remaining W' + 1 \<le> remaining W + 5 * ticks [l]"
proof -
  obtain i ce ch where l: "l = (i, ce, ch)" by (cases l)
  from assms(1) obtain pc' new w' where i: "i < length (ww_routines W)"
    and st: "routineStep ce ch (ww_routines W ! i) (ww_state W) = Some (pc', new, w')"
    and W': "W' = \<lparr>ww_state = w', ww_routines = (ww_routines W)[i := pc'] @ new\<rparr>"
    by (auto simp: wsGo_def l split: if_splits option.splits)
  obtain a b where rs: "ww_routines W = a @ ww_routines W ! i # b" and upd: "(ww_routines W)[i := pc'] = a @ pc' # b"
    using update_split [OF i] by blast
  have "remaining W = sum_list (map rank (a @ ww_routines W ! i # b))" unfolding remaining_def by (subst rs) (rule refl)
  then show ?thesis using rank_step [OF st assms(2)] by (simp add: remaining_def W' upd l ticks_def isTick_def split: if_splits)
qed

lemma remaining_run:
  "wsRun ls W = Some W' \<Longrightarrow> cl_done (ws_cl (ww_state W)) \<Longrightarrow>
     cl_done (ws_cl (ww_state W')) \<and> remaining W' + length ls \<le> remaining W + 5 * ticks ls"
proof (induction ls arbitrary: W)
  case (Cons l ls)
  then obtain V where V: "wsGo l W = Some V" "wsRun ls V = Some W'" by (auto split: option.splits)
  have "ticks (l # ls) = ticks [l] + ticks ls" by (simp add: ticks_def)
  then show ?case using Cons.IH [OF V(2) done_step [OF V(1) Cons.prems(2)]] remaining_step [OF V(1) Cons.prems(2)] by simp
qed (simp add: ticks_def)

lemma rank_progress:
  assumes "0 < rank pc" "cl_done (ws_cl w)"
  shows "routineStep ce WSelDone pc w \<noteq> None"
proof (cases pc)
  case CnDial
  then show ?thesis by (simp add: connectWithRetry_def split: go_result.split prod.split sum.split)
next
  case CnNotify
  then show ?thesis by (simp add: connectWithRetry_def split: go_result.split)
next
  case (PmWrite i b v)
  then show ?thesis by (simp add: sendPing_def split: option.split prod.split)
next
  case (SmWrite i b)
  then show ?thesis by (simp add: sendStep_def split: option.split prod.split)
qed (use assms in \<open>simp_all add: connectWithRetry_def readPump_def reconnect_def sendPing_def pingMonitor_def sendStep_def
      closeStep_def split: prod.split option.split\<close>)

text \<open>
  C30. Shutdown ends.  Once \<open>done\<close> is closed, a run of the goroutines takes at most as many steps as their ranks add up to, plus five for
  every tick that a ping monitor takes instead of the closed channel; and as long as a goroutine is left, some goroutine can take a
  step that is not a tick.  So when the ticks stop, all goroutines finish, whatever the network does and however they interleave.
\<close>

theorem shutdown_ends:
  assumes "cl_done (ws_cl (ww_state W))" "wsRun ls W = Some W'"
  shows "length ls + remaining W' \<le> remaining W + 5 * ticks ls \<and>
    (remaining W' = 0 \<or> (\<exists>i. wsGo (i, ce, WSelDone) W' \<noteq> None))"
proof -
  note r = remaining_run [OF assms(2,1)]
  have "\<exists>i. wsGo (i, ce, WSelDone) W' \<noteq> None" if "remaining W' \<noteq> 0"
  proof -
    have "\<exists>pc\<in>set (ww_routines W'). rank pc \<noteq> 0" using that by (simp add: remaining_def)
    then obtain pc where "pc \<in> set (ww_routines W')" "0 < rank pc" by auto
    then obtain i where i: "i < length (ww_routines W')" "0 < rank (ww_routines W' ! i)" by (auto simp: in_set_conv_nth)
    then show ?thesis using rank_progress [OF i(2), of "ww_state W'" ce] r
      by (intro exI [of _ i]) (auto simp: wsGo_def split: option.split)
  qed
  then show ?thesis using r by (simp add: add.commute) blast
qed

section \<open>Repeated messages\<close>

text \<open>\<open>SendMessage\<close> when no other goroutine runs in between.\<close>

definition SendMessage :: "conn_env \<Rightarrow> string \<Rightarrow> json \<Rightarrow> ws_state \<Rightarrow> string option \<times> ws_state" where
  "SendMessage ce messageType data w = (case cl_conn (ws_cl w) of
     None \<Rightarrow> (Some ''not connected'', w)
   | Some cid \<Rightarrow>
       (case connWrite ce cid \<lparr>wm_Type = messageType, wm_Data = data, wm_ConfigVersion = 0\<rparr> w of
          (Some e, w) \<Rightarrow> (Some e, w)
        | (None, w) \<Rightarrow> (None, emit [EWSMessage ''out'' ''text''] w)))"

text \<open>\<open>SendMessageNoLog\<close> is the same code without the log line.\<close>

definition SendMessageNoLog :: "conn_env \<Rightarrow> string \<Rightarrow> json \<Rightarrow> ws_state \<Rightarrow> string option \<times> ws_state" where
  "SendMessageNoLog ce messageType data w = SendMessage ce messageType data w"

lemma SendMessage_steps:
  "\<exists>k\<in>{1, 2}. wsRun (replicate k (0, ce, ch)) \<lparr>ww_state = w, ww_routines = SmCheck t d # rs\<rparr> =
     Some \<lparr>ww_state = snd (SendMessage ce t d w), ww_routines = SmDone (fst (SendMessage ce t d w)) # rs\<rparr>"
  by (cases "cl_conn (ws_cl w)")
    (auto simp: wsGo_def sendStep_def SendMessage_def numeral_2_eq_2 split: option.split prod.split)

text \<open>
  The goroutine of \<open>SendMessageInterval\<close>: what happens to it is a tick, before which other goroutines changed the state, or the call
  of the function it returned.  The second component of the result is the variable \<open>count\<close>; the third records which attempts counted.
\<close>

datatype iv_event = IvTick conn_env "ws_state \<Rightarrow> ws_state" | IvStop

definition maxAttempts :: nat where
  "maxAttempts = 16"

definition intervalSend :: "conn_env \<Rightarrow> string \<Rightarrow> json \<Rightarrow> nat \<Rightarrow> ws_state \<Rightarrow> nat \<times> bool \<times> ws_state" where
  "intervalSend ce messageType data n w =
     (let connected = cl_isConnected (ws_cl w); (err, w) = SendMessage ce messageType data w
      in if err \<noteq> None then (n, False, w) else if connected then (Suc n, True, w) else (n, False, w))"

fun intervalLoop :: "string \<Rightarrow> json \<Rightarrow> nat \<Rightarrow> bool list \<Rightarrow> ws_state \<Rightarrow> iv_event list \<Rightarrow> bool \<times> nat \<times> bool list \<times> ws_state" where
  "intervalLoop messageType data n sent w [] = (False, n, sent, w)"
| "intervalLoop messageType data n sent w (IvStop # es) = (True, n, sent, w)"
| "intervalLoop messageType data n sent w (IvTick ce others # es) =
     (if maxAttempts \<le> n then (True, n, sent, others w)
      else let (n, ok, w) = intervalSend ce messageType data n (others w)
           in intervalLoop messageType data n (sent @ [ok]) w es)"

definition SendMessageInterval :: "conn_env \<Rightarrow> string \<Rightarrow> json \<Rightarrow> ws_state \<Rightarrow> iv_event list \<Rightarrow> bool \<times> nat \<times> bool list \<times> ws_state" where
  "SendMessageInterval ce messageType data w es =
     (let (n, ok, w) = intervalSend ce messageType data 0 w in intervalLoop messageType data n [ok] w es)"

lemma intervalSend_count: "intervalSend ce t d n w = (n', ok, w') \<Longrightarrow> n' = n + (if ok then 1 else 0)"
  by (auto simp: intervalSend_def Let_def split: prod.splits if_splits)

lemma intervalLoop_count:
  assumes "intervalLoop t d n sent w es = (fin, n', sent', w')" "n = length (filter (\<lambda>ok. ok) sent)" "n \<le> maxAttempts"
  shows "n' = length (filter (\<lambda>ok. ok) sent') \<and> n' \<le> maxAttempts \<and> (fin \<longrightarrow> IvStop \<in> set es \<or> n' = maxAttempts) \<and>
    (\<not> fin \<longrightarrow> IvStop \<notin> set es \<and> length sent' = length sent + length es)"
  using assms
proof (induction t d n sent w es rule: intervalLoop.induct)
  case (3 t d n sent w ce others es)
  show ?case
  proof (cases "maxAttempts \<le> n")
    case True
    then show ?thesis using 3 by auto
  next
    case False
    obtain c ok v where s: "intervalSend ce t d n (others w) = (c, ok, v)" by (cases "intervalSend ce t d n (others w)")
    have "c = length (filter (\<lambda>ok. ok) (sent @ [ok]))" "c \<le> maxAttempts" using intervalSend_count [OF s] 3(3) False by auto
    then show ?thesis using 3(1) [OF False s [symmetric] refl] 3(2) False s by auto
  qed
qed auto


section \<open>An example\<close>

text \<open>A new client with credentials, a server that accepts it, and a connection whose first read fails.\<close>

definition exToken :: json where
  "exToken = JObj [(''data'', JObj [(''token'', JStr ''t'')]), (''success'', JBool True)]"

definition exNet :: conn_env where
  "exNet = \<lparr>ce_env = exWsEnv\<lparr>we_parseJSON := (\<lambda>t. Inr exToken)\<rparr>, ce_now = 0, ce_dial = (\<lambda>t u. None), ce_write = None,
     ce_read = Inl \<lparr>er_Error = ''EOF'', er_closeCode = None, er_Timeout = False\<rparr>, ce_gunzip = Inl\<rparr>"

definition exClient :: ws_state where
  "exClient = startState ((freshClient ''newt'' ''n'' ''s'' ''e'' (5 * second))\<lparr>cl_configFilePath := ''p''\<rparr>) [(''p'', ''F'')] None"

definition exStart :: ws_world where
  "exStart = Connect \<lparr>ww_state = exClient, ww_routines = []\<rparr>"

lemma exStart_reach: "ws_reach exStart"
proof -
  have "NewClient exWsEnv [(''p'', ''F'')] None ''newt'' ''n'' ''s'' ''e'' (5 * second) [Some (WithConfigFile ''p'')] = Inr exClient"
    by (simp add: NewClient_def applyOption_def Let_def loadConfig_def ReadFile_def configPath_def getConfigPath_def startState_def
        exClient_def exWsEnv_def freshClient_def trim_space_def is_space_def)
  from ws_reach_connect [OF this] show ?thesis by (simp add: exStart_def)
qed

lemma ws_reach_run: "ws_reach W \<Longrightarrow> wsRun ls W = Some W' \<Longrightarrow> ws_reach W'"
  by (induction ls arbitrary: W) (auto intro: ws_reach_go split: option.splits)

lemma exDecodeToken: "decodeToken exToken = Some \<lparr>tr_Token = ''t'', tr_ServerVersion = [], tr_Success = True, tr_Message = []\<rparr>"
  by (simp add: decodeToken_def exToken_def dec_object_def json_field_def dec_bool_def dec_string_def to_lower_def lower_char_def)

text \<open>The state with the socket open, and after the connection is armed.\<close>

definition exDialed :: ws_state where
  "exDialed = exClient\<lparr>ws_conns := [newConn],
     ws_events := [EHttp ''e/api/v1/auth/newt/get-token'' (tokenBody (ws_cl exClient)), EConnAttempt ''auth'' ''success'']\<rparr>"

lemma exClient_fields [simp]:
  "cl_clientType (ws_cl exClient) = ''newt''" "cl_baseURL (ws_cl exClient) = ''e''" "cl_tlsConfig (ws_cl exClient) = noTLS"
  "\<not> cl_onTokenUpdate (ws_cl exClient)" "\<not> cl_onConnect (ws_cl exClient)" "cl_conn (ws_cl exClient) = None"
  "\<not> cl_done (ws_cl exClient)" "cl_pingInterval (ws_cl exClient) = 5 * second" "\<not> cl_processingMessage (ws_cl exClient)"
  "cl_configVersion (ws_cl exClient) = 0" "\<not> cl_isConnected (ws_cl exClient)" "cl_serverVersion (ws_cl exClient) = []"
  "ws_conns exClient = []" "ws_events exClient = []" "ws_dialerTLS exClient = None" "provisioned exClient"
  by (simp_all add: exClient_def startState_def freshClient_def Let_def provisioned_def emptyConfig_def)

lemma exNet_fields [simp]:
  "we_ParseURL (ce_env exNet) u = Inr \<lparr>url_Scheme = ''https'', url_Host = u, url_String = u\<rparr>" "we_Getenv (ce_env exNet) v = []"
  "we_newRequestErr (ce_env exNet) u = None" "we_Do (ce_env exNet) t u b = Inr (200, ''R'')"
  "we_parseJSON (ce_env exNet) s = Inr exToken" "ce_dial exNet t u = None" "ce_write exNet = None"
  "ce_read exNet = Inl \<lparr>er_Error = ''EOF'', er_closeCode = None, er_Timeout = False\<rparr>"
  by (simp_all add: exNet_def exWsEnv_def)

lemma noTLS_wants [simp]: "\<not> wantsTLS noTLS"
  by (simp add: wantsTLS_def noTLS_def)

lemma exDial: "dialServer exNet exClient = Ret (Inr 0, exDialed)"
proof -
  have v: "upd_client (\<lambda>c. c\<lparr>cl_serverVersion := []\<rparr>) exClient = exClient"
    by (simp add: upd_client_def exClient_def startState_def freshClient_def Let_def)
  have "getToken (ce_env exNet) exClient = (Inr ''t'', emit [EConnAttempt ''auth'' ''success'']
      (upd_client (\<lambda>c. c\<lparr>cl_serverVersion := []\<rparr>) (emit [EHttp ''e/api/v1/auth/newt/get-token'' (tokenBody (ws_cl exClient))] exClient)))"
    by (simp add: getToken_def requestTLS_def skipVerify_def Let_def tokenReply_def exDecodeToken trim_right_def)
  also have "\<dots> = (Inr ''t'', emit [EConnAttempt ''auth'' ''success'']
      (emit [EHttp ''e/api/v1/auth/newt/get-token'' (tokenBody (ws_cl exClient))] exClient))"
    using v by (simp add: upd_client_def emit_def)
  finally show ?thesis
    by (simp add: dialServer_def provisionIfNeeded_skip Let_def openSocket_def dialTLS_def skipVerify_def)
      (simp add: emit_def exDialed_def exClient_def startState_def)
qed

text \<open>The client with its connection up: the pump is the third goroutine, the ping monitor the second.\<close>

definition exUp :: ws_world where
  "exUp = \<lparr>ww_state = armConn exNet 0 exDialed, ww_routines = [CnNotify, PmPing 0 True, RpTop 0]\<rparr>"

lemma exUp_run: "wsRun [(0, exNet, WSelDone), (0, exNet, WSelDone), (0, exNet, WSelDone)] exStart = Some exUp"
  by (simp add: wsGo_def exStart_def Connect_def spawn_def connectWithRetry_def exDial exUp_def)

lemma exUp_reach: "ws_reach exUp"
  by (rule ws_reach_run [OF exStart_reach exUp_run])

theorem connection_single_owner_witness:
  "ws_reach exUp \<and> length (filter owner (ww_routines exUp)) = 1 \<and> monitored (ww_routines exUp) = [0] \<and>
   cl_conn (ws_cl (ww_state exUp)) = Some 0"
proof -
  have "RpTop 0 \<in> set (ww_routines exUp)" "pumping (RpTop 0) = Some 0" by (simp_all add: exUp_def)
  then have "cl_conn (ws_cl (ww_state exUp)) = Some 0" using connection_single_owner [OF exUp_reach] by blast
  then show ?thesis using exUp_reach by (simp add: exUp_def)
qed

theorem shutdown_ends_witness:
  "\<exists>W'. wsRun [(2, exNet, WSelDone), (2, exNet, WSelDone)]
      (exUp\<lparr>ww_state := upd_client (\<lambda>c. c\<lparr>cl_done := True\<rparr>) (ww_state exUp)\<rparr>) = Some W' \<and> remaining W' \<le> 11"
proof -
  let ?W = "exUp\<lparr>ww_state := upd_client (\<lambda>c. c\<lparr>cl_done := True\<rparr>) (ww_state exUp)\<rparr>"
  have n: "\<not> cn_connClosed (ws_conns (ww_state ?W) ! 0)"
    by (simp add: exUp_def armConn_def extendDeadline_def setConnected_def exDialed_def newConn_def)
  have "\<exists>W'. wsRun [(2, exNet, WSelDone), (2, exNet, WSelDone)] ?W = Some W'"
    using n by (simp add: wsGo_def exUp_def readPump_def pumpExit_def Let_def split: prod.split)
  then obtain W' where W': "wsRun [(2, exNet, WSelDone), (2, exNet, WSelDone)] ?W = Some W'" by blast
  have "cl_done (ws_cl (ww_state ?W))" by simp
  from shutdown_ends [OF this W', of exNet] have "remaining W' \<le> 11" by (simp add: remaining_def exUp_def ticks_def)
  then show ?thesis using W' by blast
qed

text \<open>A connected client whose writes succeed: every attempt counts.\<close>

definition writable :: "ws_state \<Rightarrow> bool" where
  "writable w \<longleftrightarrow> cl_isConnected (ws_cl w) \<and>
     (\<exists>cid < length (ws_conns w). cl_conn (ws_cl w) = Some cid \<and> \<not> cn_closed (ws_conns w ! cid))"

lemma intervalSend_writable:
  "writable w \<Longrightarrow> ce_write ce = None \<Longrightarrow> \<exists>w'. intervalSend ce t d n w = (Suc n, True, w') \<and> writable w'"
  by (auto simp: writable_def intervalSend_def SendMessage_def connWrite_def Let_def)

lemma intervalLoop_writable:
  "writable w \<Longrightarrow> list_all (\<lambda>ok. ok) sent \<Longrightarrow> intervalLoop t d n sent w (replicate k (IvTick exNet (\<lambda>w. w))) = (fin, n', sent', w') \<Longrightarrow>
     list_all (\<lambda>ok. ok) sent'"
proof (induction k arbitrary: n sent w)
  case (Suc k)
  obtain v where v: "intervalSend exNet t d n w = (Suc n, True, v)" "writable v" using intervalSend_writable [OF Suc.prems(1), of exNet t d n] by auto
  show ?case using Suc.IH [OF v(2), of "sent @ [True]" "Suc n"] Suc.prems v(1) by (auto split: if_splits)
qed simp


section \<open>Races\<close>

lemma exUp_state [simp]:
  "cl_conn (ws_cl (ww_state exUp)) = Some 0" "\<not> cl_done (ws_cl (ww_state exUp))" "\<not> cl_onConnect (ws_cl (ww_state exUp))"
  "ws_conns (ww_state exUp) = [newConn\<lparr>cn_readDeadline := ce_now exNet + cl_pongWait (ws_cl exClient)\<rparr>]"
  by (simp_all add: exUp_def armConn_def extendDeadline_def setConnected_def exDialed_def)

text \<open>
  \<open>SendMessage\<close> can crash the program.  It tests \<open>conn\<close> for nil before it takes the write mutex and does not test it again, unlike
  \<open>sendPing\<close>: when the read pump loses the connection in between and \<open>reconnect\<close> sets the field to nil, the write dereferences
  nil.
\<close>

theorem send_during_reconnect_panics:
  "\<exists>W. ws_reach W \<and> SmCrash \<in> set (ww_routines W)"
proof -
  let ?W = "wsCall (CSend ''newt/ping/request'' JNull) exUp"
  let ?p = "(2, exNet, WSelDone)" and ?s = "(3, exNet, WSelDone)"
  have rs: "ww_routines exUp = [CnNotify, PmPing 0 True, RpTop 0]" by (simp add: exUp_def)
  have "\<exists>W'. wsRun [?s, ?p, ?p, ?p, ?p, ?p, ?p, ?s] ?W = Some W' \<and> SmCrash \<in> set (ww_routines W')"
    by (simp add: wsCall_def spawn_def wsGo_def rs sendStep_def readPump_def pumpRead_def ReadMessage_def newConn_def Let_def
        classifyWSDisconnect_def IsCloseError_def IsUnexpectedCloseError_def to_lower_def lower_char_def has_prefix_def
        pumpExit_def connClose_def reconnect_def setConnected_def)
  then show ?thesis using ws_reach_run [OF ws_reach_call [OF exUp_reach]] by blast
qed

text \<open>
  A client that is closed while it connects says for ever that it is connected: \<open>establishConnection\<close> does not look at \<open>done\<close> again
  before it sets the flag, and the pump that stops because of \<open>done\<close> does not clear it.
\<close>

theorem close_during_connect_stays_connected:
  "\<exists>W. ws_reach W \<and> cl_done (ws_cl (ww_state W)) \<and> remaining W = 0 \<and> cl_isConnected (ws_cl (ww_state W))"
proof -
  let ?c = "(0, exNet, WSelDone)" and ?x = "(1, exNet, WSelDone)" and ?m = "(2, exNet, WSelDone)" and ?p = "(3, exNet, WSelDone)"
  have "\<exists>W'. wsRun [?c, ?c] exStart = Some W' \<and> W' = \<lparr>ww_state = exDialed, ww_routines = [CnArm 0]\<rparr>"
    by (simp add: wsGo_def exStart_def Connect_def spawn_def connectWithRetry_def exDial)
  then have r: "ws_reach \<lparr>ww_state = exDialed, ww_routines = [CnArm 0]\<rparr>" using ws_reach_run [OF exStart_reach] by blast
  let ?W = "wsCall CClose \<lparr>ww_state = exDialed, ww_routines = [CnArm 0]\<rparr>"
  have d: "ws_cl exDialed = ws_cl exClient" "ws_conns exDialed = [newConn]" by (simp_all add: exDialed_def)
  have "\<exists>W'. wsRun [?x, ?x, ?x, ?x, ?c, ?c, ?c, ?m, ?m, ?m, ?m, ?p, ?p, ?p] ?W = Some W' \<and>
      cl_done (ws_cl (ww_state W')) \<and> remaining W' = 0 \<and> cl_isConnected (ws_cl (ww_state W'))"
    by (simp add: wsCall_def spawn_def wsGo_def closeStep_def d connectWithRetry_def armConn_def extendDeadline_def setConnected_def
        notifyConnect_def sendPing_def connWrite_def newConn_def pingMonitor_def afterPing_def readPump_def pumpExit_def Let_def
        connClose_def remaining_def)
  then show ?thesis using ws_reach_run [OF ws_reach_call [OF r]] by blast
qed

end
