(* ===== verification/Newt_Ping.thy ===== *)
theory Newt_Ping
  imports Newt_Prelude Go_Strings
begin

text \<open>
  Watching the tunnel (\<open>newt/ping.go\<close>): one ping with retries, the first pings after a connection, and the periodic check that
  asks the server for new exit nodes when the tunnel is lost.

  A ping is an argument: what \<open>fn\<close> returns at the given attempt.  The factors 1.5, 1.3 and 0.9 are multiplications of 64-bit
  floating-point numbers; they are modelled on integers with the rounding to 53 bits written out.
\<close>

section \<open>Scaling a duration\<close>

fun bitlen :: "nat \<Rightarrow> nat" where
  "bitlen n = (if n = 0 then 0 else Suc (bitlen (n div 2)))"

declare bitlen.simps [simp del]

lemma bitlen_0 [simp]: "bitlen 0 = 0"
  by (simp add: bitlen.simps)

lemma bitlen_pos: "bitlen n \<noteq> 0 \<Longrightarrow> 0 < n"
  by (rule ccontr) simp

lemma bitlen_step: "0 < n \<Longrightarrow> bitlen n = Suc (bitlen (n div 2))"
  by (subst bitlen.simps) simp

text \<open>Rounding to 53 significant bits, ties to even.\<close>

definition round53 :: "nat \<Rightarrow> nat" where
  "round53 n =
     (let k = bitlen n - 53; q = n div 2 ^ k; r = n mod 2 ^ k in
      if k = 0 then n
      else if 2 * r > 2 ^ k \<or> (2 * r = 2 ^ k \<and> odd q) then (q + 1) * 2 ^ k else q * 2 ^ k)"

text \<open>\<open>time.Duration(float64(d) * f)\<close> for a factor \<open>f = m / 2 ^ e\<close> with a mantissa of 53 bits.\<close>

definition scale :: "nat \<Rightarrow> nat \<Rightarrow> int \<Rightarrow> int" where
  "scale m e d = int (round53 (round53 (nat d) * m) div 2 ^ e)"

definition times_1_5 :: "int \<Rightarrow> int" where
  "times_1_5 = scale 6755399441055744 52"

definition times_1_3 :: "int \<Rightarrow> int" where
  "times_1_3 = scale 5854679515581645 52"

definition times_0_9 :: "int \<Rightarrow> int" where
  "times_0_9 = scale 8106479329266893 53"

lemma bitlen_bounds: "0 < n \<Longrightarrow> 2 ^ (bitlen n - 1) \<le> n \<and> n < 2 ^ bitlen n"
proof (induction n rule: bitlen.induct)
  case (1 n)
  show ?case
  proof (cases "n div 2 = 0")
    case True
    then have "n = 1" using 1 by auto
    then show ?thesis by (simp add: bitlen_step)
  next
    case False
    then have IH: "2 ^ (bitlen (n div 2) - 1) \<le> n div 2 \<and> n div 2 < 2 ^ bitlen (n div 2)" using 1 by simp
    obtain j where j: "bitlen (n div 2) = Suc j" using bitlen_step [of "n div 2"] False by blast
    have "bitlen n = Suc (Suc j)" using 1 j by (simp add: bitlen_step)
    then show ?thesis using IH j by auto
  qed
qed

lemma round53_small: "n < 2 ^ 53 \<Longrightarrow> round53 n = n"
proof -
  assume n: "n < 2 ^ 53"
  have "bitlen n \<le> 53"
  proof (rule ccontr)
    assume "\<not> bitlen n \<le> 53"
    then have b: "54 \<le> bitlen n" by simp
    then have "0 < n" by (intro bitlen_pos) simp
    then have "2 ^ (bitlen n - 1) \<le> n" using bitlen_bounds by blast
    moreover have "(2::nat) ^ 53 \<le> 2 ^ (bitlen n - 1)" using b by (intro power_increasing) auto
    ultimately show False using n by simp
  qed
  then show ?thesis by (simp add: round53_def Let_def)
qed

lemma round53_error: "n \<le> round53 n + n div 2 ^ 52 \<and> round53 n \<le> n + n div 2 ^ 52"
proof (cases "bitlen n - 53")
  case 0
  then show ?thesis by (simp add: round53_def)
next
  case (Suc j)
  let ?k = "bitlen n - 53"
  have "0 < n" using Suc by (intro bitlen_pos) simp
  then have "2 ^ (bitlen n - 1) \<le> n" using bitlen_bounds by blast
  moreover have "bitlen n - 1 = ?k + 52" using Suc by simp
  ultimately have "2 ^ ?k * 2 ^ 52 \<le> n" by (simp only: power_add)
  then have k: "2 ^ ?k \<le> n div 2 ^ 52" by (simp add: less_eq_div_iff_mult_less_eq)
  have n: "n = n div 2 ^ ?k * 2 ^ ?k + n mod 2 ^ ?k" by (rule div_mult_mod_eq [symmetric])
  have m: "n mod 2 ^ ?k < 2 ^ ?k" by simp
  have "round53 n = n div 2 ^ ?k * 2 ^ ?k \<or> round53 n = n div 2 ^ ?k * 2 ^ ?k + 2 ^ ?k"
    using Suc by (simp add: round53_def Let_def add_mult_distrib)
  then show ?thesis using k n m by linarith
qed

text \<open>Scaling up does not shrink and scaling down does not grow a duration below some hundred days.\<close>

lemma times_1_3_ge: "0 \<le> d \<Longrightarrow> d < 2 ^ 53 \<Longrightarrow> d \<le> times_1_3 d"
proof -
  assume d: "0 \<le> d" "d < 2 ^ 53"
  let ?x = "nat d"
  let ?P = "?x * 5854679515581645"
  have x: "round53 ?x = ?x" using d by (intro round53_small) simp
  have "?P \<le> round53 ?P + ?P div 2 ^ 52" using round53_error [of ?P] by blast
  moreover have "?P div 2 ^ 52 \<le> ?x * 2" using div_le_mono [of ?P "?x * 2 * 2 ^ 52" "2 ^ 52"] by simp
  ultimately have "?x * 2 ^ 52 \<le> round53 ?P" by simp
  then have "?x \<le> round53 ?P div 2 ^ 52" by (simp add: less_eq_div_iff_mult_less_eq)
  then show ?thesis using d x by (simp add: times_1_3_def scale_def)
qed

lemma times_0_9_le: "0 \<le> d \<Longrightarrow> d < 2 ^ 53 \<Longrightarrow> times_0_9 d \<le> d"
proof -
  assume d: "0 \<le> d" "d < 2 ^ 53"
  let ?x = "nat d"
  let ?P = "?x * 8106479329266893"
  have x: "round53 ?x = ?x" using d by (intro round53_small) simp
  have "round53 ?P \<le> ?P + ?P div 2 ^ 52" using round53_error [of ?P] by blast
  moreover have "?P div 2 ^ 52 \<le> ?x * 2" using div_le_mono [of ?P "?x * 2 * 2 ^ 52" "2 ^ 52"] by simp
  ultimately have "round53 ?P \<le> ?x * 2 ^ 53" by simp
  then have "round53 ?P div 2 ^ 53 \<le> ?x" using div_le_mono [of "round53 ?P" "?x * 2 ^ 53" "2 ^ 53"] by simp
  then show ?thesis using d x by (simp add: times_0_9_def scale_def nat_le_iff)
qed

section \<open>One ping with retries\<close>

type_synonym pingFunc = "nat \<Rightarrow> string \<Rightarrow> int \<Rightarrow> string + int"

text \<open>Go divides towards zero.\<close>

definition go_div :: "int \<Rightarrow> int \<Rightarrow> int" where
  "go_div a b = (if a < 0 then - ((- a) div b) else a div b)"

function reliableLoop :: "pingFunc \<Rightarrow> (nat \<Rightarrow> int) \<Rightarrow> string \<Rightarrow> int \<Rightarrow> nat \<Rightarrow> nat \<Rightarrow> string \<Rightarrow> string + int" where
  "reliableLoop fn rnd dst baseTimeout maxAttempts attempt lastErr =
     (if attempt \<le> maxAttempts then
        (let timeout = baseTimeout + (int attempt - 1) * 500 * millisecond + rnd attempt * millisecond in
         case fn attempt dst timeout of
           Inl err \<Rightarrow> reliableLoop fn rnd dst baseTimeout maxAttempts (Suc attempt) err
         | Inr latency \<Rightarrow> Inr (go_div (0 + latency) 1))
      else Inl (''all '' @ itoa maxAttempts @ '' ping attempts failed, last error: '' @ lastErr))"
  by pat_completeness auto
termination
  by (relation "measure (\<lambda>(fn, rnd, dst, b, m, a, e). Suc m - a)") auto

declare reliableLoop.simps [simp del]

definition reliablePing :: "pingFunc \<Rightarrow> (nat \<Rightarrow> int) \<Rightarrow> string \<Rightarrow> int \<Rightarrow> nat \<Rightarrow> string + int" where
  "reliablePing fn rnd dst baseTimeout maxAttempts = reliableLoop fn rnd dst baseTimeout maxAttempts 1 ''<nil>''"

lemma go_div_1 [simp]: "go_div a 1 = a"
  by (simp add: go_div_def)

text \<open>The result is that of the first attempt that succeeds.\<close>

lemma reliableLoop_first:
  assumes "attempt \<le> Suc maxAttempts"
  shows "reliableLoop fn rnd dst b maxAttempts attempt e = Inr lat \<longleftrightarrow>
    (\<exists>k. attempt \<le> k \<and> k \<le> maxAttempts \<and> fn k dst (b + (int k - 1) * 500 * millisecond + rnd k * millisecond) = Inr lat \<and>
       (\<forall>i. attempt \<le> i \<and> i < k \<longrightarrow> (\<exists>x. fn i dst (b + (int i - 1) * 500 * millisecond + rnd i * millisecond) = Inl x)))"
  using assms
proof (induction fn rnd dst b maxAttempts attempt e rule: reliableLoop.induct)
  case (1 fn rnd dst b maxAttempts attempt e)
  let ?r = "\<lambda>k. fn k dst (b + (int k - 1) * 500 * millisecond + rnd k * millisecond)"
  show ?case
  proof (cases "attempt \<le> maxAttempts")
    case False
    then show ?thesis by (subst reliableLoop.simps) auto
  next
    case True
    show ?thesis
    proof (cases "?r attempt")
      case (Inl x)
      have "(\<forall>i. attempt \<le> i \<and> i < k \<longrightarrow> (\<exists>y. ?r i = Inl y)) \<longleftrightarrow> (\<forall>i. Suc attempt \<le> i \<and> i < k \<longrightarrow> (\<exists>y. ?r i = Inl y))" for k
        using Inl by (metis Suc_leI le_neq_implies_less Suc_leD)
      moreover have "attempt \<le> k \<and> ?r k = Inr lat \<longleftrightarrow> Suc attempt \<le> k \<and> ?r k = Inr lat" for k
        using Inl by (cases "k = attempt") auto
      ultimately show ?thesis using 1(1) [OF True refl Inl] True Inl
        by (subst reliableLoop.simps) (simp, blast)
    next
      case (Inr l)
      have "(\<exists>k. attempt \<le> k \<and> k \<le> maxAttempts \<and> ?r k = Inr lat \<and> (\<forall>i. attempt \<le> i \<and> i < k \<longrightarrow> (\<exists>x. ?r i = Inl x))) \<longleftrightarrow> l = lat"
      proof
        assume "\<exists>k. attempt \<le> k \<and> k \<le> maxAttempts \<and> ?r k = Inr lat \<and> (\<forall>i. attempt \<le> i \<and> i < k \<longrightarrow> (\<exists>x. ?r i = Inl x))"
        then obtain k where k: "attempt \<le> k" "?r k = Inr lat" "\<forall>i. attempt \<le> i \<and> i < k \<longrightarrow> (\<exists>x. ?r i = Inl x)" by blast
        have "k = attempt"
        proof (rule ccontr)
          assume "k \<noteq> attempt"
          then have "\<exists>x. ?r attempt = Inl x" using k(1,3) by simp
          then show False using Inr by simp
        qed
        then show "l = lat" using k(2) Inr by simp
      next
        assume "l = lat"
        then show "\<exists>k. attempt \<le> k \<and> k \<le> maxAttempts \<and> ?r k = Inr lat \<and> (\<forall>i. attempt \<le> i \<and> i < k \<longrightarrow> (\<exists>x. ?r i = Inl x))"
          using True Inr by (intro exI [of _ attempt]) auto
      qed
      then show ?thesis using True Inr by (subst reliableLoop.simps) simp
    qed
  qed
qed

section \<open>Pings after a connection\<close>

definition initialRetryDelay :: int where
  "initialRetryDelay = 2 * second"

definition maxRetryDelay :: int where
  "maxRetryDelay = 60 * second"

text \<open>The delay before the next attempt.\<close>

definition nextRetryDelay :: "nat \<Rightarrow> int \<Rightarrow> int" where
  "nextRetryDelay attempt retryDelay =
     (if attempt mod 5 = 0 \<and> retryDelay < maxRetryDelay
      then let d = times_1_5 retryDelay in if d > maxRetryDelay then maxRetryDelay else d
      else retryDelay)"

text \<open>What happens in one turn of the goroutine: the stop channel is closed, or the ping returns.\<close>

datatype retry_event = RetryStop | RetryPing "string + int"

datatype retry_end = RetryStopped | RetrySucceeded | RetryRunning

text \<open>The goroutine: how it ends, the delays slept, and whether the health file was written.\<close>

fun retryLoop :: "string \<Rightarrow> nat \<Rightarrow> int \<Rightarrow> retry_event list \<Rightarrow> retry_end \<times> int list \<times> bool" where
  "retryLoop healthFile attempt retryDelay [] = (RetryRunning, [], False)"
| "retryLoop healthFile attempt retryDelay (RetryStop # es) = (RetryStopped, [], False)"
| "retryLoop healthFile attempt retryDelay (RetryPing (Inr latency) # es) = (RetrySucceeded, [], healthFile \<noteq> [])"
| "retryLoop healthFile attempt retryDelay (RetryPing (Inl err) # es) =
     (let retryDelay = nextRetryDelay attempt retryDelay; (r, ds, h) = retryLoop healthFile (Suc attempt) retryDelay es
      in (r, retryDelay # ds, h))"

text \<open>\<open>pingWithRetry\<close>: the result of the first ping, what was done with the health file, and the goroutine if it is started.\<close>

definition pingWithRetry :: "string \<Rightarrow> (string + int) \<Rightarrow> retry_event list \<Rightarrow> string option \<times> bool \<times> bool \<times> (retry_end \<times> int list \<times> bool) option" where
  "pingWithRetry healthFile first es =
     (let removed = (healthFile \<noteq> []) in case first of
        Inr latency \<Rightarrow> (None, removed, healthFile \<noteq> [], None)
      | Inl err \<Rightarrow> (Some ''initial ping attempts failed, continuing in background'', removed, False,
                    Some (retryLoop healthFile 2 initialRetryDelay es)))"

section \<open>The periodic check\<close>

record ping_check =
  pk_currentInterval :: int
  pk_ticker :: int
  pk_consecutiveFailures :: nat
  pk_connectionLost :: bool
  pk_recentLatencies :: "int list"

record ping_config =
  pg_PingInterval :: int
  pg_PingTimeout :: int
  pg_HealthFile :: string

datatype ping_effect =
    PReconnectMetric
  | PRequestExitNodes string
  | PRegister string
  | PRemoveHealthFile
  | PWriteHealthFile
  | PLatencyMetric int

definition maxInterval :: int where
  "maxInterval = 6 * second"

definition failureThreshold :: nat where
  "failureThreshold = 4"

definition shouldFireRecovery :: "nat \<Rightarrow> nat \<Rightarrow> bool \<Rightarrow> bool" where
  "shouldFireRecovery failures threshold lost \<longleftrightarrow> threshold \<le> failures \<and> \<not> lost"

definition adaptiveTimeout :: "int \<Rightarrow> int list \<Rightarrow> int" where
  "adaptiveTimeout pingTimeout recent =
     (if recent = [] then pingTimeout
      else let avgLatency = go_div (sum_list recent) (int (length recent));
               t = avgLatency * 3; t = (if t < pingTimeout then pingTimeout else t)
           in if t > 15 * second then 15 * second else t)"

definition pushLatency :: "int \<Rightarrow> int list \<Rightarrow> int list" where
  "pushLatency l recent = (let recent = recent @ [l] in if 10 < length recent then tl recent else recent)"

definition attemptsFor :: "nat \<Rightarrow> nat" where
  "attemptsFor failures = (if 4 < failures then 4 else 2)"

text \<open>A failed ping; the interval grows, the ticker does not see it.\<close>

definition pingFailed :: "ping_config \<Rightarrow> string \<Rightarrow> string \<times> string \<Rightarrow> int \<Rightarrow> ping_check \<Rightarrow> ping_effect list \<times> ping_check" where
  "pingFailed cfg tunnelID ids timeout s =
     (let failures = Suc (pk_consecutiveFailures s);
          fire = shouldFireRecovery failures failureThreshold (pk_connectionLost s);
          interval = (if failureThreshold \<le> failures \<and> pk_currentInterval s < maxInterval
                      then let i = times_1_3 (pk_currentInterval s) in if i > maxInterval then maxInterval else i
                      else pk_currentInterval s)
      in (if fire then (if tunnelID \<noteq> [] then [PReconnectMetric] else []) @ [PRequestExitNodes (fst ids), PRegister (snd ids)] @
                       (if pg_HealthFile cfg \<noteq> [] then [PRemoveHealthFile] else [])
          else [],
          s\<lparr>pk_consecutiveFailures := failures, pk_recentLatencies := pushLatency timeout (pk_recentLatencies s),
            pk_connectionLost := pk_connectionLost s \<or> fire, pk_currentInterval := interval\<rparr>))"

definition pingSucceeded :: "ping_config \<Rightarrow> string \<Rightarrow> int \<Rightarrow> ping_check \<Rightarrow> ping_effect list \<times> ping_check" where
  "pingSucceeded cfg tunnelID latency s =
     (let slower = pk_currentInterval s > pg_PingInterval cfg;
          interval = (if slower then let i = times_0_9 (pk_currentInterval s) in if i < pg_PingInterval cfg then pg_PingInterval cfg else i
                      else pk_currentInterval s)
      in ((if tunnelID \<noteq> [] then [PLatencyMetric latency] else []) @
          (if pk_connectionLost s \<and> pg_HealthFile cfg \<noteq> [] then [PWriteHealthFile] else []),
          s\<lparr>pk_consecutiveFailures := 0, pk_recentLatencies := pushLatency latency (pk_recentLatencies s), pk_connectionLost := False,
            pk_currentInterval := interval, pk_ticker := (if slower then interval else pk_ticker s)\<rparr>))"

record ping_env =
  pv_fn :: pingFunc
  pv_rnd :: "nat \<Rightarrow> int"
  pv_chains :: "string \<times> string"

definition pingTick :: "ping_config \<Rightarrow> string \<Rightarrow> string \<Rightarrow> ping_env \<Rightarrow> ping_check \<Rightarrow> ping_effect list \<times> ping_check" where
  "pingTick cfg serverIP tunnelID env s =
     (let timeout = adaptiveTimeout (pg_PingTimeout cfg) (pk_recentLatencies s) in
      case reliablePing (pv_fn env) (pv_rnd env) serverIP timeout (attemptsFor (pk_consecutiveFailures s)) of
        Inl err \<Rightarrow> pingFailed cfg tunnelID (pv_chains env) timeout s
      | Inr latency \<Rightarrow> pingSucceeded cfg tunnelID latency s)"

definition newPingCheck :: "ping_config \<Rightarrow> ping_check" where
  "newPingCheck cfg = \<lparr>pk_currentInterval = pg_PingInterval cfg, pk_ticker = pg_PingInterval cfg, pk_consecutiveFailures = 0,
     pk_connectionLost = False, pk_recentLatencies = []\<rparr>"

text \<open>
  \<open>startPingCheck\<close>: the goroutine over the ticks it gets before it is stopped, with the effects of each tick.
\<close>

primrec pingCheckRun :: "ping_config \<Rightarrow> string \<Rightarrow> string \<Rightarrow> ping_env list \<Rightarrow> ping_check \<Rightarrow> ping_effect list list \<times> ping_check" where
  "pingCheckRun cfg serverIP tunnelID [] s = ([], s)"
| "pingCheckRun cfg serverIP tunnelID (env # envs) s =
     (let (fx, s) = pingTick cfg serverIP tunnelID env s; (rest, s) = pingCheckRun cfg serverIP tunnelID envs s in (fx # rest, s))"

definition startPingCheck :: "ping_config \<Rightarrow> string \<Rightarrow> string \<Rightarrow> ping_env list \<Rightarrow> ping_effect list list \<times> ping_check" where
  "startPingCheck cfg serverIP tunnelID envs = pingCheckRun cfg serverIP tunnelID envs (newPingCheck cfg)"

section \<open>Recovery\<close>

text \<open>The number of failed pings since the last success, after the given outcomes (True is a success).\<close>

definition trailingFailures :: "bool list \<Rightarrow> nat" where
  "trailingFailures oks = length (takeWhile Not (rev oks))"

lemma trailingFailures_simps [simp]:
  "trailingFailures [] = 0" "trailingFailures (oks @ [True]) = 0" "trailingFailures (oks @ [False]) = Suc (trailingFailures oks)"
  by (simp_all add: trailingFailures_def)

text \<open>The check sees the outcomes so far only through their trailing failures.\<close>

definition pingTracks :: "ping_check \<Rightarrow> bool list \<Rightarrow> bool" where
  "pingTracks s oks \<longleftrightarrow> pk_consecutiveFailures s = trailingFailures oks \<and>
     pk_connectionLost s = (failureThreshold \<le> trailingFailures oks)"

definition pingOk :: "ping_config \<Rightarrow> string \<Rightarrow> ping_env \<Rightarrow> ping_check \<Rightarrow> bool" where
  "pingOk cfg serverIP env s \<longleftrightarrow> (\<exists>latency. reliablePing (pv_fn env) (pv_rnd env) serverIP
     (adaptiveTimeout (pg_PingTimeout cfg) (pk_recentLatencies s)) (attemptsFor (pk_consecutiveFailures s)) = Inr latency)"

definition asksForExitNodes :: "ping_effect list \<Rightarrow> bool" where
  "asksForExitNodes fx \<longleftrightarrow> (\<exists>c. PRequestExitNodes c \<in> set fx)"

text \<open>The outcome of each tick.\<close>

primrec outcomes :: "ping_config \<Rightarrow> string \<Rightarrow> string \<Rightarrow> ping_env list \<Rightarrow> ping_check \<Rightarrow> bool list" where
  "outcomes cfg serverIP tunnelID [] s = []"
| "outcomes cfg serverIP tunnelID (env # envs) s =
     pingOk cfg serverIP env s # outcomes cfg serverIP tunnelID envs (snd (pingTick cfg serverIP tunnelID env s))"

lemma pingTick_tracks:
  assumes "pingTracks s oks"
  shows "pingTracks (snd (pingTick cfg serverIP tunnelID env s)) (oks @ [pingOk cfg serverIP env s]) \<and>
    asksForExitNodes (fst (pingTick cfg serverIP tunnelID env s)) =
      (trailingFailures (oks @ [pingOk cfg serverIP env s]) = failureThreshold)"
proof (cases "reliablePing (pv_fn env) (pv_rnd env) serverIP
     (adaptiveTimeout (pg_PingTimeout cfg) (pk_recentLatencies s)) (attemptsFor (pk_consecutiveFailures s))")
  case (Inl e)
  then have "\<not> pingOk cfg serverIP env s" by (simp add: pingOk_def)
  then show ?thesis using assms Inl
    by (auto simp: pingTick_def pingFailed_def Let_def pingTracks_def shouldFireRecovery_def asksForExitNodes_def failureThreshold_def)
next
  case (Inr l)
  then have "pingOk cfg serverIP env s" by (simp add: pingOk_def)
  then show ?thesis using assms Inr
    by (auto simp: pingTick_def pingSucceeded_def Let_def pingTracks_def asksForExitNodes_def failureThreshold_def)
qed

lemma pingCheckRun_asks:
  "pingTracks s oks \<Longrightarrow>
   map asksForExitNodes (fst (pingCheckRun cfg serverIP tunnelID envs s)) =
     map (\<lambda>k. trailingFailures (oks @ take (Suc k) (outcomes cfg serverIP tunnelID envs s)) = failureThreshold) [0..<length envs]"
proof (induction envs arbitrary: s oks)
  case (Cons env envs)
  let ?t = "pingTick cfg serverIP tunnelID env s"
  let ?o = "pingOk cfg serverIP env s"
  note t = pingTick_tracks [OF Cons.prems, of cfg serverIP tunnelID env]
  have up: "[0..<length (env # envs)] = 0 # map Suc [0..<length envs]" by (simp add: upt_conv_Cons map_Suc_upt del: upt_Suc)
  have "fst (pingCheckRun cfg serverIP tunnelID (env # envs) s) = fst ?t # fst (pingCheckRun cfg serverIP tunnelID envs (snd ?t))"
    by (simp add: Let_def split: prod.split)
  then show ?case using t Cons.IH [of "snd ?t" "oks @ [?o]"] unfolding up by simp
qed simp

text \<open>
  C33. Recovery fires once per outage.  A tick of the periodic check asks the server for exit nodes exactly when it is the fourth failed
  ping in a row, whatever the pings, the time-outs and the earlier history were: not before, and not again until a ping has
  succeeded.
\<close>

theorem recovery_once_per_outage:
  "map asksForExitNodes (fst (startPingCheck cfg serverIP tunnelID envs)) =
     map (\<lambda>k. trailingFailures (take (Suc k) (outcomes cfg serverIP tunnelID envs (newPingCheck cfg))) = failureThreshold)
       [0..<length envs]"
proof -
  have "pingTracks (newPingCheck cfg) []" by (simp add: pingTracks_def newPingCheck_def failureThreshold_def)
  from pingCheckRun_asks [OF this] show ?thesis by (simp add: startPingCheck_def)
qed

section \<open>Bounds\<close>

text \<open>The intervals stay between the configured one and six seconds; at most ten latencies are kept.\<close>

definition pingBounded :: "ping_config \<Rightarrow> ping_check \<Rightarrow> bool" where
  "pingBounded cfg s \<longleftrightarrow>
     pg_PingInterval cfg \<le> pk_currentInterval s \<and> pk_currentInterval s \<le> max (pg_PingInterval cfg) maxInterval \<and>
     pg_PingInterval cfg \<le> pk_ticker s \<and> pk_ticker s \<le> max (pg_PingInterval cfg) maxInterval \<and>
     length (pk_recentLatencies s) \<le> 10"

lemma pushLatency_length: "length recent \<le> 10 \<Longrightarrow> length (pushLatency l recent) \<le> 10"
  by (auto simp: pushLatency_def Let_def)

lemma pingFailed_bounded:
  assumes "pingBounded cfg s" "0 < pg_PingInterval cfg"
  shows "pingBounded cfg (snd (pingFailed cfg tunnelID ids t s))"
proof -
  have "pk_currentInterval s \<le> times_1_3 (pk_currentInterval s)" if "pk_currentInterval s < maxInterval"
    using that assms by (intro times_1_3_ge) (auto simp: pingBounded_def maxInterval_def)
  then show ?thesis using assms by (auto simp: pingFailed_def Let_def pingBounded_def pushLatency_length)
qed

lemma pingSucceeded_bounded:
  assumes "pingBounded cfg s" "0 < pg_PingInterval cfg" "pg_PingInterval cfg < 2 ^ 53"
  shows "pingBounded cfg (snd (pingSucceeded cfg tunnelID l s))"
proof -
  have "times_0_9 (pk_currentInterval s) \<le> pk_currentInterval s"
    using assms by (intro times_0_9_le) (auto simp: pingBounded_def maxInterval_def)
  then show ?thesis using assms by (auto simp: pingSucceeded_def Let_def pingBounded_def pushLatency_length)
qed

lemma pingCheckRun_bounded:
  "pingBounded cfg s \<Longrightarrow> 0 < pg_PingInterval cfg \<Longrightarrow> pg_PingInterval cfg < 2 ^ 53 \<Longrightarrow>
     pingBounded cfg (snd (pingCheckRun cfg serverIP tunnelID envs s))"
proof (induction envs arbitrary: s)
  case (Cons env envs)
  have "pingBounded cfg (snd (pingTick cfg serverIP tunnelID env s))"
    using Cons.prems pingFailed_bounded pingSucceeded_bounded by (auto simp: pingTick_def Let_def split: sum.split)
  from Cons.IH [OF this] Cons.prems show ?case by (auto simp: Let_def split: prod.split)
qed simp

lemma adaptiveTimeout_bounds:
  "pingTimeout \<le> 15 * second \<Longrightarrow> pingTimeout \<le> adaptiveTimeout pingTimeout recent \<and> adaptiveTimeout pingTimeout recent \<le> 15 * second"
  by (auto simp: adaptiveTimeout_def Let_def)

text \<open>
  The timing of the periodic check is bounded.  With a positive ping interval below a hundred days and a time-out of at most fifteen
  seconds, after any ticks the current interval and the period of the ticker lie between the configured interval and the larger of
  it and six seconds, no more than ten latencies are kept, and the next time-out lies between the configured one and fifteen
  seconds.
\<close>

theorem ping_check_bounds:
  assumes "0 < pg_PingInterval cfg" "pg_PingInterval cfg < 2 ^ 53" "pg_PingTimeout cfg \<le> 15 * second"
    and "startPingCheck cfg serverIP tunnelID envs = (fx, s)"
  shows "pg_PingInterval cfg \<le> pk_currentInterval s \<and> pk_currentInterval s \<le> max (pg_PingInterval cfg) maxInterval \<and>
    pg_PingInterval cfg \<le> pk_ticker s \<and> pk_ticker s \<le> max (pg_PingInterval cfg) maxInterval \<and>
    length (pk_recentLatencies s) \<le> 10 \<and>
    pg_PingTimeout cfg \<le> adaptiveTimeout (pg_PingTimeout cfg) (pk_recentLatencies s) \<and>
    adaptiveTimeout (pg_PingTimeout cfg) (pk_recentLatencies s) \<le> 15 * second"
proof -
  have "pingBounded cfg (newPingCheck cfg)" by (simp add: pingBounded_def newPingCheck_def)
  from pingCheckRun_bounded [OF this assms(1,2), of serverIP tunnelID envs] have "pingBounded cfg s"
    using assms(4) by (simp add: startPingCheck_def)
  then show ?thesis using adaptiveTimeout_bounds [OF assms(3)] unfolding pingBounded_def by blast
qed

definition exPing :: ping_config where
  "exPing = \<lparr>pg_PingInterval = 3 * second, pg_PingTimeout = 5 * second, pg_HealthFile = []\<rparr>"

theorem ping_check_bounds_witness:
  "\<exists>fx s. startPingCheck exPing ''10.0.0.1'' [] [\<lparr>pv_fn = (\<lambda>k d t. Inl ''timeout''), pv_rnd = (\<lambda>k. 0), pv_chains = ([], [])\<rparr>] = (fx, s) \<and>
     pk_currentInterval s \<le> 6 * second"
proof -
  let ?envs = "[\<lparr>pv_fn = (\<lambda>k d t. Inl ''timeout''), pv_rnd = (\<lambda>k. 0), pv_chains = ([], [])\<rparr>]"
  obtain fx s where r: "startPingCheck exPing ''10.0.0.1'' [] ?envs = (fx, s)" by (metis surj_pair)
  have "pk_currentInterval s \<le> max (pg_PingInterval exPing) maxInterval"
    using ping_check_bounds [OF _ _ _ r] by (simp add: exPing_def)
  then show ?thesis using r by (auto simp: exPing_def maxInterval_def)
qed

text \<open>The ticker is reset only after a success: during an outage it keeps its period however the interval grows.\<close>

lemma ticker_ignores_backoff: "pk_ticker (snd (pingFailed cfg tunnelID ids t s)) = pk_ticker s"
  by (simp add: pingFailed_def Let_def)

text \<open>The retry delay grows from two seconds to at most sixty.\<close>

lemma times_1_5_small: "0 \<le> d \<Longrightarrow> d < 2 ^ 40 \<Longrightarrow> d \<le> times_1_5 d"
proof -
  assume d: "0 \<le> d" "d < 2 ^ 40"
  let ?x = "nat d"
  let ?P = "?x * 6755399441055744"
  have x: "round53 ?x = ?x" using d by (intro round53_small) simp
  have "?P \<le> round53 ?P + ?P div 2 ^ 52" using round53_error [of ?P] by blast
  moreover have "?P div 2 ^ 52 \<le> ?x * 2" using div_le_mono [of ?P "?x * 2 * 2 ^ 52" "2 ^ 52"] by simp
  ultimately have "?x * 2 ^ 52 \<le> round53 ?P" by simp
  then have "?x \<le> round53 ?P div 2 ^ 52" by (simp add: less_eq_div_iff_mult_less_eq)
  then show ?thesis using d x by (simp add: times_1_5_def scale_def)
qed

lemma nextRetryDelay_bounds:
  "initialRetryDelay \<le> d \<Longrightarrow> d \<le> maxRetryDelay \<Longrightarrow> d \<le> nextRetryDelay n d \<and> nextRetryDelay n d \<le> maxRetryDelay"
  using times_1_5_small [of d] by (auto simp: nextRetryDelay_def Let_def initialRetryDelay_def maxRetryDelay_def)

lemma retryLoop_delays:
  "initialRetryDelay \<le> d \<Longrightarrow> d \<le> maxRetryDelay \<Longrightarrow>
     list_all (\<lambda>x. d \<le> x \<and> x \<le> maxRetryDelay) (fst (snd (retryLoop h n d es))) \<and> sorted (fst (snd (retryLoop h n d es)))"
proof (induction h n d es rule: retryLoop.induct)
  case (4 h n d e es)
  let ?d = "nextRetryDelay n d"
  have b: "d \<le> ?d" "?d \<le> maxRetryDelay" using nextRetryDelay_bounds [OF 4(2,3)] by auto
  then have "initialRetryDelay \<le> ?d" using 4(2) by simp
  from 4(1) [OF refl this b(2)] show ?case using b
    by (auto simp: Let_def list_all_iff split: prod.split intro: order_trans)
qed simp_all

text \<open>
  The pings after a connection end with the first answer and never come faster.  The goroutine of \<open>pingWithRetry\<close> ends exactly when it
  is stopped or a ping succeeds; the delays between its attempts never shrink and stay between two and sixty seconds.
\<close>

theorem pingWithRetry_backoff:
  assumes "pingWithRetry healthFile first es = (err, removed, wrote, Some (how, delays, health))"
  shows "(how = RetryRunning \<longleftrightarrow> (\<forall>e\<in>set es. \<exists>x. e = RetryPing (Inl x))) \<and>
    (how = RetrySucceeded \<longrightarrow> (\<exists>l. RetryPing (Inr l) \<in> set es)) \<and>
    sorted delays \<and> (\<forall>d\<in>set delays. 2 * second \<le> d \<and> d \<le> 60 * second) \<and> length delays \<le> length es"
proof -
  have ends: "(fst (retryLoop h n d es) = RetryRunning \<longleftrightarrow> (\<forall>e\<in>set es. \<exists>x. e = RetryPing (Inl x))) \<and>
      (fst (retryLoop h n d es) = RetrySucceeded \<longrightarrow> (\<exists>l. RetryPing (Inr l) \<in> set es)) \<and>
      length (fst (snd (retryLoop h n d es))) \<le> length es" for h n d
    by (induction h n d es rule: retryLoop.induct) (auto simp: Let_def split: prod.splits)
  have r: "retryLoop healthFile 2 initialRetryDelay es = (how, delays, health)"
    using assms by (auto simp: pingWithRetry_def Let_def split: sum.splits)
  show ?thesis using ends [of healthFile 2 initialRetryDelay] retryLoop_delays [of initialRetryDelay healthFile 2 es] r
    by (auto simp: list_all_iff initialRetryDelay_def maxRetryDelay_def)
qed

theorem pingWithRetry_backoff_witness:
  "\<exists>how delays health. pingWithRetry [] (Inl ''e'') [RetryPing (Inl ''e''), RetryPing (Inr 5)] =
     (Some ''initial ping attempts failed, continuing in background'', False, False, Some (how, delays, health)) \<and>
     how \<noteq> RetryRunning \<and> sorted delays"
proof -
  obtain how delays health where r: "retryLoop [] 2 initialRetryDelay [RetryPing (Inl ''e''), RetryPing (Inr 5)] = (how, delays, health)"
    by (metis surj_pair)
  then have p: "pingWithRetry [] (Inl ''e'') [RetryPing (Inl ''e''), RetryPing (Inr 5)] =
     (Some ''initial ping attempts failed, continuing in background'', False, False, Some (how, delays, health))"
    by (simp add: pingWithRetry_def)
  from pingWithRetry_backoff [OF p] have "how \<noteq> RetryRunning" "sorted delays" by auto
  then show ?thesis using p by blast
qed

end
