(* ===== verification/Exit_Node.thy ===== *)
theory Exit_Node
  imports Newt_Ping
begin

text \<open>
  The choice of an exit node (\<open>exitnode/exitnode.go\<close>): each candidate is pinged over HTTP and the results are sent with the registration.  The
  HTTP client is the argument \<open>get\<close>: for the position of a node, the number of the attempt and the URL, an error or the time it took.  The weight of a node is
  only passed on; its type is abstract.
\<close>

section \<open>Definitions\<close>

record 'w exit_node =
  xn_ID :: int
  xn_Name :: string
  xn_Endpoint :: string
  xn_Weight :: 'w
  xn_WasPreviouslyConnected :: bool

record 'w exit_result =
  xr_ExitNodeID :: int
  xr_LatencyMs :: int
  xr_Weight :: 'w
  xr_Error :: string
  xr_Name :: string
  xr_Endpoint :: string
  xr_WasPreviouslyConnected :: bool

definition nodeResult :: "int \<Rightarrow> string \<Rightarrow> 'w exit_node \<Rightarrow> 'w exit_result" where
  "nodeResult latencyMs err node = \<lparr>xr_ExitNodeID = xn_ID node, xr_LatencyMs = latencyMs, xr_Weight = xn_Weight node, xr_Error = err,
     xr_Name = xn_Name node, xr_Endpoint = xn_Endpoint node, xr_WasPreviouslyConnected = xn_WasPreviouslyConnected node\<rparr>"

definition pingURL :: "string \<Rightarrow> string" where
  "pingURL endpoint =
     (let url = (if has_prefix endpoint ''http://'' \<or> has_prefix endpoint ''https://'' then endpoint else ''http://'' @ endpoint)
      in if has_suffix url ''/ping'' then url else rev (dropWhile (\<lambda>c. c = CHR ''/'') (rev url)) @ ''/ping'')"

definition pingNode :: "(nat \<Rightarrow> nat \<Rightarrow> string \<Rightarrow> string + int) \<Rightarrow> nat \<Rightarrow> 'w exit_node \<Rightarrow> 'w exit_result" where
  "pingNode get i node =
     (let attempts = map (\<lambda>j. get i j (pingURL (xn_Endpoint node))) [0..<3];
          latencies = List.map_filter (\<lambda>a. case a of Inl e \<Rightarrow> None | Inr l \<Rightarrow> Some l) attempts;
          errors = List.map_filter (\<lambda>a. case a of Inl e \<Rightarrow> Some e | Inr l \<Rightarrow> None) attempts
      in if latencies = [] then nodeResult 0 (last errors) node
         else nodeResult (go_div (go_div (sum_list latencies) (int (length latencies))) millisecond) [] node)"

definition pingNodes :: "(nat \<Rightarrow> nat \<Rightarrow> string \<Rightarrow> string + int) \<Rightarrow> 'w exit_node list \<Rightarrow> 'w exit_result list" where
  "pingNodes get nodes = map (\<lambda>(i, node). pingNode get i node) (enumerate 0 nodes)"

definition isGood :: "'w exit_result \<Rightarrow> bool" where
  "isGood r \<longleftrightarrow> xr_LatencyMs r > 0 \<and> xr_Error r = []"

text \<open>The last node that was connected before, and the results without it if another one is good.\<close>

definition previousIndex :: "'w exit_result list \<Rightarrow> nat option" where
  "previousIndex rs = foldl (\<lambda>p (i, r). if xr_WasPreviouslyConnected r then Some i else p) None (enumerate 0 rs)"

definition excludePrevious :: "'w exit_result list \<Rightarrow> 'w exit_result list" where
  "excludePrevious rs =
     (case previousIndex rs of
        None \<Rightarrow> rs
      | Some p \<Rightarrow>
          if filter (\<lambda>(i, r). i \<noteq> p \<and> isGood r) (enumerate 0 rs) \<noteq> []
          then map snd (filter (\<lambda>(i, r). i \<noteq> p) (enumerate 0 rs)) else rs)"

definition PingExitNodes ::
  "(nat \<Rightarrow> nat \<Rightarrow> string \<Rightarrow> string + int) \<Rightarrow> 'w exit_node list \<Rightarrow> string \<Rightarrow> bool \<Rightarrow> 'w exit_result list" where
  "PingExitNodes get exitNodes preferEndpoint alreadyConnected =
     (if exitNodes = [] then []
      else if length exitNodes = 1 \<or> preferEndpoint \<noteq> [] then
        (let selected = (if preferEndpoint \<noteq> [] then case find (\<lambda>n. xn_Endpoint n = preferEndpoint) exitNodes of
                             None \<Rightarrow> hd exitNodes | Some n \<Rightarrow> n
                         else hd exitNodes)
         in [nodeResult 0 [] selected])
      else let rs = pingNodes get exitNodes in if alreadyConnected then excludePrevious rs else rs)"

section \<open>Properties\<close>

lemma excludePrevious_subset: "set (excludePrevious rs) \<subseteq> set rs"
  by (auto simp: excludePrevious_def in_set_enumerate_eq split: option.split)

lemma excludePrevious_good:
  assumes "r \<in> set rs" "isGood r"
  shows "\<exists>r' \<in> set (excludePrevious rs). isGood r'"
proof (cases "previousIndex rs")
  case (Some p)
  let ?others = "filter (\<lambda>(i, r). i \<noteq> p \<and> isGood r) (enumerate 0 rs)"
  show ?thesis
  proof (cases "?others = []")
    case False
    then obtain i r' where "(i, r') \<in> set ?others" by (metis list.set_intros(1) neq_Nil_conv surj_pair)
    then have "(i, r') \<in> set (filter (\<lambda>(i, r). i \<noteq> p) (enumerate 0 rs))" "isGood r'" by auto
    then show ?thesis using Some False by (force simp: excludePrevious_def)
  qed (use Some assms in \<open>auto simp: excludePrevious_def\<close>)
qed (use assms in \<open>auto simp: excludePrevious_def\<close>)

lemma pingNode_reports: "\<exists>l e. pingNode get i node = nodeResult l e node"
  by (auto simp: pingNode_def Let_def)

lemma pingNodes_reports: "r \<in> set (pingNodes get nodes) \<Longrightarrow> \<exists>node \<in> set nodes. \<exists>l e. r = nodeResult l e node"
  using pingNode_reports by (fastforce simp: pingNodes_def in_set_enumerate_eq)

lemma excludePrevious_not_Nil: "rs \<noteq> [] \<Longrightarrow> excludePrevious rs \<noteq> []"
  by (auto simp: excludePrevious_def filter_empty_conv split: option.split)

text \<open>
  C40. The registration always names a usable candidate.  For every outcome of the pings, a non-empty offer gives at least one result; every result describes an
  offered node; and if some node answered in at least a millisecond, then so did one of the reported nodes, also when the node
  connected before is left out.
\<close>

theorem exit_node_reported:
  assumes "exitNodes \<noteq> []"
  shows "PingExitNodes get exitNodes prefer connected \<noteq> [] \<and>
    (\<forall>r \<in> set (PingExitNodes get exitNodes prefer connected). \<exists>node \<in> set exitNodes. \<exists>l e. r = nodeResult l e node) \<and>
    (length exitNodes > 1 \<and> prefer = [] \<and> (\<exists>r \<in> set (pingNodes get exitNodes). isGood r) \<longrightarrow>
      (\<exists>r \<in> set (PingExitNodes get exitNodes prefer connected). isGood r))"
proof (cases "length exitNodes = 1 \<or> prefer \<noteq> []")
  case True
  define sel where "sel = (if prefer \<noteq> [] then case find (\<lambda>n. xn_Endpoint n = prefer) exitNodes of None \<Rightarrow> hd exitNodes | Some n \<Rightarrow> n else hd exitNodes)"
  have "sel \<in> set exitNodes" using assms by (auto simp: sel_def find_Some_iff split: option.split)
  moreover have "PingExitNodes get exitNodes prefer connected = [nodeResult 0 [] sel]"
    using True assms unfolding PingExitNodes_def Let_def sel_def by simp
  ultimately show ?thesis using True by fastforce
next
  case False
  let ?rs = "pingNodes get exitNodes"
  have *: "PingExitNodes get exitNodes prefer connected = (if connected then excludePrevious ?rs else ?rs)"
    using False assms by (simp add: PingExitNodes_def)
  have "?rs \<noteq> []" using assms by (simp add: pingNodes_def enumerate_eq_zip)
  then show ?thesis
    unfolding * using excludePrevious_not_Nil excludePrevious_subset [of ?rs] pingNodes_reports [of _ get exitNodes] excludePrevious_good by auto
qed

definition exNodes :: "unit exit_node list" where
  "exNodes = [\<lparr>xn_ID = 1, xn_Name = ''a'', xn_Endpoint = ''a'', xn_Weight = (), xn_WasPreviouslyConnected = True\<rparr>,
     \<lparr>xn_ID = 2, xn_Name = ''b'', xn_Endpoint = ''b'', xn_Weight = (), xn_WasPreviouslyConnected = False\<rparr>]"

theorem exit_node_reported_witness:
  "PingExitNodes (\<lambda>i j url. Inr second) exNodes [] True \<noteq> [] \<and> (\<exists>r \<in> set (PingExitNodes (\<lambda>i j url. Inr second) exNodes [] True). isGood r)"
proof -
  have "\<exists>r \<in> set (pingNodes (\<lambda>i j url. Inr second) exNodes). isGood r" by code_simp
  then show ?thesis using exit_node_reported [of exNodes "\<lambda>i j url. Inr second" "[]" True] by (simp add: exNodes_def)
qed

text \<open>A node that answers within a millisecond does not count as good: the node connected before stays in the results, although the other one is healthy.\<close>

lemma fast_node_not_good:
  "map xr_ExitNodeID (PingExitNodes (\<lambda>i j url. Inr 999999) exNodes [] True) = [1, 2]"
  "map xr_ExitNodeID (PingExitNodes (\<lambda>i j url. Inr 1000000) exNodes [] True) = [2]"
  by code_simp+

end
