(* ===== verification/Newt_Core.thy ===== *)
theory Newt_Core
  imports Browser_Gateway Newt_Targets Health_Check Client_Service Exit_Node Websocket_Config
begin

text \<open>
  The agent itself (\<open>newt/newt.go\<close>, \<open>connect.go\<close>, \<open>tunnel.go\<close>, \<open>clients.go\<close>, \<open>handlers.go\<close>, \<open>data.go\<close>): the state that the message handlers share, one
  definition per handler, and the sequences of handler calls.  The state is composed of the states of the other components: the proxy managers, the health monitor, the
  browser gateway, the client service.

  The websocket client calls the handlers of messages one after the other; the callbacks of the client, the recovery of the ping check and the reload of the
  configuration run in goroutines of their own, and a run of the model is one order of these calls, each taken as a whole.

  A message arrives decoded, \<open>None\<close> if it does not unmarshal.  Sending is recorded (\<open>n_sent\<close>); the handlers only log its errors.
\<close>

declare map_of_eq_Some_iff [simp del] Some_eq_map_of_iff [simp del]

section \<open>State\<close>

record wg_data =
  wd_Endpoint :: string
  wd_RelayPort :: "16 word"
  wd_PublicKey :: string
  wd_ServerIP :: string
  wd_TunnelIP :: string
  wd_TCP :: "string list"
  wd_UDP :: "string list"
  wd_HealthCheckTargets :: "hc_config list"
  wd_BrowserGatewayTargets :: "bg_target list"
  wd_RemoteExitNodeSubnets :: "string list"

record newt_config =
  nc_UseNativeMainInterface :: bool
  nc_NativeMainInterfaceName :: string
  nc_DNS :: string
  nc_NoCloud :: bool
  nc_PreferEndpoint :: string
  nc_UpdownScript :: string
  nc_UDPProxyIdleTimeout :: int
  nc_MetricsAsyncBytes :: bool
  nc_DockerSocket :: string
  nc_AuthDaemonKey :: string
  nc_BlueprintFile :: string
  nc_ProvisioningBlueprintFile :: string

text \<open>
  The channels that stop a goroutine, with their purpose and whether they were closed: the ping check, the retries of the first ping, and the loops that
  repeat a message (topic, chain identifier, and the ping results that go with it).
\<close>

datatype chan_use = PingCheck | PingRetry | Repeat string string "string exit_result list"

text \<open>The messages sent once.\<close>

datatype out_msg =
    OutRegister string
  | OutHealthStatus "(int \<times> hc_target) list"
  | OutSocketStatus bool string
  | OutContainers string
  | OutRoundTrip int "string option"
  | OutBlueprint string
  | OutDisconnecting

record 'd dev_obj =
  do_dev :: 'd
  do_closed :: bool

text \<open>
  \<open>n_pm\<close> and \<open>n_currentPM\<close> point into \<open>n_pms\<close>, \<open>n_dev\<close> into \<open>n_devs\<close>, the stop channels into \<open>n_chans\<close>; \<open>n_browserGatewayStop\<close> is the listener that the stop function of the
  gateway closes.  \<open>n_routes\<close> are the routes of the host through the native interface, \<open>n_processed\<close> the connections handed to the authentication daemon.  The store of SSH credentials is one
  object, which the gateway refers to.
\<close>

record ('d, 's, 'k) newt =
  n_config :: newt_config
  n_privateKey :: string
  n_tun :: bool
  n_tnet :: bool
  n_dev :: "nat option"
  n_devs :: "'d dev_obj list"
  n_pm :: "nat option"
  n_currentPM :: "nat option"
  n_pms :: "proxy_manager list"
  n_connectionBlocked :: bool
  n_activeRemoteSubnets :: "string list"
  n_pingStopChan :: "nat option"
  n_pingWithRetryStopChan :: "nat option"
  n_connected :: bool
  n_stopFunc :: "nat option"
  n_pendingRegisterChainId :: string
  n_pendingPingChainId :: string
  n_browserGateway :: "'k gateway option"
  n_browserGatewayStop :: "nat option"
  n_healthMonitor :: hc_monitor
  n_wgService :: "'s option"
  n_ready :: bool
  n_sshCredStore :: "'k CredentialStore option"
  n_authDaemonServer :: bool
  n_wgData :: wg_data
  n_chans :: "(chan_use \<times> bool) list"
  n_gwListeners :: "bool list"
  n_routes :: "string list"
  n_processed :: "(string \<times> string \<times> string) list"
  n_sent :: "out_msg list"
  n_clientClosed :: bool

text \<open>The calls of the agent on the client service.\<close>

record 's service_ops =
  so_SetOthertnet :: "bool \<Rightarrow> 's \<Rightarrow> 's"
  so_SetBlocked :: "bool \<Rightarrow> 's \<Rightarrow> 's"
  so_SetToken :: "string \<Rightarrow> 's \<Rightarrow> 's"
  so_StartHolepunch :: "string \<Rightarrow> string \<Rightarrow> 16 word \<Rightarrow> 's \<Rightarrow> 's"
  so_LoadRemoteConfig :: "string \<Rightarrow> 's \<Rightarrow> 's"
  so_StartDirectUDPRelay :: "string \<Rightarrow> 's \<Rightarrow> 's"
  so_SetCerts :: "CertData list \<Rightarrow> 's \<Rightarrow> 's"
  so_Sync :: "Peer list \<Rightarrow> client_target list \<Rightarrow> 's \<Rightarrow> 's go_result"
  so_Close :: "'s \<Rightarrow> 's go_result"

text \<open>
  The libraries and the host: the WireGuard device (\<open>NewDevice\<close> with a tun device or without, \<open>IpcSet\<close>), the creation of the native interface (its real name) and of
  the netstack, name resolution, listening, the up-down script, the labels of the byte counters, and the orders of iteration.
\<close>

record ('d, 's, 'k) core_env =
  ce_ops :: "'s service_ops"
  ce_NewDevice :: "bool \<Rightarrow> 'd go_result"
  ce_IpcSet :: "string \<Rightarrow> 'd \<Rightarrow> string option \<times> 'd"
  ce_CreateTUN :: "string \<Rightarrow> string option"
  ce_CreateNetTUN :: "addr \<Rightarrow> addr \<Rightarrow> bool"
  ce_lookup :: lookup
  ce_listen :: listen
  ce_gwListen :: "nat \<Rightarrow> bool"
  ce_run :: run_script
  ce_labels :: "attrs \<times> bool"
  ce_rngTargets :: "(int \<times> string) list \<Rightarrow> (int \<times> string) list"
  ce_rngHealth :: "(int \<times> nat) list \<Rightarrow> (int \<times> nat) list"
  ce_rngDesired :: "(int \<times> hc_config) list \<Rightarrow> (int \<times> hc_config) list"
  ce_ssh :: "'k ssh_lib"
  ce_getExitNode :: "nat \<Rightarrow> nat \<Rightarrow> string \<Rightarrow> string + int"
  ce_ReadFile :: "string \<Rightarrow> string option"
  ce_getenv :: "string \<Rightarrow> string"
  ce_yamlToJSON :: "string \<Rightarrow> string option"

section \<open>Channels, devices and managers\<close>

text \<open>Closing a channel twice panics.\<close>

definition closeChan :: "nat \<Rightarrow> ('d, 's, 'k) newt \<Rightarrow> ('d, 's, 'k) newt go_result" where
  "closeChan c n = (if snd (n_chans n ! c) then Panic else Ret (n\<lparr>n_chans := (n_chans n)[c := (fst (n_chans n ! c), True)]\<rparr>))"

definition makeChan :: "chan_use \<Rightarrow> ('d, 's, 'k) newt \<Rightarrow> nat \<times> ('d, 's, 'k) newt" where
  "makeChan u n = (length (n_chans n), n\<lparr>n_chans := n_chans n @ [(u, False)]\<rparr>)"

text \<open>\<open>if n.stopFunc != nil { n.stopFunc(); n.stopFunc = nil }\<close>\<close>

definition stopSending :: "('d, 's, 'k) newt \<Rightarrow> ('d, 's, 'k) newt go_result" where
  "stopSending n = (case n_stopFunc n of None \<Rightarrow> Ret n
     | Some c \<Rightarrow> go_bind (closeChan c n) (\<lambda>n. Ret (n\<lparr>n_stopFunc := None\<rparr>)))"

text \<open>\<open>n.stopFunc = n.client.SendMessageInterval(topic, ...)\<close> with a chain identifier in the message\<close>

definition sendInterval :: "string \<Rightarrow> string \<Rightarrow> string exit_result list \<Rightarrow> ('d, 's, 'k) newt \<Rightarrow> ('d, 's, 'k) newt" where
  "sendInterval topic chainId results n = (let (c, n) = makeChan (Repeat topic chainId results) n in n\<lparr>n_stopFunc := Some c\<rparr>)"

definition sendMsg :: "out_msg \<Rightarrow> ('d, 's, 'k) newt \<Rightarrow> ('d, 's, 'k) newt" where
  "sendMsg m n = n\<lparr>n_sent := n_sent n @ [m]\<rparr>"

definition ipcSet :: "('d, 's, 'k) core_env \<Rightarrow> string \<Rightarrow> ('d, 's, 'k) newt \<Rightarrow> ('d, 's, 'k) newt" where
  "ipcSet E cfg n = (case n_dev n of None \<Rightarrow> n
     | Some i \<Rightarrow> n\<lparr>n_devs := (n_devs n)[i := (n_devs n ! i)\<lparr>do_dev := snd (ce_IpcSet E cfg (do_dev (n_devs n ! i)))\<rparr>]\<rparr>)"

definition onPM :: "(proxy_manager \<Rightarrow> proxy_manager) \<Rightarrow> ('d, 's, 'k) newt \<Rightarrow> ('d, 's, 'k) newt" where
  "onPM f n = (case n_pm n of None \<Rightarrow> n | Some i \<Rightarrow> n\<lparr>n_pms := (n_pms n)[i := f (n_pms n ! i)]\<rparr>)"

definition onService :: "('s \<Rightarrow> 's) \<Rightarrow> ('d, 's, 'k) newt \<Rightarrow> ('d, 's, 'k) newt" where
  "onService f n = n\<lparr>n_wgService := map_option f (n_wgService n)\<rparr>"

definition AddRoutes :: "string list \<Rightarrow> ('d, 's, 'k) newt \<Rightarrow> ('d, 's, 'k) newt" where
  "AddRoutes rs n = n\<lparr>n_routes := n_routes n @ rs\<rparr>"

definition RemoveRoutes :: "string list \<Rightarrow> ('d, 's, 'k) newt \<Rightarrow> ('d, 's, 'k) newt" where
  "RemoveRoutes rs n = n\<lparr>n_routes := filter (\<lambda>r. r \<notin> set rs) (n_routes n)\<rparr>"

abbreviation native :: "('d, 's, 'k) newt \<Rightarrow> bool" where
  "native n \<equiv> nc_UseNativeMainInterface (n_config n)"

definition cidr32 :: "string \<Rightarrow> string" where
  "cidr32 ip = ip @ ''/32''"

definition fixKey :: "string \<Rightarrow> string go_result" where
  "fixKey k = (case FixKey k of None \<Rightarrow> Panic | Some h \<Rightarrow> Ret h)"

text \<open>The texts of the device configuration.\<close>

definition mainConfig :: "string \<Rightarrow> string \<Rightarrow> string \<Rightarrow> string \<Rightarrow> string" where
  "mainConfig priv key ip endpoint = join_with nl [''private_key='' @ priv, ''public_key='' @ key, ''allowed_ip='' @ ip,
     ''endpoint='' @ endpoint, ''persistent_keepalive_interval=5'']"

definition allowConfig :: "string \<Rightarrow> string \<Rightarrow> string" where
  "allowConfig key subnet = join_with nl [''public_key='' @ key, ''allowed_ip='' @ subnet]"

definition replaceConfig :: "string \<Rightarrow> string list \<Rightarrow> string" where
  "replaceConfig key ips = join_with nl ((''public_key='' @ key) # ''replace_allowed_ips=true'' # map (\<lambda>s. ''allowed_ip='' @ s) ips)"

section \<open>The tunnel\<close>

definition stopBrowserGateway :: "('d, 's, 'k) newt \<Rightarrow> ('d, 's, 'k) newt" where
  "stopBrowserGateway n = (case n_browserGatewayStop n of None \<Rightarrow> n
     | Some l \<Rightarrow> n\<lparr>n_gwListeners := (n_gwListeners n)[l := False], n_browserGatewayStop := None, n_browserGateway := None\<rparr>)"

definition closeWgTunnel :: "('d, 's, 'k) newt \<Rightarrow> ('d, 's, 'k) newt go_result" where
  "closeWgTunnel n =
     go_bind (case n_pingStopChan n of None \<Rightarrow> Ret n
        | Some c \<Rightarrow> go_bind (closeChan c n) (\<lambda>n. Ret (n\<lparr>n_pingStopChan := None\<rparr>))) (\<lambda>n.
     let n = stopBrowserGateway n;
         n = (if n_pm n \<noteq> None then (onPM StopProxy n)\<lparr>n_currentPM := None, n_pm := None\<rparr> else n);
         n = (if native n then
                (RemoveRoutes ((if wd_ServerIP (n_wgData n) \<noteq> [] then [cidr32 (wd_ServerIP (n_wgData n))] else []) @ n_activeRemoteSubnets n) n)
                  \<lparr>n_activeRemoteSubnets := []\<rparr>
              else n);
         n = (case n_dev n of None \<Rightarrow> n
              | Some i \<Rightarrow> n\<lparr>n_devs := (n_devs n)[i := (n_devs n ! i)\<lparr>do_closed := True\<rparr>], n_dev := None\<rparr>)
     in Ret (n\<lparr>n_tnet := False, n_tun := False\<rparr>))"

definition updateRemoteExitNodeSubnets ::
  "('d, 's, 'k) core_env \<Rightarrow> string list \<Rightarrow> ('d, 's, 'k) newt \<Rightarrow> ('d, 's, 'k) newt go_result" where
  "updateRemoteExitNodeSubnets E subnets n =
     (let old = n_activeRemoteSubnets n;
          n = (if native n \<and> old \<noteq> [] then RemoveRoutes (filter (\<lambda>s. s \<notin> set subnets) old) n else n)
      in go_bind (if n_dev n \<noteq> None \<and> wd_PublicKey (n_wgData n) \<noteq> [] then
            go_bind (fixKey (wd_PublicKey (n_wgData n))) (\<lambda>key.
              Ret (ipcSet E (replaceConfig key (cidr32 (wd_ServerIP (n_wgData n)) # subnets)) n))
          else Ret n) (\<lambda>n.
        let n = (if native n \<and> subnets \<noteq> [] then AddRoutes (filter (\<lambda>s. s \<notin> set old) subnets) n else n)
        in Ret (n\<lparr>n_activeRemoteSubnets := subnets\<rparr>)))"

section \<open>The client service\<close>

definition closeClients :: "('d, 's, 'k) core_env \<Rightarrow> ('d, 's, 'k) newt \<Rightarrow> ('d, 's, 'k) newt go_result" where
  "closeClients E n = (case n_wgService n of None \<Rightarrow> Ret n
     | Some s \<Rightarrow> go_bind (so_Close (ce_ops E) s) (\<lambda>_. Ret (n\<lparr>n_wgService := None\<rparr>)))"

definition clientsHandleNewtConnection ::
  "('d, 's, 'k) core_env \<Rightarrow> string \<Rightarrow> string \<Rightarrow> 16 word \<Rightarrow> ('d, 's, 'k) newt \<Rightarrow> ('d, 's, 'k) newt" where
  "clientsHandleNewtConnection E publicKey endpoint relayPort n =
     (if \<not> n_ready n then n
      else let parts = split_on CHR '':'' endpoint in
        if length parts < 2 then n
        else onService (so_StartHolepunch (ce_ops E) publicKey (join_with CHR '':'' (butlast parts)) relayPort) n)"

definition clientsOnConnect :: "('d, 's, 'k) core_env \<Rightarrow> string \<Rightarrow> ('d, 's, 'k) newt \<Rightarrow> ('d, 's, 'k) newt" where
  "clientsOnConnect E chainId n = (if n_ready n then onService (so_LoadRemoteConfig (ce_ops E) chainId) n else n)"

definition clientsStartDirectRelay :: "('d, 's, 'k) core_env \<Rightarrow> string \<Rightarrow> ('d, 's, 'k) newt \<Rightarrow> ('d, 's, 'k) newt" where
  "clientsStartDirectRelay E tunnelIP n = (if n_ready n then onService (so_StartDirectUDPRelay (ce_ops E) tunnelIP) n else n)"

text \<open>The callback \<open>OnTokenUpdate\<close>: it calls the service without a check.\<close>

definition onTokenUpdate :: "('d, 's, 'k) core_env \<Rightarrow> string \<Rightarrow> ('d, 's, 'k) newt \<Rightarrow> ('d, 's, 'k) newt go_result" where
  "onTokenUpdate E token n = (case n_wgService n of None \<Rightarrow> Panic | Some s \<Rightarrow> Ret (n\<lparr>n_wgService := Some (so_SetToken (ce_ops E) token s)\<rparr>))"

section \<open>The browser gateway\<close>

definition startBrowserGateway :: "('d, 's, 'k) core_env \<Rightarrow> ('d, 's, 'k) newt \<Rightarrow> bool \<times> ('d, 's, 'k) newt" where
  "startBrowserGateway E n =
     (if n_browserGateway n \<noteq> None then (True, n)
      else if \<not> n_tnet n \<and> \<not> native n then (False, n)
      else let l = length (n_gwListeners n) in
        if \<not> ce_gwListen E l then (False, n)
        else (True, n\<lparr>n_browserGateway := Some (NewGateway [] (n_sshCredStore n)), n_browserGatewayStop := Some l,
               n_gwListeners := n_gwListeners n @ [True]\<rparr>))"

definition onGateway :: "('k gateway \<Rightarrow> 'k gateway) \<Rightarrow> ('d, 's, 'k) newt \<Rightarrow> ('d, 's, 'k) newt" where
  "onGateway f n = n\<lparr>n_browserGateway := map_option f (n_browserGateway n)\<rparr>"

definition syncBrowserGatewayTargets :: "('d, 's, 'k) core_env \<Rightarrow> bg_target list \<Rightarrow> ('d, 's, 'k) newt \<Rightarrow> ('d, 's, 'k) newt" where
  "syncBrowserGatewayTargets E targets n =
     (if targets = [] then onGateway (GatewaySetTargets []) n
      else let (ok, n) = startBrowserGateway E n in if ok then onGateway (GatewaySetTargets targets) n else n)"

section \<open>Connecting\<close>

text \<open>
  The message \<open>newt/wg/connect\<close>: its chain identifier, what unmarshalling it into the previous data gives (fields the message does not have keep their value), and whether
  that succeeded.
\<close>

record connect_msg =
  cm_ChainId :: string
  cm_merge :: "wg_data \<Rightarrow> wg_data"
  cm_ok :: bool

text \<open>The tun device: the first component tells whether the handler goes on.  An address that does not parse panics.\<close>

definition createTunnel :: "('d, 's, 'k) core_env \<Rightarrow> ('d, 's, 'k) newt \<Rightarrow> (bool \<times> ('d, 's, 'k) newt) go_result" where
  "createTunnel E n =
     (if native n then
        (case ce_CreateTUN E (nc_NativeMainInterfaceName (n_config n)) of
           None \<Rightarrow> Ret (False, n\<lparr>n_tun := False\<rparr>)
         | Some name \<Rightarrow> Ret (True, n\<lparr>n_tun := True, n_tnet := False, n_config := (n_config n)\<lparr>nc_NativeMainInterfaceName := name\<rparr>\<rparr>))
      else (case (parse_addr (wd_TunnelIP (n_wgData n)), parse_addr (nc_DNS (n_config n))) of
          (Some ip, Some dns) \<Rightarrow> (let ok = ce_CreateNetTUN E ip dns in Ret (True, n\<lparr>n_tun := ok, n_tnet := ok\<rparr>))
        | _ \<Rightarrow> Panic))"

definition newDevice :: "('d, 's, 'k) core_env \<Rightarrow> ('d, 's, 'k) newt \<Rightarrow> ('d, 's, 'k) newt go_result" where
  "newDevice E n = go_bind (ce_NewDevice E (n_tun n)) (\<lambda>d.
     Ret (n\<lparr>n_dev := Some (length (n_devs n)), n_devs := n_devs n @ [\<lparr>do_dev = d, do_closed = False\<rparr>]\<rparr>))"

definition configureTunnel :: "('d, 's, 'k) core_env \<Rightarrow> string \<Rightarrow> ('d, 's, 'k) newt \<Rightarrow> ('d, 's, 'k) newt go_result" where
  "configureTunnel E endpoint n =
     (let w = n_wgData n; subnets = wd_RemoteExitNodeSubnets w in
      go_bind (fixKey (n_privateKey n)) (\<lambda>priv. go_bind (fixKey (wd_PublicKey w)) (\<lambda>key.
        let n = ipcSet E (mainConfig priv key (cidr32 (wd_ServerIP w)) endpoint) n;
            n = (if native n then AddRoutes [cidr32 (wd_ServerIP w)] n else n);
            n = n\<lparr>n_activeRemoteSubnets := []\<rparr>
        in Ret (if subnets \<noteq> [] then
            (let n = foldl (\<lambda>n s. ipcSet E (allowConfig key s) n) n subnets;
                 n = (if native n then AddRoutes subnets n else n)
             in n\<lparr>n_activeRemoteSubnets := subnets\<rparr>)
          else n))))"

text \<open>The goroutines of the pings; the outcome of the first pings only goes to the log and to the metrics.\<close>

definition startPings :: "('d, 's, 'k) newt \<Rightarrow> ('d, 's, 'k) newt go_result" where
  "startPings n =
     go_bind (case n_pingWithRetryStopChan n of None \<Rightarrow> Ret n
        | Some c \<Rightarrow> go_bind (closeChan c n) (\<lambda>n. Ret (n\<lparr>n_pingWithRetryStopChan := None\<rparr>))) (\<lambda>n.
     let (c, n) = makeChan PingRetry n; n = n\<lparr>n_pingWithRetryStopChan := Some c\<rparr>
     in Ret (if n_connected n then n else let (c, n) = makeChan PingCheck n in n\<lparr>n_pingStopChan := Some c\<rparr>))"

definition newManager :: "('d, 's, 'k) core_env \<Rightarrow> ('d, 's, 'k) newt \<Rightarrow> proxy_manager go_result" where
  "newManager E n =
     (let pm = (if native n then NewProxyManagerNative (wd_TunnelIP (n_wgData n)) else NewProxyManager (n_tnet n));
          pm = SetUDPIdleTimeout (nc_UDPProxyIdleTimeout (n_config n)) (SetAsyncBytes (nc_MetricsAsyncBytes (n_config n)) pm)
      in go_bind (SetTunnelID (fst (ce_labels E)) (snd (ce_labels E)) (wd_PublicKey (n_wgData n)) pm)
           (\<lambda>pm. Ret (Proxy_Manager.SetBlocked (n_connectionBlocked n) pm)))"

definition coreUpdateTargets :: "('d, 's, 'k) core_env \<Rightarrow> string \<Rightarrow> string \<Rightarrow> string list \<Rightarrow> ('d, 's, 'k) newt \<Rightarrow> ('d, 's, 'k) newt" where
  "coreUpdateTargets E action proto ts n =
     onPM (\<lambda>pm. snd (updateTargets (ce_listen E) (ce_run E) (nc_UpdownScript (n_config n)) action (wd_TunnelIP (n_wgData n)) proto ts pm)) n"

definition startServices :: "('d, 's, 'k) core_env \<Rightarrow> ('d, 's, 'k) newt \<Rightarrow> ('d, 's, 'k) newt" where
  "startServices E n =
     (let w = n_wgData n;
          n = (if wd_TCP w \<noteq> [] then coreUpdateTargets E ''add'' ''tcp'' (wd_TCP w) n else n);
          n = (if wd_UDP w \<noteq> [] then coreUpdateTargets E ''add'' ''udp'' (wd_UDP w) n else n);
          n = (if \<not> native n then clientsStartDirectRelay E (wd_TunnelIP w) n else n);
          n = n\<lparr>n_healthMonitor := snd (AddTargets (wd_HealthCheckTargets w) (n_healthMonitor n))\<rparr>;
          n = onPM (\<lambda>pm. snd (Start (ce_listen E) pm)) n
      in if wd_BrowserGatewayTargets w \<noteq> [] then
           (let (ok, n) = startBrowserGateway E (stopBrowserGateway n)
            in if ok then onGateway (GatewaySetTargets (wd_BrowserGatewayTargets w)) n else n)
         else n)"

definition finishConnect :: "('d, 's, 'k) core_env \<Rightarrow> ('d, 's, 'k) newt \<Rightarrow> ('d, 's, 'k) newt go_result" where
  "finishConnect E n =
     go_bind (startPings n) (\<lambda>n. go_bind (newManager E n) (\<lambda>pm.
       Ret (startServices E (n\<lparr>n_pm := Some (length (n_pms n)), n_currentPM := Some (length (n_pms n)), n_pms := n_pms n @ [pm],
         n_connected := True\<rparr>))))"

definition connectTunnel :: "('d, 's, 'k) core_env \<Rightarrow> ('d, 's, 'k) newt \<Rightarrow> ('d, 's, 'k) newt go_result" where
  "connectTunnel E n =
     go_bind (newDevice E (onService (so_SetOthertnet (ce_ops E) (n_tnet n)) n)) (\<lambda>n.
     let w = n_wgData n in
     case split_host_port (wd_Endpoint w) of
       None \<Rightarrow> Ret n
     | Some _ \<Rightarrow>
         (case ResolveDomain (ce_lookup E) (wd_Endpoint w) of
            Inl e \<Rightarrow> Ret n
          | Inr endpoint \<Rightarrow>
              (let relayPort = (if wd_RelayPort w = 0 then 21820 else wd_RelayPort w)
               in go_bind (configureTunnel E endpoint (clientsHandleNewtConnection E (wd_PublicKey w) endpoint relayPort n)) (finishConnect E))))"

definition acceptsConnect :: "connect_msg \<Rightarrow> ('d, 's, 'k) newt \<Rightarrow> bool" where
  "acceptsConnect m n \<longleftrightarrow> cm_ChainId m = [] \<or> cm_ChainId m = n_pendingRegisterChainId n"

definition handleConnect :: "('d, 's, 'k) core_env \<Rightarrow> connect_msg \<Rightarrow> ('d, 's, 'k) newt \<Rightarrow> ('d, 's, 'k) newt go_result" where
  "handleConnect E m n =
     (if \<not> acceptsConnect m n then Ret n
      else let n = (if cm_ChainId m \<noteq> [] then n\<lparr>n_pendingRegisterChainId := []\<rparr> else n) in
        go_bind (stopSending n) (\<lambda>n.
        go_bind (if n_connected n then go_bind (closeWgTunnel n) (\<lambda>n. Ret (n\<lparr>n_connected := False\<rparr>)) else Ret n) (\<lambda>n.
        let n = n\<lparr>n_wgData := cm_merge m (n_wgData n)\<rparr> in
        if \<not> cm_ok m then Ret n
        else go_bind (createTunnel E n) (\<lambda>(go, n). if go then connectTunnel E n else Ret n))))"

section \<open>Handlers\<close>

definition handleReconnect :: "string \<Rightarrow> ('d, 's, 'k) newt \<Rightarrow> ('d, 's, 'k) newt go_result" where
  "handleReconnect chainId n =
     go_bind (closeWgTunnel n) (\<lambda>n.
     let n = onPM ClearTunnelID n in
     go_bind (stopSending (n\<lparr>n_connected := False\<rparr>)) (\<lambda>n.
     Ret (sendInterval ''newt/ping/request'' chainId [] (n\<lparr>n_pendingPingChainId := chainId\<rparr>))))"

text \<open>The part that \<open>newt/wg/restart\<close> and the reload of changed credentials share, up to the callback that restarts the process.\<close>

definition handleRestart :: "('d, 's, 'k) core_env \<Rightarrow> ('d, 's, 'k) newt \<Rightarrow> ('d, 's, 'k) newt go_result" where
  "handleRestart E n =
     go_bind (closeWgTunnel n) (\<lambda>n. go_bind (closeClients E n) (\<lambda>n.
     Ret (n\<lparr>n_healthMonitor := StopMonitor (n_healthMonitor n), n_clientClosed := True\<rparr>)))"

definition handleTerminate :: "('d, 's, 'k) core_env \<Rightarrow> ('d, 's, 'k) newt \<Rightarrow> ('d, 's, 'k) newt go_result" where
  "handleTerminate E n =
     go_bind (closeWgTunnel n) (\<lambda>n. go_bind (closeClients E n) (\<lambda>n. go_bind (stopSending n) (\<lambda>n. Ret (n\<lparr>n_connected := False\<rparr>))))"

text \<open>\<open>newt/ping/exitNodes\<close>: the nodes and the chain identifier of the message; \<open>chainId\<close> is the new identifier.\<close>

definition handleExitNodes ::
  "('d, 's, 'k) core_env \<Rightarrow> (string exit_node list \<times> string) option \<Rightarrow> string \<Rightarrow> ('d, 's, 'k) newt \<Rightarrow> ('d, 's, 'k) newt go_result" where
  "handleExitNodes E msg chainId n =
     go_bind (stopSending n) (\<lambda>n.
     case msg of
       None \<Rightarrow> Ret n
     | Some (exitNodes, msgChain) \<Rightarrow>
         if msgChain \<noteq> [] \<and> msgChain \<noteq> n_pendingPingChainId n then Ret n
         else let n = (if msgChain \<noteq> [] then n\<lparr>n_pendingPingChainId := []\<rparr> else n) in
           if exitNodes = [] then Ret n
           else let pingResults = PingExitNodes (ce_getExitNode E) exitNodes (nc_PreferEndpoint (n_config n)) (n_connected n)
                in Ret (sendInterval ''newt/wg/register'' chainId pingResults (n\<lparr>n_pendingRegisterChainId := chainId\<rparr>)))"

record sync_msg =
  sy_TCP :: "string list"
  sy_UDP :: "string list"
  sy_HealthCheckTargets :: "hc_config list"
  sy_RemoteExitNodeSubnets :: "string list"
  sy_Peers :: "Peer list"
  sy_ClientTargets :: "client_target list"
  sy_Certs :: "CertData list"
  sy_BrowserGatewayTargets :: "bg_target list"

definition syncClients :: "('d, 's, 'k) core_env \<Rightarrow> sync_msg \<Rightarrow> ('d, 's, 'k) newt \<Rightarrow> ('d, 's, 'k) newt go_result" where
  "syncClients E m n = (case n_wgService n of None \<Rightarrow> Ret n
     | Some s \<Rightarrow> go_bind (so_Sync (ce_ops E) (sy_Peers m) (sy_ClientTargets m) (so_SetCerts (ce_ops E) (sy_Certs m) s))
                   (\<lambda>s. Ret (n\<lparr>n_wgService := Some s\<rparr>)))"

definition handleSync :: "('d, 's, 'k) core_env \<Rightarrow> sync_msg option \<Rightarrow> ('d, 's, 'k) newt \<Rightarrow> ('d, 's, 'k) newt go_result" where
  "handleSync E msg n =
     (if wd_TunnelIP (n_wgData n) = [] \<or> n_pm n = None then Ret n
      else case msg of
        None \<Rightarrow> Ret n
      | Some m \<Rightarrow>
          (let n = onPM (handleSyncTargets (ce_listen E) (ce_run E) (nc_UpdownScript (n_config n)) (ce_rngTargets E) (ce_rngTargets E)
                     (wd_TunnelIP (n_wgData n)) (sy_TCP m) (sy_UDP m)) n
           in go_bind (if n_dev n \<noteq> None then updateRemoteExitNodeSubnets E (sy_RemoteExitNodeSubnets m) n else Ret n) (\<lambda>n.
              go_bind (syncClients E m n) (\<lambda>n.
              let n = syncBrowserGatewayTargets E (sy_BrowserGatewayTargets m) n
              in Ret (n\<lparr>n_healthMonitor := snd (SyncTargets (ce_rngHealth E) (ce_rngDesired E) (sy_HealthCheckTargets m) (n_healthMonitor n))\<rparr>)))))"

text \<open>\<open>newt/tcp/add\<close>, \<open>newt/udp/add\<close>, \<open>newt/udp/remove\<close>, \<open>newt/tcp/remove\<close>\<close>

definition handleTargets :: "('d, 's, 'k) core_env \<Rightarrow> string \<Rightarrow> string \<Rightarrow> string list option \<Rightarrow> ('d, 's, 'k) newt \<Rightarrow> ('d, 's, 'k) newt" where
  "handleTargets E action proto msg n =
     (if wd_TunnelIP (n_wgData n) = [] \<or> n_pm n = None then n
      else case msg of None \<Rightarrow> n | Some ts \<Rightarrow> if ts \<noteq> [] then coreUpdateTargets E action proto ts n else n)"

definition handleSubnetsAdd :: "('d, 's, 'k) core_env \<Rightarrow> string list option \<Rightarrow> ('d, 's, 'k) newt \<Rightarrow> ('d, 's, 'k) newt go_result" where
  "handleSubnetsAdd E msg n =
     (case msg of None \<Rightarrow> Ret n
      | Some subnets \<Rightarrow>
          if subnets = [] \<or> n_dev n = None then Ret n
          else go_bind (fixKey (wd_PublicKey (n_wgData n))) (\<lambda>key.
            let n = foldl (\<lambda>n s. ipcSet E (allowConfig key s) n) n subnets;
                n = (if native n then AddRoutes subnets n else n)
            in Ret (n\<lparr>n_activeRemoteSubnets := n_activeRemoteSubnets n @ subnets\<rparr>)))"

definition handleSubnetsUpdate :: "('d, 's, 'k) core_env \<Rightarrow> string list option \<Rightarrow> ('d, 's, 'k) newt \<Rightarrow> ('d, 's, 'k) newt go_result" where
  "handleSubnetsUpdate E msg n =
     (case msg of None \<Rightarrow> Ret n
      | Some subnets \<Rightarrow> if n_dev n = None then Ret n else updateRemoteExitNodeSubnets E subnets n)"

definition handleSubnetsRemove :: "('d, 's, 'k) core_env \<Rightarrow> string list option \<Rightarrow> ('d, 's, 'k) newt \<Rightarrow> ('d, 's, 'k) newt go_result" where
  "handleSubnetsRemove E msg n =
     (case msg of None \<Rightarrow> Ret n
      | Some subnets \<Rightarrow>
          if subnets = [] then Ret n
          else let n = (if native n then RemoveRoutes subnets n else n);
                   remaining = filter (\<lambda>s. s \<notin> set subnets) (n_activeRemoteSubnets n);
                   n = n\<lparr>n_activeRemoteSubnets := remaining\<rparr>
               in if n_dev n \<noteq> None \<and> wd_PublicKey (n_wgData n) \<noteq> [] then
                    go_bind (fixKey (wd_PublicKey (n_wgData n))) (\<lambda>key.
                      Ret (ipcSet E (replaceConfig key (cidr32 (wd_ServerIP (n_wgData n)) # remaining)) n))
                  else Ret n)"

definition handleSocketCheck :: "bool \<Rightarrow> ('d, 's, 'k) newt \<Rightarrow> ('d, 's, 'k) newt" where
  "handleSocketCheck available n =
     (let path = nc_DockerSocket (n_config n) in sendMsg (OutSocketStatus (path \<noteq> [] \<and> available) path) n)"

definition handleSocketFetch :: "string option \<Rightarrow> ('d, 's, 'k) newt \<Rightarrow> ('d, 's, 'k) newt" where
  "handleSocketFetch containers n =
     (if nc_DockerSocket (n_config n) = [] then n else case containers of None \<Rightarrow> n | Some c \<Rightarrow> sendMsg (OutContainers c) n)"

text \<open>The messages about health checks; \<open>None\<close> does not unmarshal.\<close>

datatype health_msg =
    HealthAdd "hc_config list option"
  | HealthRemove "int list option"
  | HealthEnable "int option"
  | HealthDisable "int option"
  | HealthStatusRequest

definition onHealth :: "(hc_monitor \<Rightarrow> hc_monitor) \<Rightarrow> ('d, 's, 'k) newt \<Rightarrow> ('d, 's, 'k) newt" where
  "onHealth f n = n\<lparr>n_healthMonitor := f (n_healthMonitor n)\<rparr>"

primrec handleHealth :: "health_msg \<Rightarrow> ('d, 's, 'k) newt \<Rightarrow> ('d, 's, 'k) newt" where
  "handleHealth (HealthAdd m) n = (case m of None \<Rightarrow> n | Some cs \<Rightarrow> onHealth (\<lambda>h. snd (AddTargets cs h)) n)"
| "handleHealth (HealthRemove m) n = (case m of None \<Rightarrow> n | Some ids \<Rightarrow> onHealth (\<lambda>h. snd (RemoveTargets ids h)) n)"
| "handleHealth (HealthEnable m) n = (case m of None \<Rightarrow> n | Some i \<Rightarrow> onHealth (\<lambda>h. snd (EnableTarget i h)) n)"
| "handleHealth (HealthDisable m) n = (case m of None \<Rightarrow> n | Some i \<Rightarrow> onHealth (\<lambda>h. snd (DisableTarget i h)) n)"
| "handleHealth HealthStatusRequest n = sendMsg (OutHealthStatus (getAllTargetsUnsafe (n_healthMonitor n))) n"

text \<open>\<open>newt/pam/connection\<close>; \<open>pa_remote\<close> is the outcome of the request to a remote daemon: an error text or the status of the response.\<close>

record pam_msg =
  pa_MessageId :: int
  pa_ExternalAuthDaemon :: bool
  pa_AuthDaemonMode :: string
  pa_CACert :: string
  pa_Username :: string
  pa_NiceID :: string
  pa_remote :: "string + nat"

definition authDaemonMode :: "pam_msg \<Rightarrow> string" where
  "authDaemonMode m = (if pa_AuthDaemonMode m \<noteq> [] then pa_AuthDaemonMode m else if pa_ExternalAuthDaemon m then ''remote'' else ''site'')"

definition ProcessConnection :: "string \<Rightarrow> string \<Rightarrow> string \<Rightarrow> ('d, 's, 'k) newt \<Rightarrow> ('d, 's, 'k) newt" where
  "ProcessConnection caCert niceId username n = n\<lparr>n_processed := n_processed n @ [(caCert, niceId, username)]\<rparr>"

definition setCredentials :: "'k CredentialStore \<Rightarrow> ('d, 's, 'k) newt \<Rightarrow> ('d, 's, 'k) newt" where
  "setCredentials c n = onGateway (\<lambda>g. g\<lparr>gw_sshCreds := Some c\<rparr>) (n\<lparr>n_sshCredStore := Some c\<rparr>)"

definition handlePam :: "('d, 's, 'k) core_env \<Rightarrow> pam_msg option \<Rightarrow> ('d, 's, 'k) newt \<Rightarrow> ('d, 's, 'k) newt" where
  "handlePam E msg n = (case msg of None \<Rightarrow> n | Some m \<Rightarrow>
     (let complete = sendMsg (OutRoundTrip (pa_MessageId m) None);
          failed = (\<lambda>e. sendMsg (OutRoundTrip (pa_MessageId m) (Some e)));
          mode = authDaemonMode m in
      if mode = ''site'' then
        (if n_authDaemonServer n then complete (complete (ProcessConnection (pa_CACert m) (pa_NiceID m) (pa_Username m) n))
         else failed ''auth daemon server not initialized (enable by running Newt site connector as root)'' n)
      else if mode = ''remote'' then
        (if nc_AuthDaemonKey (n_config n) = [] then failed ''auth daemon key not configured'' n
         else case pa_remote m of
             Inl e \<Rightarrow> failed e n
           | Inr status \<Rightarrow> if status \<noteq> 200 then failed (''auth daemon returned status '' @ itoa status) n else complete n)
      else if mode = ''native'' then
        (case (n_authDaemonServer n, n_sshCredStore n) of
           (True, Some store) \<Rightarrow>
             complete (setCredentials (AddPrincipals (pa_Username m) (pa_NiceID m) (snd (SetCAKey (ce_ssh E) (pa_CACert m) store)))
               (ProcessConnection [] [] (pa_Username m) n))
         | _ \<Rightarrow> failed ''auth daemon server or SSH credential store not initialized'' n)
      else failed (''unknown auth daemon mode: '' @ pa_AuthDaemonMode m) n))"

definition handleGatewayAdd :: "('d, 's, 'k) core_env \<Rightarrow> bg_target list option \<Rightarrow> ('d, 's, 'k) newt \<Rightarrow> ('d, 's, 'k) newt" where
  "handleGatewayAdd E msg n = (case msg of None \<Rightarrow> n | Some targets \<Rightarrow>
     if targets = [] then n
     else onGateway (\<lambda>g. foldl (\<lambda>g t. GatewayAddTarget t g) g targets) (snd (startBrowserGateway E n)))"

definition handleGatewayRemove :: "int list option \<Rightarrow> ('d, 's, 'k) newt \<Rightarrow> ('d, 's, 'k) newt" where
  "handleGatewayRemove msg n = (case msg of None \<Rightarrow> n
     | Some ids \<Rightarrow> onGateway (\<lambda>g. foldl (\<lambda>g i. GatewayRemoveTarget i g) g ids) n)"

section \<open>Callbacks\<close>

text \<open>\<open>interpolateBlueprint\<close> uses the same pattern and the same rule as the configuration file of the websocket client.\<close>

definition sendBlueprint :: "('d, 's, 'k) core_env \<Rightarrow> string \<Rightarrow> ('d, 's, 'k) newt \<Rightarrow> ('d, 's, 'k) newt" where
  "sendBlueprint E file n =
     (if file = [] then n
      else case ce_ReadFile E file of
          None \<Rightarrow> n
        | Some content \<Rightarrow>
            (case ce_yamlToJSON E (interpolateString (ce_getenv E) content) of
               None \<Rightarrow> n
             | Some j \<Rightarrow> if j = [] then n else sendMsg (OutBlueprint j) n))"

text \<open>The websocket (re)connected; the three identifiers are for the exit nodes, the client service and the compatibility message.\<close>

record connect_env =
  oc_chains :: "string \<times> string \<times> string"
  oc_ServerVersion :: string
  oc_JustProvisioned :: bool

definition onWebsocketConnect :: "('d, 's, 'k) core_env \<Rightarrow> connect_env \<Rightarrow> ('d, 's, 'k) newt \<Rightarrow> ('d, 's, 'k) newt go_result" where
  "onWebsocketConnect E v n =
     (let (pingChainId, clientChainId, bcChainId) = oc_chains v in
      go_bind (if \<not> n_connected n then
          go_bind (case n_stopFunc n of None \<Rightarrow> Ret n | Some c \<Rightarrow> closeChan c n) (\<lambda>n.
          let n = sendInterval ''newt/ping/request'' pingChainId [] (n\<lparr>n_pendingPingChainId := pingChainId\<rparr>);
              n = (if oc_ServerVersion v \<noteq> [] then clientsOnConnect E clientChainId n else n);
              n = sendBlueprint E (nc_BlueprintFile (n_config n)) n
          in Ret (if oc_JustProvisioned v then sendBlueprint E (nc_ProvisioningBlueprintFile (n_config n)) n else n))
        else let targets = getAllTargetsUnsafe (n_healthMonitor n)
             in Ret (if targets \<noteq> [] then sendMsg (OutHealthStatus targets) n else n))
      (\<lambda>n. Ret (sendMsg (OutRegister bcChainId) n)))"

text \<open>The recovery that the ping check starts after four failures (the effects \<open>PRequestExitNodes\<close> and \<open>PRegister\<close> of \<open>pingTick\<close>).\<close>

definition pingRecovery :: "string \<times> string \<Rightarrow> ('d, 's, 'k) newt \<Rightarrow> ('d, 's, 'k) newt" where
  "pingRecovery ids n =
     sendMsg (OutRegister (snd ids)) (sendInterval ''newt/ping/request'' (fst ids) [] (n\<lparr>n_pendingPingChainId := fst ids\<rparr>))"

text \<open>The reload of the configuration file: \<open>None\<close> if it cannot be read, else whether the credentials changed, and the new blocking flag.\<close>

definition setBlocking :: "('d, 's, 'k) core_env \<Rightarrow> bool \<Rightarrow> ('d, 's, 'k) newt \<Rightarrow> ('d, 's, 'k) newt" where
  "setBlocking E blocked n =
     (if blocked = n_connectionBlocked n then n
      else let n = n\<lparr>n_connectionBlocked := blocked\<rparr>;
               n = (case n_currentPM n of None \<Rightarrow> n
                    | Some i \<Rightarrow> n\<lparr>n_pms := (n_pms n)[i := Proxy_Manager.SetBlocked blocked (n_pms n ! i)]\<rparr>)
           in onService (so_SetBlocked (ce_ops E) blocked) n)"

definition reloadConfig :: "('d, 's, 'k) core_env \<Rightarrow> (bool \<times> bool) option \<Rightarrow> ('d, 's, 'k) newt \<Rightarrow> ('d, 's, 'k) newt go_result" where
  "reloadConfig E cfg n = (case cfg of None \<Rightarrow> Ret n
     | Some (credentialsChanged, blocked) \<Rightarrow>
         go_bind (if credentialsChanged then handleRestart E n else Ret n) (\<lambda>n. Ret (setBlocking E blocked n)))"

text \<open>The state in which \<open>Start\<close> registers the handlers, with the service that \<open>setupClients\<close> made, if any.\<close>

definition startNewt ::
  "('d, 's, 'k) core_env \<Rightarrow> newt_config \<Rightarrow> string \<Rightarrow> bool \<Rightarrow> 's option \<Rightarrow> bool \<Rightarrow> bool \<Rightarrow> bool \<Rightarrow> ('d, 's, 'k) newt" where
  "startNewt E cfg privateKey enforceCert service blocked disableSSH authDaemon =
     \<lparr>n_config = cfg, n_privateKey = privateKey, n_tun = False, n_tnet = False, n_dev = None, n_devs = [], n_pm = None, n_currentPM = None,
      n_pms = [], n_connectionBlocked = blocked, n_activeRemoteSubnets = [], n_pingStopChan = None, n_pingWithRetryStopChan = None,
      n_connected = False, n_stopFunc = None, n_pendingRegisterChainId = [], n_pendingPingChainId = [], n_browserGateway = None,
      n_browserGatewayStop = None, n_healthMonitor = NewMonitor True enforceCert,
      n_wgService = (if blocked then map_option (so_SetBlocked (ce_ops E) True) service else service), n_ready = (service \<noteq> None),
      n_sshCredStore = (if disableSSH then None else Some NewCredentialStore), n_authDaemonServer = authDaemon,
      n_wgData = \<lparr>wd_Endpoint = [], wd_RelayPort = 0, wd_PublicKey = [], wd_ServerIP = [], wd_TunnelIP = [], wd_TCP = [], wd_UDP = [],
        wd_HealthCheckTargets = [], wd_BrowserGatewayTargets = [], wd_RemoteExitNodeSubnets = []\<rparr>,
      n_chans = [], n_gwListeners = [], n_routes = [], n_processed = [], n_sent = [], n_clientClosed = False\<rparr>"

text \<open>The end of \<open>Start\<close>, once its context is done.\<close>

definition shutdownNewt :: "('d, 's, 'k) core_env \<Rightarrow> ('d, 's, 'k) newt \<Rightarrow> ('d, 's, 'k) newt go_result" where
  "shutdownNewt E n =
     go_bind (closeClients E n) (\<lambda>n.
     let n = onHealth StopMonitor n;
         n = (case n_dev n of None \<Rightarrow> n | Some i \<Rightarrow> n\<lparr>n_devs := (n_devs n)[i := (n_devs n ! i)\<lparr>do_closed := True\<rparr>]\<rparr>);
         n = onPM StopProxy n
     in Ret ((sendMsg OutDisconnecting n)\<lparr>n_clientClosed := True\<rparr>))"

section \<open>Runs\<close>

datatype newt_event =
    Connect connect_msg
  | Reconnect string
  | Restart
  | Terminate
  | ExitNodes "(string exit_node list \<times> string) option" string
  | Sync "sync_msg option"
  | Targets string string "string list option"
  | SubnetsAdd "string list option"
  | SubnetsUpdate "string list option"
  | SubnetsRemove "string list option"
  | SocketCheck bool
  | SocketFetch "string option"
  | Health health_msg
  | Pam "pam_msg option"
  | GatewayAdd "bg_target list option"
  | GatewayRemove "int list option"
  | WebsocketConnect connect_env
  | TokenUpdate string
  | Recovery "string \<times> string"
  | Reload "(bool \<times> bool) option"

primrec newtStep :: "('d, 's, 'k) core_env \<Rightarrow> newt_event \<Rightarrow> ('d, 's, 'k) newt \<Rightarrow> ('d, 's, 'k) newt go_result" where
  "newtStep E (Connect m) n = handleConnect E m n"
| "newtStep E (Reconnect chainId) n = handleReconnect chainId n"
| "newtStep E Restart n = handleRestart E n"
| "newtStep E Terminate n = handleTerminate E n"
| "newtStep E (ExitNodes m chainId) n = handleExitNodes E m chainId n"
| "newtStep E (Sync m) n = handleSync E m n"
| "newtStep E (Targets action proto m) n = Ret (handleTargets E action proto m n)"
| "newtStep E (SubnetsAdd m) n = handleSubnetsAdd E m n"
| "newtStep E (SubnetsUpdate m) n = handleSubnetsUpdate E m n"
| "newtStep E (SubnetsRemove m) n = handleSubnetsRemove E m n"
| "newtStep E (SocketCheck b) n = Ret (handleSocketCheck b n)"
| "newtStep E (SocketFetch c) n = Ret (handleSocketFetch c n)"
| "newtStep E (Health m) n = Ret (handleHealth m n)"
| "newtStep E (Pam m) n = Ret (handlePam E m n)"
| "newtStep E (GatewayAdd m) n = Ret (handleGatewayAdd E m n)"
| "newtStep E (GatewayRemove m) n = Ret (handleGatewayRemove m n)"
| "newtStep E (WebsocketConnect v) n = onWebsocketConnect E v n"
| "newtStep E (TokenUpdate t) n = onTokenUpdate E t n"
| "newtStep E (Recovery ids) n = Ret (pingRecovery ids n)"
| "newtStep E (Reload c) n = reloadConfig E c n"

fun newtRun :: "('d, 's, 'k) core_env \<Rightarrow> newt_event list \<Rightarrow> ('d, 's, 'k) newt \<Rightarrow> ('d, 's, 'k) newt go_result" where
  "newtRun E [] n = Ret n"
| "newtRun E (e # es) n = go_bind (newtStep E e n) (newtRun E es)"

end
