(* ===== verification/Newt_Run.thy ===== *)
theory Newt_Run
  imports Newt_Core
begin

text \<open>
  Properties of the agent under every sequence of handler calls (\<open>newtRun\<close>): the addresses of the tunnel, the ownership of the goroutines that a channel stops, and
  the blocking flag.  Each invariant depends on a few fields only (its view of the state), so that the handlers that do not touch them need no argument.
\<close>

section \<open>The addresses of the tunnel\<close>

text \<open>
  The documented behaviour of the device configuration that the code relies on: \<open>allowed_ip\<close> adds an address to a peer, \<open>replace_allowed_ips\<close> starts from none.  \<open>ips\<close> are
  the addresses of a peer in the form in which the device keeps them (\<open>canon\<close>).
\<close>

locale wg_device =
  fixes ipc :: "string \<Rightarrow> 'd \<Rightarrow> string option \<times> 'd"
    and ips :: "'d \<Rightarrow> string \<Rightarrow> string set"
    and canon :: "string \<Rightarrow> string"
    and valid :: "string \<Rightarrow> bool"
    and validKey :: "string \<Rightarrow> bool"
  assumes configure: "validKey priv \<Longrightarrow> validKey key \<Longrightarrow> valid ip \<Longrightarrow> nl \<notin> set endpoint \<Longrightarrow>
      ips (snd (ipc (mainConfig priv key ip endpoint) d)) key = insert (canon ip) (ips d key)"
    and allow: "validKey key \<Longrightarrow> valid ip \<Longrightarrow> ips (snd (ipc (allowConfig key ip) d)) key = insert (canon ip) (ips d key)"
    and replace: "validKey key \<Longrightarrow> list_all valid as \<Longrightarrow> ips (snd (ipc (replaceConfig key as) d)) key = canon ` set as"
    and empty_key: "\<not> validKey []"

text \<open>What the addresses of the tunnel depend on.\<close>

definition tunnelView :: "('d, 's, 'k) newt \<Rightarrow> nat option \<times> 'd dev_obj list \<times> wg_data \<times> string list \<times> bool \<times> string" where
  "tunnelView n = (n_dev n, n_devs n, n_wgData n, n_activeRemoteSubnets n, n_connected n, n_privateKey n)"

lemma tunnelView_simps [simp]:
  "tunnelView (onPM f n) = tunnelView n" "tunnelView (onService g n) = tunnelView n" "tunnelView (sendMsg m n) = tunnelView n"
  "tunnelView (AddRoutes rs n) = tunnelView n" "tunnelView (RemoveRoutes rs n) = tunnelView n" "tunnelView (stopBrowserGateway n) = tunnelView n"
  "tunnelView (onGateway h n) = tunnelView n" "tunnelView (sendInterval t c r n) = tunnelView n" "tunnelView (onHealth k n) = tunnelView n"
  by (simp_all add: tunnelView_def onPM_def onService_def sendMsg_def AddRoutes_def RemoveRoutes_def stopBrowserGateway_def onGateway_def
      sendInterval_def makeChan_def onHealth_def split: option.split)

lemma tunnelView_upd [simp]:
  "tunnelView (n\<lparr>n_chans := a\<rparr>) = tunnelView n" "tunnelView (n\<lparr>n_pingStopChan := b\<rparr>) = tunnelView n" "tunnelView (n\<lparr>n_pingWithRetryStopChan := b\<rparr>) = tunnelView n"
  "tunnelView (n\<lparr>n_stopFunc := b\<rparr>) = tunnelView n" "tunnelView (n\<lparr>n_pendingPingChainId := c\<rparr>) = tunnelView n"
  "tunnelView (n\<lparr>n_pendingRegisterChainId := c\<rparr>) = tunnelView n" "tunnelView (n\<lparr>n_healthMonitor := d\<rparr>) = tunnelView n"
  "tunnelView (n\<lparr>n_wgService := e\<rparr>) = tunnelView n" "tunnelView (n\<lparr>n_clientClosed := f\<rparr>) = tunnelView n" "tunnelView (n\<lparr>n_pms := g\<rparr>) = tunnelView n"
  "tunnelView (n\<lparr>n_connectionBlocked := f\<rparr>) = tunnelView n" "tunnelView (n\<lparr>n_sshCredStore := h\<rparr>) = tunnelView n"
  by (simp_all add: tunnelView_def)

lemma tunnelView_chan [simp]: "ret_all (\<lambda>n'. tunnelView n' = tunnelView n) (closeChan c n)"
  by (simp add: closeChan_def)

lemma stopSending_view: "ret_all (\<lambda>n'. tunnelView n' = tunnelView n) (stopSending n)"
  unfolding stopSending_def by (cases "n_stopFunc n") (auto intro: ret_all_bind [where Q = "\<lambda>n'. tunnelView n' = tunnelView n"])

lemma closeClients_view: "ret_all (\<lambda>n'. tunnelView n' = tunnelView n) (closeClients E n)"
  by (auto simp: closeClients_def ret_all_def go_bind_eq_Ret split: option.split)

lemma syncClients_view: "ret_all (\<lambda>n'. tunnelView n' = tunnelView n) (syncClients E m n)"
  by (auto simp: syncClients_def ret_all_def go_bind_eq_Ret split: option.split)

lemma startBrowserGateway_view [simp]: "tunnelView (snd (startBrowserGateway E n)) = tunnelView n"
  by (simp add: startBrowserGateway_def Let_def tunnelView_def)

lemma services_view [simp]:
  "tunnelView (coreUpdateTargets E a p ts n) = tunnelView n" "tunnelView (clientsStartDirectRelay E ip n) = tunnelView n"
  "tunnelView (clientsHandleNewtConnection E k ep r n) = tunnelView n" "tunnelView (clientsOnConnect E c n) = tunnelView n"
  "tunnelView (syncBrowserGatewayTargets E bs n) = tunnelView n" "tunnelView (sendBlueprint E f n) = tunnelView n"
  by (simp_all add: coreUpdateTargets_def clientsStartDirectRelay_def clientsHandleNewtConnection_def clientsOnConnect_def
      syncBrowserGatewayTargets_def sendBlueprint_def Let_def case_prod_unfold split: option.split)

lemma startServices_view [simp]: "tunnelView (startServices E n) = tunnelView n"
  by (simp add: startServices_def Let_def case_prod_unfold)

lemma startPings_view: "ret_all (\<lambda>n'. tunnelView n' = tunnelView n) (startPings n)"
  unfolding startPings_def
  by (rule ret_all_bind [where Q = "\<lambda>n'. tunnelView n' = tunnelView n"])
    (auto simp: makeChan_def Let_def split: option.split intro: ret_all_bind [where Q = "\<lambda>n'. tunnelView n' = tunnelView n"])

lemma closeWgTunnel_dev: "ret_all (\<lambda>n'. n_dev n' = None \<and> n_wgData n' = n_wgData n \<and> n_privateKey n' = n_privateKey n) (closeWgTunnel n)"
  unfolding closeWgTunnel_def
proof (rule ret_all_bind [where Q = "\<lambda>n'. tunnelView n' = tunnelView n"])
  show "ret_all (\<lambda>n'. tunnelView n' = tunnelView n) (case n_pingStopChan n of None \<Rightarrow> Ret n
        | Some c \<Rightarrow> go_bind (closeChan c n) (\<lambda>n. Ret (n\<lparr>n_pingStopChan := None\<rparr>)))"
    by (auto split: option.split intro: ret_all_bind [where Q = "\<lambda>n'. tunnelView n' = tunnelView n"])
qed (auto simp: Let_def tunnelView_def stopBrowserGateway_def onPM_def RemoveRoutes_def split: option.split)

text \<open>The peer of the tunnel has exactly the address of the server and the active subnets.\<close>

definition tunnelSet ::
  "('d \<Rightarrow> string \<Rightarrow> string set) \<Rightarrow> (string \<Rightarrow> string) \<Rightarrow> (string \<Rightarrow> bool) \<Rightarrow> (string \<Rightarrow> bool) \<Rightarrow> nat \<Rightarrow> ('d, 's, 'k) newt \<Rightarrow> bool" where
  "tunnelSet ips canon valid validKey i n \<longleftrightarrow>
     (\<exists>key. FixKey (wd_PublicKey (n_wgData n)) = Some key \<and> validKey key \<and> valid (cidr32 (wd_ServerIP (n_wgData n))) \<and>
        list_all valid (n_activeRemoteSubnets n) \<and>
        ips (do_dev (n_devs n ! i)) key = canon ` set (cidr32 (wd_ServerIP (n_wgData n)) # n_activeRemoteSubnets n))"

definition tunnelInv ::
  "('d \<Rightarrow> string \<Rightarrow> string set) \<Rightarrow> (string \<Rightarrow> string) \<Rightarrow> (string \<Rightarrow> bool) \<Rightarrow> (string \<Rightarrow> bool) \<Rightarrow> ('d, 's, 'k) newt \<Rightarrow> bool" where
  "tunnelInv ips canon valid validKey n \<longleftrightarrow>
     (\<forall>i. n_dev n = Some i \<longrightarrow> i < length (n_devs n) \<and> (n_connected n \<longrightarrow> tunnelSet ips canon valid validKey i n))"

text \<open>The messages of a well-behaved server: the addresses and the keys are well formed.\<close>

definition validConnect :: "('d, 's, 'k) core_env \<Rightarrow> (string \<Rightarrow> bool) \<Rightarrow> (string \<Rightarrow> bool) \<Rightarrow> string \<Rightarrow> wg_data \<Rightarrow> bool" where
  "validConnect E valid validKey privateKey w \<longleftrightarrow>
     (case FixKey privateKey of None \<Rightarrow> True | Some k \<Rightarrow> validKey k) \<and>
     (case FixKey (wd_PublicKey w) of None \<Rightarrow> True | Some k \<Rightarrow> validKey k) \<and>
     (case ResolveDomain (ce_lookup E) (wd_Endpoint w) of Inl e \<Rightarrow> True | Inr ep \<Rightarrow> nl \<notin> set ep) \<and>
     valid (cidr32 (wd_ServerIP w)) \<and> list_all valid (wd_RemoteExitNodeSubnets w)"

fun validEvent :: "('d, 's, 'k) core_env \<Rightarrow> (string \<Rightarrow> bool) \<Rightarrow> (string \<Rightarrow> bool) \<Rightarrow> ('d, 's, 'k) newt \<Rightarrow> newt_event \<Rightarrow> bool" where
  "validEvent E valid validKey n (Connect m) = validConnect E valid validKey (n_privateKey n) (cm_merge m (n_wgData n))"
| "validEvent E valid validKey n (Sync m) = (case m of None \<Rightarrow> True | Some m \<Rightarrow> list_all valid (sy_RemoteExitNodeSubnets m))"
| "validEvent E valid validKey n (SubnetsAdd m) = (case m of None \<Rightarrow> True | Some ss \<Rightarrow> list_all valid ss)"
| "validEvent E valid validKey n (SubnetsUpdate m) = (case m of None \<Rightarrow> True | Some ss \<Rightarrow> list_all valid ss)"
| "validEvent E valid validKey n _ = True"

lemma tunnelInv_view:
  "tunnelView n' = tunnelView n \<Longrightarrow> tunnelInv ips canon valid validKey n \<Longrightarrow> tunnelInv ips canon valid validKey n'"
  by (simp add: tunnelView_def tunnelInv_def tunnelSet_def)

lemma tunnelSet_view:
  "tunnelView n' = tunnelView n \<Longrightarrow> tunnelSet ips canon valid validKey i n' = tunnelSet ips canon valid validKey i n"
  by (simp add: tunnelView_def tunnelSet_def)

lemma ret_all_mono: "ret_all P m \<Longrightarrow> (\<And>x. P x \<Longrightarrow> Q x) \<Longrightarrow> ret_all Q m"
  by (auto simp: ret_all_def)

lemma ipcSet_simps [simp]:
  "n_dev (ipcSet E cfg n) = n_dev n" "length (n_devs (ipcSet E cfg n)) = length (n_devs n)" "n_wgData (ipcSet E cfg n) = n_wgData n"
  "n_activeRemoteSubnets (ipcSet E cfg n) = n_activeRemoteSubnets n" "n_connected (ipcSet E cfg n) = n_connected n"
  "n_config (ipcSet E cfg n) = n_config n"
  by (simp_all add: ipcSet_def split: option.split)

lemma ipcSet_dev:
  "n_dev n = Some i \<Longrightarrow> i < length (n_devs n) \<Longrightarrow> do_dev (n_devs (ipcSet E cfg n) ! i) = snd (ce_IpcSet E cfg (do_dev (n_devs n ! i)))"
  by (simp add: ipcSet_def)

lemma routes_simps [simp]:
  "n_dev (AddRoutes rs n) = n_dev n" "n_devs (AddRoutes rs n) = n_devs n" "n_wgData (AddRoutes rs n) = n_wgData n"
  "n_dev (RemoveRoutes rs n) = n_dev n" "n_devs (RemoveRoutes rs n) = n_devs n" "n_wgData (RemoveRoutes rs n) = n_wgData n"
  "n_connected (AddRoutes rs n) = n_connected n" "n_connected (RemoveRoutes rs n) = n_connected n"
  "n_activeRemoteSubnets (AddRoutes rs n) = n_activeRemoteSubnets n" "n_activeRemoteSubnets (RemoveRoutes rs n) = n_activeRemoteSubnets n"
  "n_config (AddRoutes rs n) = n_config n" "n_config (RemoveRoutes rs n) = n_config n"
  by (simp_all add: AddRoutes_def RemoveRoutes_def)

lemma FixKey_Nil: "FixKey [] = Some []"
  by code_simp

context wg_device
begin

lemma allow_all:
  assumes "ce_IpcSet E = ipc" "validKey key" "list_all valid ss" "n_dev n = Some i" "i < length (n_devs n)"
  defines "n' \<equiv> foldl (\<lambda>n s. ipcSet E (allowConfig key s) n) n ss"
  shows "n_dev n' = Some i \<and> length (n_devs n') = length (n_devs n) \<and> n_wgData n' = n_wgData n \<and>
    n_activeRemoteSubnets n' = n_activeRemoteSubnets n \<and> n_connected n' = n_connected n \<and> n_config n' = n_config n \<and>
    ips (do_dev (n_devs n' ! i)) key = canon ` set ss \<union> ips (do_dev (n_devs n ! i)) key"
  unfolding n'_def using assms(1-5)
proof (induction ss arbitrary: n)
  case (Cons s ss)
  let ?n = "ipcSet E (allowConfig key s) n"
  have "ips (do_dev (n_devs ?n ! i)) key = insert (canon s) (ips (do_dev (n_devs n ! i)) key)"
    using Cons.prems allow by (simp add: ipcSet_dev)
  then show ?case using Cons.IH [of ?n] Cons.prems by simp
qed simp

lemma replace_dev:
  assumes "ce_IpcSet E = ipc" "validKey key" "list_all valid ss" "n_dev n = Some i" "i < length (n_devs n)"
  shows "ips (do_dev (n_devs (ipcSet E (replaceConfig key ss) n) ! i)) key = canon ` set ss"
  using assms replace by (simp add: ipcSet_dev)

text \<open>The peer after a replacement of its addresses.\<close>

lemma replaced_inv:
  assumes ipc: "ce_IpcSet E = ipc" and inv: "tunnelInv ips canon valid validKey n" and ss: "list_all valid ss"
    and n': "n_dev n' = n_dev n" "length (n_devs n') = length (n_devs n)" "n_wgData n' = n_wgData n" "n_connected n' = n_connected n"
      "n_activeRemoteSubnets n' = ss"
    and set: "\<And>i key. n_dev n = Some i \<Longrightarrow> wd_PublicKey (n_wgData n) \<noteq> [] \<Longrightarrow> FixKey (wd_PublicKey (n_wgData n)) = Some key \<Longrightarrow>
      n_devs n' ! i = n_devs (ipcSet E (replaceConfig key (cidr32 (wd_ServerIP (n_wgData n)) # ss)) n) ! i"
  shows "tunnelInv ips canon valid validKey n'"
  unfolding tunnelInv_def
proof (intro allI impI conjI)
  fix i assume "n_dev n' = Some i"
  then have i: "n_dev n = Some i" "i < length (n_devs n)" using n' inv by (auto simp: tunnelInv_def)
  then show "i < length (n_devs n')" using n' by simp
  assume "n_connected n'"
  then obtain key where key: "FixKey (wd_PublicKey (n_wgData n)) = Some key" "validKey key" "valid (cidr32 (wd_ServerIP (n_wgData n)))"
    using inv i n' by (auto simp: tunnelInv_def tunnelSet_def)
  have "wd_PublicKey (n_wgData n) \<noteq> []" using key(1,2) empty_key FixKey_Nil by auto
  then show "tunnelSet ips canon valid validKey i n'"
    using replace_dev [OF ipc key(2), of "cidr32 (wd_ServerIP (n_wgData n)) # ss" n i] set [OF i(1) _ key(1)] key ss i n'
    by (auto simp: tunnelSet_def)
qed

lemma updateRemote_inv:
  assumes "ce_IpcSet E = ipc" "tunnelInv ips canon valid validKey n" "list_all valid ss"
  shows "ret_all (tunnelInv ips canon valid validKey) (updateRemoteExitNodeSubnets E ss n)"
  unfolding ret_all_def
proof (intro allI impI)
  fix n' assume r: "updateRemoteExitNodeSubnets E ss n = Ret n'"
  show "tunnelInv ips canon valid validKey n'"
    by (rule replaced_inv [OF assms])
      (use r in \<open>auto simp: updateRemoteExitNodeSubnets_def go_bind_eq_Ret fixKey_def Let_def ipcSet_def AddRoutes_def RemoveRoutes_def
        split: if_splits option.splits\<close>)
qed

lemma subnetsRemove_inv:
  assumes ipc: "ce_IpcSet E = ipc" and inv: "tunnelInv ips canon valid validKey n"
  shows "ret_all (tunnelInv ips canon valid validKey) (handleSubnetsRemove E m n)"
  unfolding ret_all_def
proof (intro allI impI)
  fix n' assume r: "handleSubnetsRemove E m n = Ret n'"
  show "tunnelInv ips canon valid validKey n'"
  proof (cases "m = None \<or> m = Some []")
    case True
    then show ?thesis using r inv by (auto simp: handleSubnetsRemove_def)
  next
    case False
    then obtain ss where m: "m = Some ss" "ss \<noteq> []" by auto
    let ?rest = "filter (\<lambda>s. s \<notin> set ss) (n_activeRemoteSubnets n)"
    have eqs: "n_dev n' = n_dev n" "length (n_devs n') = length (n_devs n)" "n_wgData n' = n_wgData n" "n_connected n' = n_connected n"
        "n_activeRemoteSubnets n' = ?rest"
      using r m by (auto simp: handleSubnetsRemove_def go_bind_eq_Ret fixKey_def Let_def split: if_splits option.splits)
    have set: "n_devs n' ! i = n_devs (ipcSet E (replaceConfig key (cidr32 (wd_ServerIP (n_wgData n)) # ?rest)) n) ! i"
      if "n_dev n = Some i" "wd_PublicKey (n_wgData n) \<noteq> []" "FixKey (wd_PublicKey (n_wgData n)) = Some key" for i key
      using r m that by (cases "native n") (auto simp: handleSubnetsRemove_def fixKey_def Let_def ipcSet_def RemoveRoutes_def)
    show ?thesis
    proof (cases "n_connected n \<and> n_dev n \<noteq> None")
      case True
      then have "list_all valid ?rest" using inv by (auto simp: tunnelInv_def tunnelSet_def list_all_iff)
      then show ?thesis using replaced_inv [OF ipc inv _ eqs set] by blast
    next
      case False
      then show ?thesis using inv eqs by (auto simp: tunnelInv_def)
    qed
  qed
qed

lemma subnetsAdd_inv:
  assumes ipc: "ce_IpcSet E = ipc" and inv: "tunnelInv ips canon valid validKey n" and ss: "case m of None \<Rightarrow> True | Some ss \<Rightarrow> list_all valid ss"
  shows "ret_all (tunnelInv ips canon valid validKey) (handleSubnetsAdd E m n)"
proof (cases m)
  case None
  then show ?thesis using inv by (simp add: handleSubnetsAdd_def)
next
  case (Some ss)
  show ?thesis
  proof (cases "ss = [] \<or> n_dev n = None \<or> FixKey (wd_PublicKey (n_wgData n)) = None")
    case True
    then show ?thesis using inv Some by (auto simp: handleSubnetsAdd_def fixKey_def)
  next
    case False
    then obtain i key where i: "n_dev n = Some i" "FixKey (wd_PublicKey (n_wgData n)) = Some key" "ss \<noteq> []" by auto
    define n1 where "n1 = foldl (\<lambda>n s. ipcSet E (allowConfig key s) n) n ss"
    define n2 where "n2 = (if native n1 then AddRoutes ss n1 else n1)"
    have r: "handleSubnetsAdd E m n = Ret (n2\<lparr>n_activeRemoteSubnets := n_activeRemoteSubnets n2 @ ss\<rparr>)"
      using i Some by (simp add: handleSubnetsAdd_def fixKey_def Let_def n1_def n2_def)
    have len: "i < length (n_devs n)" using inv i(1) by (simp add: tunnelInv_def)
    have fold: "n_dev (foldl (\<lambda>n s. ipcSet E (allowConfig key s) n) n ss) = n_dev n" "length (n_devs (foldl (\<lambda>n s. ipcSet E (allowConfig key s) n) n ss)) = length (n_devs n)"
        "n_connected (foldl (\<lambda>n s. ipcSet E (allowConfig key s) n) n ss) = n_connected n" for n ss
      by (induction ss arbitrary: n) simp_all
    have n2: "n_dev n2 = Some i" "length (n_devs n2) = length (n_devs n)" "n_connected n2 = n_connected n"
      using fold i(1) by (simp_all add: n2_def n1_def)
    have "tunnelSet ips canon valid validKey i (n2\<lparr>n_activeRemoteSubnets := n_activeRemoteSubnets n2 @ ss\<rparr>)" if "n_connected n"
    proof -
      have t: "tunnelSet ips canon valid validKey i n" using inv i(1) that by (simp add: tunnelInv_def)
      then have "validKey key" using i(2) by (auto simp: tunnelSet_def)
      then show ?thesis
        using allow_all [OF ipc, of key ss n i, folded n1_def] ss Some i(1,2) len t by (auto simp: tunnelSet_def n2_def)
    qed
    then show ?thesis using r n2 len by (simp add: tunnelInv_def)
  qed
qed

lemma sync_inv:
  assumes ipc: "ce_IpcSet E = ipc" and inv: "tunnelInv ips canon valid validKey n"
    and ss: "case m of None \<Rightarrow> True | Some m \<Rightarrow> list_all valid (sy_RemoteExitNodeSubnets m)"
  shows "ret_all (tunnelInv ips canon valid validKey) (handleSync E m n)"
proof (cases "wd_TunnelIP (n_wgData n) = [] \<or> n_pm n = None \<or> m = None")
  case True
  then show ?thesis using inv by (auto simp: handleSync_def)
next
  case False
  then obtain sm where m: "m = Some sm" by auto
  define n1 where "n1 = onPM (handleSyncTargets (ce_listen E) (ce_run E) (nc_UpdownScript (n_config n)) (ce_rngTargets E) (ce_rngTargets E)
    (wd_TunnelIP (n_wgData n)) (sy_TCP sm) (sy_UDP sm)) n"
  have n1: "tunnelInv ips canon valid validKey n1" using inv by (rule tunnelInv_view [rotated]) (simp add: n1_def)
  have "ret_all (tunnelInv ips canon valid validKey) (if n_dev n1 \<noteq> None then updateRemoteExitNodeSubnets E (sy_RemoteExitNodeSubnets sm) n1 else Ret n1)"
    using updateRemote_inv [OF ipc n1] ss m n1 by simp
  moreover have "ret_all (tunnelInv ips canon valid validKey) (go_bind (syncClients E sm n2) (\<lambda>n.
      let n = syncBrowserGatewayTargets E (sy_BrowserGatewayTargets sm) n
      in Ret (n\<lparr>n_healthMonitor := snd (SyncTargets (ce_rngHealth E) (ce_rngDesired E) (sy_HealthCheckTargets sm) (n_healthMonitor n))\<rparr>)))"
    if "tunnelInv ips canon valid validKey n2" for n2
    by (rule ret_all_bind [OF syncClients_view]) (use that in \<open>auto simp: Let_def intro: tunnelInv_view [rotated]\<close>)
  moreover have "handleSync E m n = go_bind (if n_dev n1 \<noteq> None then updateRemoteExitNodeSubnets E (sy_RemoteExitNodeSubnets sm) n1 else Ret n1)
      (\<lambda>n. go_bind (syncClients E sm n) (\<lambda>n.
      let n = syncBrowserGatewayTargets E (sy_BrowserGatewayTargets sm) n
      in Ret (n\<lparr>n_healthMonitor := snd (SyncTargets (ce_rngHealth E) (ce_rngDesired E) (sy_HealthCheckTargets sm) (n_healthMonitor n))\<rparr>)))"
    unfolding handleSync_def n1_def Let_def m option.case using False by argo
  ultimately show ?thesis by (simp only: ret_all_bind)
qed

lemma configureTunnel_set:
  assumes ipc: "ce_IpcSet E = ipc" and dev: "n_dev n = Some i" "i < length (n_devs n)" "\<And>k. ips (do_dev (n_devs n ! i)) k = {}"
    and ok: "validConnect E valid validKey (n_privateKey n) (n_wgData n)" and ep: "nl \<notin> set endpoint"
  shows "ret_all (\<lambda>n'. n_dev n' = Some i \<and> i < length (n_devs n') \<and> tunnelSet ips canon valid validKey i n') (configureTunnel E endpoint n)"
proof (cases "FixKey (n_privateKey n) = None \<or> FixKey (wd_PublicKey (n_wgData n)) = None")
  case True
  then show ?thesis by (cases "FixKey (n_privateKey n)") (auto simp: configureTunnel_def fixKey_def Let_def)
next
  case False
  then obtain priv key where k: "FixKey (n_privateKey n) = Some priv" "FixKey (wd_PublicKey (n_wgData n)) = Some key" by auto
  let ?w = "n_wgData n" and ?ss = "wd_RemoteExitNodeSubnets (n_wgData n)"
  have v: "validKey priv" "validKey key" "valid (cidr32 (wd_ServerIP ?w))" "list_all valid ?ss" using ok k by (auto simp: validConnect_def)
  define n1 where "n1 = ipcSet E (mainConfig priv key (cidr32 (wd_ServerIP ?w)) endpoint) n"
  define n2 where "n2 = (if native n1 then AddRoutes [cidr32 (wd_ServerIP ?w)] n1 else n1)\<lparr>n_activeRemoteSubnets := []\<rparr>"
  have n2: "n_dev n2 = Some i" "i < length (n_devs n2)" "n_wgData n2 = ?w" "n_activeRemoteSubnets n2 = []"
      "ips (do_dev (n_devs n2 ! i)) key = {canon (cidr32 (wd_ServerIP ?w))}"
    using dev configure [OF v(1-3) ep] ipc by (simp_all add: n2_def n1_def ipcSet_dev)
  define n3 where "n3 = foldl (\<lambda>n s. ipcSet E (allowConfig key s) n) n2 ?ss"
  note n3 = allow_all [OF ipc v(2,4) n2(1,2), folded n3_def]
  have "configureTunnel E endpoint n = Ret (if ?ss \<noteq> [] then (if native n3 then AddRoutes ?ss n3 else n3)\<lparr>n_activeRemoteSubnets := ?ss\<rparr> else n2)"
    by (simp add: configureTunnel_def k fixKey_def Let_def n1_def n2_def n3_def)
  then show ?thesis using n2 n3 k v by (auto simp: tunnelSet_def)
qed

lemma connectTunnel_inv:
  assumes ipc: "ce_IpcSet E = ipc" and new: "\<And>t d k. ce_NewDevice E t = Ret d \<Longrightarrow> ips d k = {}"
    and ok: "validConnect E valid validKey (n_privateKey n) (n_wgData n)" and nc: "\<not> n_connected n"
  shows "ret_all (tunnelInv ips canon valid validKey) (connectTunnel E n)"
proof -
  let ?s = "onService (so_SetOthertnet (ce_ops E) (n_tnet n)) n"
  let ?P = "\<lambda>n'. \<exists>d. (\<forall>k. ips d k = {}) \<and> n_dev n' = Some (length (n_devs n)) \<and> n_devs n' = n_devs n @ [\<lparr>do_dev = d, do_closed = False\<rparr>] \<and>
    n_wgData n' = n_wgData n \<and> n_privateKey n' = n_privateKey n \<and> \<not> n_connected n'"
  have dev: "ret_all ?P (newDevice E ?s)"
    using new nc by (auto simp: newDevice_def ret_all_def go_bind_eq_Ret onService_def)
  show ?thesis
    unfolding connectTunnel_def
  proof (rule ret_all_bind [OF dev], goal_cases)
    case (1 n1)
    then have n1: "n_dev n1 = Some (length (n_devs n))" "length (n_devs n) < length (n_devs n1)" "\<And>k. ips (do_dev (n_devs n1 ! length (n_devs n))) k = {}"
      "n_wgData n1 = n_wgData n" "n_privateKey n1 = n_privateKey n" "\<not> n_connected n1" by auto
    have inv1: "tunnelInv ips canon valid validKey n1" using n1 by (simp add: tunnelInv_def)
    have "ret_all (tunnelInv ips canon valid validKey) (go_bind (configureTunnel E ep (clientsHandleNewtConnection E k ep r n1)) (finishConnect E))"
      if ep: "ResolveDomain (ce_lookup E) (wd_Endpoint (n_wgData n)) = Inr ep" for ep k r
    proof -
      let ?c = "clientsHandleNewtConnection E k ep r n1"
      have "tunnelView ?c = tunnelView n1" by simp
      then have c: "n_dev ?c = n_dev n1" "n_devs ?c = n_devs n1" "n_wgData ?c = n_wgData n1" "n_privateKey ?c = n_privateKey n1"
        unfolding tunnelView_def by blast+
      have "nl \<notin> set ep" using ok ep by (simp add: validConnect_def)
      then have conf: "ret_all (\<lambda>n'. n_dev n' = Some (length (n_devs n)) \<and> length (n_devs n) < length (n_devs n') \<and>
          tunnelSet ips canon valid validKey (length (n_devs n)) n') (configureTunnel E ep ?c)"
        using configureTunnel_set [OF ipc, of ?c "length (n_devs n)" ep] c n1 ok by simp
      show ?thesis
      proof (rule ret_all_bind [OF conf], goal_cases)
        case (1 n2)
        have "ret_all (\<lambda>n'. n_dev n' = n_dev n2 \<and> n_devs n' = n_devs n2 \<and> n_wgData n' = n_wgData n2 \<and> n_activeRemoteSubnets n' = n_activeRemoteSubnets n2)
            (finishConnect E n2)"
          unfolding finishConnect_def
        proof (rule ret_all_bind [OF startPings_view], rule ret_all_bind [where Q = "\<lambda>_. True"], goal_cases)
          case (2 n3 pm)
          let ?n = "n3\<lparr>n_pm := Some (length (n_pms n3)), n_currentPM := Some (length (n_pms n3)), n_pms := n_pms n3 @ [pm], n_connected := True\<rparr>"
          have "tunnelView (startServices E ?n) = tunnelView ?n" by (rule startServices_view)
          then show ?case using 2 by (simp add: tunnelView_def)
        qed (simp add: ret_all_def)
        then show ?case by (rule ret_all_mono) (use 1 in \<open>auto simp: tunnelInv_def tunnelSet_def\<close>)
      qed
    qed
    then show ?case using inv1 n1(4) by (auto simp: Let_def split: option.split sum.split)
  qed
qed

lemma connect_inv:
  assumes ipc: "ce_IpcSet E = ipc" and new: "\<And>t d k. ce_NewDevice E t = Ret d \<Longrightarrow> ips d k = {}"
    and inv: "tunnelInv ips canon valid validKey n" and ok: "validConnect E valid validKey (n_privateKey n) (cm_merge m (n_wgData n))"
  shows "ret_all (tunnelInv ips canon valid validKey) (handleConnect E m n)"
proof (cases "acceptsConnect m n")
  case True
  let ?n = "if cm_ChainId m \<noteq> [] then n\<lparr>n_pendingRegisterChainId := []\<rparr> else n"
  let ?R = "\<lambda>n'. n_wgData n' = n_wgData n \<and> n_privateKey n' = n_privateKey n \<and> \<not> n_connected n' \<and> tunnelInv ips canon valid validKey n'"
  have "tunnelView ?n = tunnelView n" by simp
  then have "ret_all (\<lambda>n'. tunnelView n' = tunnelView n) (stopSending ?n)" using stopSending_view [of ?n] by simp
  then have "ret_all (tunnelInv ips canon valid validKey) (go_bind (stopSending ?n) (\<lambda>n.
        go_bind (if n_connected n then go_bind (closeWgTunnel n) (\<lambda>n. Ret (n\<lparr>n_connected := False\<rparr>)) else Ret n) (\<lambda>n.
        let n = n\<lparr>n_wgData := cm_merge m (n_wgData n)\<rparr> in
        if \<not> cm_ok m then Ret n
        else go_bind (createTunnel E n) (\<lambda>(go, n). if go then connectTunnel E n else Ret n))))"
  proof (rule ret_all_bind, goal_cases)
    case (1 n1)
    have "ret_all ?R (if n_connected n1 then go_bind (closeWgTunnel n1) (\<lambda>n. Ret (n\<lparr>n_connected := False\<rparr>)) else Ret n1)"
      using 1 inv tunnelInv_view [OF 1 inv]
      by (auto simp: tunnelView_def tunnelInv_def intro!: ret_all_bind [OF closeWgTunnel_dev])
    then show ?case
    proof (rule ret_all_bind, goal_cases)
      case (1 n2)
      let ?m = "n2\<lparr>n_wgData := cm_merge m (n_wgData n2)\<rparr>"
      have base: "tunnelInv ips canon valid validKey ?m" using 1 by (simp add: tunnelInv_def)
      have "ret_all (\<lambda>(go, n'). tunnelView n' = tunnelView ?m) (createTunnel E ?m)"
        by (auto simp: createTunnel_def tunnelView_def Let_def ret_all_def split: option.split)
      then have "ret_all (tunnelInv ips canon valid validKey) (go_bind (createTunnel E ?m) (\<lambda>(go, n). if go then connectTunnel E n else Ret n))"
      proof (rule ret_all_bind, goal_cases)
        case (1 r)
        obtain go n3 where r: "r = (go, n3)" by fastforce
        have v: "tunnelView n3 = tunnelView ?m" using 1 r by simp
        have "validConnect E valid validKey (n_privateKey n3) (n_wgData n3)" "\<not> n_connected n3"
          using v ok \<open>?R n2\<close> by (auto simp: tunnelView_def)
        then show ?case using connectTunnel_inv [OF ipc new] tunnelInv_view [OF v base] r by simp
      qed
      then show ?case using base by (simp add: Let_def)
    qed
  qed
  then show ?thesis using True by (simp add: handleConnect_def Let_def)
qed (use inv in \<open>simp add: handleConnect_def\<close>)

lemma reset_inv: "n_dev n' = None \<Longrightarrow> tunnelInv ips canon valid validKey n'"
  by (simp add: tunnelInv_def)

lemma restart_inv: "ret_all (tunnelInv ips canon valid validKey) (handleRestart E n)"
  unfolding handleRestart_def
proof (rule ret_all_bind [OF closeWgTunnel_dev], goal_cases)
  case (1 n1)
  show ?case by (rule ret_all_bind [OF closeClients_view]) (use 1 in \<open>auto simp: tunnelView_def intro: reset_inv\<close>)
qed

lemma terminate_inv: "ret_all (tunnelInv ips canon valid validKey) (handleTerminate E n)"
  unfolding handleTerminate_def
proof (rule ret_all_bind [OF closeWgTunnel_dev], goal_cases)
  case (1 n1)
  show ?case
    by (rule ret_all_bind [OF closeClients_view], rule ret_all_bind [OF stopSending_view]) (use 1 in \<open>auto simp: tunnelView_def intro: reset_inv\<close>)
qed

lemma reconnect_inv: "ret_all (tunnelInv ips canon valid validKey) (handleReconnect c n)"
  unfolding handleReconnect_def
proof (rule ret_all_bind [OF closeWgTunnel_dev], goal_cases)
  case (1 n1)
  have "tunnelView (onPM ClearTunnelID n1) = tunnelView n1" by simp
  then have "n_dev ((onPM ClearTunnelID n1)\<lparr>n_connected := False\<rparr>) = None" using 1 by (simp add: tunnelView_def)
  then show ?case unfolding Let_def
    by (intro ret_all_bind [OF stopSending_view]) (auto simp: tunnelView_def sendInterval_def makeChan_def intro: reset_inv)
qed

lemma view_inv: "ret_all (\<lambda>n'. tunnelView n' = tunnelView n) r \<Longrightarrow> tunnelInv ips canon valid validKey n \<Longrightarrow> ret_all (tunnelInv ips canon valid validKey) r"
  using tunnelInv_view unfolding ret_all_def by blast

end

lemma exitNodes_view: "ret_all (\<lambda>n'. tunnelView n' = tunnelView n) (handleExitNodes E m c n)"
  unfolding handleExitNodes_def by (rule ret_all_bind [OF stopSending_view]) (auto simp: Let_def split: option.split)

lemma onWebsocketConnect_view: "ret_all (\<lambda>n'. tunnelView n' = tunnelView n) (onWebsocketConnect E v n)"
proof -
  obtain a b c where v: "oc_chains v = (a, b, c)" by (cases "oc_chains v") auto
  have "ret_all (\<lambda>n'. tunnelView n' = tunnelView n) (case n_stopFunc n of None \<Rightarrow> Ret n | Some c \<Rightarrow> closeChan c n)"
    by (simp split: option.split)
  then show ?thesis unfolding onWebsocketConnect_def v
    by (auto simp: Let_def intro!: ret_all_bind [where Q = "\<lambda>n'. tunnelView n' = tunnelView n"])
qed

lemma onTokenUpdate_view: "ret_all (\<lambda>n'. tunnelView n' = tunnelView n) (onTokenUpdate E t n)"
  by (simp add: onTokenUpdate_def split: option.split)

lemma handleHealth_view [simp]: "tunnelView (handleHealth h n) = tunnelView n"
  by (cases h) (simp_all split: option.split)

lemma handlePam_view [simp]: "tunnelView (handlePam E m n) = tunnelView n"
  by (simp add: handlePam_def Let_def ProcessConnection_def setCredentials_def split: option.split sum.split bool.split)
    (simp add: tunnelView_def)

lemma plain_views [simp]:
  "tunnelView (handleTargets E a p ts n) = tunnelView n" "tunnelView (handleSocketCheck b n) = tunnelView n"
  "tunnelView (handleSocketFetch c n) = tunnelView n" "tunnelView (handleGatewayAdd E gs n) = tunnelView n"
  "tunnelView (handleGatewayRemove ids n) = tunnelView n" "tunnelView (pingRecovery chs n) = tunnelView n"
  "tunnelView (setBlocking E bl n) = tunnelView n"
  by (simp_all add: handleTargets_def handleSocketCheck_def handleSocketFetch_def handleGatewayAdd_def handleGatewayRemove_def pingRecovery_def
      setBlocking_def Let_def split: option.split)

context wg_device
begin

lemma reload_inv:
  assumes "tunnelInv ips canon valid validKey n"
  shows "ret_all (tunnelInv ips canon valid validKey) (reloadConfig E c n)"
proof (cases c)
  case (Some p)
  obtain changed blocked where p: "p = (changed, blocked)" by fastforce
  have "ret_all (tunnelInv ips canon valid validKey) (if changed then handleRestart E n else Ret n)" by (simp add: restart_inv assms)
  then show ?thesis unfolding reloadConfig_def Some p option.case prod.case
    by (rule ret_all_bind) (auto intro: tunnelInv_view [rotated])
qed (use assms in \<open>simp add: reloadConfig_def\<close>)

lemma step_inv:
  assumes ipc: "ce_IpcSet E = ipc" and new: "\<And>t d k. ce_NewDevice E t = Ret d \<Longrightarrow> ips d k = {}"
    and inv: "tunnelInv ips canon valid validKey n" and ok: "validEvent E valid validKey n e"
  shows "ret_all (tunnelInv ips canon valid validKey) (newtStep E e n)"
proof -
  note plain = tunnelInv_view [OF _ inv]
  show ?thesis
  proof (cases e)
    case (Connect m) then show ?thesis using connect_inv [OF ipc new inv] ok by simp
  next
    case (Reconnect c) then show ?thesis using reconnect_inv by simp
  next
    case Restart then show ?thesis using restart_inv by simp
  next
    case Terminate then show ?thesis using terminate_inv by simp
  next
    case (ExitNodes m c) then show ?thesis using view_inv [OF exitNodes_view inv] by simp
  next
    case (Sync m) then show ?thesis using sync_inv [OF ipc inv] ok by simp
  next
    case (SubnetsAdd m) then show ?thesis using subnetsAdd_inv [OF ipc inv] ok by simp
  next
    case (SubnetsUpdate m)
    then show ?thesis using updateRemote_inv [OF ipc inv] ok inv by (simp add: handleSubnetsUpdate_def split: option.splits)
  next
    case (SubnetsRemove m) then show ?thesis using subnetsRemove_inv [OF ipc inv] by simp
  next
    case (WebsocketConnect v) then show ?thesis using view_inv [OF onWebsocketConnect_view inv] by simp
  next
    case (TokenUpdate t) then show ?thesis using view_inv [OF onTokenUpdate_view inv] by simp
  next
    case (Reload c) then show ?thesis using reload_inv [OF inv] by simp
  qed (simp_all add: plain)
qed

end

fun validRun :: "('d, 's, 'k) core_env \<Rightarrow> (string \<Rightarrow> bool) \<Rightarrow> (string \<Rightarrow> bool) \<Rightarrow> newt_event list \<Rightarrow> ('d, 's, 'k) newt \<Rightarrow> bool" where
  "validRun E valid validKey [] n = True"
| "validRun E valid validKey (e # es) n =
     (validEvent E valid validKey n e \<and> (case newtStep E e n of Panic \<Rightarrow> True | Ret n' \<Rightarrow> validRun E valid validKey es n'))"

context wg_device
begin

lemma tunnel_run_inv:
  assumes "ce_IpcSet E = ipc" "\<And>t d k. ce_NewDevice E t = Ret d \<Longrightarrow> ips d k = {}"
  shows "tunnelInv ips canon valid validKey n \<Longrightarrow> validRun E valid validKey es n \<Longrightarrow> ret_all (tunnelInv ips canon valid validKey) (newtRun E es n)"
proof (induction es arbitrary: n)
  case (Cons e es)
  have "ret_all (tunnelInv ips canon valid validKey) (newtStep E e n)"
    by (rule step_inv [OF assms(1)]) (use assms(2) Cons.prems in auto)
  then have "ret_all (\<lambda>n'. tunnelInv ips canon valid validKey n' \<and> validRun E valid validKey es n') (newtStep E e n)"
    using Cons.prems by (cases "newtStep E e n") simp_all
  then show ?case using Cons.IH by (auto intro: ret_all_bind)
qed simp

end

section \<open>A device that follows the protocol\<close>

text \<open>The peers and their addresses; the lines of a configuration apply in order, to the peer named last.\<close>

definition refLine :: "string \<times> (string \<times> string) list \<Rightarrow> string \<Rightarrow> string \<times> (string \<times> string) list" where
  "refLine s line =
     (if has_prefix line ''public_key='' then (trim_prefix line ''public_key='', snd s)
      else if line = ''replace_allowed_ips=true'' then (fst s, filter (\<lambda>p. fst p \<noteq> fst s) (snd s))
      else if has_prefix line ''allowed_ip='' then (fst s, snd s @ [(fst s, trim_prefix line ''allowed_ip='')])
      else s)"

definition refIpcSet :: "string \<Rightarrow> (string \<times> string) list \<Rightarrow> string option \<times> (string \<times> string) list" where
  "refIpcSet cfg d = (None, snd (foldl refLine ([], d) (split_on nl cfg)))"

definition refIps :: "(string \<times> string) list \<Rightarrow> string \<Rightarrow> string set" where
  "refIps d key = {a. (key, a) \<in> set d}"

definition refValid :: "string \<Rightarrow> bool" where
  "refValid a \<longleftrightarrow> nl \<notin> set a"

definition refValidKey :: "string \<Rightarrow> bool" where
  "refValidKey k \<longleftrightarrow> k \<noteq> [] \<and> nl \<notin> set k"

lemma refLine_simps:
  "refLine s (''public_key='' @ k) = (k, snd s)"
  "refLine s ''replace_allowed_ips=true'' = (fst s, filter (\<lambda>p. fst p \<noteq> fst s) (snd s))"
  "refLine s (''allowed_ip='' @ a) = (fst s, snd s @ [(fst s, a)])"
  "refLine s (''private_key='' @ k) = s" "refLine s (''endpoint='' @ e) = s" "refLine s ''persistent_keepalive_interval=5'' = s"
  by (simp_all add: refLine_def has_prefix_def trim_prefix_def)

lemma refLine_allowed:
  "foldl refLine s (map (\<lambda>a. ''allowed_ip='' @ a) as) = (fst s, snd s @ map (Pair (fst s)) as)"
proof (induction as arbitrary: s)
  case (Cons a as)
  then show ?case by (simp only: list.map foldl.simps refLine_simps) simp
qed simp

lemma ref_replace_lines:
  assumes "nl \<notin> set key" "list_all refValid as"
  shows "split_on nl (replaceConfig key as) = (''public_key='' @ key) # ''replace_allowed_ips=true'' # map (\<lambda>s. ''allowed_ip='' @ s) as"
  unfolding replaceConfig_def
  by (rule split_join) (use assms in \<open>auto simp: refValid_def list_all_iff\<close>)

interpretation ref_device: wg_device refIpcSet refIps "\<lambda>a. a" refValid refValidKey
proof
  fix priv key ip endpoint :: string and d
  assume "refValidKey priv" "refValidKey key" "refValid ip" "nl \<notin> set endpoint"
  then have "split_on nl (mainConfig priv key ip endpoint) = [''private_key='' @ priv, ''public_key='' @ key, ''allowed_ip='' @ ip,
     ''endpoint='' @ endpoint, ''persistent_keepalive_interval=5'']"
    unfolding mainConfig_def by (intro split_join) (auto simp: refValid_def refValidKey_def)
  then show "refIps (snd (refIpcSet (mainConfig priv key ip endpoint) d)) key = insert ip (refIps d key)"
    by (simp only: refIpcSet_def foldl.simps refLine_simps snd_conv fst_conv) (auto simp: refIps_def)
next
  fix key ip :: string and d
  assume "refValidKey key" "refValid ip"
  then have "split_on nl (allowConfig key ip) = [''public_key='' @ key, ''allowed_ip='' @ ip]"
    unfolding allowConfig_def by (intro split_join) (auto simp: refValid_def refValidKey_def)
  then show "refIps (snd (refIpcSet (allowConfig key ip) d)) key = insert ip (refIps d key)"
    by (simp only: refIpcSet_def foldl.simps refLine_simps snd_conv fst_conv) (auto simp: refIps_def)
next
  fix key and as :: "string list" and d
  assume "refValidKey key" "list_all refValid as"
  then have "split_on nl (replaceConfig key as) = (''public_key='' @ key) # ''replace_allowed_ips=true'' # map (\<lambda>s. ''allowed_ip='' @ s) as"
    using ref_replace_lines by (simp add: refValidKey_def)
  then show "refIps (snd (refIpcSet (replaceConfig key as) d)) key = (\<lambda>a. a) ` set as"
    by (simp only: refIpcSet_def foldl.simps refLine_simps refLine_allowed snd_conv fst_conv) (auto simp: refIps_def)
qed (simp add: refValidKey_def)

section \<open>The tunnel under every sequence of calls\<close>

text \<open>
  C4. The tunnel carries exactly what the server asked for.  In every sequence of messages and callbacks with well-formed addresses, while the agent is connected the
  peer of its WireGuard device has exactly the address of the server and the active remote subnets as allowed addresses: after
  connecting, reconnecting, failed attempts, and every addition, removal, replacement and synchronisation of subnets.
\<close>

theorem tunnel_allows_exactly:
  assumes "wg_device (ce_IpcSet E) ips canon valid validKey" "\<And>t d k. ce_NewDevice E t = Ret d \<Longrightarrow> ips d k = {}"
    and "validRun E valid validKey es (startNewt E cfg priv enforce svc blocked nossh auth)"
    and "newtRun E es (startNewt E cfg priv enforce svc blocked nossh auth) = Ret n" "n_connected n" "n_dev n = Some i"
  shows "\<exists>key. FixKey (wd_PublicKey (n_wgData n)) = Some key \<and>
    ips (do_dev (n_devs n ! i)) key = canon ` set (cidr32 (wd_ServerIP (n_wgData n)) # n_activeRemoteSubnets n)"
proof -
  have "tunnelInv ips canon valid validKey (startNewt E cfg priv enforce svc blocked nossh auth)" by (simp add: tunnelInv_def startNewt_def)
  then have "tunnelInv ips canon valid validKey n"
    using wg_device.tunnel_run_inv [OF assms(1) refl assms(2)] assms(3,4) by (auto simp: ret_all_def)
  then show ?thesis using assms(5,6) by (auto simp: tunnelInv_def tunnelSet_def)
qed

text \<open>A native tunnel to a server with one remote subnet, to which another one is added.\<close>

definition exOps :: "bool service_ops" where
  "exOps = \<lparr>so_SetOthertnet = (\<lambda>_ s. s), so_SetBlocked = (\<lambda>b s. b), so_SetToken = (\<lambda>_ s. s), so_StartHolepunch = (\<lambda>_ _ _ s. s),
     so_LoadRemoteConfig = (\<lambda>_ s. s), so_StartDirectUDPRelay = (\<lambda>_ s. s), so_SetCerts = (\<lambda>_ s. s), so_Sync = (\<lambda>_ _ s. Ret s), so_Close = Ret\<rparr>"

definition exCore :: "((string \<times> string) list, bool, string) core_env" where
  "exCore = \<lparr>ce_ops = exOps, ce_NewDevice = (\<lambda>_. Ret []), ce_IpcSet = refIpcSet, ce_CreateTUN = Some, ce_CreateNetTUN = (\<lambda>_ _. True),
     ce_lookup = (\<lambda>_. Inr [IP4 0]), ce_listen = (\<lambda>_ _ _. None), ce_gwListen = (\<lambda>_. True), ce_run = (\<lambda>_. Inr []), ce_labels = ([], False),
     ce_rngTargets = (\<lambda>m. m), ce_rngHealth = (\<lambda>m. m), ce_rngDesired = (\<lambda>m. m), ce_ssh = sample_lib, ce_getExitNode = (\<lambda>_ _ _. Inr second),
     ce_ReadFile = (\<lambda>_. None), ce_getenv = (\<lambda>_. []), ce_yamlToJSON = Some\<rparr>"

definition exNewtConfig :: newt_config where
  "exNewtConfig = \<lparr>nc_UseNativeMainInterface = True, nc_NativeMainInterfaceName = ''newt'', nc_DNS = [], nc_NoCloud = False, nc_PreferEndpoint = [],
     nc_UpdownScript = [], nc_UDPProxyIdleTimeout = 0, nc_MetricsAsyncBytes = False, nc_DockerSocket = [], nc_AuthDaemonKey = [],
     nc_BlueprintFile = [], nc_ProvisioningBlueprintFile = []\<rparr>"

definition exStart :: "((string \<times> string) list, bool, string) newt" where
  "exStart = startNewt exCore exNewtConfig ''AAAA'' False None False True False"

definition exData :: wg_data where
  "exData = \<lparr>wd_Endpoint = ''h:1'', wd_RelayPort = 0, wd_PublicKey = ''AAAA'', wd_ServerIP = ''s'', wd_TunnelIP = ''t'', wd_TCP = [], wd_UDP = [],
     wd_HealthCheckTargets = [], wd_BrowserGatewayTargets = [], wd_RemoteExitNodeSubnets = [''a'']\<rparr>"

definition exConnect :: connect_msg where
  "exConnect = \<lparr>cm_ChainId = [], cm_merge = (\<lambda>_. exData), cm_ok = True\<rparr>"

lemma exEndpointResolved: "ResolveDomain (\<lambda>_. Inr [IP4 0]) ''h:1'' = Inr ''0.0.0.0:1''"
  by code_simp

lemma exSplit: "split_host_port ''h:1'' = Some (''h'', ''1'')"
  by code_simp

lemma exKey: "FixKey ''AAAA'' = Some ''000000''"
  by code_simp

lemmas exCore_simps = exCore_def exOps_def exNewtConfig_def exData_def exConnect_def exSplit exKey exEndpointResolved

lemma exManager: "\<exists>pm. newManager E n = Ret pm"
  by (simp add: newManager_def Let_def NewProxyManagerNative_def NewProxyManager_def SetAsyncBytes_def SetUDPIdleTimeout_def SetTunnelID_def)

lemma finishConnect_connected:
  assumes "n_pingWithRetryStopChan n = None"
  shows "\<exists>n'. finishConnect E n = Ret n' \<and> tunnelView n' = tunnelView (n\<lparr>n_connected := True\<rparr>)"
proof -
  obtain n1 where n1: "startPings n = Ret n1" using assms by (auto simp: startPings_def makeChan_def Let_def)
  then have v: "tunnelView n1 = tunnelView n" using startPings_view [of n] by (simp add: ret_all_def)
  obtain pm where "newManager E n1 = Ret pm" using exManager by blast
  then show ?thesis using n1 v by (simp add: finishConnect_def) (simp add: tunnelView_def)
qed

lemma exConnected:
  "\<exists>n devs. newtStep exCore (Connect exConnect) exStart = Ret n \<and> tunnelView n = (Some 0, devs, exData, [''a''], True, ''AAAA'')"
proof -
  have conf: "\<exists>n devs. configureTunnel exCore ep m = Ret n \<and> tunnelView n = (Some 0, devs, exData, [''a''], False, ''AAAA'') \<and> n_pingWithRetryStopChan n = None"
    if "tunnelView m = (Some 0, ds, exData, [], False, ''AAAA'')" "n_pingWithRetryStopChan m = None" for ep m ds
    using that by (auto simp: configureTunnel_def tunnelView_def fixKey_def exCore_simps Let_def ipcSet_def AddRoutes_def)
  have "\<exists>m ds. newtStep exCore (Connect exConnect) exStart = go_bind (configureTunnel exCore ''0.0.0.0:1'' m) (finishConnect exCore) \<and>
      tunnelView m = (Some 0, ds, exData, [], False, ''AAAA'') \<and> n_pingWithRetryStopChan m = None"
    by (simp add: exStart_def startNewt_def handleConnect_def acceptsConnect_def stopSending_def createTunnel_def connectTunnel_def newDevice_def
        onService_def clientsHandleNewtConnection_def exCore_simps Let_def) (auto simp: tunnelView_def)
  then obtain m ds n2 ds2 where "newtStep exCore (Connect exConnect) exStart = finishConnect exCore n2"
      and n2: "tunnelView n2 = (Some 0, ds2, exData, [''a''], False, ''AAAA'')" "n_pingWithRetryStopChan n2 = None"
    using conf by (metis go_bind.simps(1))
  moreover obtain n' where "finishConnect exCore n2 = Ret n'" "tunnelView n' = tunnelView (n2\<lparr>n_connected := True\<rparr>)"
    using finishConnect_connected [OF n2(2)] by blast
  ultimately show ?thesis using n2(1) by (auto simp: tunnelView_def)
qed

lemma exValid: "validRun exCore refValid refValidKey [Connect exConnect] exStart"
  using exConnected by (auto simp: validConnect_def exStart_def startNewt_def exCore_simps refValid_def refValidKey_def cidr32_def)

theorem tunnel_allows_exactly_witness:
  "\<exists>n key. newtRun exCore [Connect exConnect] exStart = Ret n \<and> refIps (do_dev (n_devs n ! 0)) key = {''s/32'', ''a''}"
proof -
  obtain n devs where n: "newtStep exCore (Connect exConnect) exStart = Ret n" "tunnelView n = (Some 0, devs, exData, [''a''], True, ''AAAA'')"
    using exConnected by blast
  have "ce_IpcSet exCore = refIpcSet" "\<And>t d k. ce_NewDevice exCore t = Ret d \<Longrightarrow> refIps d k = {}"
    by (auto simp: exCore_def refIps_def)
  moreover have "newtRun exCore [Connect exConnect] exStart = Ret n" "n_connected n" "n_dev n = Some 0" "n_wgData n = exData" "n_activeRemoteSubnets n = [''a'']"
    using n by (simp_all add: tunnelView_def)
  ultimately show ?thesis
    using tunnel_allows_exactly [of exCore refIps "\<lambda>a. a" refValid refValidKey, OF _ _ exValid [unfolded exStart_def], folded exStart_def]
      ref_device.wg_device_axioms by (fastforce simp: exData_def cidr32_def)
qed

end
