(* ===== verification/Newt_Control.thy ===== *)
theory Newt_Control
  imports Newt_Run
begin

text \<open>
  The goroutines of the agent and its blocking flag, under every sequence of handler calls: every loop that was started is stopped or still held by the state that can
  stop it, no channel is closed twice, and the flag is the same at the agent, its proxy manager and its client service.  At the end, three sequences of calls in
  which the agent does not do what it means to.
\<close>

declare map_of_eq_Some_iff [simp del] Some_eq_map_of_iff [simp del]

section \<open>Channels have one owner\<close>

definition chanOpen :: "(chan_use \<Rightarrow> bool) \<Rightarrow> (chan_use \<times> bool) list \<Rightarrow> nat option \<Rightarrow> bool" where
  "chanOpen kind cs p \<longleftrightarrow> (\<forall>c. p = Some c \<longrightarrow> c < length cs \<and> \<not> snd (cs ! c) \<and> kind (fst (cs ! c)))"

definition isRepeat :: "chan_use \<Rightarrow> bool" where
  "isRepeat u = (case u of Repeat _ _ _ \<Rightarrow> True | _ \<Rightarrow> False)"

text \<open>What the ownership depends on: the channels, the three pointers to them, and the connection flag.\<close>

type_synonym chan_view = "(chan_use \<times> bool) list \<times> nat option \<times> nat option \<times> nat option \<times> bool"

definition chanView :: "('d, 's, 'k) newt \<Rightarrow> chan_view" where
  "chanView n = (n_chans n, n_stopFunc n, n_pingStopChan n, n_pingWithRetryStopChan n, n_connected n)"

definition chanInv :: "chan_view \<Rightarrow> bool" where
  "chanInv v = (case v of (cs, stop, check, retry, conn) \<Rightarrow>
     chanOpen isRepeat cs stop \<and> chanOpen ((=) PingCheck) cs check \<and> chanOpen ((=) PingRetry) cs retry \<and> (check \<noteq> None \<longrightarrow> conn) \<and>
     (\<forall>c < length cs. \<not> snd (cs ! c) \<longrightarrow> stop = Some c \<or> check = Some c \<or> retry = Some c))"

text \<open>The operations on the view.\<close>

lemma chanOpen_None [simp]: "chanOpen kind cs None"
  by (simp add: chanOpen_def)

lemma chanOpen_update: "chanOpen kind cs p \<Longrightarrow> p \<noteq> Some c \<Longrightarrow> chanOpen kind (cs[c := x]) p"
  by (auto simp: chanOpen_def)

lemma chanOpen_append: "chanOpen kind cs p \<Longrightarrow> chanOpen kind (cs @ [x]) p"
  by (auto simp: chanOpen_def nth_append)

lemma chanOpen_new: "kind u \<Longrightarrow> chanOpen kind (cs @ [(u, False)]) (Some (length cs))"
  by (simp add: chanOpen_def)

lemma chanOpen_distinct: "chanOpen kind cs (Some c) \<Longrightarrow> chanOpen kind' cs p \<Longrightarrow> (\<And>u. kind u \<Longrightarrow> \<not> kind' u) \<Longrightarrow> p \<noteq> Some c"
  by (auto simp: chanOpen_def)

lemma isRepeat_other: "isRepeat u \<Longrightarrow> PingCheck \<noteq> u" "isRepeat u \<Longrightarrow> PingRetry \<noteq> u"
  by (auto simp: isRepeat_def)

lemma isRepeat_simps [simp]: "isRepeat (Repeat t i r)" "\<not> isRepeat PingCheck" "\<not> isRepeat PingRetry"
  by (simp_all add: isRepeat_def)

definition allOwned :: "(chan_use \<times> bool) list \<Rightarrow> nat option set \<Rightarrow> bool" where
  "allOwned cs owners \<longleftrightarrow> (\<forall>c < length cs. \<not> snd (cs ! c) \<longrightarrow> Some c \<in> owners)"

lemma allOwned_update: "allOwned cs owners \<Longrightarrow> allOwned (cs[c := (u, True)]) (owners - {Some c})"
  by (cases "c < length cs") (auto simp: allOwned_def nth_list_update split: if_splits)

lemma allOwned_append: "allOwned cs owners \<Longrightarrow> allOwned (cs @ [x]) (insert (Some (length cs)) owners)"
  by (auto simp: allOwned_def nth_append less_Suc_eq)

lemma allOwned_mono: "allOwned cs A \<Longrightarrow> A - {None} \<subseteq> B \<Longrightarrow> allOwned cs B"
  by (auto simp: allOwned_def)

lemma chanInv_iff:
  "chanInv (cs, stop, check, retry, conn) \<longleftrightarrow>
     chanOpen isRepeat cs stop \<and> chanOpen ((=) PingCheck) cs check \<and> chanOpen ((=) PingRetry) cs retry \<and> (check \<noteq> None \<longrightarrow> conn) \<and>
     allOwned cs {stop, check, retry}"
  by (auto simp: chanInv_def allOwned_def)

lemma chanInv_close_stop:
  assumes inv: "chanInv (cs, Some c, check, retry, conn)"
  shows "chanInv (cs[c := (u, True)], None, check, retry, conn)"
proof -
  have "check \<noteq> Some c" "retry \<noteq> Some c"
    using inv chanOpen_distinct [of isRepeat cs c "(=) PingCheck" check] chanOpen_distinct [of isRepeat cs c "(=) PingRetry" retry] isRepeat_other
    by (simp_all add: chanInv_iff)
  then show ?thesis using inv allOwned_update [of cs "{Some c, check, retry}" c u]
    by (auto simp: chanInv_iff intro: chanOpen_update elim!: allOwned_mono)
qed

lemma chanInv_close_check:
  assumes inv: "chanInv (cs, stop, Some c, retry, conn)"
  shows "chanInv (cs[c := (u, True)], stop, None, retry, conn)"
proof -
  have "stop \<noteq> Some c" "retry \<noteq> Some c"
    using inv chanOpen_distinct [of "(=) PingCheck" cs c isRepeat stop] chanOpen_distinct [of "(=) PingCheck" cs c "(=) PingRetry" retry]
    by (auto simp: chanInv_iff)
  then show ?thesis using inv allOwned_update [of cs "{stop, Some c, retry}" c u]
    by (auto simp: chanInv_iff intro: chanOpen_update elim!: allOwned_mono)
qed

lemma chanInv_close_retry:
  assumes inv: "chanInv (cs, stop, check, Some c, conn)"
  shows "chanInv (cs[c := (u, True)], stop, check, None, conn)"
proof -
  have "stop \<noteq> Some c" "check \<noteq> Some c"
    using inv chanOpen_distinct [of "(=) PingRetry" cs c isRepeat stop] chanOpen_distinct [of "(=) PingRetry" cs c "(=) PingCheck" check]
    by (auto simp: chanInv_iff)
  then show ?thesis using inv allOwned_update [of cs "{stop, check, Some c}" c u]
    by (auto simp: chanInv_iff intro: chanOpen_update elim!: allOwned_mono)
qed

lemma chanInv_make_stop:
  "chanInv (cs, None, check, retry, conn) \<Longrightarrow> chanInv (cs @ [(Repeat t i r, False)], Some (length cs), check, retry, conn)"
  using allOwned_append [of cs "{None, check, retry}" "(Repeat t i r, False)"]
  by (auto simp: chanInv_iff intro: chanOpen_append chanOpen_new elim!: allOwned_mono)

lemma chanInv_make_retry:
  "chanInv (cs, stop, check, None, conn) \<Longrightarrow> chanInv (cs @ [(PingRetry, False)], stop, check, Some (length cs), conn)"
  using allOwned_append [of cs "{stop, check, None}" "(PingRetry, False)"]
  by (auto simp: chanInv_iff intro: chanOpen_append chanOpen_new elim!: allOwned_mono)

lemma chanInv_make_check:
  "chanInv (cs, stop, None, retry, conn) \<Longrightarrow> chanInv (cs @ [(PingCheck, False)], stop, Some (length cs), retry, True)"
  using allOwned_append [of cs "{stop, None, retry}" "(PingCheck, False)"]
  by (auto simp: chanInv_iff intro: chanOpen_append chanOpen_new elim!: allOwned_mono)

lemma chanInv_disconnect: "chanInv (cs, stop, None, retry, conn) \<Longrightarrow> chanInv (cs, stop, None, retry, conn')"
  by (simp add: chanInv_iff)

lemma chanView_simps [simp]:
  "chanView (onPM f n) = chanView n" "chanView (onService g n) = chanView n" "chanView (sendMsg m n) = chanView n"
  "chanView (AddRoutes rs n) = chanView n" "chanView (RemoveRoutes rs n) = chanView n" "chanView (stopBrowserGateway n) = chanView n"
  "chanView (onGateway h n) = chanView n" "chanView (onHealth k n) = chanView n" "chanView (ipcSet E cfg n) = chanView n"
  by (simp_all add: chanView_def onPM_def onService_def sendMsg_def AddRoutes_def RemoveRoutes_def stopBrowserGateway_def onGateway_def
      onHealth_def ipcSet_def split: option.split)

lemma chanView_upd [simp]:
  "chanView (n\<lparr>n_pendingPingChainId := c\<rparr>) = chanView n" "chanView (n\<lparr>n_pendingRegisterChainId := c\<rparr>) = chanView n"
  "chanView (n\<lparr>n_healthMonitor := d\<rparr>) = chanView n" "chanView (n\<lparr>n_wgService := e\<rparr>) = chanView n" "chanView (n\<lparr>n_clientClosed := f\<rparr>) = chanView n"
  "chanView (n\<lparr>n_pms := g\<rparr>) = chanView n" "chanView (n\<lparr>n_connectionBlocked := f\<rparr>) = chanView n" "chanView (n\<lparr>n_sshCredStore := h\<rparr>) = chanView n"
  "chanView (n\<lparr>n_wgData := w\<rparr>) = chanView n" "chanView (n\<lparr>n_activeRemoteSubnets := ss\<rparr>) = chanView n" "chanView (n\<lparr>n_tun := f\<rparr>) = chanView n"
  "chanView (n\<lparr>n_tnet := f\<rparr>) = chanView n" "chanView (n\<lparr>n_dev := p\<rparr>) = chanView n" "chanView (n\<lparr>n_devs := ds\<rparr>) = chanView n"
  "chanView (n\<lparr>n_pm := p\<rparr>) = chanView n" "chanView (n\<lparr>n_currentPM := p\<rparr>) = chanView n" "chanView (n\<lparr>n_processed := ps\<rparr>) = chanView n"
  "chanView (n\<lparr>n_config := cf\<rparr>) = chanView n"
  by (simp_all add: chanView_def)

section \<open>The handlers return and keep the ownership\<close>

definition returns :: "('a \<Rightarrow> bool) \<Rightarrow> 'a go_result \<Rightarrow> bool" where
  "returns P m \<longleftrightarrow> (\<exists>x. m = Ret x \<and> P x)"

lemma returns_Ret [simp]: "returns P (Ret x) = P x"
  by (simp add: returns_def)

lemma returns_bind: "returns Q m \<Longrightarrow> (\<And>x. Q x \<Longrightarrow> returns P (f x)) \<Longrightarrow> returns P (go_bind m f)"
  by (auto simp: returns_def)

lemma returns_mono: "returns P m \<Longrightarrow> (\<And>x. P x \<Longrightarrow> Q x) \<Longrightarrow> returns Q m"
  by (auto simp: returns_def)

text \<open>What the other reasons for a panic depend on.\<close>

definition frame :: "('d, 's, 'k) newt \<Rightarrow> 's option \<times> string \<times> wg_data \<times> newt_config" where
  "frame n = (n_wgService n, n_privateKey n, n_wgData n, n_config n)"

lemma frame_simps [simp]:
  "frame (onPM f n) = frame n" "frame (RemoveRoutes rs n) = frame n" "frame (stopBrowserGateway n) = frame n"
  "frame (n\<lparr>n_currentPM := p\<rparr>) = frame n" "frame (n\<lparr>n_pm := p\<rparr>) = frame n" "frame (n\<lparr>n_activeRemoteSubnets := ss\<rparr>) = frame n"
  "frame (n\<lparr>n_devs := ds\<rparr>) = frame n" "frame (n\<lparr>n_dev := p\<rparr>) = frame n" "frame (n\<lparr>n_tnet := b\<rparr>) = frame n" "frame (n\<lparr>n_tun := b\<rparr>) = frame n"
  "frame (n\<lparr>n_connected := b\<rparr>) = frame n" "frame (n\<lparr>n_pendingRegisterChainId := c\<rparr>) = frame n"
  by (simp_all add: frame_def onPM_def RemoveRoutes_def stopBrowserGateway_def split: option.split)

definition chansOk :: "('d, 's, 'k) newt \<Rightarrow> bool" where
  "chansOk n \<longleftrightarrow> chanInv (chanView n)"

lemma chansOk_view: "chanView n' = chanView n \<Longrightarrow> chansOk n' = chansOk n"
  by (simp add: chansOk_def)

lemma chansOk_pending [simp]: "chansOk (n\<lparr>n_pendingPingChainId := c\<rparr>) = chansOk n" "chansOk (n\<lparr>n_pendingRegisterChainId := c\<rparr>) = chansOk n"
  by (simp_all add: chansOk_def)

lemma service_simps [simp]:
  "n_wgService (ipcSet E cfg n) = n_wgService n" "n_wgService (AddRoutes rs n) = n_wgService n" "n_wgService (RemoveRoutes rs n) = n_wgService n"
  by (simp_all add: ipcSet_def AddRoutes_def RemoveRoutes_def split: option.split)

lemma stopSending_ok:
  assumes "chansOk n"
  shows "returns (\<lambda>n'. chansOk n' \<and> n_stopFunc n' = None \<and> frame n' = frame n \<and> n_connected n' = n_connected n) (stopSending n)"
proof (cases "n_stopFunc n")
  case None
  then show ?thesis using assms by (simp add: stopSending_def)
next
  case (Some c)
  have inv: "chanInv (n_chans n, Some c, n_pingStopChan n, n_pingWithRetryStopChan n, n_connected n)"
    using assms Some by (simp add: chansOk_def chanView_def)
  then have "\<not> snd (n_chans n ! c)" by (simp add: chanInv_iff chanOpen_def)
  then show ?thesis using Some chanInv_close_stop [OF inv]
    by (simp add: stopSending_def closeChan_def chansOk_def chanView_def frame_def)
qed

lemma closeCheck_ok:
  assumes "chansOk n"
  shows "returns (\<lambda>n'. chansOk n' \<and> n_pingStopChan n' = None \<and> frame n' = frame n \<and> n_connected n' = n_connected n)
    (case n_pingStopChan n of None \<Rightarrow> Ret n | Some c \<Rightarrow> go_bind (closeChan c n) (\<lambda>n. Ret (n\<lparr>n_pingStopChan := None\<rparr>)))"
proof (cases "n_pingStopChan n")
  case None
  then show ?thesis using assms by simp
next
  case (Some c)
  have inv: "chanInv (n_chans n, n_stopFunc n, Some c, n_pingWithRetryStopChan n, n_connected n)"
    using assms Some by (simp add: chansOk_def chanView_def)
  then have "\<not> snd (n_chans n ! c)" by (simp add: chanInv_iff chanOpen_def)
  then show ?thesis using Some chanInv_close_check [OF inv] by (simp add: closeChan_def chansOk_def chanView_def frame_def)
qed

lemma closeWgTunnel_ok:
  assumes "chansOk n"
  shows "returns (\<lambda>n'. chansOk n' \<and> n_pingStopChan n' = None \<and> frame n' = frame n \<and> n_connected n' = n_connected n) (closeWgTunnel n)"
  unfolding closeWgTunnel_def
proof (rule returns_bind [OF closeCheck_ok [OF assms]], goal_cases)
  case (1 n1)
  have keep: "chansOk n2 \<and> n_pingStopChan n2 = None \<and> frame n2 = frame n \<and> n_connected n2 = n_connected n"
    if "chanView n2 = chanView n1" "frame n2 = frame n1" for n2 :: "('a, 'b, 'c) newt"
    using that 1 by (auto simp: chansOk_def chanView_def)
  show ?case unfolding Let_def returns_Ret by (rule keep) (simp_all split: option.split)
qed

lemma closeClients_ok:
  assumes "chansOk n" "\<And>s. n_wgService n = Some s \<Longrightarrow> so_Close (ce_ops E) s \<noteq> Panic"
  shows "returns (\<lambda>n'. chansOk n' \<and> n_pingStopChan n' = n_pingStopChan n \<and> n_connected n' = n_connected n) (closeClients E n)"
proof (cases "n_wgService n")
  case (Some s)
  then obtain s' where "so_Close (ce_ops E) s = Ret s'" using assms(2) by (cases "so_Close (ce_ops E) s") auto
  then show ?thesis using Some assms(1) by (simp add: closeClients_def chansOk_def chanView_def)
qed (use assms in \<open>simp add: closeClients_def\<close>)

lemma startPings_ok:
  assumes "chansOk n" "n_pingStopChan n = None" "\<not> n_connected n"
  shows "returns (\<lambda>n'. chansOk (n'\<lparr>n_connected := True\<rparr>) \<and> frame n' = frame n) (startPings n)"
proof -
  have "returns (\<lambda>n'. chansOk n' \<and> n_pingStopChan n' = None \<and> n_pingWithRetryStopChan n' = None \<and> frame n' = frame n \<and> \<not> n_connected n')
    (case n_pingWithRetryStopChan n of None \<Rightarrow> Ret n | Some c \<Rightarrow> go_bind (closeChan c n) (\<lambda>n. Ret (n\<lparr>n_pingWithRetryStopChan := None\<rparr>)))"
  proof (cases "n_pingWithRetryStopChan n")
    case (Some c)
    have inv: "chanInv (n_chans n, n_stopFunc n, n_pingStopChan n, Some c, n_connected n)"
      using assms Some by (simp add: chansOk_def chanView_def)
    then have "\<not> snd (n_chans n ! c)" by (simp add: chanInv_iff chanOpen_def)
    then show ?thesis using Some assms chanInv_close_retry [OF inv] by (simp add: closeChan_def chansOk_def chanView_def frame_def)
  qed (use assms in simp)
  then show ?thesis unfolding startPings_def
  proof (rule returns_bind, goal_cases)
    case (1 n1)
    then have "chanInv (n_chans n1, n_stopFunc n1, None, None, False)" by (auto simp: chansOk_def chanView_def)
    from chanInv_make_check [OF chanInv_make_retry [OF this]] show ?case
      using 1 by (simp add: Let_def makeChan_def chansOk_def chanView_def frame_def)
  qed
qed

lemma sendInterval_ok: "chansOk n \<Longrightarrow> n_stopFunc n = None \<Longrightarrow> chansOk (sendInterval t i r n)"
  using chanInv_make_stop [of "n_chans n" "n_pingStopChan n" "n_pingWithRetryStopChan n" "n_connected n" t i r]
  by (simp add: sendInterval_def makeChan_def chansOk_def chanView_def)

text \<open>The documented reasons for the process to end in a call: a text that does not parse, or a panic in a library or in the client service.\<close>

definition connectPanics :: "('d, 's, 'k) core_env \<Rightarrow> string \<Rightarrow> newt_config \<Rightarrow> wg_data \<Rightarrow> bool" where
  "connectPanics E privateKey cfg w \<longleftrightarrow>
     \<not> nc_UseNativeMainInterface cfg \<and> (parse_addr (wd_TunnelIP w) = None \<or> parse_addr (nc_DNS cfg) = None) \<or>
     ce_NewDevice E True = Panic \<or> ce_NewDevice E False = Panic \<or> FixKey privateKey = None \<or> FixKey (wd_PublicKey w) = None"

definition closePanics :: "('d, 's, 'k) core_env \<Rightarrow> ('d, 's, 'k) newt \<Rightarrow> bool" where
  "closePanics E n = (case n_wgService n of None \<Rightarrow> False | Some s \<Rightarrow> so_Close (ce_ops E) s = Panic)"

definition syncPanics :: "('d, 's, 'k) core_env \<Rightarrow> sync_msg \<Rightarrow> ('d, 's, 'k) newt \<Rightarrow> bool" where
  "syncPanics E m n = (case n_wgService n of None \<Rightarrow> False
     | Some s \<Rightarrow> so_Sync (ce_ops E) (sy_Peers m) (sy_ClientTargets m) (so_SetCerts (ce_ops E) (sy_Certs m) s) = Panic)"

fun endsProcess :: "('d, 's, 'k) core_env \<Rightarrow> ('d, 's, 'k) newt \<Rightarrow> newt_event \<Rightarrow> bool" where
  "endsProcess E n (Connect m) = connectPanics E (n_privateKey n) (n_config n) (cm_merge m (n_wgData n))"
| "endsProcess E n Restart = closePanics E n"
| "endsProcess E n Terminate = closePanics E n"
| "endsProcess E n (Reload c) = closePanics E n"
| "endsProcess E n (Sync m) = (FixKey (wd_PublicKey (n_wgData n)) = None \<or> (case m of None \<Rightarrow> False | Some m \<Rightarrow> syncPanics E m n))"
| "endsProcess E n (SubnetsAdd m) = (FixKey (wd_PublicKey (n_wgData n)) = None)"
| "endsProcess E n (SubnetsUpdate m) = (FixKey (wd_PublicKey (n_wgData n)) = None)"
| "endsProcess E n (SubnetsRemove m) = (FixKey (wd_PublicKey (n_wgData n)) = None)"
| "endsProcess E n (TokenUpdate t) = (n_wgService n = None)"
| "endsProcess E n _ = False"

text \<open>The recovery of the ping check starts a loop without stopping the one that may be running.\<close>

fun replacesLoop :: "('d, 's, 'k) newt \<Rightarrow> newt_event \<Rightarrow> bool" where
  "replacesLoop n (Recovery ids) = (n_stopFunc n \<noteq> None)"
| "replacesLoop n _ = False"

lemma startBrowserGateway_chans [simp]: "chanView (snd (startBrowserGateway E n)) = chanView n"
  by (simp add: startBrowserGateway_def Let_def chanView_def)

lemma services_chans [simp]:
  "chanView (coreUpdateTargets E a p ts n) = chanView n" "chanView (clientsStartDirectRelay E ip n) = chanView n"
  "chanView (clientsHandleNewtConnection E k ep r n) = chanView n" "chanView (clientsOnConnect E c n) = chanView n"
  "chanView (syncBrowserGatewayTargets E bs n) = chanView n" "chanView (sendBlueprint E f n) = chanView n"
  by (simp_all add: coreUpdateTargets_def clientsStartDirectRelay_def clientsHandleNewtConnection_def clientsOnConnect_def
      syncBrowserGatewayTargets_def sendBlueprint_def Let_def case_prod_unfold split: option.split)

lemma startServices_chans [simp]: "chanView (startServices E n) = chanView n"
  by (simp add: startServices_def Let_def case_prod_unfold)

lemma foldl_ipcSet_chans [simp]: "chanView (foldl (\<lambda>n s. ipcSet E (f s) n) n ss) = chanView n"
  by (induction ss arbitrary: n) simp_all

lemma finishConnect_ok:
  assumes "chansOk n" "n_pingStopChan n = None" "\<not> n_connected n"
  shows "returns chansOk (finishConnect E n)"
  unfolding finishConnect_def
proof (rule returns_bind [OF startPings_ok [OF assms]], goal_cases)
  case (1 n1)
  obtain pm where "newManager E n1 = Ret pm" using exManager by blast
  moreover have "chanView (startServices E (n1\<lparr>n_pm := a, n_currentPM := b, n_pms := c, n_connected := True\<rparr>)) = chanView (n1\<lparr>n_connected := True\<rparr>)" for a b c
    by (simp add: chanView_def [of "n1\<lparr>n_pm := a, n_currentPM := b, n_pms := c, n_connected := True\<rparr>"] chanView_def [of "n1\<lparr>n_connected := True\<rparr>"])
  ultimately show ?case using 1 by (simp add: chansOk_def)
qed

lemma configureTunnel_ok:
  assumes "FixKey (n_privateKey n) \<noteq> None" "FixKey (wd_PublicKey (n_wgData n)) \<noteq> None"
  shows "returns (\<lambda>n'. chanView n' = chanView n) (configureTunnel E ep n)"
  using assms by (auto simp: configureTunnel_def fixKey_def Let_def)

lemma connectTunnel_ok:
  assumes ok: "chansOk n" "n_pingStopChan n = None" "\<not> n_connected n" and calm: "\<not> connectPanics E (n_privateKey n) (n_config n) (n_wgData n)"
  shows "returns chansOk (connectTunnel E n)"
  unfolding connectTunnel_def
proof (rule returns_bind [where Q = "\<lambda>n'. chanView n' = chanView n \<and> n_privateKey n' = n_privateKey n \<and> n_wgData n' = n_wgData n"], goal_cases)
  case 1
  obtain d where "ce_NewDevice E (n_tun n) = Ret d" using calm by (cases "n_tun n"; cases "ce_NewDevice E (n_tun n)") (auto simp: connectPanics_def)
  then show ?case by (simp add: newDevice_def onService_def)
next
  case (2 n1)
  have "returns chansOk (go_bind (configureTunnel E ep (clientsHandleNewtConnection E k ep r n1)) (finishConnect E))" for ep k r
  proof (rule returns_bind [OF configureTunnel_ok], goal_cases)
    case (3 n2)
    then have v: "chanView n2 = chanView n" using 2 by simp
    then show ?case by (intro finishConnect_ok) (use ok in \<open>auto simp: chansOk_def chanView_def\<close>)
  qed (use 2 calm in \<open>auto simp: clientsHandleNewtConnection_def onService_def Let_def connectPanics_def\<close>)
  then show ?case using 2 ok by (auto simp: Let_def chansOk_def split: option.split sum.split)
qed

lemma createTunnel_ok:
  assumes "\<not> connectPanics E (n_privateKey n) (n_config n) (n_wgData n)"
  shows "returns (\<lambda>(go, n'). chanView n' = chanView n \<and> (go \<longrightarrow> \<not> connectPanics E (n_privateKey n') (n_config n') (n_wgData n'))) (createTunnel E n)"
  using assms by (auto simp: createTunnel_def connectPanics_def Let_def split: option.splits)

lemma handleConnect_ok:
  assumes ok: "chansOk n" and calm: "\<not> connectPanics E (n_privateKey n) (n_config n) (cm_merge m (n_wgData n))"
  shows "returns chansOk (handleConnect E m n)"
proof (cases "acceptsConnect m n")
  case True
  let ?n = "if cm_ChainId m \<noteq> [] then n\<lparr>n_pendingRegisterChainId := []\<rparr> else n"
  let ?R = "\<lambda>n'. chansOk n' \<and> n_pingStopChan n' = None \<and> \<not> n_connected n' \<and> frame n' = frame n"
  have n: "chansOk ?n" "frame ?n = frame n" using ok by (simp_all add: chansOk_def)
  have "returns chansOk (go_bind (stopSending ?n) (\<lambda>n.
        go_bind (if n_connected n then go_bind (closeWgTunnel n) (\<lambda>n. Ret (n\<lparr>n_connected := False\<rparr>)) else Ret n) (\<lambda>n.
        let n = n\<lparr>n_wgData := cm_merge m (n_wgData n)\<rparr> in
        if \<not> cm_ok m then Ret n
        else go_bind (createTunnel E n) (\<lambda>(go, n). if go then connectTunnel E n else Ret n))))"
  proof (rule returns_bind [OF stopSending_ok [OF n(1)]], goal_cases)
    case (1 n1)
    have "returns ?R (if n_connected n1 then go_bind (closeWgTunnel n1) (\<lambda>n. Ret (n\<lparr>n_connected := False\<rparr>)) else Ret n1)"
    proof (cases "n_connected n1")
      case True
      have "returns ?R (go_bind (closeWgTunnel n1) (\<lambda>n. Ret (n\<lparr>n_connected := False\<rparr>)))"
        using 1 n(2) by (intro returns_bind [OF closeWgTunnel_ok]) (auto simp: chansOk_def chanView_def dest: chanInv_disconnect [where conn' = False])
      then show ?thesis using True by simp
    next
      case False
      then show ?thesis using 1 n(2) by (auto simp: chansOk_def chanView_def chanInv_iff)
    qed
    then show ?case
    proof (rule returns_bind, goal_cases)
      case (1 n2)
      let ?m = "n2\<lparr>n_wgData := cm_merge m (n_wgData n2)\<rparr>"
      have m: "chanView ?m = chanView n2" "\<not> connectPanics E (n_privateKey ?m) (n_config ?m) (n_wgData ?m)"
        using 1 calm by (simp_all add: frame_def)
      have "returns chansOk (go_bind (createTunnel E ?m) (\<lambda>(go, n). if go then connectTunnel E n else Ret n))"
      proof (rule returns_bind [OF createTunnel_ok [OF m(2)]], goal_cases)
        case (1 r)
        obtain go n3 where r: "r = (go, n3)" by fastforce
        have "chanView n3 = chanView n2" using 1 r m by simp
        then have "chansOk n3" "n_pingStopChan n3 = None" "\<not> n_connected n3" using \<open>?R n2\<close> by (auto simp: chansOk_def chanView_def)
        then show ?case using 1 r connectTunnel_ok [of n3 E] by simp
      qed
      then show ?case using 1 m by (simp add: Let_def chansOk_def)
    qed
  qed
  then show ?thesis using True by (simp add: handleConnect_def Let_def)
qed (use ok in \<open>simp add: handleConnect_def\<close>)

lemma closePanicsD: "frame n1 = frame n \<Longrightarrow> \<not> closePanics E n \<Longrightarrow> n_wgService n1 = Some s \<Longrightarrow> so_Close (ce_ops E) s \<noteq> Panic"
  by (auto simp: frame_def closePanics_def split: option.splits)

lemma restart_ok:
  assumes "chansOk n" "\<not> closePanics E n"
  shows "returns chansOk (handleRestart E n)"
  unfolding handleRestart_def
proof (rule returns_bind [OF closeWgTunnel_ok [OF assms(1)]], goal_cases)
  case (1 n1)
  have "so_Close (ce_ops E) s \<noteq> Panic" if "n_wgService n1 = Some s" for s using closePanicsD [OF _ assms(2) that] 1 by blast
  then show ?case using 1 by (intro returns_bind [OF closeClients_ok]) (auto simp: chansOk_def)
qed

lemma terminate_ok:
  assumes "chansOk n" "\<not> closePanics E n"
  shows "returns chansOk (handleTerminate E n)"
  unfolding handleTerminate_def
proof (rule returns_bind [OF closeWgTunnel_ok [OF assms(1)]], goal_cases)
  case (1 n1)
  have "so_Close (ce_ops E) s \<noteq> Panic" if "n_wgService n1 = Some s" for s using closePanicsD [OF _ assms(2) that] 1 by blast
  then have "returns (\<lambda>n'. chansOk n' \<and> n_pingStopChan n' = n_pingStopChan n1 \<and> n_connected n' = n_connected n1) (closeClients E n1)"
    using 1 by (intro closeClients_ok) auto
  then show ?case
  proof (rule returns_bind, goal_cases)
    case (1 n2)
    then have p: "chansOk n2" "n_pingStopChan n2 = None" using \<open>chansOk n1 \<and> _\<close> by auto
    have "returns (\<lambda>n'. chansOk n' \<and> n_pingStopChan n' = None) (stopSending n2)"
      using stopSending_ok [OF p(1)] p(2) by (auto simp: returns_def stopSending_def closeChan_def split: option.splits if_splits)
    then show ?case by (rule returns_bind) (auto simp: chansOk_def chanView_def dest: chanInv_disconnect [where conn' = False])
  qed
qed

lemma reconnect_ok:
  assumes "chansOk n"
  shows "returns chansOk (handleReconnect c n)"
  unfolding handleReconnect_def
proof (rule returns_bind [OF closeWgTunnel_ok [OF assms]], goal_cases)
  case (1 n1)
  have "chansOk ((onPM ClearTunnelID n1)\<lparr>n_connected := False\<rparr>)"
  proof -
    have "chanView (onPM ClearTunnelID n1) = chanView n1" by simp
    then show ?thesis using 1 chanInv_disconnect [of "n_chans n1" "n_stopFunc n1" "n_pingWithRetryStopChan n1" "n_connected n1" False]
      by (auto simp: chansOk_def chanView_def)
  qed
  then show ?case unfolding Let_def
    by (intro returns_bind [OF stopSending_ok]) (auto intro!: sendInterval_ok)
qed

lemma exitNodes_ok:
  assumes "chansOk n"
  shows "returns chansOk (handleExitNodes E m c n)"
  unfolding handleExitNodes_def
  by (rule returns_bind [OF stopSending_ok [OF assms]])
    (auto simp: Let_def split: option.split intro!: sendInterval_ok)

lemma updateRemote_ok:
  assumes "FixKey (wd_PublicKey (n_wgData n)) \<noteq> None"
  shows "returns (\<lambda>n'. chanView n' = chanView n \<and> n_wgService n' = n_wgService n) (updateRemoteExitNodeSubnets E ss n)"
  using assms by (auto simp: updateRemoteExitNodeSubnets_def fixKey_def Let_def)

lemma sync_ok:
  assumes ok: "chansOk n" and key: "FixKey (wd_PublicKey (n_wgData n)) \<noteq> None" and calm: "\<not> (case m of None \<Rightarrow> False | Some m \<Rightarrow> syncPanics E m n)"
  shows "returns chansOk (handleSync E m n)"
proof (cases "wd_TunnelIP (n_wgData n) = [] \<or> n_pm n = None \<or> m = None")
  case True
  then show ?thesis using ok by (auto simp: handleSync_def)
next
  case False
  then obtain sm where m: "m = Some sm" by auto
  define n1 where "n1 = onPM (handleSyncTargets (ce_listen E) (ce_run E) (nc_UpdownScript (n_config n)) (ce_rngTargets E) (ce_rngTargets E)
    (wd_TunnelIP (n_wgData n)) (sy_TCP sm) (sy_UDP sm)) n"
  have n1: "chanView n1 = chanView n" "frame n1 = frame n" by (simp_all add: n1_def)
  have upd: "returns (\<lambda>n'. chanView n' = chanView n \<and> n_wgService n' = n_wgService n)
      (if n_dev n1 \<noteq> None then updateRemoteExitNodeSubnets E (sy_RemoteExitNodeSubnets sm) n1 else Ret n1)"
    using updateRemote_ok [of n1] n1 key by (auto simp: frame_def)
  have rest: "returns chansOk (go_bind (syncClients E sm n2) (\<lambda>n.
      let n = syncBrowserGatewayTargets E (sy_BrowserGatewayTargets sm) n
      in Ret (n\<lparr>n_healthMonitor := snd (SyncTargets (ce_rngHealth E) (ce_rngDesired E) (sy_HealthCheckTargets sm) (n_healthMonitor n))\<rparr>)))"
    if n2: "chanView n2 = chanView n \<and> n_wgService n2 = n_wgService n" for n2
  proof (rule returns_bind [where Q = "\<lambda>n'. chanView n' = chanView n2"], goal_cases)
    case 1
    show ?case
    proof (cases "n_wgService n2")
      case (Some s)
      then obtain s' where "so_Sync (ce_ops E) (sy_Peers sm) (sy_ClientTargets sm) (so_SetCerts (ce_ops E) (sy_Certs sm) s) = Ret s'"
        using calm m n2 by (cases "so_Sync (ce_ops E) (sy_Peers sm) (sy_ClientTargets sm) (so_SetCerts (ce_ops E) (sy_Certs sm) s)")
          (auto simp: syncPanics_def split: option.splits)
      then show ?thesis using Some by (simp add: syncClients_def)
    qed (simp add: syncClients_def)
  qed (use ok n2 in \<open>simp add: Let_def chansOk_def\<close>)
  have "handleSync E m n = go_bind (if n_dev n1 \<noteq> None then updateRemoteExitNodeSubnets E (sy_RemoteExitNodeSubnets sm) n1 else Ret n1)
      (\<lambda>n. go_bind (syncClients E sm n) (\<lambda>n.
      let n = syncBrowserGatewayTargets E (sy_BrowserGatewayTargets sm) n
      in Ret (n\<lparr>n_healthMonitor := snd (SyncTargets (ce_rngHealth E) (ce_rngDesired E) (sy_HealthCheckTargets sm) (n_healthMonitor n))\<rparr>)))"
    unfolding handleSync_def n1_def Let_def m option.case using False by argo
  then show ?thesis using returns_bind [OF upd rest] by (simp only:)
qed

lemma subnetsAdd_ok: "FixKey (wd_PublicKey (n_wgData n)) \<noteq> None \<Longrightarrow> returns (\<lambda>n'. chanView n' = chanView n) (handleSubnetsAdd E m n)"
  by (auto simp: handleSubnetsAdd_def fixKey_def Let_def split: option.split)

lemma subnetsUpdate_ok: "FixKey (wd_PublicKey (n_wgData n)) \<noteq> None \<Longrightarrow> returns (\<lambda>n'. chanView n' = chanView n) (handleSubnetsUpdate E m n)"
  using updateRemote_ok [of n E] by (auto simp: handleSubnetsUpdate_def returns_def split: option.split)

lemma subnetsRemove_ok: "FixKey (wd_PublicKey (n_wgData n)) \<noteq> None \<Longrightarrow> returns (\<lambda>n'. chanView n' = chanView n) (handleSubnetsRemove E m n)"
  by (auto simp: handleSubnetsRemove_def fixKey_def Let_def split: option.split)

lemma sendInterval_replaced: "chansOk (n\<lparr>n_stopFunc := None\<rparr>) \<Longrightarrow> chansOk (sendInterval t i r (n\<lparr>n_pendingPingChainId := p\<rparr>))"
  using sendInterval_ok [of "n\<lparr>n_stopFunc := None\<rparr>" t i r] by (simp add: sendInterval_def makeChan_def chansOk_def chanView_def)

lemma onWebsocketConnect_ok:
  assumes "chansOk n"
  shows "returns chansOk (onWebsocketConnect E v n)"
proof (cases "n_connected n")
  case True
  then show ?thesis using assms by (cases "oc_chains v") (simp add: onWebsocketConnect_def Let_def chansOk_def)
next
  case False
  obtain a b c where v: "oc_chains v = (a, b, c)" by (cases "oc_chains v") auto
  have "returns (\<lambda>n'. chansOk (n'\<lparr>n_stopFunc := None\<rparr>)) (case n_stopFunc n of None \<Rightarrow> Ret n | Some c \<Rightarrow> closeChan c n)"
    using stopSending_ok [OF assms] assms
    by (auto simp: returns_def stopSending_def closeChan_def chansOk_def chanView_def split: option.splits if_splits)
  then have "returns chansOk (go_bind (case n_stopFunc n of None \<Rightarrow> Ret n | Some c \<Rightarrow> closeChan c n) (\<lambda>n.
          let n = sendInterval ''newt/ping/request'' a [] (n\<lparr>n_pendingPingChainId := a\<rparr>);
              n = (if oc_ServerVersion v \<noteq> [] then clientsOnConnect E b n else n);
              n = sendBlueprint E (nc_BlueprintFile (n_config n)) n
          in Ret (if oc_JustProvisioned v then sendBlueprint E (nc_ProvisioningBlueprintFile (n_config n)) n else n)))"
    by (rule returns_bind) (use sendInterval_replaced in \<open>auto simp: Let_def chansOk_def\<close>)
  then have "returns chansOk (go_bind (go_bind (case n_stopFunc n of None \<Rightarrow> Ret n | Some c \<Rightarrow> closeChan c n) (\<lambda>n.
          let n = sendInterval ''newt/ping/request'' a [] (n\<lparr>n_pendingPingChainId := a\<rparr>);
              n = (if oc_ServerVersion v \<noteq> [] then clientsOnConnect E b n else n);
              n = sendBlueprint E (nc_BlueprintFile (n_config n)) n
          in Ret (if oc_JustProvisioned v then sendBlueprint E (nc_ProvisioningBlueprintFile (n_config n)) n else n)))
        (\<lambda>n. Ret (sendMsg (OutRegister c) n)))"
    by (rule returns_bind) (simp add: chansOk_def)
  then show ?thesis using False by (simp add: onWebsocketConnect_def v)
qed

lemma plain_chans [simp]:
  "chanView (handleTargets E a p ts n) = chanView n" "chanView (handleSocketCheck b n) = chanView n"
  "chanView (handleSocketFetch c n) = chanView n" "chanView (handleGatewayAdd E gs n) = chanView n"
  "chanView (handleGatewayRemove ids n) = chanView n" "chanView (setBlocking E bl n) = chanView n"
  by (simp_all add: handleTargets_def handleSocketCheck_def handleSocketFetch_def handleGatewayAdd_def handleGatewayRemove_def
      setBlocking_def Let_def split: option.split)

lemma handleHealth_chans [simp]: "chanView (handleHealth h n) = chanView n"
  by (cases h) (simp_all split: option.split)

lemma handlePam_chans [simp]: "chanView (handlePam E m n) = chanView n"
  by (simp add: handlePam_def Let_def ProcessConnection_def setCredentials_def split: option.split sum.split bool.split)

lemma reload_ok:
  assumes "chansOk n" "\<not> closePanics E n"
  shows "returns chansOk (reloadConfig E c n)"
proof (cases c)
  case (Some p)
  obtain changed blocked where p: "p = (changed, blocked)" by fastforce
  have "returns chansOk (if changed then handleRestart E n else Ret n)" using restart_ok [OF assms] assms(1) by simp
  then show ?thesis unfolding reloadConfig_def Some p option.case prod.case by (rule returns_bind) (simp add: chansOk_def)
qed (use assms in \<open>simp add: reloadConfig_def\<close>)

lemma view_ok: "returns (\<lambda>n'. chanView n' = chanView n) r \<Longrightarrow> chansOk n \<Longrightarrow> returns chansOk r"
  by (auto simp: returns_def chansOk_def)

lemma recovery_ok: "chansOk n \<Longrightarrow> n_stopFunc n = None \<Longrightarrow> chansOk (pingRecovery ids n)"
  using sendInterval_ok [of "n\<lparr>n_pendingPingChainId := fst ids\<rparr>" "''newt/ping/request''" "fst ids" "[]"] by (simp add: pingRecovery_def chansOk_def)

lemma step_ok:
  assumes ok: "chansOk n" and calm: "\<not> endsProcess E n e" "\<not> replacesLoop n e"
  shows "returns chansOk (newtStep E e n)"
proof (cases e)
  case (Connect m) then show ?thesis using handleConnect_ok [OF ok] calm by simp
next
  case (Reconnect c) then show ?thesis using reconnect_ok [OF ok] by simp
next
  case Restart then show ?thesis using restart_ok [OF ok] calm by simp
next
  case Terminate then show ?thesis using terminate_ok [OF ok] calm by simp
next
  case (ExitNodes m c) then show ?thesis using exitNodes_ok [OF ok] by simp
next
  case (Sync m) then show ?thesis using sync_ok [OF ok] calm by simp
next
  case (SubnetsAdd m) then show ?thesis using view_ok [OF subnetsAdd_ok ok] calm by simp
next
  case (SubnetsUpdate m) then show ?thesis using view_ok [OF subnetsUpdate_ok ok] calm by simp
next
  case (SubnetsRemove m) then show ?thesis using view_ok [OF subnetsRemove_ok ok] calm by simp
next
  case (WebsocketConnect v) then show ?thesis using onWebsocketConnect_ok [OF ok] by simp
next
  case (TokenUpdate t) then show ?thesis using ok calm by (auto simp: onTokenUpdate_def chansOk_def)
next
  case (Recovery ids) then show ?thesis using recovery_ok [OF ok] calm by simp
next
  case (Reload c) then show ?thesis using reload_ok [OF ok] calm by simp
qed (use ok in \<open>simp_all add: chansOk_def\<close>)

fun calmRun :: "('d, 's, 'k) core_env \<Rightarrow> newt_event list \<Rightarrow> ('d, 's, 'k) newt \<Rightarrow> bool" where
  "calmRun E [] n = True"
| "calmRun E (e # es) n =
     (\<not> endsProcess E n e \<and> \<not> replacesLoop n e \<and> (case newtStep E e n of Panic \<Rightarrow> True | Ret n' \<Rightarrow> calmRun E es n'))"

lemma run_ok: "chansOk n \<Longrightarrow> calmRun E es n \<Longrightarrow> returns chansOk (newtRun E es n)"
proof (induction es arbitrary: n)
  case (Cons e es)
  then obtain n' where "newtStep E e n = Ret n'" "chansOk n'" using step_ok [of n E e] by (auto simp: returns_def)
  then show ?case using Cons by simp
qed simp

text \<open>
  C5. Every goroutine that was started can still be stopped, and nothing is stopped twice.  In every sequence of messages and callbacks in which no text
  or library call ends the process and the ping check does not replace a running loop, all calls return, and afterwards every loop that
  was not stopped (repeating a message, checking the tunnel, retrying the first ping) is the one that the agent holds for that purpose; there is at most
  one of each kind, and the tunnel is checked only while the agent is connected.
\<close>

theorem loops_owned:
  assumes "calmRun E es (startNewt E cfg priv enforce svc blocked nossh auth)"
  shows "\<exists>n. newtRun E es (startNewt E cfg priv enforce svc blocked nossh auth) = Ret n \<and> chanInv (chanView n)"
proof -
  have "chansOk (startNewt E cfg priv enforce svc blocked nossh auth)"
    by (simp add: chansOk_def chanView_def startNewt_def chanInv_iff allOwned_def)
  then show ?thesis using run_ok [OF _ assms] by (auto simp: returns_def chansOk_def)
qed

theorem loops_owned_witness: "\<exists>n. newtRun exCore [Connect exConnect] exStart = Ret n \<and> chanInv (chanView n)"
proof -
  have "\<not> connectPanics exCore (n_privateKey exStart) (n_config exStart) (cm_merge exConnect (n_wgData exStart))"
    by (simp add: connectPanics_def exStart_def startNewt_def exCore_simps)
  then have "calmRun exCore [Connect exConnect] exStart" by (simp split: go_result.split)
  then show ?thesis using loops_owned [of exCore "[Connect exConnect]"] unfolding exStart_def by blast
qed

section \<open>The blocking flag\<close>

text \<open>The contract of the client service: its flag is what was set last, and no other call changes it.\<close>

locale blocking_service =
  fixes ops :: "'s service_ops" and flag :: "'s \<Rightarrow> bool"
  assumes SetBlocked: "flag (so_SetBlocked ops v s) = v"
    and SetOthertnet: "flag (so_SetOthertnet ops b s) = flag s"
    and SetToken: "flag (so_SetToken ops t s) = flag s"
    and StartHolepunch: "flag (so_StartHolepunch ops k e r s) = flag s"
    and LoadRemoteConfig: "flag (so_LoadRemoteConfig ops c s) = flag s"
    and StartDirectUDPRelay: "flag (so_StartDirectUDPRelay ops ip s) = flag s"
    and SetCerts: "flag (so_SetCerts ops cs s) = flag s"
    and Sync: "so_Sync ops ps ts s = Ret s' \<Longrightarrow> flag s' = flag s"

text \<open>The service of \<open>clients/clients.go\<close> behind these calls.\<close>

definition wgServiceOps ::
  "('dt, 'st) src_bart \<Rightarrow> 'dt dst_bart \<Rightarrow> 'd wg_api \<Rightarrow> hp_crypto \<Rightarrow> (string list \<Rightarrow> string list) \<Rightarrow>
   ((string \<times> Peer) list \<Rightarrow> (string \<times> Peer) list) \<Rightarrow> (addr \<Rightarrow> 16 word \<Rightarrow> string + nat) \<Rightarrow> relay_event list \<Rightarrow> bind_error option \<Rightarrow>
   ('d, 'st) WireGuardService service_ops" where
  "wgServiceOps S D api cr rngC rngD listen evs cerr =
     \<lparr>so_SetOthertnet = (\<lambda>b s. s\<lparr>ws_othertnet := b\<rparr>), so_SetBlocked = ServiceSetBlocked, so_SetToken = ServiceSetToken,
      so_StartHolepunch = StartHolepunch, so_LoadRemoteConfig = LoadRemoteConfig,
      so_StartDirectUDPRelay = (\<lambda>ip s. snd (StartDirectUDPRelay listen evs ip s)), so_SetCerts = SetCerts,
      so_Sync = SyncClients S D api cr rngC rngD, so_Close = CloseService api evs cerr\<rparr>"

lemma onBind_blocked [simp]: "ws_blocked (onBind f s) = ws_blocked s"
  by (simp add: onBind_def)

lemma StopDirectUDPRelay_blocked [simp]: "ws_blocked (StopDirectUDPRelay evs s) = ws_blocked s"
  by (simp add: StopDirectUDPRelay_def Let_def split: option.split)

lemma SyncClients_blocked: "SyncClients S D api cr rngC rngD ps ts s = Ret s' \<Longrightarrow> ws_blocked s' = ws_blocked s"
  by (auto simp: SyncClients_def go_bind_eq_Ret syncPeers_def syncTargets_def Let_def split: option.splits if_splits sum.splits)

interpretation wg_service: blocking_service "wgServiceOps S D api cr rngC rngD listen evs cerr" ws_blocked for S D api cr rngC rngD listen evs cerr
  by unfold_locales
    (auto simp: wgServiceOps_def ServiceSetBlocked_def ServiceSetToken_def StartHolepunch_def LoadRemoteConfig_def StartDirectUDPRelay_def
      SetCerts_def Let_def SyncClients_blocked split: option.split sum.split)

text \<open>The proxy manager's flag is only changed by \<open>SetBlocked\<close>.\<close>

lemma pm_blocked_ops [simp]:
  "pm_blocked (snd (RemoveProxyTarget proto ip port pm)) = pm_blocked pm" "pm_blocked (snd (startTarget listen proto ip port a pm)) = pm_blocked pm"
  "pm_blocked (StopProxy pm) = pm_blocked pm" "pm_blocked (ClearTunnelID pm) = pm_blocked pm"
  by (auto simp: RemoveProxyTarget_def startTarget_def StopProxy_def ClearTunnelID_def flushEntry_def updEntry_def closeOpt_def Let_def
      split: option.split prod.split)

lemma pm_blocked_add [simp]: "pm_blocked (snd (AddProxyTarget listen proto ip port a pm)) = pm_blocked pm"
  by (simp add: AddProxyTarget_def Let_def)

lemma pm_blocked_update [simp]: "pm_blocked (snd (updateTargets listen run script action ip proto ts pm)) = pm_blocked pm"
proof (induction ts arbitrary: pm action)
  case (Cons t ts)
  show ?case
  proof (cases "parseTargetString t")
    case (Inr pa)
    obtain port target where "pa = (port, target)" by fastforce
    moreover obtain e pm' where r: "RemoveProxyTarget proto ip port pm = (e, pm')" by fastforce
    moreover have "pm_blocked pm' = pm_blocked pm" using pm_blocked_ops(1) [of proto ip port pm] r by simp
    ultimately show ?thesis using Inr Cons.IH by (simp add: Let_def split: option.split)
  qed (simp add: Cons.IH)
qed simp

lemma pm_blocked_startAll [simp]: "pm_blocked (snd (startAll listen proto pre ts pm)) = pm_blocked pm"
proof (induction ts arbitrary: pm)
  case (Cons t ts)
  obtain e pm' where r: "startTarget listen proto (fst t) (fst (snd t)) (snd (snd t)) pm = (e, pm')" by fastforce
  then have "pm_blocked pm' = pm_blocked pm" using pm_blocked_ops(2) [of listen proto "fst t" "fst (snd t)" "snd (snd t)" pm] by simp
  then show ?case using r Cons.IH by (cases e) simp_all
qed simp

lemma pm_blocked_start [simp]: "pm_blocked (snd (Start listen pm)) = pm_blocked pm"
proof -
  obtain e1 p1 where 1: "startAll listen ''tcp'' ''failed to start TCP target: '' (flatTargets (pm_tcpTargets pm)) pm = (e1, p1)" by fastforce
  obtain e2 p2 where 2: "startAll listen ''udp'' ''failed to start UDP target: '' (flatTargets (pm_udpTargets p1)) p1 = (e2, p2)" by fastforce
  have "pm_blocked p1 = pm_blocked pm" "pm_blocked p2 = pm_blocked p1"
    using pm_blocked_startAll [of listen "''tcp''" "''failed to start TCP target: ''" "flatTargets (pm_tcpTargets pm)" pm]
      pm_blocked_startAll [of listen "''udp''" "''failed to start UDP target: ''" "flatTargets (pm_udpTargets p1)" p1] 1 2 by simp_all
  then show ?thesis using 1 2 by (simp add: Start_def split: option.split)
qed

lemma pm_blocked_sync [simp]: "pm_blocked (handleSyncTargets listen run script rngC rngD ip tcp udp pm) = pm_blocked pm"
proof -
  have rm: "pm_blocked (syncRemoveTargets listen run script ip proto d cur p) = pm_blocked p" for proto d cur p
    unfolding syncRemoveTargets_def by (rule foldl_inv [where P = "\<lambda>q. pm_blocked q = pm_blocked p"]) (auto simp del: updateTargets.simps split: prod.split)
  have add: "pm_blocked (syncAddTargets listen run script ip proto cur ds p) = pm_blocked p" for proto cur ds p
    unfolding syncAddTargets_def by (rule foldl_inv [where P = "\<lambda>q. pm_blocked q = pm_blocked p"]) (auto simp: Let_def simp del: updateTargets.simps split: prod.split option.split)
  show ?thesis by (simp add: handleSyncTargets_def syncProxyTargets_def Let_def rm add)
qed

text \<open>What the flag depends on, and its invariant for the value \<open>b\<close>.\<close>

definition blockView :: "('s \<Rightarrow> bool) \<Rightarrow> ('d, 's, 'k) newt \<Rightarrow> nat option \<times> nat option \<times> bool list \<times> bool \<times> bool option" where
  "blockView flag n = (n_pm n, n_currentPM n, map pm_blocked (n_pms n), n_connectionBlocked n, map_option flag (n_wgService n))"

definition blockInv :: "bool \<Rightarrow> nat option \<times> nat option \<times> bool list \<times> bool \<times> bool option \<Rightarrow> bool" where
  "blockInv b v = (case v of (pm, cur, bs, blocked, svc) \<Rightarrow>
     blocked = b \<and> cur = pm \<and> (\<forall>i. pm = Some i \<longrightarrow> i < length bs \<and> bs ! i = b) \<and> (svc = None \<or> svc = Some b))"

lemma onPM_block [simp]: "(\<And>pm. pm_blocked (f pm) = pm_blocked pm) \<Longrightarrow> blockView flag (onPM f n) = blockView flag n"
  by (auto simp: blockView_def onPM_def map_update list_update_same_conv split: option.split)
    (metis list_update_beyond list_update_id map_update not_le)

lemma blockView_simps [simp]:
  "blockView flag (sendMsg m n) = blockView flag n" "blockView flag (AddRoutes rs n) = blockView flag n" "blockView flag (RemoveRoutes rs n) = blockView flag n"
  "blockView flag (stopBrowserGateway n) = blockView flag n" "blockView flag (onGateway h n) = blockView flag n" "blockView flag (onHealth k n) = blockView flag n"
  "blockView flag (ipcSet E cfg n) = blockView flag n" "blockView flag (sendInterval t i r n) = blockView flag n"
  "blockView flag (snd (startBrowserGateway E n)) = blockView flag n"
  by (simp_all add: blockView_def sendMsg_def AddRoutes_def RemoveRoutes_def stopBrowserGateway_def onGateway_def onHealth_def ipcSet_def sendInterval_def
      makeChan_def startBrowserGateway_def Let_def split: option.split)

lemma blockView_upd [simp]:
  "blockView flag (n\<lparr>n_pendingPingChainId := c\<rparr>) = blockView flag n" "blockView flag (n\<lparr>n_pendingRegisterChainId := c\<rparr>) = blockView flag n"
  "blockView flag (n\<lparr>n_healthMonitor := d\<rparr>) = blockView flag n" "blockView flag (n\<lparr>n_clientClosed := f\<rparr>) = blockView flag n"
  "blockView flag (n\<lparr>n_sshCredStore := h\<rparr>) = blockView flag n" "blockView flag (n\<lparr>n_wgData := w\<rparr>) = blockView flag n"
  "blockView flag (n\<lparr>n_activeRemoteSubnets := ss\<rparr>) = blockView flag n" "blockView flag (n\<lparr>n_tun := f\<rparr>) = blockView flag n"
  "blockView flag (n\<lparr>n_tnet := f\<rparr>) = blockView flag n" "blockView flag (n\<lparr>n_dev := p\<rparr>) = blockView flag n" "blockView flag (n\<lparr>n_devs := ds\<rparr>) = blockView flag n"
  "blockView flag (n\<lparr>n_processed := ps\<rparr>) = blockView flag n" "blockView flag (n\<lparr>n_config := cf\<rparr>) = blockView flag n"
  "blockView flag (n\<lparr>n_chans := cs\<rparr>) = blockView flag n" "blockView flag (n\<lparr>n_stopFunc := p\<rparr>) = blockView flag n"
  "blockView flag (n\<lparr>n_pingStopChan := p\<rparr>) = blockView flag n" "blockView flag (n\<lparr>n_pingWithRetryStopChan := p\<rparr>) = blockView flag n"
  "blockView flag (n\<lparr>n_connected := f\<rparr>) = blockView flag n"
  by (simp_all add: blockView_def)

lemma onService_block: "(\<And>s. flag (f s) = flag s) \<Longrightarrow> blockView flag (onService f n) = blockView flag n"
  by (cases "n_wgService n") (simp_all add: blockView_def onService_def)

definition blockOk :: "('s \<Rightarrow> bool) \<Rightarrow> bool \<Rightarrow> ('d, 's, 'k) newt \<Rightarrow> bool" where
  "blockOk flag b n \<longleftrightarrow> blockInv b (blockView flag n)"

lemma blockOk_view: "blockView flag n' = blockView flag n \<Longrightarrow> blockOk flag b n' = blockOk flag b n"
  by (simp add: blockOk_def)

lemma closeChan_block: "ret_all (\<lambda>n'. blockView flag n' = blockView flag n) (closeChan c n)"
  by (simp add: closeChan_def)

lemma stopSending_block: "ret_all (\<lambda>n'. blockView flag n' = blockView flag n) (stopSending n)"
  unfolding stopSending_def by (auto split: option.split intro: ret_all_bind [OF closeChan_block])

lemma startPings_block: "ret_all (\<lambda>n'. blockView flag n' = blockView flag n) (startPings n)"
  unfolding startPings_def
  by (rule ret_all_bind [where Q = "\<lambda>n'. blockView flag n' = blockView flag n"])
    (auto simp: makeChan_def Let_def split: option.split intro: ret_all_bind [OF closeChan_block])

lemma closeWgTunnel_block:
  fixes n :: "('d, 's, 'k) newt"
  assumes "blockOk flag b n"
  shows "ret_all (blockOk flag b) (closeWgTunnel n)"
  unfolding closeWgTunnel_def
proof (rule ret_all_bind [where Q = "\<lambda>n'. blockView flag n' = blockView flag n"], goal_cases)
  case 1
  show ?case by (auto split: option.split intro: ret_all_bind [OF closeChan_block])
next
  case (2 n1)
  let ?a = "stopBrowserGateway n1"
  let ?b = "if n_pm ?a \<noteq> None then (onPM StopProxy ?a)\<lparr>n_currentPM := None, n_pm := None\<rparr> else ?a"
  have a: "blockOk flag b ?a" using 2 assms by (simp add: blockOk_def)
  have "blockView flag (onPM StopProxy ?a) = blockView flag ?a" by (rule onPM_block) simp
  then have "blockOk flag b ?b" using a by (auto simp: blockOk_def blockView_def blockInv_def)
  then have "blockOk flag b n2" if "blockView flag n2 = blockView flag ?b" for n2 :: "('d, 's, 'k) newt"
    using that by (simp add: blockOk_def)
  then show ?case unfolding Let_def by (simp split: option.split)
qed

lemma closeClients_block:
  assumes "blockOk flag b n"
  shows "ret_all (blockOk flag b) (closeClients E n)"
  using assms by (auto simp: closeClients_def ret_all_def go_bind_eq_Ret blockOk_def blockView_def blockInv_def split: option.split)

lemma foldl_ipcSet_block [simp]: "blockView flag (foldl (\<lambda>n s. ipcSet E (f s) n) n ss) = blockView flag n"
  by (induction ss arbitrary: n) simp_all

lemma ret_all_bind_any: "(\<And>x. ret_all P (f x)) \<Longrightarrow> ret_all P (go_bind m f)"
  by (cases m) auto

lemma configureTunnel_block: "ret_all (\<lambda>n'. blockView flag n' = blockView flag n) (configureTunnel E ep n)"
  unfolding configureTunnel_def Let_def by (intro ret_all_bind_any) simp

lemma updateRemote_block: "ret_all (\<lambda>n'. blockView flag n' = blockView flag n) (updateRemoteExitNodeSubnets E ss n)"
  unfolding updateRemoteExitNodeSubnets_def Let_def
  by (rule ret_all_bind [where Q = "\<lambda>n'. blockView flag n' = blockView flag n"]) (simp_all add: ret_all_bind_any)

lemma subnetsAdd_block: "ret_all (\<lambda>n'. blockView flag n' = blockView flag n) (handleSubnetsAdd E m n)"
  by (cases m) (simp_all add: handleSubnetsAdd_def Let_def ret_all_bind_any)

lemma subnetsUpdate_block: "ret_all (\<lambda>n'. blockView flag n' = blockView flag n) (handleSubnetsUpdate E m n)"
  by (cases m) (simp_all add: handleSubnetsUpdate_def updateRemote_block)

lemma subnetsRemove_block: "ret_all (\<lambda>n'. blockView flag n' = blockView flag n) (handleSubnetsRemove E m n)"
  by (cases m) (simp_all add: handleSubnetsRemove_def Let_def ret_all_bind_any)

lemma createTunnel_block: "ret_all (\<lambda>(go, n'). blockView flag n' = blockView flag n) (createTunnel E n)"
  by (auto simp: createTunnel_def Let_def ret_all_def split: option.split)

lemma newManager_blocked: "newManager E n = Ret pm \<Longrightarrow> pm_blocked pm = n_connectionBlocked n"
  by (auto simp: newManager_def Let_def go_bind_eq_Ret Proxy_Manager.SetBlocked_def)

lemma coreUpdateTargets_block [simp]: "blockView flag (coreUpdateTargets E a p ts n) = blockView flag n"
  unfolding coreUpdateTargets_def by (rule onPM_block) (rule pm_blocked_update)

lemma syncGateway_block [simp]: "blockView flag (syncBrowserGatewayTargets E bs n) = blockView flag n"
  by (simp add: syncBrowserGatewayTargets_def case_prod_unfold Let_def)

lemma sendBlueprint_block [simp]: "blockView flag (sendBlueprint E f n) = blockView flag n"
  by (simp add: sendBlueprint_def split: option.split)

lemma plain_block [simp]:
  "blockView flag (handleTargets E a p ts n) = blockView flag n" "blockView flag (handleSocketCheck b n) = blockView flag n"
  "blockView flag (handleSocketFetch c n) = blockView flag n" "blockView flag (handleGatewayAdd E gs n) = blockView flag n"
  "blockView flag (handleGatewayRemove ids n) = blockView flag n" "blockView flag (pingRecovery chs n) = blockView flag n"
  by (simp_all add: handleTargets_def handleSocketCheck_def handleSocketFetch_def handleGatewayAdd_def handleGatewayRemove_def pingRecovery_def
      Let_def split: option.split)

lemma handleHealth_block [simp]: "blockView flag (handleHealth h n) = blockView flag n"
  by (cases h) (simp_all split: option.split)

lemma handlePam_block [simp]: "blockView flag (handlePam E m n) = blockView flag n"
  by (simp add: handlePam_def Let_def ProcessConnection_def setCredentials_def split: option.split sum.split bool.split)

context blocking_service
begin

lemma services_block:
  assumes "ce_ops E = ops"
  shows "blockView flag (clientsStartDirectRelay E ip n) = blockView flag n" "blockView flag (clientsHandleNewtConnection E k ep r n) = blockView flag n"
    "blockView flag (clientsOnConnect E c n) = blockView flag n" "blockView flag (onService (so_SetOthertnet ops t) n) = blockView flag n"
  by (simp_all add: clientsStartDirectRelay_def clientsHandleNewtConnection_def clientsOnConnect_def assms Let_def onService_block
      StartDirectUDPRelay StartHolepunch LoadRemoteConfig SetOthertnet)

lemma startServices_block: "ce_ops E = ops \<Longrightarrow> blockView flag (startServices E n) = blockView flag n"
  by (simp add: startServices_def Let_def case_prod_unfold services_block)

lemma sync_flag: "so_Sync ops ps ts (so_SetCerts ops cs s) = Ret s' \<Longrightarrow> flag s' = flag s"
  using Sync SetCerts by metis

lemma syncClients_block:
  assumes ops: "ce_ops E = ops"
  shows "ret_all (\<lambda>n'. blockView flag n' = blockView flag n) (syncClients E m n)"
  by (cases "n_wgService n") (auto simp: syncClients_def ret_all_def go_bind_eq_Ret blockView_def dest: sync_flag [folded ops])

lemma connectTunnel_block:
  assumes ops: "ce_ops E = ops" and ok: "blockOk flag b n"
  shows "ret_all (blockOk flag b) (connectTunnel E n)"
  unfolding connectTunnel_def
proof (rule ret_all_bind [where Q = "\<lambda>n'. blockView flag n' = blockView flag n"], goal_cases)
  case 1
  show ?case using services_block(4) [OF ops, of "n_tnet n" n] by (auto simp: newDevice_def ret_all_def go_bind_eq_Ret ops)
next
  case (2 n1)
  have "ret_all (blockOk flag b) (go_bind (configureTunnel E ep (clientsHandleNewtConnection E k ep r n1)) (finishConnect E))" for ep k r
  proof (rule ret_all_bind [OF configureTunnel_block [where flag = flag]], goal_cases)
    case (1 n2)
    then have v2: "blockView flag n2 = blockView flag n" using 2 services_block(2) [OF ops] by simp
    show ?case unfolding finishConnect_def
    proof (rule ret_all_bind [OF startPings_block [where flag = flag]], goal_cases)
      case (1 n3)
      then have "blockOk flag b n3" using v2 ok by (simp add: blockOk_def)
      then have "blockOk flag b (startServices E (n3\<lparr>n_pm := Some (length (n_pms n3)), n_currentPM := Some (length (n_pms n3)), n_pms := n_pms n3 @ [pm],
          n_connected := True\<rparr>))" if "newManager E n3 = Ret pm" for pm
        using newManager_blocked [OF that] by (simp add: blockOk_def startServices_block [OF ops]) (auto simp: blockView_def blockInv_def nth_append)
      then show ?case by (auto simp: ret_all_def go_bind_eq_Ret)
    qed
  qed
  then show ?case using 2 ok by (auto simp: Let_def blockOk_def split: option.split sum.split)
qed

lemma connect_block:
  assumes ops: "ce_ops E = ops" and ok: "blockOk flag b n"
  shows "ret_all (blockOk flag b) (handleConnect E m n)"
proof (cases "acceptsConnect m n")
  case True
  let ?n = "if cm_ChainId m \<noteq> [] then n\<lparr>n_pendingRegisterChainId := []\<rparr> else n"
  have v: "blockView flag ?n = blockView flag n" by simp
  have "ret_all (blockOk flag b) (go_bind (stopSending ?n) (\<lambda>n.
        go_bind (if n_connected n then go_bind (closeWgTunnel n) (\<lambda>n. Ret (n\<lparr>n_connected := False\<rparr>)) else Ret n) (\<lambda>n.
        let n = n\<lparr>n_wgData := cm_merge m (n_wgData n)\<rparr> in
        if \<not> cm_ok m then Ret n
        else go_bind (createTunnel E n) (\<lambda>(go, n). if go then connectTunnel E n else Ret n))))"
  proof (rule ret_all_bind [OF stopSending_block [where flag = flag]], goal_cases)
    case (1 n1)
    then have ok1: "blockOk flag b n1" using ok v by (simp add: blockOk_def)
    have "ret_all (blockOk flag b) (go_bind (closeWgTunnel n1) (\<lambda>n. Ret (n\<lparr>n_connected := False\<rparr>)))"
      by (rule ret_all_bind [OF closeWgTunnel_block [OF ok1]]) (simp add: blockOk_def)
    then have "ret_all (blockOk flag b) (if n_connected n1 then go_bind (closeWgTunnel n1) (\<lambda>n. Ret (n\<lparr>n_connected := False\<rparr>)) else Ret n1)"
      using ok1 by simp
    then show ?case
    proof (rule ret_all_bind, goal_cases)
      case (1 n2)
      let ?m = "n2\<lparr>n_wgData := cm_merge m (n_wgData n2)\<rparr>"
      have okm: "blockOk flag b ?m" using 1 by (simp add: blockOk_def)
      have "ret_all (blockOk flag b) (go_bind (createTunnel E ?m) (\<lambda>(go, n). if go then connectTunnel E n else Ret n))"
      proof (rule ret_all_bind [OF createTunnel_block [where flag = flag]], goal_cases)
        case (1 r)
        then have "blockOk flag b (snd r)" using okm by (auto simp: blockOk_def case_prod_unfold)
        then show ?case using connectTunnel_block [OF ops] by (auto simp: case_prod_unfold)
      qed
      then show ?case using okm by (simp add: Let_def)
    qed
  qed
  then show ?thesis using True by (simp add: handleConnect_def Let_def)
qed (use ok in \<open>simp add: handleConnect_def\<close>)

lemma restart_block: "blockOk flag b n \<Longrightarrow> ret_all (blockOk flag b) (handleRestart E n)"
  unfolding handleRestart_def
  by (erule ret_all_bind [OF closeWgTunnel_block], rule ret_all_bind [OF closeClients_block]) (auto simp: blockOk_def)

lemma terminate_block: "blockOk flag b n \<Longrightarrow> ret_all (blockOk flag b) (handleTerminate E n)"
  unfolding handleTerminate_def
  by (erule ret_all_bind [OF closeWgTunnel_block], rule ret_all_bind [OF closeClients_block], assumption,
      rule ret_all_bind [OF stopSending_block [where flag = flag]]) (auto simp: blockOk_def)

lemma reconnect_block: "blockOk flag b n \<Longrightarrow> ret_all (blockOk flag b) (handleReconnect c n)"
  unfolding handleReconnect_def Let_def
  by (erule ret_all_bind [OF closeWgTunnel_block], rule ret_all_bind [OF stopSending_block [where flag = flag]]) (auto simp: blockOk_def)

lemma exitNodes_block: "ret_all (\<lambda>n'. blockView flag n' = blockView flag n) (handleExitNodes E m c n)"
  unfolding handleExitNodes_def by (rule ret_all_bind [OF stopSending_block [where flag = flag]]) (auto simp: Let_def split: option.split)

lemma websocket_block:
  assumes ops: "ce_ops E = ops"
  shows "ret_all (\<lambda>n'. blockView flag n' = blockView flag n) (onWebsocketConnect E v n)"
proof -
  obtain a b c where v: "oc_chains v = (a, b, c)" by (cases "oc_chains v") auto
  have "ret_all (\<lambda>n'. blockView flag n' = blockView flag n) (case n_stopFunc n of None \<Rightarrow> Ret n | Some c \<Rightarrow> closeChan c n)"
    by (simp add: closeChan_block split: option.split)
  then show ?thesis unfolding onWebsocketConnect_def v
    by (auto simp: Let_def services_block [OF ops] intro!: ret_all_bind [where Q = "\<lambda>n'. blockView flag n' = blockView flag n"])
qed

lemma sync_block:
  assumes ops: "ce_ops E = ops"
  shows "ret_all (\<lambda>n'. blockView flag n' = blockView flag n) (handleSync E m n)"
proof (cases "wd_TunnelIP (n_wgData n) = [] \<or> n_pm n = None \<or> m = None")
  case False
  then obtain sm where m: "m = Some sm" by auto
  define n1 where "n1 = onPM (handleSyncTargets (ce_listen E) (ce_run E) (nc_UpdownScript (n_config n)) (ce_rngTargets E) (ce_rngTargets E)
    (wd_TunnelIP (n_wgData n)) (sy_TCP sm) (sy_UDP sm)) n"
  have n1: "blockView flag n1 = blockView flag n" by (simp add: n1_def)
  have upd: "ret_all (\<lambda>n'. blockView flag n' = blockView flag n)
      (if n_dev n1 \<noteq> None then updateRemoteExitNodeSubnets E (sy_RemoteExitNodeSubnets sm) n1 else Ret n1)"
    using updateRemote_block [of flag n1] n1 by simp
  have rest: "ret_all (\<lambda>n'. blockView flag n' = blockView flag n) (go_bind (syncClients E sm n2) (\<lambda>n.
      let n = syncBrowserGatewayTargets E (sy_BrowserGatewayTargets sm) n
      in Ret (n\<lparr>n_healthMonitor := snd (SyncTargets (ce_rngHealth E) (ce_rngDesired E) (sy_HealthCheckTargets sm) (n_healthMonitor n))\<rparr>)))"
    if "blockView flag n2 = blockView flag n" for n2
    by (rule ret_all_bind [OF syncClients_block [OF ops]]) (use that in \<open>simp add: Let_def\<close>)
  have "handleSync E m n = go_bind (if n_dev n1 \<noteq> None then updateRemoteExitNodeSubnets E (sy_RemoteExitNodeSubnets sm) n1 else Ret n1)
      (\<lambda>n. go_bind (syncClients E sm n) (\<lambda>n.
      let n = syncBrowserGatewayTargets E (sy_BrowserGatewayTargets sm) n
      in Ret (n\<lparr>n_healthMonitor := snd (SyncTargets (ce_rngHealth E) (ce_rngDesired E) (sy_HealthCheckTargets sm) (n_healthMonitor n))\<rparr>)))"
    unfolding handleSync_def n1_def Let_def m option.case using False by argo
  then show ?thesis using ret_all_bind [OF upd rest] by (simp only:)
qed (auto simp: handleSync_def)

lemma token_block: "ce_ops E = ops \<Longrightarrow> ret_all (\<lambda>n'. blockView flag n' = blockView flag n) (onTokenUpdate E t n)"
  by (auto simp: onTokenUpdate_def blockView_def SetToken split: option.split)

lemma setBlocking_block:
  assumes ops: "ce_ops E = ops" and ok: "blockOk flag b n"
  shows "blockOk flag b' (setBlocking E b' n)"
proof (cases "b' = b")
  case True
  then show ?thesis using ok by (auto simp: setBlocking_def blockOk_def blockView_def blockInv_def)
next
  case False
  then show ?thesis using ok SetBlocked
    by (cases "n_wgService n"; cases "n_pm n")
      (auto simp: setBlocking_def Let_def blockOk_def blockView_def blockInv_def onService_def ops Proxy_Manager.SetBlocked_def)
qed

end

fun nextBlocked :: "bool \<Rightarrow> newt_event \<Rightarrow> bool" where
  "nextBlocked b (Reload (Some (changed, blocked))) = blocked"
| "nextBlocked b _ = b"

context blocking_service
begin

lemma reload_block:
  assumes ops: "ce_ops E = ops" and ok: "blockOk flag b n"
  shows "ret_all (blockOk flag (nextBlocked b (Reload c))) (reloadConfig E c n)"
proof (cases c)
  case (Some p)
  obtain changed blocked where p: "p = (changed, blocked)" by fastforce
  have "ret_all (blockOk flag b) (if changed then handleRestart E n else Ret n)" using restart_block [OF ok] ok by simp
  then show ?thesis unfolding reloadConfig_def Some p option.case prod.case nextBlocked.simps
    by (rule ret_all_bind) (simp add: setBlocking_block [OF ops])
qed (use ok in \<open>simp add: reloadConfig_def\<close>)

lemma keep_block: "ret_all (\<lambda>n'. blockView flag n' = blockView flag n) r \<Longrightarrow> blockOk flag b n \<Longrightarrow> ret_all (blockOk flag b) r"
  by (auto simp: ret_all_def blockOk_def)

lemma step_block:
  assumes ops: "ce_ops E = ops" and ok: "blockOk flag b n"
  shows "ret_all (blockOk flag (nextBlocked b e)) (newtStep E e n)"
proof (cases e)
  case (Connect m) then show ?thesis using connect_block [OF ops ok] by simp
next
  case (Reconnect c) then show ?thesis using reconnect_block [OF ok] by simp
next
  case Restart then show ?thesis using restart_block [OF ok] by simp
next
  case Terminate then show ?thesis using terminate_block [OF ok] by simp
next
  case (ExitNodes m c) then show ?thesis using keep_block [OF exitNodes_block ok] by simp
next
  case (Sync m) then show ?thesis using keep_block [OF sync_block [OF ops] ok] by simp
next
  case (SubnetsAdd m) then show ?thesis using keep_block [OF subnetsAdd_block ok] by simp
next
  case (SubnetsUpdate m) then show ?thesis using keep_block [OF subnetsUpdate_block ok] by simp
next
  case (SubnetsRemove m) then show ?thesis using keep_block [OF subnetsRemove_block ok] by simp
next
  case (WebsocketConnect v) then show ?thesis using keep_block [OF websocket_block [OF ops] ok] by simp
next
  case (TokenUpdate t) then show ?thesis using keep_block [OF token_block [OF ops] ok] by simp
next
  case (Reload c) then show ?thesis using reload_block [OF ops ok, of c] by simp
qed (use ok in \<open>simp_all add: blockOk_def\<close>)

lemma run_block:
  assumes "ce_ops E = ops"
  shows "blockOk flag b n \<Longrightarrow> ret_all (blockOk flag (foldl nextBlocked b es)) (newtRun E es n)"
proof (induction es arbitrary: b n)
  case (Cons e es)
  show ?case unfolding newtRun.simps foldl.simps
    by (rule ret_all_bind [OF step_block [OF assms Cons.prems]]) (rule Cons.IH)
qed simp

end

text \<open>
  C6. Blocking is consistent across the agent.  After every sequence of messages, callbacks and reloads of the configuration, the flag of the agent is the one of
  the last reload (or of the start), and the current proxy manager and the client service have the same flag, also after the tunnel was torn down
  and set up again in between.
\<close>

theorem blocking_consistent:
  assumes "blocking_service (ce_ops E) flag" "\<And>s. svc = Some s \<Longrightarrow> \<not> flag s"
    and "newtRun E es (startNewt E cfg priv enforce svc blocked nossh auth) = Ret n"
  shows "n_connectionBlocked n = foldl nextBlocked blocked es \<and>
    (\<forall>i. n_currentPM n = Some i \<longrightarrow> i < length (n_pms n) \<and> pm_blocked (n_pms n ! i) = n_connectionBlocked n) \<and>
    (\<forall>s. n_wgService n = Some s \<longrightarrow> flag s = n_connectionBlocked n)"
proof -
  have "blockOk flag blocked (startNewt E cfg priv enforce svc blocked nossh auth)"
    using assms(2) blocking_service.SetBlocked [OF assms(1)]
    by (cases svc) (auto simp: blockOk_def blockView_def blockInv_def startNewt_def)
  then have "ret_all (blockOk flag (foldl nextBlocked blocked es)) (newtRun E es (startNewt E cfg priv enforce svc blocked nossh auth))"
    by (rule blocking_service.run_block [OF assms(1) refl])
  then show ?thesis using assms(3) by (auto simp: ret_all_def blockOk_def blockView_def blockInv_def)
qed

lemma exOps_blocking: "blocking_service exOps (\<lambda>b. b)"
  by unfold_locales (simp_all add: exOps_def)

theorem blocking_consistent_witness:
  "\<exists>n. newtRun exCore [Connect exConnect, Reload (Some (False, True))] exStart = Ret n \<and> n_connectionBlocked n \<and>
     (\<forall>i. n_currentPM n = Some i \<longrightarrow> pm_blocked (n_pms n ! i))"
proof -
  obtain n where "newtStep exCore (Connect exConnect) exStart = Ret n" using exConnected by blast
  then have r: "newtRun exCore [Connect exConnect, Reload (Some (False, True))] exStart = Ret (setBlocking exCore True n)"
    by (simp add: reloadConfig_def)
  have "blocking_service (ce_ops exCore) (\<lambda>b. b)" using exOps_blocking by (simp add: exCore_def)
  from blocking_consistent [OF this, of None, OF _ r [unfolded exStart_def]] show ?thesis using r by auto
qed

section \<open>Sequences in which the agent loses its way\<close>

lemma stopSending_fields:
  assumes "stopSending n = Ret n'"
  shows "n_stopFunc n' = None" "n_pendingPingChainId n' = n_pendingPingChainId n" "n_pendingRegisterChainId n' = n_pendingRegisterChainId n"
    "n_connected n' = n_connected n" "n_config n' = n_config n"
  using assms by (auto simp: stopSending_def closeChan_def split: option.splits if_splits)

text \<open>
  C39. A repeated \<open>newt/ping/exitNodes\<close> stops the registration.  The handler accepts the answer to its pending request, forgets the request and starts
  the loop that repeats the registration; the same message once more is recognised as a duplicate and discarded, but only after the handler
  has stopped the loop.  Then nothing is repeated any more, although the agent still waits for the answer to that registration and its connection state
  is the one before.
\<close>

theorem duplicate_exit_nodes_stall:
  assumes "n_pendingPingChainId n = c" "c \<noteq> []" "nodes \<noteq> []" "newtStep E (ExitNodes (Some (nodes, c)) r1) n = Ret n1"
  shows "\<exists>i n2. n_stopFunc n1 = Some i \<and> \<not> snd (n_chans n1 ! i) \<and>
     fst (n_chans n1 ! i) = Repeat ''newt/wg/register'' r1 (PingExitNodes (ce_getExitNode E) nodes (nc_PreferEndpoint (n_config n)) (n_connected n)) \<and>
     newtStep E (ExitNodes (Some (nodes, c)) r2) n1 = Ret n2 \<and>
     n_stopFunc n2 = None \<and> snd (n_chans n2 ! i) \<and> length (n_chans n2) = length (n_chans n1) \<and>
     n_pendingRegisterChainId n2 = r1 \<and> n_connected n2 = n_connected n \<and> n_sent n2 = n_sent n1"
proof -
  obtain m where m: "stopSending n = Ret m" using assms(4) by (cases "stopSending n") (simp_all add: handleExitNodes_def)
  note f = stopSending_fields [OF m]
  define k where "k = m\<lparr>n_pendingPingChainId := [], n_pendingRegisterChainId := r1\<rparr>"
  define res where "res = PingExitNodes (ce_getExitNode E) nodes (nc_PreferEndpoint (n_config n)) (n_connected n)"
  define w where "w = k\<lparr>n_chans := n_chans k @ [(Repeat ''newt/wg/register'' r1 res, False)], n_stopFunc := Some (length (n_chans k))\<rparr>"
  have n1: "n1 = w" using assms f m
    by (simp add: handleExitNodes_def sendInterval_def makeChan_def k_def w_def res_def)
  have w: "n_stopFunc w = Some (length (n_chans k))" "n_chans w = n_chans k @ [(Repeat ''newt/wg/register'' r1 res, False)]"
    "n_pendingPingChainId w = []" "n_pendingRegisterChainId w = r1" "n_connected w = n_connected n"
    using f(4) by (simp_all add: w_def k_def)
  have "newtStep E (ExitNodes (Some (nodes, c)) r2) w =
      Ret (w\<lparr>n_chans := n_chans k @ [(Repeat ''newt/wg/register'' r1 res, True)], n_stopFunc := None\<rparr>)"
    using assms(2) by (simp add: handleExitNodes_def stopSending_def closeChan_def w)
  then show ?thesis unfolding n1 res_def [symmetric] by (simp add: w)
qed

theorem duplicate_exit_nodes_stall_witness:
  "\<exists>n1 n2. newtRun exCore [ExitNodes (Some ([\<lparr>xn_ID = 1, xn_Name = ''a'', xn_Endpoint = ''h'', xn_Weight = ''1'', xn_WasPreviouslyConnected = False\<rparr>], ''p'')) ''r'']
      (exStart\<lparr>n_pendingPingChainId := ''p''\<rparr>) = Ret n1 \<and> n_stopFunc n1 \<noteq> None \<and>
    newtStep exCore (ExitNodes (Some ([\<lparr>xn_ID = 1, xn_Name = ''a'', xn_Endpoint = ''h'', xn_Weight = ''1'', xn_WasPreviouslyConnected = False\<rparr>], ''p'')) ''s'') n1 = Ret n2 \<and>
    n_stopFunc n2 = None \<and> \<not> n_connected n2"
proof -
  let ?nodes = "[\<lparr>xn_ID = 1, xn_Name = ''a'', xn_Endpoint = ''h'', xn_Weight = ''1'', xn_WasPreviouslyConnected = False\<rparr>]"
  let ?n = "exStart\<lparr>n_pendingPingChainId := ''p''\<rparr>"
  have s: "n_stopFunc exStart = None" "\<not> n_connected exStart" by (simp_all add: exStart_def startNewt_def)
  then obtain n1 where n1: "newtStep exCore (ExitNodes (Some (?nodes, ''p'')) ''r'') ?n = Ret n1"
    by (simp add: handleExitNodes_def stopSending_def)
  have "n_pendingPingChainId ?n = ''p''" by simp
  from duplicate_exit_nodes_stall [OF this _ _ n1, of "''s''"] show ?thesis using n1 s by auto
qed

text \<open>After \<open>newt/wg/terminate\<close> the next token of the websocket client ends the process: the service is gone, and the callback calls it.\<close>

lemma closeClients_gone: "closeClients E n = Ret n' \<Longrightarrow> n_wgService n' = None"
  by (auto simp: closeClients_def go_bind_eq_Ret split: option.splits)

lemma stopSending_service: "stopSending n = Ret n' \<Longrightarrow> n_wgService n' = n_wgService n"
  by (auto simp: stopSending_def closeChan_def split: option.splits if_splits)

lemma token_after_terminate_panics:
  assumes "newtStep E Terminate n = Ret n'"
  shows "newtStep E (TokenUpdate t) n' = Panic"
proof -
  have "n_wgService n' = None" using assms closeClients_gone stopSending_service
    by (fastforce simp: handleTerminate_def go_bind_eq_Ret)
  then show ?thesis by (simp add: onTokenUpdate_def)
qed

text \<open>The recovery of the ping check replaces a running loop without stopping it: from then on no field of the agent leads to its channel.\<close>

lemma recovery_leaks:
  assumes "chansOk n" "n_stopFunc n = Some c" "newtStep E (Recovery ids) n = Ret n'"
  shows "c < length (n_chans n') \<and> \<not> snd (n_chans n' ! c) \<and> n_stopFunc n' \<noteq> Some c \<and> n_pingStopChan n' \<noteq> Some c \<and> n_pingWithRetryStopChan n' \<noteq> Some c"
  using assms
  by (auto simp: chansOk_def chanView_def chanInv_def chanOpen_def isRepeat_def pingRecovery_def sendInterval_def makeChan_def sendMsg_def nth_append)

end
