(* ===== verification/Spec2Isabelle.thy ===== *)
theory Spec2Isabelle
  imports Subnet_Lookup Nat_Proxy Conn_Handlers Browser_Gateway Health_Check Shared_Bind Newt_Targets Client_Service Websocket_Client Newt_Ping Newt_Control
begin

text \<open>
  \<^bold>\<open>Verification of Newt, the tunnel client of the Pangolin reverse proxy.\<close>

  \<^bold>\<open>The program and its parts.\<close>  Newt runs at a site and keeps a websocket to the server.  The server offers exit nodes; the agent measures them, registers, and receives the
  data of a WireGuard tunnel to one of them.  Through the tunnel come connections to proxy targets of the site, packets of clients that are handled by a user-space
  network stack, and browser sessions (SSH, VNC, RDP).  Besides, the agent checks the health of targets, punches holes for direct
  client connections, watches the tunnel with pings, and logs accesses.  The messages of the websocket drive everything: each has a handler that
  changes the state of the agent and of its components.

  \<^bold>\<open>Theories and sources\<close> (paths under \<open>src/\<close>).

  Shared:
  \<^item> \<open>Newt_Prelude\<close>: Go maps as association lists, \<open>go_result\<close> (\<open>Ret\<close> or \<open>Panic\<close>), the contract of a keyed store (\<open>keyed_store\<close>), and runs of guarded calls with an
    invariant (\<open>guarded_system\<close>), which most components instantiate.
  \<^item> \<open>Go_Strings\<close>, \<open>Go_Encoding\<close>, \<open>Net_Ip\<close>: what the program uses of Go's library on text, encodings, JSON values and addresses.
  \<^item> \<open>Packet_Headers\<close>: the contract of the packet-header library (\<open>header_lib\<close>), with an instance that follows the RFCs.

  Data path:
  \<^item> \<open>Subnet_Lookup\<close> (\<open>netstack2/subnet_lookup.go\<close>): the rule table over the contract of the prefix trie (\<open>prefix_table\<close>).  It refines a plain map, and a match is the most
    specific rule that decides.
  \<^item> \<open>Nat_Proxy\<close> (\<open>netstack2/proxy.go\<close>): connection tracking and rewriting of packets.  Rewriting is undone for replies, the tables stay consistent, and nothing passes without
    a rule.
  \<^item> \<open>Conn_Handlers\<close> (\<open>netstack2/handlers.go\<close>): the TCP, UDP and ICMP forwarders.  Every resource is released, echo replies are well-formed.
  \<^item> \<open>Log_Buffer\<close>, \<open>Access_Log\<close>, \<open>Request_Log\<close> (\<open>netstack2/access_log.go\<close>, \<open>http_request_log.go\<close>): one buffering contract (\<open>log_buffer\<close>) and its two instances.  Consolidation keeps the
    totals, entries are delivered once and in order.
  \<^item> \<open>Shared_Bind\<close> (\<open>bind/shared_bind.go\<close>): the UDP socket shared by WireGuard, the relay and the hole puncher: reference counting, rebinding, filtering.
  \<^item> \<open>Proxy_Manager\<close>, \<open>Newt_Targets\<close> (\<open>proxy/manager.go\<close>, \<open>internal/state/telemetry_view.go\<close>, \<open>newt/targets.go\<close>, the targets of \<open>newt/data.go\<close>): targets, listeners and byte counters.
    A synchronisation reaches exactly the desired targets, listeners follow targets, no byte is lost.
  \<^item> \<open>Browser_Gateway\<close>, \<open>Native_Ssh\<close> (\<open>browsergateway/\<close>, \<open>nativessh/\<close>): sessions reach only registered targets, and browser authentication accepts nothing it should not.

  Control:
  \<^item> \<open>Health_Check\<close> (\<open>healthcheck/healthcheck.go\<close>): the monitor and its goroutines.
  \<^item> \<open>Newt_Util\<close>, \<open>Hole_Punch\<close>, \<open>Client_Service\<close> (\<open>util/util.go\<close>, \<open>logger/level.go\<close>, \<open>holepunch/holepunch.go\<close>, \<open>clients/clients.go\<close>, \<open>clients/ip.go\<close>, the rule methods of \<open>netstack2/tun.go\<close>): the
    WireGuard service for clients, composed with the bind, the hole puncher and the rule table.
  \<^item> \<open>Websocket_Config\<close>, \<open>Websocket_Client\<close> (\<open>websocket/\<close>): credentials and the configuration file; the connection with all its goroutines.
  \<^item> \<open>Newt_Ping\<close> (\<open>newt/ping.go\<close>), \<open>Exit_Node\<close> (\<open>exitnode/exitnode.go\<close>): the watch on the tunnel, and the choice of exit nodes.

  The agent:
  \<^item> \<open>Newt_Core\<close> (\<open>newt/newt.go\<close>, \<open>connect.go\<close>, \<open>tunnel.go\<close>, \<open>clients.go\<close>, \<open>handlers.go\<close>, \<open>data.go\<close>, \<open>blueprint.go\<close>): the record \<open>newt\<close> is the struct \<open>Newt\<close>, and holds the states of the
    components above; there is one definition per handler and callback, and \<open>newtRun\<close> is a sequence of their calls.
  \<^item> \<open>Newt_Run\<close>: over the contract of a WireGuard device (\<open>wg_device\<close>), the device allows exactly the addresses the server asked for, in every run.
  \<^item> \<open>Newt_Control\<close>: every loop can be stopped and none is stopped twice; the blocking flag agrees in all components, over the contract of the client service
    (\<open>blocking_service\<close>), which \<open>Client_Service\<close> is shown to satisfy; and sequences in which the agent does not do what it means to.

  \<^bold>\<open>Conventions.\<close>  A struct is a record with the fields in the order of the source, a method is a function on it; an object that several fields share is an index into a list of
  the state.  A panic is the value \<open>Panic\<close>, an error a value of a sum or option.  Integers whose overflow matters are words; times are nanoseconds as integers.  The order of
  iteration over a Go map is an argument, and theorems hold for all orders.  Goroutines are program counters, and their interleavings are sequences of
  labels; where a component is called under a lock, a call is one step.  In the runs of the agent each handler call is one step: the
  websocket client calls message handlers one after the other, while callbacks, the recovery of the ping check and the reload of the configuration are goroutines of
  their own whose interleaving inside a handler is not covered.

  Everything outside the repository (WireGuard, gVisor, sockets, DNS, HTTP, cryptography, the prefix trie, the clock, randomness) is an argument, with what the code relies
  on as the assumptions of a locale or as hypotheses; each such locale has an instance, so the assumptions can hold.

  \<^bold>\<open>Bounds and termination.\<close>  No definition uses fuel: loops over data are structural or have a termination proof, and loops that wait for the outside run over a list of
  what happens.  That they end is proved where it is meant: the repeated messages, the shutdown of the websocket client, the goroutines of the
  health checks.  Bounds in the theorems are those of the code: 256 queued ICMP replies, 500 buffered sessions, 16 attempts to send,
  the intervals of hole punching and pings.

  \<^bold>\<open>Not modelled.\<close>
  \<^item> \<open>main.go\<close>, \<open>config.go\<close>, \<open>service_windows.go\<close>, \<open>service_unix.go\<close>, \<open>updates/\<close>, \<open>logger/\<close>, \<open>internal/telemetry/\<close>, \<open>network/\<close>, \<open>device/\<close>, \<open>clients/permissions/\<close>: flags, system
    services, self-update, output, instruments and system calls.  What the agent asks of them (routes, interface) is recorded or an argument.
  \<^item> \<open>netstack2/tun.go\<close> except the rule methods, \<open>netstack2/http_handler.go\<close> except the target type: adapters to gVisor and to the reverse proxy of Go's library.
  \<^item> \<open>authdaemon/\<close>, \<open>docker/\<close>, \<open>nativessh/pty.go\<close>, \<open>nativessh/pam_linux.go\<close>: commands and files of the host, the Docker API, terminals and PAM; their outcomes are arguments.
  \<^item> \<open>holepunch/tester.go\<close>, \<open>wgtester/wgtester.go\<close>: measurements of round trips; the packets they exchange are in \<open>Shared_Bind\<close>.
  \<^item> In \<open>proxy/manager.go\<close> the copying of data of accepted connections; in \<open>newt/ping.go\<close> a single ping; in \<open>newt/\<close> the decoding of messages, the
    health file, the blueprint watcher, the Docker event monitor, and on macOS the search for a free interface name.
\<close>

end
